(* ===== verification/Prelude.thy ===== *)
theory Prelude
  imports Main "HOL-Library.Word" "HOL-Library.Char_ord" "HOL-Library.List_Lexorder"
    "HOL-Library.Product_Lexorder"
begin

text \<open>
  The vocabulary every component shares.

  Rust's \<open>Result<T, E>\<close> is the sum \<open>'e + 'a\<close> (\<open>Inl\<close> the error); \<open>and_then\<close> is the
  \<open>?\<close> operator, \<open>map_err\<close> and \<open>ok_or\<close> are the methods of the same names.  A \<open>for\<close> loop
  whose body uses \<open>?\<close> is \<open>fold_res\<close> (with loop-carried variables) or \<open>for_each\<close> (checks
  only).  An operation on a mutable world is a function from the world to a result and the
  new world (\<open>io\<close>), sequenced by \<open>io_then\<close>.

  A \<open>BTreeMap\<close> is an association list sorted by key, a \<open>BTreeSet\<close> a sorted list: both the
  contents and the iteration order, which the program relies on, are then explicit.
\<close>

named_theorems res_simps \<open>rewriting of computations that may fail\<close>

section \<open>Results\<close>

definition and_then :: "'e + 'a \<Rightarrow> ('a \<Rightarrow> 'e + 'b) \<Rightarrow> 'e + 'b" where
  "and_then r f = (case r of Inl e \<Rightarrow> Inl e | Inr x \<Rightarrow> f x)"

definition map_err :: "('e \<Rightarrow> 'f) \<Rightarrow> 'e + 'a \<Rightarrow> 'f + 'a" where
  "map_err g r = (case r of Inl e \<Rightarrow> Inl (g e) | Inr x \<Rightarrow> Inr x)"

definition ok_or :: "'e \<Rightarrow> 'a option \<Rightarrow> 'e + 'a" where
  "ok_or e r = (case r of None \<Rightarrow> Inl e | Some x \<Rightarrow> Inr x)"

definition is_ok :: "'e + 'a \<Rightarrow> bool" where
  "is_ok r = (case r of Inl _ \<Rightarrow> False | Inr _ \<Rightarrow> True)"

text \<open>\<open>if bad { return Err(e); }\<close> followed by the rest of the body.\<close>

definition guard_err :: "bool \<Rightarrow> 'e \<Rightarrow> 'e + 'a \<Rightarrow> 'e + 'a" where
  "guard_err bad e rest = (if bad then Inl e else rest)"

lemma and_then_simps [simp, res_simps]:
  "and_then (Inl e) f = Inl e"
  "and_then (Inr x) f = f x"
  by (simp_all add: and_then_def)

lemma and_then_Inr_iff [res_simps]:
  "and_then r f = Inr y \<longleftrightarrow> (\<exists>x. r = Inr x \<and> f x = Inr y)"
  by (cases r) auto

lemma and_then_Inl_iff [res_simps]:
  "and_then r f = Inl e \<longleftrightarrow> r = Inl e \<or> (\<exists>x. r = Inr x \<and> f x = Inl e)"
  by (cases r) auto

lemma map_err_simps [simp, res_simps]:
  "map_err g (Inl e) = Inl (g e)"
  "map_err g (Inr x) = Inr x"
  "map_err g r = Inr x \<longleftrightarrow> r = Inr x"
  by (cases r; simp add: map_err_def)+

lemma map_err_Inl_iff [res_simps]:
  "map_err g r = Inl e \<longleftrightarrow> (\<exists>d. r = Inl d \<and> e = g d)"
  by (cases r) auto

lemma ok_or_simps [simp, res_simps]:
  "ok_or e None = Inl e"
  "ok_or e (Some x) = Inr x"
  "ok_or e r = Inr x \<longleftrightarrow> r = Some x"
  "ok_or e r = Inl d \<longleftrightarrow> r = None \<and> d = e"
  by (cases r; auto simp: ok_or_def)+

lemma is_ok_simps [simp, res_simps]:
  "is_ok (Inl e) = False"
  "is_ok (Inr x) = True"
  by (simp_all add: is_ok_def)

lemma is_ok_iff: "is_ok r \<longleftrightarrow> (\<exists>x. r = Inr x)"
  by (cases r) auto

lemma guard_err_simps [simp, res_simps]:
  "guard_err True e r = Inl e"
  "guard_err False e r = r"
  "guard_err b e r = Inr x \<longleftrightarrow> \<not> b \<and> r = Inr x"
  by (auto simp: guard_err_def)

lemma guard_err_Inl_iff [res_simps]:
  "guard_err b e r = Inl d \<longleftrightarrow> (b \<and> d = e) \<or> (\<not> b \<and> r = Inl d)"
  by (auto simp: guard_err_def)

section \<open>Loops that may return early\<close>

fun fold_res :: "('a \<Rightarrow> 's \<Rightarrow> 'e + 's) \<Rightarrow> 'a list \<Rightarrow> 's \<Rightarrow> 'e + 's" where
  "fold_res f [] s = Inr s"
| "fold_res f (x # xs) s = and_then (f x s) (fold_res f xs)"

fun for_each :: "('a \<Rightarrow> 'e + unit) \<Rightarrow> 'a list \<Rightarrow> 'e + unit" where
  "for_each f [] = Inr ()"
| "for_each f (x # xs) = and_then (f x) (\<lambda>_. for_each f xs)"

lemma for_each_Inr_iff [res_simps]:
  "for_each f xs = Inr u \<longleftrightarrow> (\<forall>x\<in>set xs. f x = Inr ())"
  by (induction xs) (auto simp: and_then_Inr_iff)

lemma for_each_InlD:
  "for_each f xs = Inl e \<Longrightarrow> \<exists>x\<in>set xs. f x = Inl e"
  by (induction xs) (auto simp: and_then_Inl_iff)

lemma fold_res_append: "fold_res f (xs @ ys) s = and_then (fold_res f xs s) (fold_res f ys)"
  by (induction xs arbitrary: s) (auto simp: and_then_def split: sum.split)

lemma fold_res_error: "fold_res f xs s = Inl e \<Longrightarrow> \<exists>x s'. x \<in> set xs \<and> f x s' = Inl e"
proof (induction xs arbitrary: s)
  case (Cons x xs)
  then consider "f x s = Inl e" | s' where "fold_res f xs s' = Inl e" by (auto simp: and_then_Inl_iff)
  then show ?case
  proof cases
    case 2
    with Cons.IH obtain y s'' where "y \<in> set xs" "f y s'' = Inl e" by metis
    then show ?thesis by auto
  qed auto
qed simp

lemma fold_res_total: "(\<And>x s. x \<in> set xs \<Longrightarrow> is_ok (f x s)) \<Longrightarrow> is_ok (fold_res f xs s)"
proof (induction xs arbitrary: s)
  case (Cons x xs)
  then have "is_ok (f x s)" by simp
  then obtain s' where "f x s = Inr s'" by (auto simp: is_ok_def split: sum.splits)
  with Cons show ?case by (simp add: and_then_def)
qed (simp add: is_ok_def)

text \<open>The invariant rule of a fallible loop: what holds before and is kept by each round.\<close>

lemma fold_res_invariant:
  assumes "fold_res f xs s = Inr t" and "P s"
    and "\<And>x s t. x \<in> set xs \<Longrightarrow> P s \<Longrightarrow> f x s = Inr t \<Longrightarrow> P t"
  shows "P t"
  using assms
  by (induction xs arbitrary: s) (auto simp: and_then_Inr_iff)

text \<open>The same with the list of elements already processed as a ghost.\<close>

lemma fold_res_prefix_invariant:
  assumes "fold_res f xs s = Inr t" and "P [] s"
    and step: "\<And>ys x s t. (\<exists>zs. xs = ys @ x # zs) \<Longrightarrow> P ys s \<Longrightarrow> f x s = Inr t \<Longrightarrow> P (ys @ [x]) t"
  shows "P xs t"
proof -
  have "\<exists>zs. xs = ys @ zs \<Longrightarrow> fold_res f (drop (length ys) xs) s = Inr t \<Longrightarrow> P ys s \<Longrightarrow> P xs t"
    for ys s
  proof (induction "drop (length ys) xs" arbitrary: ys s)
    case Nil
    then show ?case by auto
  next
    case (Cons x zs)
    from Cons.prems(1) Cons.hyps(2) have xs: "xs = ys @ x # zs"
      by (metis append_eq_conv_conj)
    with Cons.prems(2) obtain s' where s': "f x s = Inr s'" "fold_res f zs s' = Inr t"
      by (auto simp: and_then_Inr_iff)
    have "P (ys @ [x]) s'"
      by (rule step [OF _ Cons.prems(3) s'(1)]) (use xs in blast)
    moreover have "zs = drop (length (ys @ [x])) xs" using xs by simp
    moreover have "\<exists>zs. xs = (ys @ [x]) @ zs" using xs by simp
    ultimately show ?case using Cons.hyps(1) [of "ys @ [x]" s'] s'(2) by simp
  qed
  from this [of "[]" s] assms(1,2) show ?thesis by simp
qed

fun map_res :: "('a \<Rightarrow> 'e + 'b) \<Rightarrow> 'a list \<Rightarrow> 'e + 'b list" where
  "map_res f [] = Inr []"
| "map_res f (x # xs) = and_then (f x) (\<lambda>y. and_then (map_res f xs) (\<lambda>ys. Inr (y # ys)))"

lemma map_res_Inr_iff [res_simps]:
  "map_res f xs = Inr ys \<longleftrightarrow> list_all2 (\<lambda>x y. f x = Inr y) xs ys"
proof (induction xs arbitrary: ys)
  case (Cons x xs)
  then show ?case by (cases ys) (auto simp: and_then_Inr_iff)
qed auto

text \<open>\<open>iter().position(p)\<close>\<close>

fun position :: "('a \<Rightarrow> bool) \<Rightarrow> 'a list \<Rightarrow> nat option" where
  "position p [] = None"
| "position p (x # xs) = (if p x then Some 0 else map_option Suc (position p xs))"

lemma position_Some:
  "position p xs = Some i \<Longrightarrow> i < length xs \<and> p (xs ! i)"
  by (induction p xs arbitrary: i rule: position.induct) (auto split: if_splits)

lemma position_None: "position p xs = None \<longleftrightarrow> (\<forall>x\<in>set xs. \<not> p x)"
  by (induction p xs rule: position.induct) auto

lemma position_nth:
  "distinct xs \<Longrightarrow> i < length xs \<Longrightarrow> position (\<lambda>x. x = xs ! i) xs = Some i"
  by (induction xs arbitrary: i) (auto simp: nth_Cons split: nat.splits)

section \<open>Operations on a mutable world\<close>

type_synonym ('s, 'e, 'a) io = "'s \<Rightarrow> ('e + 'a) \<times> 's"

definition io_return :: "'a \<Rightarrow> ('s, 'e, 'a) io" where
  "io_return x s = (Inr x, s)"

definition io_throw :: "'e \<Rightarrow> ('s, 'e, 'a) io" where
  "io_throw e s = (Inl e, s)"

definition io_then :: "('s, 'e, 'a) io \<Rightarrow> ('a \<Rightarrow> ('s, 'e, 'b) io) \<Rightarrow> ('s, 'e, 'b) io" where
  "io_then m k s = (case m s of (Inl e, t) \<Rightarrow> (Inl e, t) | (Inr x, t) \<Rightarrow> k x t)"

text \<open>A pure fallible computation as an operation, and an operation with its error mapped.\<close>

definition io_lift :: "'e + 'a \<Rightarrow> ('s, 'e, 'a) io" where
  "io_lift r s = (r, s)"

definition io_map_err :: "('e \<Rightarrow> 'f) \<Rightarrow> ('s, 'e, 'a) io \<Rightarrow> ('s, 'f, 'a) io" where
  "io_map_err g m s = (case m s of (r, t) \<Rightarrow> (map_err g r, t))"

fun io_fold :: "('a \<Rightarrow> 'b \<Rightarrow> ('s, 'e, 'b) io) \<Rightarrow> 'a list \<Rightarrow> 'b \<Rightarrow> ('s, 'e, 'b) io" where
  "io_fold f [] b = io_return b"
| "io_fold f (x # xs) b = io_then (f x b) (io_fold f xs)"

lemma io_simps [simp, res_simps]:
  "io_return x s = (Inr x, s)"
  "io_throw e s = (Inl e, s)"
  "io_lift r s = (r, s)"
  by (simp_all add: io_return_def io_throw_def io_lift_def)

lemma io_then_Inr [res_simps]:
  "io_then m k s = (Inr y, u) \<longleftrightarrow> (\<exists>x t. m s = (Inr x, t) \<and> k x t = (Inr y, u))"
  by (auto simp: io_then_def split: prod.splits sum.splits)

lemma io_then_Inl [res_simps]:
  "io_then m k s = (Inl e, u) \<longleftrightarrow>
    m s = (Inl e, u) \<or> (\<exists>x t. m s = (Inr x, t) \<and> k x t = (Inl e, u))"
  by (auto simp: io_then_def split: prod.splits sum.splits)

lemma io_then_eval [simp]:
  "m s = (Inr x, t) \<Longrightarrow> io_then m k s = k x t"
  "m s = (Inl e, t) \<Longrightarrow> io_then m k s = (Inl e, t)"
  by (simp_all add: io_then_def)

lemma io_map_err_iff [res_simps]:
  "io_map_err g m s = (Inr x, t) \<longleftrightarrow> m s = (Inr x, t)"
  "io_map_err g m s = (Inl d, t) \<longleftrightarrow> (\<exists>e. m s = (Inl e, t) \<and> d = g e)"
  by (auto simp: io_map_err_def map_err_def split: prod.splits sum.splits)

lemma io_fold_invariant:
  assumes "io_fold f xs b s = (r, t)" and "P s"
    and "\<And>x b s r t. x \<in> set xs \<Longrightarrow> P s \<Longrightarrow> f x b s = (r, t) \<Longrightarrow> P t"
  shows "P t"
  using assms
proof (induction xs arbitrary: b s)
  case Nil
  then show ?case by simp
next
  case (Cons x xs)
  obtain r' t' where f: "f x b s = (r', t')" by fastforce
  have t': "P t'" by (rule Cons.prems(3) [OF _ Cons.prems(2) f]) simp
  show ?case
  proof (cases r')
    case (Inl e)
    with f Cons.prems(1) t' show ?thesis by simp
  next
    case (Inr b')
    with f Cons.prems(1) have "io_fold f xs b' t' = (r, t)" by simp
    then show ?thesis using t' Cons.prems(3) by (rule Cons.IH) simp_all
  qed
qed

section \<open>Ordered maps and sets\<close>

type_synonym ('k, 'v) btree_map = "('k \<times> 'v) list"
type_synonym 'k btree_set = "'k list"

fun bt_insert :: "'k::linorder \<Rightarrow> 'v \<Rightarrow> ('k, 'v) btree_map \<Rightarrow> ('k, 'v) btree_map" where
  "bt_insert k v [] = [(k, v)]"
| "bt_insert k v ((k', v') # m) =
     (if k < k' then (k, v) # (k', v') # m
      else if k = k' then (k, v) # m
      else (k', v') # bt_insert k v m)"

definition bt_get :: "('k, 'v) btree_map \<Rightarrow> 'k \<Rightarrow> 'v option" where
  "bt_get m k = map_of m k"

definition bt_keys :: "('k, 'v) btree_map \<Rightarrow> 'k btree_set" where
  "bt_keys m = map fst m"

definition bt_wf :: "('k::linorder, 'v) btree_map \<Rightarrow> bool" where
  "bt_wf m \<longleftrightarrow> sorted_wrt (<) (bt_keys m)"

fun bs_insert :: "'k::linorder \<Rightarrow> 'k btree_set \<Rightarrow> 'k btree_set" where
  "bs_insert k [] = [k]"
| "bs_insert k (k' # m) =
     (if k < k' then k # k' # m else if k = k' then k' # m else k' # bs_insert k m)"

definition bs_wf :: "'k::linorder btree_set \<Rightarrow> bool" where
  "bs_wf s \<longleftrightarrow> sorted_wrt (<) s"

text \<open>\<open>collect::<BTreeSet<_>>()\<close>\<close>

definition bs_of_list :: "'k::linorder list \<Rightarrow> 'k btree_set" where
  "bs_of_list xs = fold bs_insert xs []"

lemma set_bs_insert [simp]: "set (bs_insert k s) = insert k (set s)"
  by (induction s) auto

lemma bs_wf_insert [intro, simp]: "bs_wf s \<Longrightarrow> bs_wf (bs_insert k s)"
proof (induction s)
  case (Cons x s)
  then have IH: "sorted_wrt (<) (bs_insert k s)" by (auto simp: bs_wf_def)
  from Cons.prems show ?case
    by (cases k x rule: linorder_cases) (auto simp: bs_wf_def IH intro: order.strict_trans)
qed (simp add: bs_wf_def)

lemma bs_wf_Nil [simp]: "bs_wf []"
  by (simp add: bs_wf_def)

lemma bs_wf_fold_insert: "bs_wf s \<Longrightarrow> bs_wf (fold bs_insert xs s)"
  by (induction xs arbitrary: s) auto

lemma set_fold_bs_insert: "set (fold bs_insert xs s) = set xs \<union> set s"
  by (induction xs arbitrary: s) auto

lemma set_bs_of_list [simp]: "set (bs_of_list xs) = set xs"
  by (simp add: bs_of_list_def set_fold_bs_insert)

lemma bs_wf_of_list [simp]: "bs_wf (bs_of_list xs)"
  by (simp add: bs_of_list_def bs_wf_fold_insert)

lemma bs_wf_sorted_distinct: "bs_wf s \<longleftrightarrow> sorted s \<and> distinct s"
  by (simp add: bs_wf_def strict_sorted_iff)

lemma bs_wf_unique: "bs_wf s \<Longrightarrow> bs_wf t \<Longrightarrow> set s = set t \<Longrightarrow> s = t"
  by (simp add: bs_wf_sorted_distinct sorted_distinct_set_unique)

lemma bs_of_list_id: "bs_wf s \<Longrightarrow> bs_of_list s = s"
  by (rule bs_wf_unique) auto

lemma set_bt_keys_insert [simp]:
  "set (bt_keys (bt_insert k v m)) = insert k (set (bt_keys m))"
  by (induction k v m rule: bt_insert.induct) (auto simp: bt_keys_def)

lemma bt_keys_eq: "bt_keys m = map fst m"
  by (simp add: bt_keys_def)

lemma bt_get_insert [simp]:
  "bt_get (bt_insert k v m) k' = (if k' = k then Some v else bt_get m k')"
  by (induction k v m rule: bt_insert.induct) (auto simp: bt_get_def)

lemma bt_get_Nil [simp]: "bt_get [] k = None"
  by (simp add: bt_get_def)

lemma bt_wf_Nil [simp]: "bt_wf []"
  by (simp add: bt_wf_def bt_keys_def)

lemma bt_keys_insert: "bt_keys (bt_insert k v m) = bs_insert k (bt_keys m)"
  by (induction k v m rule: bt_insert.induct) (auto simp: bt_keys_def)

lemma bt_wf_keys: "bt_wf m \<longleftrightarrow> bs_wf (bt_keys m)"
  by (simp add: bt_wf_def bs_wf_def)

lemma bt_wf_insert [intro, simp]: "bt_wf m \<Longrightarrow> bt_wf (bt_insert k v m)"
  by (simp add: bt_wf_keys bt_keys_insert)

lemma bt_get_Some_keys: "bt_get m k = Some v \<Longrightarrow> k \<in> set (bt_keys m)"
  by (auto simp: bt_get_def bt_keys_def dest: map_of_SomeD intro: rev_image_eqI)

lemma bt_get_None_keys: "bt_get m k = None \<longleftrightarrow> k \<notin> set (bt_keys m)"
  by (simp add: bt_get_def bt_keys_def map_of_eq_None_iff)

lemma alist_from_keys:
  assumes "distinct (map fst m)"
  shows "map (\<lambda>k. (k, the (map_of m k))) (map fst m) = m"
  unfolding map_map
  by (rule map_idI) (use assms in \<open>auto simp: map_of_is_SomeI\<close>)

lemma bt_wf_eqI:
  assumes "bt_wf m" and "bt_wf n" and eq: "\<And>k. bt_get m k = bt_get n k"
  shows "m = n"
proof -
  have d: "distinct (map fst m)" "distinct (map fst n)"
    using assms(1,2) by (simp_all add: bt_wf_keys bs_wf_sorted_distinct bt_keys_def)
  have "k \<in> set (bt_keys m) \<longleftrightarrow> k \<in> set (bt_keys n)" for k
    using eq [of k] bt_get_None_keys [of m k] bt_get_None_keys [of n k] by simp
  then have "set (bt_keys m) = set (bt_keys n)" by blast
  with assms(1,2) have "bt_keys m = bt_keys n"
    by (intro bs_wf_unique) (simp_all only: bt_wf_keys)
  then have keys: "map fst m = map fst n" by (simp only: bt_keys_def)
  have get: "map_of m = map_of n"
    by (rule ext) (use eq in \<open>simp only: bt_get_def\<close>)
  have "m = map (\<lambda>k. (k, the (map_of m k))) (map fst m)"
    by (rule alist_from_keys [OF d(1), symmetric])
  also have "\<dots> = map (\<lambda>k. (k, the (map_of n k))) (map fst n)"
    by (simp only: keys get)
  also have "\<dots> = n" by (rule alist_from_keys [OF d(2)])
  finally show ?thesis .
qed

end
