(* ===== verification/Rust_Str.thy ===== *)
theory Rust_Str
  imports Prelude
begin

text \<open>
  What the program uses of Rust's strings and integer parsing.

  A \<open>&str\<close>, a \<open>String\<close> and a byte buffer are lists of bytes (\<open>char\<close> is HOL's byte), so
  \<open>len()\<close> is \<open>length\<close> and a text literal is written as in the source.  A \<open>&str\<close> is always
  well-formed UTF-8; \<open>utf8_chunks\<close> cuts it into its characters, each still as bytes, and
  \<open>code_point\<close> gives the scalar value.  Operations with an ASCII pattern (\<open>split('=')\<close>,
  \<open>strip_prefix('[')\<close>, \<dots>) act on bytes: an ASCII byte never occurs inside a multi-byte
  character.
\<close>

section \<open>UTF-8\<close>

definition byte :: "char \<Rightarrow> nat" where
  "byte c = of_char c"

definition cont :: "char \<Rightarrow> bool" where
  "cont c \<longleftrightarrow> 128 \<le> byte c \<and> byte c < 192"

text \<open>
  One step of the decoder on a nonempty buffer: whether a well-formed character starts here,
  and the number of bytes consumed (for an ill-formed one, the maximal prefix that
  \<open>from_utf8_lossy\<close> replaces by one U+FFFD).
\<close>

definition second_ok :: "nat \<Rightarrow> char \<Rightarrow> bool" where
  "second_ok b c =
     (if b = 224 then 160 \<le> byte c \<and> byte c < 192
      else if b = 237 then 128 \<le> byte c \<and> byte c < 160
      else if b = 240 then 144 \<le> byte c \<and> byte c < 192
      else if b = 244 then 128 \<le> byte c \<and> byte c < 144
      else cont c)"

definition utf8_step :: "char \<Rightarrow> string \<Rightarrow> bool \<times> nat" where
  "utf8_step c s =
     (let b = byte c in
      if b < 128 then (True, 1)
      else if 194 \<le> b \<and> b < 224 then
        (case s of c1 # _ \<Rightarrow> if cont c1 then (True, 2) else (False, 1) | [] \<Rightarrow> (False, 1))
      else if 224 \<le> b \<and> b < 240 then
        (case s of
           c1 # s1 \<Rightarrow> if second_ok b c1
             then (case s1 of c2 # _ \<Rightarrow> if cont c2 then (True, 3) else (False, 2) | [] \<Rightarrow> (False, 2))
             else (False, 1)
         | [] \<Rightarrow> (False, 1))
      else if 240 \<le> b \<and> b < 245 then
        (case s of
           c1 # s1 \<Rightarrow> if second_ok b c1
             then (case s1 of
                 c2 # s2 \<Rightarrow> if cont c2
                   then (case s2 of c3 # _ \<Rightarrow> if cont c3 then (True, 4) else (False, 3) | [] \<Rightarrow> (False, 3))
                   else (False, 2)
               | [] \<Rightarrow> (False, 2))
             else (False, 1)
         | [] \<Rightarrow> (False, 1))
      else (False, 1))"

text \<open>The buffer cut at the decoder's steps; \<open>True\<close> marks a well-formed character.\<close>

fun utf8_scan :: "string \<Rightarrow> (bool \<times> string) list" where
  "utf8_scan [] = []"
| "utf8_scan (c # s) =
     (case utf8_step c s of (ok, n) \<Rightarrow> (ok, c # take (n - 1) s) # utf8_scan (drop (n - 1) s))"

declare utf8_scan.simps(2) [simp del]

definition utf8_valid :: "string \<Rightarrow> bool" where
  "utf8_valid s = list_all fst (utf8_scan s)"

definition utf8_chunks :: "string \<Rightarrow> string list" where
  "utf8_chunks s = map snd (utf8_scan s)"

definition replacement_char :: string where
  "replacement_char = [CHR 0xEF, CHR 0xBF, CHR 0xBD]"

definition from_utf8_lossy :: "string \<Rightarrow> string" where
  "from_utf8_lossy s =
     concat (map (\<lambda>(ok, ch). if ok then ch else replacement_char) (utf8_scan s))"

text \<open>\<open>std::str::from_utf8(b).unwrap_or_default()\<close>\<close>

definition from_utf8_or_default :: "string \<Rightarrow> string" where
  "from_utf8_or_default s = (if utf8_valid s then s else [])"

fun code_point :: "string \<Rightarrow> nat" where
  "code_point [a] = byte a"
| "code_point [a, b] = (byte a mod 32) * 64 + byte b mod 64"
| "code_point [a, b, c] = (byte a mod 16) * 4096 + (byte b mod 64) * 64 + byte c mod 64"
| "code_point [a, b, c, d] =
     (byte a mod 8) * 262144 + (byte b mod 64) * 4096 + (byte c mod 64) * 64 + byte d mod 64"
| "code_point _ = 0"

text \<open>\<open>s.chars()\<close>\<close>

definition chars :: "string \<Rightarrow> nat list" where
  "chars s = map code_point (utf8_chunks s)"

definition ascii :: "string \<Rightarrow> bool" where
  "ascii s = list_all (\<lambda>c. byte c < 128) s"

lemma byte_less_256 [simp]: "byte c < 256"
  by (simp add: byte_def)

lemma byte_inject [simp]: "byte a = byte b \<longleftrightarrow> a = b"
  by (simp add: byte_def)

lemma byte_char_of: "n < 256 \<Longrightarrow> byte (char_of n) = n"
  by (simp add: byte_def)

lemma char_of_byte [simp]: "char_of (byte c) = c"
  by (simp add: byte_def)

lemma concat_utf8_chunks: "concat (utf8_chunks s) = s"
  unfolding utf8_chunks_def
proof (induction s rule: utf8_scan.induct)
  case (2 c s)
  obtain ok n where st: "utf8_step c s = (ok, n)" by (cases "utf8_step c s")
  with 2 have "concat (map snd (utf8_scan (drop (n - 1) s))) = drop (n - 1) s" by simp
  with st show ?case by (simp add: utf8_scan.simps(2))
qed simp

lemma utf8_scan_ascii: "ascii s \<Longrightarrow> utf8_scan s = map (\<lambda>c. (True, [c])) s"
proof (induction s)
  case (Cons c s)
  then have "utf8_step c s = (True, 1)" by (simp add: ascii_def utf8_step_def)
  with Cons show ?case by (simp add: utf8_scan.simps(2) ascii_def)
qed simp

lemma utf8_chunks_ascii: "ascii s \<Longrightarrow> utf8_chunks s = map (\<lambda>c. [c]) s"
  by (simp add: utf8_chunks_def utf8_scan_ascii)

lemma chars_ascii: "ascii s \<Longrightarrow> chars s = map byte s"
  by (simp add: chars_def utf8_chunks_ascii)

lemma utf8_valid_ascii: "ascii s \<Longrightarrow> utf8_valid s"
  by (simp add: utf8_valid_def utf8_scan_ascii list_all_iff)

lemma concat_singletons [simp]: "concat (map (\<lambda>c. [c]) s) = s"
  by (induction s) auto

lemma from_utf8_lossy_valid: "utf8_valid s \<Longrightarrow> from_utf8_lossy s = s"
proof -
  assume v: "utf8_valid s"
  then have "map (\<lambda>(ok, ch). if ok then ch else replacement_char) (utf8_scan s) = utf8_chunks s"
    unfolding utf8_chunks_def utf8_valid_def
    by (intro map_cong) (auto simp: list_all_iff)
  then show ?thesis by (simp add: from_utf8_lossy_def concat_utf8_chunks)
qed

lemma ascii_simps [simp]:
  "ascii []"
  "ascii (c # s) \<longleftrightarrow> byte c < 128 \<and> ascii s"
  "ascii (s @ t) \<longleftrightarrow> ascii s \<and> ascii t"
  by (auto simp: ascii_def)

text \<open>An ASCII byte is a character of its own wherever it stands, and cuts the text in two.\<close>

lemma cont_ascii: "byte c < 128 \<Longrightarrow> \<not> cont c \<and> \<not> second_ok b c"
  by (auto simp: cont_def second_ok_def)

lemma utf8_step_bound: "utf8_step c s = (ok, n) \<Longrightarrow> n - 1 \<le> length s"
  by (auto simp: utf8_step_def Let_def split: if_splits list.splits)

lemma utf8_step_append_ascii:
  assumes "byte a < 128"
  shows "utf8_step c (s @ a # t) = utf8_step c s"
proof (cases s)
  case Nil
  with cont_ascii [OF assms] show ?thesis by (simp add: utf8_step_def Let_def)
next
  case (Cons c1 s1)
  show ?thesis
  proof (cases s1)
    case Nil
    with Cons cont_ascii [OF assms] show ?thesis by (simp add: utf8_step_def Let_def)
  next
    case (Cons c2 s2)
    with \<open>s = c1 # s1\<close> cont_ascii [OF assms] show ?thesis
      by (cases s2) (simp_all add: utf8_step_def Let_def)
  qed
qed

lemma utf8_scan_append_ascii:
  assumes "byte a < 128"
  shows "utf8_scan (s @ a # t) = utf8_scan s @ (True, [a]) # utf8_scan t"
proof (induction s rule: utf8_scan.induct)
  case 1
  have "utf8_step a t = (True, 1)" using assms by (simp add: utf8_step_def)
  then show ?case by (simp add: utf8_scan.simps(2))
next
  case (2 c s)
  obtain ok n where st: "utf8_step c s = (ok, n)" by fastforce
  with 2 have IH: "utf8_scan (drop (n - 1) s @ a # t) = utf8_scan (drop (n - 1) s) @ (True, [a]) # utf8_scan t"
    by simp
  have "utf8_step c (s @ a # t) = (ok, n)" using st utf8_step_append_ascii [OF assms] by simp
  with utf8_step_bound [OF st] IH st show ?case by (simp add: utf8_scan.simps(2))
qed

lemma utf8_chunks_append_ascii:
  "byte a < 128 \<Longrightarrow> utf8_chunks (s @ a # t) = utf8_chunks s @ [a] # utf8_chunks t"
  by (simp add: utf8_chunks_def utf8_scan_append_ascii)

lemma chars_append_ascii: "byte a < 128 \<Longrightarrow> chars (s @ a # t) = chars s @ byte a # chars t"
  by (simp add: chars_def utf8_chunks_append_ascii)

section \<open>Character classes\<close>

text \<open>\<open>char::is_whitespace\<close> (Unicode White_Space) and \<open>char::is_control\<close> (category Cc).\<close>

definition is_whitespace :: "nat \<Rightarrow> bool" where
  "is_whitespace c \<longleftrightarrow>
     9 \<le> c \<and> c \<le> 13 \<or> c = 32 \<or> c = 133 \<or> c = 160 \<or> c = 5760 \<or> 8192 \<le> c \<and> c \<le> 8202 \<or>
     c = 8232 \<or> c = 8233 \<or> c = 8239 \<or> c = 8287 \<or> c = 12288"

definition is_control :: "nat \<Rightarrow> bool" where
  "is_control c \<longleftrightarrow> c < 32 \<or> 127 \<le> c \<and> c < 160"

definition is_ascii_lowercase :: "char \<Rightarrow> bool" where
  "is_ascii_lowercase c \<longleftrightarrow> 97 \<le> byte c \<and> byte c \<le> 122"

definition is_ascii_digit :: "char \<Rightarrow> bool" where
  "is_ascii_digit c \<longleftrightarrow> 48 \<le> byte c \<and> byte c \<le> 57"

definition is_ascii_alphanumeric :: "char \<Rightarrow> bool" where
  "is_ascii_alphanumeric c \<longleftrightarrow>
     is_ascii_digit c \<or> is_ascii_lowercase c \<or> 65 \<le> byte c \<and> byte c \<le> 90"

definition to_ascii_lowercase :: "string \<Rightarrow> string" where
  "to_ascii_lowercase s =
     map (\<lambda>c. if 65 \<le> byte c \<and> byte c \<le> 90 then char_of (byte c + 32) else c) s"

section \<open>Searching and cutting\<close>

definition trim_by :: "('a \<Rightarrow> bool) \<Rightarrow> 'a list \<Rightarrow> 'a list" where
  "trim_by p xs = rev (dropWhile p (rev (dropWhile p xs)))"

text \<open>\<open>trim_matches(c)\<close> for an ASCII \<open>c\<close>, and \<open>trim()\<close>, which removes Unicode white space.\<close>

definition trim_matches :: "char \<Rightarrow> string \<Rightarrow> string" where
  "trim_matches c s = trim_by (\<lambda>x. x = c) s"

definition trim :: "string \<Rightarrow> string" where
  "trim s = concat (trim_by (\<lambda>ch. is_whitespace (code_point ch)) (utf8_chunks s))"

definition trim_end :: "string \<Rightarrow> string" where
  "trim_end s = concat (rev (dropWhile (\<lambda>ch. is_whitespace (code_point ch)) (rev (utf8_chunks s))))"

fun split :: "char \<Rightarrow> string \<Rightarrow> string list" where
  "split d [] = [[]]"
| "split d (c # s) =
     (if c = d then [] # split d s
      else (case split d s of p # ps \<Rightarrow> (c # p) # ps | [] \<Rightarrow> [[c]]))"

fun split_once :: "char \<Rightarrow> string \<Rightarrow> (string \<times> string) option" where
  "split_once d [] = None"
| "split_once d (c # s) =
     (if c = d then Some ([], s)
      else map_option (\<lambda>(before, after). (c # before, after)) (split_once d s))"

definition rsplit_once :: "char \<Rightarrow> string \<Rightarrow> (string \<times> string) option" where
  "rsplit_once d s =
     (case split_once d (rev s) of
        None \<Rightarrow> None | Some (after, before) \<Rightarrow> Some (rev before, rev after))"

fun strip_prefix :: "string \<Rightarrow> string \<Rightarrow> string option" where
  "strip_prefix [] s = Some s"
| "strip_prefix (p # ps) [] = None"
| "strip_prefix (p # ps) (c # s) = (if p = c then strip_prefix ps s else None)"

definition strip_suffix :: "string \<Rightarrow> string \<Rightarrow> string option" where
  "strip_suffix suf s = map_option rev (strip_prefix (rev suf) (rev s))"

definition starts_with :: "string \<Rightarrow> string \<Rightarrow> bool" where
  "starts_with p s = (strip_prefix p s \<noteq> None)"

text \<open>\<open>parts.join(sep)\<close>\<close>

fun join :: "string \<Rightarrow> string list \<Rightarrow> string" where
  "join sep [] = []"
| "join sep [p] = p"
| "join sep (p # q # ps) = p @ sep @ join sep (q # ps)"

lemma split_not_Nil [simp]: "split d s \<noteq> []"
  by (cases s) (auto split: list.splits)

lemma split_no_sep: "d \<notin> set s \<Longrightarrow> split d s = [s]"
  by (induction s) auto

lemma split_append_sep: "d \<notin> set s \<Longrightarrow> split d (s @ d # t) = s # split d t"
  by (induction s) auto

lemma split_pieces_no_sep: "p \<in> set (split d s) \<Longrightarrow> d \<notin> set p"
  by (induction s arbitrary: p) (auto split: if_splits list.splits)

lemma set_split_subset: "p \<in> set (split d s) \<Longrightarrow> set p \<subseteq> set s"
  by (induction s arbitrary: p) (fastforce split: if_splits list.splits)+

lemma split_once_Some:
  "split_once d s = Some (a, b) \<longleftrightarrow> s = a @ d # b \<and> d \<notin> set a"
proof (induction s arbitrary: a)
  case (Cons c s)
  then show ?case by (cases a) (auto split: option.splits)
qed simp

lemma split_once_append: "d \<notin> set s \<Longrightarrow> split_once d (s @ d # t) = Some (s, t)"
  by (simp add: split_once_Some)

lemma split_once_None: "split_once d s = None \<longleftrightarrow> d \<notin> set s"
  by (induction s) auto

lemma rsplit_once_Some:
  "rsplit_once d s = Some (a, b) \<longleftrightarrow> s = a @ d # b \<and> d \<notin> set b"
proof
  assume "rsplit_once d s = Some (a, b)"
  then have "split_once d (rev s) = Some (rev b, rev a)"
    by (auto simp: rsplit_once_def split: option.splits)
  then have "rev s = rev b @ d # rev a" "d \<notin> set b" by (simp_all add: split_once_Some)
  then show "s = a @ d # b \<and> d \<notin> set b"
    by (metis append.assoc append_Cons append_Nil rev.simps(2) rev_append rev_rev_ident)
next
  assume "s = a @ d # b \<and> d \<notin> set b"
  then have "split_once d (rev s) = Some (rev b, rev a)" by (simp add: split_once_Some)
  then show "rsplit_once d s = Some (a, b)" by (simp add: rsplit_once_def)
qed

lemma rsplit_once_append: "d \<notin> set t \<Longrightarrow> rsplit_once d (s @ d # t) = Some (s, t)"
  by (simp add: rsplit_once_Some)

lemma strip_prefix_Some: "strip_prefix p s = Some t \<longleftrightarrow> s = p @ t"
  by (induction p s rule: strip_prefix.induct) auto

lemma strip_prefix_append [simp]: "strip_prefix p (p @ s) = Some s"
  by (simp add: strip_prefix_Some)

lemma strip_suffix_Some: "strip_suffix p s = Some t \<longleftrightarrow> s = t @ p"
  by (auto simp: strip_suffix_def strip_prefix_Some) (metis rev_append rev_rev_ident)+

lemma starts_with_iff: "starts_with p s \<longleftrightarrow> (\<exists>t. s = p @ t)"
  by (auto simp: starts_with_def strip_prefix_Some not_None_eq)

text \<open>Trimming leaves a text alone whose ends are not to be trimmed.\<close>

lemma trim_by_id:
  assumes "xs \<noteq> [] \<Longrightarrow> \<not> p (hd xs)" and "xs \<noteq> [] \<Longrightarrow> \<not> p (last xs)"
  shows "trim_by p xs = xs"
proof (cases "xs = []")
  case False
  then have "dropWhile p xs = xs" using assms(1) by (cases xs) auto
  moreover have "dropWhile p (rev xs) = rev xs"
    using False assms(2) by (cases xs rule: rev_cases) auto
  ultimately show ?thesis by (simp add: trim_by_def)
qed (simp add: trim_by_def)

definition plain_char :: "char \<Rightarrow> bool" where
  "plain_char c \<longleftrightarrow> 33 \<le> byte c \<and> byte c \<le> 126"

definition plain :: "string \<Rightarrow> bool" where
  "plain s = list_all plain_char s"

lemma plain_ascii: "plain s \<Longrightarrow> ascii s"
  by (auto simp: plain_def ascii_def list_all_iff plain_char_def)

lemma plain_simps [simp]:
  "plain []"
  "plain (c # s) \<longleftrightarrow> plain_char c \<and> plain s"
  "plain (s @ t) \<longleftrightarrow> plain s \<and> plain t"
  by (auto simp: plain_def)

lemma trim_by_map: "trim_by p (map f xs) = map f (trim_by (\<lambda>x. p (f x)) xs)"
  by (simp add: trim_by_def dropWhile_map o_def rev_map)

lemma set_trim_by: "set (trim_by p xs) \<subseteq> set xs"
  by (auto simp: trim_by_def dest!: set_dropWhileD)

lemma trim_ascii: "ascii s \<Longrightarrow> trim s = trim_by (\<lambda>c. is_whitespace (byte c)) s"
  by (simp add: trim_def utf8_chunks_ascii trim_by_map)

lemma trim_end_ascii:
  "ascii s \<Longrightarrow> trim_end s = rev (dropWhile (\<lambda>c. is_whitespace (byte c)) (rev s))"
  by (simp add: trim_end_def utf8_chunks_ascii dropWhile_map o_def rev_map)

lemma plain_char_not_whitespace: "plain_char c \<Longrightarrow> \<not> is_whitespace (byte c)"
  by (auto simp: plain_char_def is_whitespace_def)

text \<open>Removing the white space around a value whose first and last characters are plain.\<close>

lemma dropWhile_all: "list_all p xs \<Longrightarrow> dropWhile p (xs @ ys) = dropWhile p ys"
  by (induction xs) auto

lemma trim_by_pad:
  assumes "list_all p a" and "list_all p b"
  shows "trim_by p (a @ s @ b) = trim_by p s"
proof (cases "list_all p s")
  case True
  then have "list_all p (s @ b)" using assms(2) by simp
  then have "dropWhile p (s @ b) = []" "dropWhile p s = []" "dropWhile p b = []"
    using True assms(2) by (auto simp: dropWhile_eq_Nil_conv list_all_iff)
  then show ?thesis using assms(1)
    by (simp add: trim_by_def dropWhile_all del: dropWhile_eq_Nil_conv)
next
  case False
  then obtain x where "x \<in> set s" "\<not> p x" by (auto simp: list_all_iff)
  then have "dropWhile p (s @ b) = dropWhile p s @ b" by (rule dropWhile_append1)
  moreover have "list_all p (rev b)" using assms(2) by (simp add: list_all_iff)
  ultimately show ?thesis using assms(1) by (simp add: trim_by_def dropWhile_all)
qed

lemma trim_plain: "plain s \<Longrightarrow> trim s = s"
proof -
  assume p: "plain s"
  then have "\<forall>c\<in>set s. \<not> is_whitespace (byte c)"
    by (simp add: plain_def list_all_iff plain_char_not_whitespace)
  then have "trim_by (\<lambda>c. is_whitespace (byte c)) s = s" by (intro trim_by_id) auto
  with plain_ascii [OF p] show ?thesis by (simp add: trim_ascii)
qed

text \<open>A text without white space and control characters, in any script.\<close>

definition clean :: "string \<Rightarrow> bool" where
  "clean s \<longleftrightarrow> list_all (\<lambda>c. \<not> is_whitespace c \<and> \<not> is_control c) (chars s)"

lemma clean_Nil [simp]: "clean []"
  by (simp add: clean_def chars_ascii)

lemma clean_append_ascii:
  "byte a < 128 \<Longrightarrow>
    clean (s @ a # t) \<longleftrightarrow> clean s \<and> \<not> is_whitespace (byte a) \<and> \<not> is_control (byte a) \<and> clean t"
  by (auto simp: clean_def chars_append_ascii)

lemma plain_clean: "plain s \<Longrightarrow> clean s"
  by (auto simp: clean_def chars_ascii [OF plain_ascii] plain_def list_all_iff plain_char_not_whitespace
      plain_char_def is_control_def)

lemma clean_append_plain: "plain p \<Longrightarrow> clean (s @ p) \<longleftrightarrow> clean s"
proof (cases p)
  case (Cons a t)
  moreover assume "plain p"
  ultimately have "clean t" "byte a < 128" "\<not> is_whitespace (byte a)" "\<not> is_control (byte a)"
    using plain_clean [of t] plain_char_not_whitespace [of a]
    by (auto simp: plain_char_def is_control_def)
  with Cons show ?thesis by (simp add: clean_append_ascii)
qed simp

lemma clean_Cons_plain: "plain_char a \<Longrightarrow> clean (a # t) \<longleftrightarrow> clean t"
  using clean_append_ascii [of a "[]" t] plain_char_not_whitespace [of a]
  by (auto simp: plain_char_def is_control_def)

lemma clean_no_ascii:
  assumes "clean s" and "byte a < 128" and "is_whitespace (byte a) \<or> is_control (byte a)"
  shows "a \<notin> set s"
proof
  assume "a \<in> set s"
  then obtain u v where "s = u @ a # v" by (meson split_list)
  with assms show False by (auto simp: clean_append_ascii)
qed

lemma clean_trim_pad:
  assumes "clean s"
  shows "trim (CHR '' '' # s) = s"
proof -
  let ?w = "\<lambda>ch. is_whitespace (code_point ch)"
  have b: "byte CHR '' '' < 128" "?w [CHR '' '']" by (simp_all add: byte_def is_whitespace_def)
  have "\<forall>ch\<in>set (utf8_chunks s). \<not> ?w ch"
    using assms by (simp add: clean_def chars_def list_all_iff)
  then have "trim_by ?w (utf8_chunks s) = utf8_chunks s" by (intro trim_by_id) auto
  moreover have "utf8_chunks (CHR '' '' # s) = [CHR '' ''] # utf8_chunks s"
    using utf8_chunks_append_ascii [OF b(1), of "[]" s] by (simp add: utf8_chunks_def)
  moreover have "trim_by ?w ([CHR '' ''] # utf8_chunks s) = trim_by ?w (utf8_chunks s)"
    using trim_by_pad [of ?w "[[CHR '' '']]" "[]" "utf8_chunks s"] b(2) by simp
  ultimately show ?thesis by (simp add: trim_def concat_utf8_chunks)
qed

section \<open>Decimal numbers\<close>

definition digit_char :: "nat \<Rightarrow> char" where
  "digit_char d = char_of (48 + d)"

fun show_nat :: "nat \<Rightarrow> string" where
  "show_nat n = (if n < 10 then [digit_char n] else show_nat (n div 10) @ [digit_char (n mod 10)])"

declare show_nat.simps [simp del]

definition dec_value :: "string \<Rightarrow> nat" where
  "dec_value s = foldl (\<lambda>n c. 10 * n + (byte c - 48)) 0 s"

text \<open>
  \<open>s.parse::<uN>()\<close> for an unsigned type with \<open>bound\<close> values: an optional \<open>+\<close>, then at least
  one digit, no overflow.
\<close>

definition parse_unsigned :: "nat \<Rightarrow> string \<Rightarrow> nat option" where
  "parse_unsigned bound s =
     (let ds = (case s of c # cs \<Rightarrow> if c = CHR ''+'' then cs else s | [] \<Rightarrow> [])
      in if ds \<noteq> [] \<and> list_all is_ascii_digit ds \<and> dec_value ds < bound
         then Some (dec_value ds) else None)"

definition parse_u16 :: "string \<Rightarrow> 16 word option" where
  "parse_u16 s = map_option of_nat (parse_unsigned 65536 s)"

definition parse_u64 :: "string \<Rightarrow> 64 word option" where
  "parse_u64 s = map_option of_nat (parse_unsigned (2 ^ 64) s)"

definition show_u16 :: "16 word \<Rightarrow> string" where
  "show_u16 w = show_nat (unat w)"

lemma byte_digit_char [simp]: "d < 10 \<Longrightarrow> byte (digit_char d) = 48 + d"
  by (simp add: digit_char_def byte_char_of)

lemma digit_char_is_digit [simp]: "d < 10 \<Longrightarrow> is_ascii_digit (digit_char d)"
  by (simp add: is_ascii_digit_def)

lemma show_nat_digits: "list_all is_ascii_digit (show_nat n)"
proof (induction n rule: show_nat.induct)
  case (1 n)
  then show ?case by (subst show_nat.simps) auto
qed

lemma show_nat_not_Nil [simp]: "show_nat n \<noteq> []"
  by (subst show_nat.simps) simp

lemma dec_value_snoc [simp]: "dec_value (s @ [c]) = 10 * dec_value s + (byte c - 48)"
  by (simp add: dec_value_def)

lemma dec_value_show_nat [simp]: "dec_value (show_nat n) = n"
proof (induction n rule: show_nat.induct)
  case (1 n)
  show ?case
  proof (cases "n < 10")
    case True
    then show ?thesis by (subst show_nat.simps) (simp add: dec_value_def)
  next
    case False
    with 1 have "dec_value (show_nat (n div 10)) = n div 10" by simp
    with False show ?thesis by (subst show_nat.simps) simp
  qed
qed

lemma digit_not_plus: "is_ascii_digit c \<Longrightarrow> c \<noteq> CHR ''+''"
  by (auto simp: is_ascii_digit_def byte_def)

lemma parse_unsigned_digits:
  "s \<noteq> [] \<Longrightarrow> list_all is_ascii_digit s \<Longrightarrow>
    parse_unsigned bound s = (if dec_value s < bound then Some (dec_value s) else None)"
  by (cases s) (auto simp: parse_unsigned_def dest: digit_not_plus)

lemma parse_unsigned_show_nat: "n < bound \<Longrightarrow> parse_unsigned bound (show_nat n) = Some n"
  by (simp add: parse_unsigned_digits show_nat_digits)

lemma parse_unsigned_bound: "parse_unsigned bound s = Some n \<Longrightarrow> n < bound"
  by (auto simp: parse_unsigned_def Let_def split: if_splits)

lemma parse_u16_show [simp]: "parse_u16 (show_u16 w) = Some w"
proof -
  have "unat w < 2 ^ LENGTH(16)" by (rule unsigned_less)
  then show ?thesis by (simp add: parse_u16_def show_u16_def parse_unsigned_show_nat)
qed

lemma digit_plain: "is_ascii_digit c \<Longrightarrow> plain_char c"
  by (auto simp: is_ascii_digit_def plain_char_def)

lemma show_nat_plain [simp]: "plain (show_nat n)"
  using show_nat_digits [of n] by (auto simp: plain_def list_all_iff intro: digit_plain)

lemma show_u16_plain [simp]: "plain (show_u16 w)"
  by (simp add: show_u16_def)

lemma show_u16_not_Nil [simp]: "show_u16 w \<noteq> []"
  by (simp add: show_u16_def)

end
