(* ===== verification/Rust_Net.thy ===== *)
theory Rust_Net
  imports Rust_Str "HOL-Library.Monad_Syntax"
begin

text \<open>
  The parts of \<open>std::net\<close> the program uses: \<open>Ipv4Addr\<close>, \<open>Ipv6Addr\<close> and \<open>IpAddr\<close>, their
  \<open>FromStr\<close> parsers (a recursive-descent parser over the remaining input) and their
  \<open>Display\<close> texts.  The locales \<open>field_codec\<close> and \<open>list_codec\<close> state what the configuration
  file's writer and reader rely on for every printed field; they are interpreted for the
  integers and addresses here and for keys and networks where those are modelled.
\<close>

datatype ip_addr = V4 "32 word" | V6 "16 word list"

section \<open>Printing\<close>

definition octet :: "nat \<Rightarrow> 32 word \<Rightarrow> nat" where
  "octet i a = unat a div 256 ^ i mod 256"

definition from_octets :: "nat \<Rightarrow> nat \<Rightarrow> nat \<Rightarrow> nat \<Rightarrow> 32 word" where
  "from_octets a b c d = of_nat (a * 16777216 + b * 65536 + c * 256 + d)"

definition show_ipv4 :: "32 word \<Rightarrow> string" where
  "show_ipv4 a =
     show_nat (octet 3 a) @ ''.'' @ show_nat (octet 2 a) @ ''.'' @ show_nat (octet 1 a) @ ''.''
     @ show_nat (octet 0 a)"

definition hex_char :: "nat \<Rightarrow> char" where
  "hex_char d = (if d < 10 then char_of (48 + d) else char_of (87 + d))"

fun show_hex :: "nat \<Rightarrow> string" where
  "show_hex n = (if n < 16 then [hex_char n] else show_hex (n div 16) @ [hex_char (n mod 16)])"

declare show_hex.simps [simp del]

definition fmt_subslice :: "16 word list \<Rightarrow> string" where
  "fmt_subslice gs = join '':'' (map (\<lambda>g. show_hex (unat g)) gs)"

text \<open>The longest run of zero segments, the leftmost one among equals, as (start, length).\<close>

fun zero_span :: "nat \<Rightarrow> nat \<times> nat \<Rightarrow> nat \<times> nat \<Rightarrow> 16 word list \<Rightarrow> nat \<times> nat" where
  "zero_span i cur longest [] = longest"
| "zero_span i (start, len) longest (g # gs) =
     (if g = 0
      then (let cur = (if len = 0 then (i, 1) else (start, len + 1))
            in zero_span (i + 1) cur (if snd cur > snd longest then cur else longest) gs)
      else zero_span (i + 1) (0, 0) longest gs)"

definition to_ipv4_mapped :: "16 word list \<Rightarrow> 32 word option" where
  "to_ipv4_mapped gs =
     (if take 6 gs = [0, 0, 0, 0, 0, 0xFFFF] \<and> length gs = 8
      then Some (of_nat (unat (gs ! 6) * 65536 + unat (gs ! 7))) else None)"

definition show_ipv6 :: "16 word list \<Rightarrow> string" where
  "show_ipv6 gs =
     (case to_ipv4_mapped gs of
        Some a \<Rightarrow> ''::ffff:'' @ show_ipv4 a
      | None \<Rightarrow>
        (case zero_span 0 (0, 0) (0, 0) gs of (start, len) \<Rightarrow>
           if len > 1
           then fmt_subslice (take start gs) @ ''::'' @ fmt_subslice (drop (start + len) gs)
           else fmt_subslice gs))"

fun show_ip_addr :: "ip_addr \<Rightarrow> string" where
  "show_ip_addr (V4 a) = show_ipv4 a"
| "show_ip_addr (V6 gs) = show_ipv6 gs"

section \<open>Parsing\<close>

type_synonym 'a parser = "string \<Rightarrow> ('a \<times> string) option"

definition read_given_char :: "char \<Rightarrow> unit parser" where
  "read_given_char c s = (case s of x # r \<Rightarrow> if x = c then Some ((), r) else None | [] \<Rightarrow> None)"

text \<open>\<open>char::to_digit\<close> for radix 10 and 16.\<close>

definition to_digit :: "nat \<Rightarrow> char \<Rightarrow> nat option" where
  "to_digit radix c =
     (let b = byte c;
          d = (if 48 \<le> b \<and> b \<le> 57 then b - 48 else if 97 \<le> b \<and> b \<le> 122 then b - 87
               else if 65 \<le> b \<and> b \<le> 90 then b - 55 else 36)
      in if d < radix then Some d else None)"

definition is_digit :: "nat \<Rightarrow> char \<Rightarrow> bool" where
  "is_digit radix c = (to_digit radix c \<noteq> None)"

definition radix_value :: "nat \<Rightarrow> string \<Rightarrow> nat" where
  "radix_value radix s = foldl (\<lambda>n c. radix * n + the (to_digit radix c)) 0 s"

text \<open>A maximal run of at most \<open>max_digits\<close> digits whose value is below \<open>bound\<close>.\<close>

definition read_number :: "nat \<Rightarrow> nat \<Rightarrow> bool \<Rightarrow> nat \<Rightarrow> nat parser" where
  "read_number radix max_digits allow_zero_prefix bound s =
     (let ds = takeWhile (is_digit radix) s; n = length ds; v = radix_value radix ds
      in if n > max_digits \<or> n = 0 then None
         else if \<not> allow_zero_prefix \<and> hd s = CHR ''0'' \<and> n > 1 then None
         else if v < bound then Some (v, drop n s) else None)"

text \<open>\<open>read_separator\<close>: nothing before the first element, the separator before the others.\<close>

definition read_separator :: "char \<Rightarrow> bool \<Rightarrow> 'a parser \<Rightarrow> 'a parser" where
  "read_separator sep first p s =
     (if first then p s else do { (_, r) \<leftarrow> read_given_char sep s; p r })"

definition read_octet :: "bool \<Rightarrow> nat parser" where
  "read_octet first = read_separator CHR ''.'' first (read_number 10 3 False 256)"

definition read_ipv4_addr :: "32 word parser" where
  "read_ipv4_addr s = do {
     (a, s1) \<leftarrow> read_octet True s;
     (b, s2) \<leftarrow> read_octet False s1;
     (c, s3) \<leftarrow> read_octet False s2;
     (d, s4) \<leftarrow> read_octet False s3;
     Some (from_octets a b c d, s4)
   }"

text \<open>
  \<open>read_groups\<close> fills at most \<open>k\<close> remaining slots; the flag says that the last two were an
  embedded IPv4 address.
\<close>

fun read_groups :: "bool \<Rightarrow> nat \<Rightarrow> string \<Rightarrow> 16 word list \<times> bool \<times> string" where
  "read_groups first 0 s = ([], False, s)"
| "read_groups first (Suc k) s =
     (case (if k > 0 then read_separator CHR '':'' first read_ipv4_addr s else None) of
        Some (w, r) \<Rightarrow> ([of_nat (unat w div 65536), of_nat (unat w mod 65536)], True, r)
      | None \<Rightarrow>
        (case read_separator CHR '':'' first (read_number 16 4 True 65536) s of
           Some (g, r) \<Rightarrow>
             (case read_groups False k r of (gs, v4, r') \<Rightarrow> (of_nat g # gs, v4, r'))
         | None \<Rightarrow> ([], False, s)))"

definition read_ipv6_addr :: "16 word list parser" where
  "read_ipv6_addr s =
     (case read_groups True 8 s of (head, head_ipv4, r) \<Rightarrow>
        if length head = 8 then Some (head, r)
        else if head_ipv4 then None
        else do {
          (_, r1) \<leftarrow> read_given_char CHR '':'' r;
          (_, r2) \<leftarrow> read_given_char CHR '':'' r1;
          case read_groups True (8 - (length head + 1)) r2 of (tail, _, r3) \<Rightarrow>
            Some (head @ replicate (8 - length head - length tail) 0 @ tail, r3)
        })"

text \<open>\<open>parse_with\<close>: the parser has to consume the whole input.\<close>

definition parse_with :: "'a parser \<Rightarrow> string \<Rightarrow> 'a option" where
  "parse_with p s = (case p s of Some (x, []) \<Rightarrow> Some x | _ \<Rightarrow> None)"

definition parse_ipv4 :: "string \<Rightarrow> 32 word option" where
  "parse_ipv4 s = (if length s > 15 then None else parse_with read_ipv4_addr s)"

definition parse_ipv6 :: "string \<Rightarrow> 16 word list option" where
  "parse_ipv6 s = parse_with read_ipv6_addr s"

definition read_ip_addr :: "ip_addr parser" where
  "read_ip_addr s =
     (case read_ipv4_addr s of
        Some (a, r) \<Rightarrow> Some (V4 a, r)
      | None \<Rightarrow> map_option (\<lambda>(gs, r). (V6 gs, r)) (read_ipv6_addr s))"

definition parse_ip_addr :: "string \<Rightarrow> ip_addr option" where
  "parse_ip_addr s = parse_with read_ip_addr s"

section \<open>Reading back what was printed\<close>

text \<open>
  The contract of a printed field: reading its text gives the value back, and the text is a
  nonempty run of printable ASCII without spaces, so it survives being padded, placed on a
  line and trimmed.
\<close>

locale field_codec =
  fixes emit :: "'a \<Rightarrow> string" and recover :: "string \<Rightarrow> 'a option" and ok :: "'a \<Rightarrow> bool"
  assumes parse_show: "ok x \<Longrightarrow> recover (emit x) = Some x"
    and show_plain: "ok x \<Longrightarrow> plain (emit x)"
    and show_nonempty: "ok x \<Longrightarrow> emit x \<noteq> []"
begin

lemma show_inject: "ok x \<Longrightarrow> ok y \<Longrightarrow> emit x = emit y \<longleftrightarrow> x = y"
  by (metis option.inject parse_show)

lemma trim_padded:
  assumes "ok x" and "set a \<subseteq> {CHR '' ''}" and "set b \<subseteq> {CHR '' ''}"
  shows "trim (a @ emit x @ b) = emit x"
proof -
  have sp: "is_whitespace (byte CHR '' '')" by (simp add: is_whitespace_def byte_def)
  have pl: "list_all plain_char (emit x)" using show_plain [OF assms(1)] by (simp add: plain_def)
  have "ascii (a @ emit x @ b)"
    using assms show_plain [OF assms(1)] plain_ascii
    by (auto simp: ascii_def list_all_iff byte_def)
  moreover have "trim_by (\<lambda>c. is_whitespace (byte c)) (a @ emit x @ b)
      = trim_by (\<lambda>c. is_whitespace (byte c)) (emit x)"
    by (rule trim_by_pad) (use assms sp in \<open>auto simp: list_all_iff\<close>)
  moreover have "\<dots> = emit x"
    by (rule trim_by_id)
      (use pl plain_char_not_whitespace in \<open>auto simp: list_all_iff\<close>)
  ultimately show ?thesis by (simp add: trim_ascii)
qed

lemma trim_show: "ok x \<Longrightarrow> trim (emit x) = emit x"
  using trim_padded [of x "[]" "[]"] by simp

end

text \<open>A field whose text has no comma can be an element of a comma-separated list.\<close>

locale list_codec = field_codec +
  assumes show_no_comma: "ok x \<Longrightarrow> CHR '','' \<notin> set (emit x)"
begin

lemma split_join:
  assumes "xs \<noteq> []" and "\<forall>x\<in>set xs. ok x"
  shows "map trim (split CHR '','' (join '', '' (map emit xs))) = map emit xs"
  using assms
proof (induction xs rule: induct_list012)
  case (2 x)
  then show ?case by (simp add: split_no_sep show_no_comma trim_show)
next
  case (3 x y zs)
  have front: "map trim (split CHR '','' (emit x @ CHR '','' # t)) = emit x # map trim (split CHR '','' t)" for t
    using 3 by (simp add: split_append_sep show_no_comma trim_show)
  have space: "map trim (split CHR '','' (CHR '' '' # t)) = map trim (split CHR '','' t)"
    if "split CHR '','' t = p # ps" "trim (CHR '' '' # p) = trim p" for t p ps
    using that by simp
  let ?t = "join '', '' (map emit (y # zs))"
  obtain p ps where sp: "split CHR '','' ?t = p # ps" by (cases "split CHR '','' ?t") auto
  have p: "p = emit y"
  proof (cases zs)
    case Nil
    with sp 3 show ?thesis by (simp add: split_no_sep show_no_comma)
  next
    case (Cons z zs')
    with sp 3 show ?thesis by (simp add: split_append_sep show_no_comma)
  qed
  have "trim (CHR '' '' # p) = trim p"
    using trim_padded [of y "'' ''" "[]"] 3 p by (simp add: trim_show)
  from space [OF sp this] show ?case
    using 3 front [of "CHR '' '' # ?t"] by simp
qed simp

end


section \<open>Decimal and dotted-decimal texts\<close>

lemma to_digit_10: "to_digit 10 c = (if is_ascii_digit c then Some (byte c - 48) else None)"
  by (auto simp: to_digit_def is_ascii_digit_def Let_def)

text \<open>What may follow a number without being read as part of it.\<close>

definition stops_number :: "nat \<Rightarrow> string \<Rightarrow> bool" where
  "stops_number radix r = (r = [] \<or> \<not> is_digit radix (hd r))"

lemma stops_number_simps [simp]:
  "stops_number radix []"
  "stops_number radix (c # r) \<longleftrightarrow> \<not> is_digit radix c"
  by (simp_all add: stops_number_def)

lemma takeWhile_digits:
  "list_all (is_digit radix) ds \<Longrightarrow> stops_number radix r \<Longrightarrow>
    takeWhile (is_digit radix) (ds @ r) = ds"
  by (cases r) (auto simp: takeWhile_append list_all_iff takeWhile_eq_all_conv)

lemma read_number_digits:
  assumes "list_all (is_digit radix) ds" and "ds \<noteq> []" and "length ds \<le> m"
    and "stops_number radix r" and "z \<or> length ds = 1 \<or> hd ds \<noteq> CHR ''0''"
    and "radix_value radix ds < bound"
  shows "read_number radix m z bound (ds @ r) = Some (radix_value radix ds, r)"
  using assms(2,3,5,6) unfolding read_number_def takeWhile_digits [OF assms(1,4)] Let_def
  by auto

lemma radix_value_dec: "list_all is_ascii_digit s \<Longrightarrow> radix_value 10 s = dec_value s"
proof -
  assume d: "list_all is_ascii_digit s"
  then have "foldl (\<lambda>n c. 10 * n + the (to_digit 10 c)) a s = foldl (\<lambda>n c. 10 * n + (byte c - 48)) a s" for a
    by (induction s arbitrary: a) (auto simp: to_digit_10)
  then show ?thesis by (simp add: radix_value_def dec_value_def)
qed

lemma show_nat_hd_zero: "hd (show_nat n) = CHR ''0'' \<longleftrightarrow> n = 0"
proof (induction n rule: show_nat.induct)
  case (1 n)
  have z: "digit_char d = CHR ''0'' \<longleftrightarrow> d = 0" if "d < 10" for d
    using that byte_inject [of "digit_char d" "CHR ''0''"] by (simp add: byte_def digit_char_def)
  show ?case
  proof (cases "n < 10")
    case True
    then show ?thesis by (subst show_nat.simps) (simp add: z)
  next
    case False
    with 1 show ?thesis by (subst show_nat.simps) (simp add: div_eq_0_iff)
  qed
qed

lemma length_show_nat:
  "n < 10 \<Longrightarrow> length (show_nat n) = 1"
  "n < 1000 \<Longrightarrow> length (show_nat n) \<le> 3"
proof -
  show "n < 10 \<Longrightarrow> length (show_nat n) = 1" by (subst show_nat.simps) simp
  assume n: "n < 1000"
  have one: "length (show_nat m) = 1" if "m < 10" for m
    using that by (subst show_nat.simps) simp
  have two: "length (show_nat m) \<le> 2" if "m < 100" for m
    using that one [of m] one [of "m div 10"] by (cases "m < 10"; subst show_nat.simps) auto
  show "length (show_nat n) \<le> 3"
    using n two [of n] two [of "n div 10"] by (cases "n < 100"; subst show_nat.simps) auto
qed

lemma show_nat_digit10: "list_all (is_digit 10) (show_nat n)"
  using show_nat_digits [of n] by (simp add: list_all_iff is_digit_def to_digit_10)

lemma read_octet_show:
  assumes "n < 256" and "stops_number 10 r"
  shows "read_number 10 3 False 256 (show_nat n @ r) = Some (n, r)"
proof -
  have "False \<or> length (show_nat n) = 1 \<or> hd (show_nat n) \<noteq> CHR ''0''"
    using length_show_nat(1) [of n] by (auto simp: show_nat_hd_zero)
  then have "read_number 10 3 False 256 (show_nat n @ r) = Some (radix_value 10 (show_nat n), r)"
    using assms length_show_nat(2) [of n] show_nat_digit10 [of n]
    by (intro read_number_digits) (auto simp: radix_value_dec show_nat_digits)
  then show ?thesis by (simp add: radix_value_dec show_nat_digits)
qed

lemma octet_less [simp]: "octet i a < 256"
  by (simp add: octet_def)

lemma from_octets_octets: "from_octets (octet 3 a) (octet 2 a) (octet 1 a) (octet 0 a) = a"
proof -
  define n where "n = unat a"
  have "n < 2 ^ LENGTH(32)" unfolding n_def by (rule unsigned_less)
  then have n: "n < 4294967296" by simp
  define q1 where "q1 = n div 256"
  define q2 where "q2 = q1 div 256"
  define q3 where "q3 = q2 div 256"
  have q: "n = 256 * q1 + n mod 256" "q1 = 256 * q2 + q1 mod 256" "q2 = 256 * q3 + q2 mod 256"
    by (simp_all add: q1_def q2_def q3_def)
  with n have "q3 mod 256 = q3" by simp
  with q have "(q3 mod 256) * 16777216 + (q2 mod 256) * 65536 + (q1 mod 256) * 256 + n mod 256 = n"
    by simp
  moreover have "octet 0 a = n mod 256" "octet 1 a = q1 mod 256" "octet 2 a = q2 mod 256"
      "octet 3 a = q3 mod 256"
    by (simp_all add: octet_def n_def q1_def q2_def q3_def div_mult2_eq [symmetric])
  ultimately have "octet 3 a * 16777216 + octet 2 a * 65536 + octet 1 a * 256 + octet 0 a = n"
    by simp
  then show ?thesis by (simp add: from_octets_def n_def)
qed


lemma read_separator_simps:
  "read_separator sep True p s = p s"
  "read_separator sep False p (sep # s) = p s"
  "c \<noteq> sep \<Longrightarrow> read_separator sep False p (c # s) = None"
  "read_separator sep False p [] = None"
  by (simp_all add: read_separator_def read_given_char_def)

lemma dot_not_digit [simp]: "\<not> is_digit 10 CHR ''.''" "\<not> is_digit 10 CHR '':''"
    "\<not> is_digit 16 CHR ''.''" "\<not> is_digit 16 CHR '':''"
  by (simp_all add: is_digit_def to_digit_def byte_def)

lemma read_ipv4_show:
  assumes "stops_number 10 r"
  shows "read_ipv4_addr (show_ipv4 a @ r) = Some (a, r)"
  using assms
  by (simp add: read_ipv4_addr_def show_ipv4_def read_octet_def read_separator_simps
      read_octet_show from_octets_octets del: One_nat_def)

lemma length_show_ipv4: "length (show_ipv4 a) \<le> 15"
proof -
  have "length (show_nat (octet i a)) \<le> 3" for i
    by (rule length_show_nat(2), rule less_trans [OF octet_less]) simp
  from this [of 0] this [of 1] this [of 2] this [of 3] show ?thesis by (simp add: show_ipv4_def)
qed

lemma parse_ipv4_show [simp]: "parse_ipv4 (show_ipv4 a) = Some a"
  using read_ipv4_show [of "[]" a] length_show_ipv4 [of a]
  by (simp add: parse_ipv4_def parse_with_def)

lemma plain_dot [simp]: "plain_char CHR ''.''" "plain_char CHR '':''"
  by (simp_all add: plain_char_def byte_def)

lemma show_ipv4_plain [simp]: "plain (show_ipv4 a)"
  by (simp add: show_ipv4_def)

lemma show_ipv4_not_Nil [simp]: "show_ipv4 a \<noteq> []"
  by (simp add: show_ipv4_def)

lemma set_show_nat: "c \<in> set (show_nat n) \<Longrightarrow> is_ascii_digit c"
  using show_nat_digits [of n] by (simp add: list_all_iff)

lemma comma_not_in_show_nat [simp]: "CHR '','' \<notin> set (show_nat n)"
  using set_show_nat [of "CHR '',''" n] by (auto simp: is_ascii_digit_def byte_def)

lemma comma_not_in_show_ipv4 [simp]: "CHR '','' \<notin> set (show_ipv4 a)"
  by (simp add: show_ipv4_def)

lemma comma_not_in_show_u16 [simp]: "CHR '','' \<notin> set (show_u16 w)"
  by (simp add: show_u16_def)

interpretation u16_codec: list_codec show_u16 parse_u16 "\<lambda>_. True"
  by unfold_locales auto

interpretation ipv4_codec: list_codec show_ipv4 parse_ipv4 "\<lambda>_. True"
  by unfold_locales auto

section \<open>Hexadecimal groups and IPv6 texts\<close>

lemma is_digit16_hex_char: "d < 16 \<Longrightarrow> to_digit 16 (hex_char d) = Some d"
  by (auto simp: to_digit_def hex_char_def byte_char_of Let_def)

lemma is_digit_hex_char [simp]: "d < 16 \<Longrightarrow> is_digit 16 (hex_char d)"
  by (simp add: is_digit_def is_digit16_hex_char)

lemma show_hex_digits: "list_all (is_digit 16) (show_hex n)"
proof (induction n rule: show_hex.induct)
  case (1 n)
  then show ?case
    by (subst show_hex.simps) auto
qed

lemma show_hex_not_Nil [simp]: "show_hex n \<noteq> []"
  by (subst show_hex.simps) simp

lemma radix_value_show_hex: "radix_value 16 (show_hex n) = n"
proof (induction n rule: show_hex.induct)
  case (1 n)
  show ?case
  proof (cases "n < 16")
    case True
    then show ?thesis by (subst show_hex.simps) (simp add: radix_value_def is_digit16_hex_char)
  next
    case False
    with 1 have "radix_value 16 (show_hex (n div 16)) = n div 16" by simp
    with False show ?thesis
      by (subst show_hex.simps) (simp add: radix_value_def is_digit16_hex_char)
  qed
qed

lemma length_show_hex: "n < 65536 \<Longrightarrow> length (show_hex n) \<le> 4"
proof -
  have one: "length (show_hex m) = 1" if "m < 16" for m
    using that by (subst show_hex.simps) simp
  have two: "length (show_hex m) \<le> 2" if "m < 256" for m
    using that one [of m] one [of "m div 16"] by (cases "m < 16"; subst show_hex.simps) auto
  have three: "length (show_hex m) \<le> 3" if "m < 4096" for m
    using that two [of m] two [of "m div 16"] by (cases "m < 256"; subst show_hex.simps) auto
  show "n < 65536 \<Longrightarrow> length (show_hex n) \<le> 4"
    using three [of n] three [of "n div 16"] by (cases "n < 4096"; subst show_hex.simps) auto
qed

lemma read_group_show:
  assumes "stops_number 16 r"
  shows "read_number 16 4 True 65536 (show_hex (unat (g :: 16 word)) @ r) = Some (unat g, r)"
proof -
  have g: "unat g < 2 ^ LENGTH(16)" by (rule unsigned_less)
  then have "read_number 16 4 True 65536 (show_hex (unat g) @ r)
      = Some (radix_value 16 (show_hex (unat g)), r)"
    using assms length_show_hex [of "unat g"]
    by (intro read_number_digits) (auto simp: show_hex_digits radix_value_show_hex)
  then show ?thesis by (simp add: radix_value_show_hex)
qed

text \<open>An IPv4 address needs a dot right after its first run of decimal digits.\<close>

lemma read_ipv4_needs_dot:
  assumes "\<And>t. dropWhile (is_digit 10) s \<noteq> CHR ''.'' # t"
  shows "read_ipv4_addr s = None"
proof (cases "read_octet True s")
  case (Some p)
  obtain v t where p: "p = (v, t)" by fastforce
  with Some have t: "t = dropWhile (is_digit 10) s"
    by (auto simp: read_octet_def read_separator_simps read_number_def Let_def dropWhile_eq_drop
        split: if_splits)
  have "read_octet False t = None"
  proof (cases t)
    case (Cons c u)
    then have "c \<noteq> CHR ''.''" using assms [of u] t by auto
    with Cons show ?thesis by (simp add: read_octet_def read_separator_simps)
  qed (simp add: read_octet_def read_separator_simps)
  with Some p show ?thesis by (simp add: read_ipv4_addr_def)
qed (simp add: read_ipv4_addr_def)

lemma dropWhile_hd_cases:
  "dropWhile p (xs @ ys) = c # t \<Longrightarrow> \<forall>y\<in>set ys. y = hd ys \<longrightarrow> \<not> p y \<Longrightarrow> c \<in> set xs \<or> (ys \<noteq> [] \<and> c = hd ys)"
  by (induction xs) (auto split: if_splits, (cases ys; auto)+)

lemma digit10_digit16: "is_digit 10 c \<Longrightarrow> is_digit 16 c"
  by (auto simp: is_digit_def to_digit_def Let_def split: if_splits)

lemma read_ipv4_hex:
  assumes "stops_number 16 r" and "r = [] \<or> hd r \<noteq> CHR ''.''"
  shows "read_ipv4_addr (show_hex n @ r) = None"
proof (rule read_ipv4_needs_dot)
  fix t
  show "dropWhile (is_digit 10) (show_hex n @ r) \<noteq> CHR ''.'' # t"
  proof
    assume dw: "dropWhile (is_digit 10) (show_hex n @ r) = CHR ''.'' # t"
    have "CHR ''.'' \<in> set (show_hex n) \<or> (r \<noteq> [] \<and> CHR ''.'' = hd r)"
      by (rule dropWhile_hd_cases [OF dw])
        (use assms(1) digit10_digit16 in \<open>auto simp: stops_number_def\<close>)
    then show False
      using assms(2) show_hex_digits [of n] dot_not_digit(3) by (auto simp: list_all_iff)
  qed
qed

lemma read_ipv4_colon: "read_ipv4_addr (CHR '':'' # s) = None"
  by (rule read_ipv4_needs_dot) simp

text \<open>Groups after the first, each behind its colon, and what may follow them.\<close>

definition tail_text :: "16 word list \<Rightarrow> string" where
  "tail_text gs = concat (map (\<lambda>g. CHR '':'' # show_hex (unat g)) gs)"

lemma tail_text_Nil [simp]: "tail_text [] = []"
  by (simp add: tail_text_def)

lemma tail_text_Cons: "tail_text (g # gs) = CHR '':'' # show_hex (unat g) @ tail_text gs"
  by (simp add: tail_text_def)

definition stuck :: "string \<Rightarrow> bool" where
  "stuck r = (r = [] \<or> (\<exists>t. r = '':'' @ '':'' @ t))"

lemma fmt_subslice_Cons: "fmt_subslice (g # gs) = show_hex (unat g) @ tail_text gs"
  by (induction gs arbitrary: g) (simp_all add: fmt_subslice_def tail_text_def)

lemma stuck_stops [simp]: "stuck r \<Longrightarrow> stops_number 16 (tail_text gs @ r)"
  by (cases gs) (auto simp: stuck_def tail_text_def)

lemma stuck_no_dot: "stuck r \<Longrightarrow> tail_text gs @ r = [] \<or> hd (tail_text gs @ r) \<noteq> CHR ''.''"
  by (cases gs) (auto simp: stuck_def tail_text_def)

lemma read_number_colon: "read_number 16 4 True 65536 (CHR '':'' # t) = None"
  by (simp add: read_number_def)

lemma read_groups_stuck: "stuck r \<Longrightarrow> read_groups False k r = ([], False, r)"
  by (cases k)
    (auto simp: stuck_def read_separator_simps read_ipv4_colon read_number_colon)

lemma read_groups_tail:
  "stuck r \<Longrightarrow> length gs \<le> k \<Longrightarrow> read_groups False k (tail_text gs @ r) = (gs, False, r)"
proof (induction gs arbitrary: k)
  case Nil
  then show ?case by (simp add: tail_text_def read_groups_stuck)
next
  case (Cons g gs)
  then obtain k' where k: "k = Suc k'" "length gs \<le> k'" by (cases k) auto
  have "read_ipv4_addr (show_hex (unat g) @ tail_text gs @ r) = None"
    using Cons.prems(1) stuck_no_dot by (intro read_ipv4_hex) auto
  moreover have "read_number 16 4 True 65536 (show_hex (unat g) @ tail_text gs @ r)
      = Some (unat g, tail_text gs @ r)"
    using Cons.prems(1) by (intro read_group_show) simp
  ultimately show ?case
    using Cons.IH [OF Cons.prems(1) k(2)]
    by (cases k') (simp_all add: tail_text_Cons k(1) read_separator_simps)
qed

lemma read_groups_fmt:
  assumes "stuck r" and "length gs \<le> k" and "gs \<noteq> [] \<or> k > 0 \<or> r = []"
  shows "read_groups True k (fmt_subslice gs @ r) = (gs, False, r)"
proof (cases gs)
  case Nil
  have "read_number 16 4 True 65536 r = None"
    using assms(1) by (auto simp: stuck_def read_number_colon) (simp add: read_number_def)
  moreover have "read_ipv4_addr r = None"
    using assms(1) by (auto simp: stuck_def read_ipv4_colon intro: read_ipv4_needs_dot)
  ultimately show ?thesis
    using Nil by (cases k) (auto simp: read_separator_simps fmt_subslice_def)
next
  case (Cons g hs)
  then obtain k' where k: "k = Suc k'" "length hs \<le> k'" using assms(2) by (cases k) auto
  have "read_ipv4_addr (show_hex (unat g) @ tail_text hs @ r) = None"
    using assms(1) stuck_no_dot by (intro read_ipv4_hex) auto
  moreover have "read_number 16 4 True 65536 (show_hex (unat g) @ tail_text hs @ r)
      = Some (unat g, tail_text hs @ r)"
    using assms(1) by (intro read_group_show) simp
  ultimately show ?thesis
    using read_groups_tail [OF assms(1) k(2)] Cons
    by (cases k') (simp_all add: fmt_subslice_Cons k(1) read_separator_simps)
qed


text \<open>The run of zeros the printer elides really consists of zeros.\<close>

definition zeros_in :: "16 word list \<Rightarrow> nat \<times> nat \<Rightarrow> bool" where
  "zeros_in gs sp = (\<exists>a b. gs = a @ replicate (snd sp) 0 @ b \<and> (snd sp > 0 \<longrightarrow> length a = fst sp))"

lemma zeros_in_append: "zeros_in gs sp \<Longrightarrow> zeros_in (gs @ hs) sp"
  unfolding zeros_in_def by (metis append.assoc)

lemma zero_span_zeros:
  assumes "zeros_in pre longest"
    and "snd cur > 0 \<Longrightarrow> \<exists>a. pre = a @ replicate (snd cur) 0 \<and> length a = fst cur"
  shows "zeros_in (pre @ gs) (zero_span (length pre) cur longest gs)"
  using assms
proof (induction gs arbitrary: pre cur longest)
  case (Cons g gs)
  obtain start len where cur: "cur = (start, len)" by fastforce
  show ?case
  proof (cases "g = 0")
    case False
    have "zeros_in ((pre @ [g]) @ gs) (zero_span (length (pre @ [g])) (0, 0) longest gs)"
      by (rule Cons.IH) (use Cons.prems(1) in \<open>auto intro: zeros_in_append\<close>)
    with False cur show ?thesis by simp
  next
    case True
    define cur' where "cur' = (if len = 0 then (length pre, 1) else (start, len + 1))"
    have c: "\<exists>a. pre @ [g] = a @ replicate (snd cur') 0 \<and> length a = fst cur'"
    proof (cases "len = 0")
      case False
      with Cons.prems(2) cur obtain a where "pre = a @ replicate len 0" "length a = start" by auto
      then show ?thesis using True False by (auto simp: cur'_def replicate_append_same)
    qed (use True in \<open>auto simp: cur'_def\<close>)
    then have "zeros_in (pre @ [g]) cur'" unfolding zeros_in_def by (metis append.right_neutral)
    with Cons.prems(1) have "zeros_in (pre @ [g]) (if snd cur' > snd longest then cur' else longest)"
      by (auto intro: zeros_in_append)
    then have "zeros_in ((pre @ [g]) @ gs)
        (zero_span (length (pre @ [g])) cur' (if snd cur' > snd longest then cur' else longest) gs)"
      by (rule Cons.IH) (use c in simp)
    moreover have "zero_span (length pre) cur longest (g # gs)
        = zero_span (length (pre @ [g])) cur' (if snd cur' > snd longest then cur' else longest) gs"
      using True by (simp add: cur cur'_def Let_def)
    ultimately show ?thesis by simp
  qed
qed simp

lemma zero_span_split:
  assumes "zero_span 0 (0, 0) (0, 0) gs = (start, len)" and "len > 0"
  shows "gs = take start gs @ replicate len 0 @ drop (start + len) gs"
proof -
  have "zeros_in ([] @ gs) (zero_span (length ([] :: 16 word list)) (0, 0) (0, 0) gs)"
    by (rule zero_span_zeros) (simp_all add: zeros_in_def)
  with assms obtain a b where "gs = a @ replicate len 0 @ b" "length a = start"
    by (auto simp: zeros_in_def)
  then show ?thesis by simp
qed

lemma stuck_simps [simp]: "stuck []" "stuck (CHR '':'' # CHR '':'' # t)"
  by (simp_all add: stuck_def)

lemma read_ipv6_full:
  "length gs = 8 \<Longrightarrow> read_ipv6_addr (fmt_subslice gs) = Some (gs, [])"
  using read_groups_fmt [of "[]" gs 8] by (simp add: read_ipv6_addr_def)

lemma read_ipv6_elided:
  assumes "length h + length t < 8"
  shows "read_ipv6_addr (fmt_subslice h @ '':'' @ '':'' @ fmt_subslice t)
    = Some (h @ replicate (8 - length h - length t) 0 @ t, [])"
proof -
  have "read_groups True 8 (fmt_subslice h @ CHR '':'' # CHR '':'' # fmt_subslice t)
      = (h, False, CHR '':'' # CHR '':'' # fmt_subslice t)"
    using assms by (intro read_groups_fmt) auto
  moreover have "read_groups True (7 - length h) (fmt_subslice t) = (t, False, [])"
    using assms read_groups_fmt [of "[]" t "7 - length h"] by simp
  ultimately show ?thesis using assms by (simp add: read_ipv6_addr_def read_given_char_def)
qed

lemma char_of_102: "char_of (102 :: nat) = CHR ''f''"
  by code_simp

lemma unat_of_nat_small: "n < 2 ^ 32 \<Longrightarrow> unat (of_nat n :: 32 word) = n"
  by (simp add: unat_of_nat)

lemma read_ipv6_mapped:
  "read_ipv6_addr (''::ffff:'' @ show_ipv4 a)
    = Some ([0, 0, 0, 0, 0, 0xFFFF, of_nat (unat a div 65536), of_nat (unat a mod 65536)], [])"
proof -
  have groups: "read_groups True 8 (''::ffff:'' @ show_ipv4 a) = ([], False, ''::ffff:'' @ show_ipv4 a)"
    using read_groups_fmt [of "''::ffff:'' @ show_ipv4 a" "[]" 8]
    by (simp add: fmt_subslice_def)
  have "read_ipv4_addr (''ffff:'' @ show_ipv4 a) = None"
    by (rule read_ipv4_needs_dot) (simp add: is_digit_def to_digit_def byte_def)
  moreover have "read_number 16 4 True 65536 (''ffff:'' @ show_ipv4 a)
      = Some (65535, CHR '':'' # show_ipv4 a)"
    using read_group_show [of "CHR '':'' # show_ipv4 a" 65535]
    by (simp add: show_hex.simps hex_char_def char_of_102)
  moreover have "read_ipv4_addr (show_ipv4 a) = Some (a, [])"
    using read_ipv4_show [of "[]" a] by simp
  ultimately have k: "k > 0 \<Longrightarrow> read_groups True (Suc (Suc k)) (''ffff:'' @ show_ipv4 a)
      = ([of_nat 65535, of_nat (unat a div 65536), of_nat (unat a mod 65536)], True, [])" for k
    by (simp add: read_separator_def read_given_char_def del: of_nat_numeral)
  have "Suc (Suc 5) = 7" by simp
  with k [of 5] have "read_groups True 7 (''ffff:'' @ show_ipv4 a)
      = ([0xFFFF, of_nat (unat a div 65536), of_nat (unat a mod 65536)], True, [])"
    by (simp only: of_nat_numeral zero_less_numeral simp_thms)
  moreover have "replicate (5 :: nat) (0 :: 16 word) = [0, 0, 0, 0, 0]" by code_simp
  ultimately show ?thesis using groups by (simp add: read_ipv6_addr_def read_given_char_def)
qed

lemma to_ipv4_mapped_parts:
  assumes "to_ipv4_mapped gs = Some a"
  shows "gs = [0, 0, 0, 0, 0, 0xFFFF, of_nat (unat a div 65536), of_nat (unat a mod 65536)]"
proof -
  from assms have l: "length gs = 8" and t: "take 6 gs = [0, 0, 0, 0, 0, 0xFFFF]"
    and a: "a = of_nat (unat (gs ! 6) * 65536 + unat (gs ! 7))"
    by (auto simp: to_ipv4_mapped_def split: if_splits)
  have "unat (gs ! 6) < 2 ^ LENGTH(16)" "unat (gs ! 7) < 2 ^ LENGTH(16)" by (rule unsigned_less)+
  then have b: "unat (gs ! 6) < 65536" "unat (gs ! 7) < 65536" by simp_all
  then have "unat a = unat (gs ! 6) * 65536 + unat (gs ! 7)"
    unfolding a by (intro unat_of_nat_small) simp
  with b have "unat a div 65536 = unat (gs ! 6)" "unat a mod 65536 = unat (gs ! 7)" by simp_all
  moreover have "gs = take 6 gs @ [gs ! 6, gs ! 7]"
    using l by (simp add: list_eq_iff_nth_eq nth_append nth_Cons less_Suc_eq numeral_eq_Suc split: nat.split)
  ultimately show ?thesis using t by simp
qed

lemma read_ipv6_show: "length gs = 8 \<Longrightarrow> read_ipv6_addr (show_ipv6 gs) = Some (gs, [])"
proof -
  assume l: "length gs = 8"
  obtain start len where z: "zero_span 0 (0, 0) (0, 0) gs = (start, len)" by fastforce
  show ?thesis
  proof (cases "to_ipv4_mapped gs")
    case (Some a)
    with to_ipv4_mapped_parts [OF Some] show ?thesis
      by (simp only: show_ipv6_def option.case read_ipv6_mapped)
  next
    case None
    show ?thesis
    proof (cases "len > 1")
      case True
      then have gs: "gs = take start gs @ replicate len 0 @ drop (start + len) gs"
        using zero_span_split [OF z] by simp
      from arg_cong [OF this, of length] l
      have n: "length (take start gs) + len + length (drop (start + len) gs) = 8" by simp
      with True have "read_ipv6_addr (show_ipv6 gs)
          = Some (take start gs @ replicate len 0 @ drop (start + len) gs, [])"
        using read_ipv6_elided [of "take start gs" "drop (start + len) gs"] None z
        by (simp add: show_ipv6_def)
      with gs show ?thesis by simp
    next
      case False
      with None z l show ?thesis by (simp add: show_ipv6_def read_ipv6_full)
    qed
  qed
qed

text \<open>The IP addresses of the network format, whose IPv6 form has exactly eight segments.\<close>

definition ip_ok :: "ip_addr \<Rightarrow> bool" where
  "ip_ok d = (case d of V4 _ \<Rightarrow> True | V6 gs \<Rightarrow> length gs = 8)"

definition ipv6_char :: "char \<Rightarrow> bool" where
  "ipv6_char c \<longleftrightarrow> is_digit 16 c \<or> c = CHR '':'' \<or> c = CHR ''.''"

lemma ipv6_char_plain: "ipv6_char c \<Longrightarrow> plain_char c \<and> c \<noteq> CHR '',''"
  by (auto simp: ipv6_char_def is_digit_def to_digit_def plain_char_def Let_def byte_def split: if_splits)

lemma list_all_join: "list_all P sep \<Longrightarrow> list_all (list_all P) ps \<Longrightarrow> list_all P (join sep ps)"
  by (induction sep ps rule: join.induct) auto

lemma fmt_subslice_chars: "list_all ipv6_char (fmt_subslice gs)"
  unfolding fmt_subslice_def
  by (rule list_all_join)
    (use show_hex_digits in \<open>auto simp: list_all_iff ipv6_char_def\<close>)

lemma show_ipv4_chars: "list_all ipv6_char (show_ipv4 a)"
  using show_nat_digit10
  by (auto simp: show_ipv4_def ipv6_char_def list_all_iff digit10_digit16)

lemma show_ipv6_chars: "list_all ipv6_char (show_ipv6 gs)"
proof -
  have "list_all ipv6_char ''::ffff:''" by (simp add: ipv6_char_def is_digit_def to_digit_def byte_def)
  then show ?thesis
    using fmt_subslice_chars show_ipv4_chars
    by (auto simp: show_ipv6_def ipv6_char_def split: option.split prod.split)
qed

lemma read_ipv4_fmt: "stuck r \<Longrightarrow> read_ipv4_addr (fmt_subslice gs @ r) = None"
proof (cases gs)
  case Nil
  moreover assume "stuck r"
  ultimately show ?thesis
    by (auto simp: stuck_def fmt_subslice_def read_ipv4_colon intro: read_ipv4_needs_dot)
next
  case (Cons g hs)
  moreover assume "stuck r"
  ultimately show ?thesis
    using stuck_no_dot by (auto simp: fmt_subslice_Cons intro!: read_ipv4_hex)
qed

lemma read_ipv4_ipv6: "read_ipv4_addr (show_ipv6 gs) = None"
  using read_ipv4_fmt [of "[]" gs]
  by (auto simp: show_ipv6_def read_ipv4_colon intro: read_ipv4_fmt split: option.split prod.split)

lemma show_ipv6_not_Nil: "length gs = 8 \<Longrightarrow> show_ipv6 gs \<noteq> []"
proof -
  assume "length gs = 8"
  then have "fmt_subslice gs \<noteq> []" by (cases gs) (auto simp: fmt_subslice_Cons)
  then show ?thesis by (simp add: show_ipv6_def split: option.split prod.split)
qed

lemma parse_ip_show: "ip_ok d \<Longrightarrow> parse_ip_addr (show_ip_addr d) = Some d"
  using read_ipv4_show [of "[]"]
  by (cases d) (simp_all add: ip_ok_def parse_ip_addr_def parse_with_def read_ip_addr_def
      read_ipv4_ipv6 read_ipv6_show)

interpretation ip_codec: list_codec show_ip_addr parse_ip_addr ip_ok
proof
  fix d :: ip_addr
  have "list_all ipv6_char (show_ip_addr d)"
    by (cases d) (simp_all add: show_ipv4_chars show_ipv6_chars)
  then show "plain (show_ip_addr d)" "CHR '','' \<notin> set (show_ip_addr d)"
    using ipv6_char_plain by (auto simp: plain_def list_all_iff)
  assume "ip_ok d"
  then show "parse_ip_addr (show_ip_addr d) = Some d" by (rule parse_ip_show)
  from \<open>ip_ok d\<close> show "show_ip_addr d \<noteq> []"
    by (cases d) (auto simp: ip_ok_def show_ipv6_not_Nil)
qed

text \<open>Every address that is read has its eight segments, so it can be printed and read again.\<close>

lemma read_groups_length: "read_groups first k s = (gs, v4, r) \<Longrightarrow> length gs \<le> k"
proof (induction first k s arbitrary: gs v4 r rule: read_groups.induct)
  case (2 first k s)
  show ?case
  proof (cases "if k > 0 then read_separator CHR '':'' first read_ipv4_addr s else None")
    case None
    with 2 show ?thesis by (auto split: option.splits prod.splits)
  next
    case (Some p)
    with 2(2) show ?thesis by (cases p) (auto split: if_splits)
  qed
qed simp

lemma read_ipv6_length:
  assumes "read_ipv6_addr s = Some (gs, r)"
  shows "length gs = 8"
proof -
  obtain hd4 v4 r0 where h: "read_groups True 8 s = (hd4, v4, r0)" by (metis prod_cases3)
  obtain tl4 t4 where t: "length hd4 \<noteq> 8 \<Longrightarrow> length tl4 \<le> 8 - (length hd4 + 1)"
    and gs: "gs = (if length hd4 = 8 then hd4 else hd4 @ replicate (8 - length hd4 - length tl4) 0 @ tl4)"
    using assms h
    by (auto simp: read_ipv6_addr_def split: if_splits prod.splits Option.bind_splits
        dest!: read_groups_length)
  with read_groups_length [OF h] show ?thesis by (cases "length hd4 = 8") auto
qed

lemma parse_ip_addr_ok: "parse_ip_addr s = Some d \<Longrightarrow> ip_ok d"
  by (auto simp: parse_ip_addr_def parse_with_def read_ip_addr_def ip_ok_def
      split: option.splits prod.splits list.splits if_splits dest: read_ipv6_length)

end
