(* ===== verification/Externals.thy ===== *)
theory Externals
  imports Rust_Net
begin

text \<open>
  The third-party crates the program calls (\<open>url\<close>, \<open>ipnet\<close>, \<open>base64\<close>, \<open>x25519-dalek\<close>,
  \<open>sha2\<close>, \<open>getrandom\<close>) are not part of the repository.  They are the fields of the record
  \<open>crates\<close>, the first argument of every definition that uses one.  What the program relies on
  is stated by predicates on that record, which the theorems that need them have as
  hypotheses; each is the documented behaviour of the crate.

  Byte arrays that are not text (keys, digests) are \<open>8 word list\<close>.  The random generator is
  a function of the number of draws made so far, so that every draw may differ.
\<close>

unbundle bit_operations_syntax

text \<open>\<open>ipnet::Ipv4Net\<close>: an address and a prefix length.\<close>

datatype ipv4net = Ipv4Net (net_addr: "32 word") (net_prefix_len: nat)

text \<open>What the program reads of a parsed \<open>url::Url\<close>.\<close>

record url =
  url_scheme :: string
  url_host_str :: "string option"
  url_username :: string
  url_password :: "string option"
  url_query :: "string option"
  url_fragment :: "string option"

record crates =
  url_parse :: "string \<Rightarrow> url option"
  net_parse :: "string \<Rightarrow> ipv4net option"
  net_show :: "ipv4net \<Rightarrow> string"
  net_network :: "ipv4net \<Rightarrow> 32 word"
  net_broadcast :: "ipv4net \<Rightarrow> 32 word"
  net_contains :: "ipv4net \<Rightarrow> 32 word \<Rightarrow> bool"
  b64_encode :: "8 word list \<Rightarrow> string"
  b64_decode :: "string \<Rightarrow> string + 8 word list"
  x25519_public :: "8 word list \<Rightarrow> 8 word list"
  sha256 :: "string \<Rightarrow> 8 word list"
  csprng :: "nat \<Rightarrow> 8 word list"

section \<open>Documented behaviour\<close>

text \<open>A network's prefix is at most 32; its first and last address are the documented masks.\<close>

definition net_wf :: "ipv4net \<Rightarrow> bool" where
  "net_wf n \<longleftrightarrow> net_prefix_len n \<le> 32"

definition net_hosts :: "ipv4net \<Rightarrow> nat" where
  "net_hosts n = 2 ^ (32 - net_prefix_len n)"

definition ipnet_ranges :: "crates \<Rightarrow> bool" where
  "ipnet_ranges cr \<longleftrightarrow> (\<forall>n. net_wf n \<longrightarrow>
     unat (net_network cr n) = unat (net_addr n) div net_hosts n * net_hosts n \<and>
     unat (net_broadcast cr n) = unat (net_network cr n) + (net_hosts n - 1))"

definition ipnet_contains :: "crates \<Rightarrow> bool" where
  "ipnet_contains cr \<longleftrightarrow> (\<forall>n a. net_wf n \<longrightarrow>
     net_contains cr n a = (net_network cr n \<le> a \<and> a \<le> net_broadcast cr n))"

definition ipnet_parses_wf :: "crates \<Rightarrow> bool" where
  "ipnet_parses_wf cr \<longleftrightarrow> (\<forall>s n. net_parse cr s = Some n \<longrightarrow> net_wf n)"

text \<open>\<open>Display\<close> prints \<open>address/prefix\<close>, and \<open>FromStr\<close> reads it back.\<close>

definition ipnet_text :: "crates \<Rightarrow> bool" where
  "ipnet_text cr \<longleftrightarrow> (\<forall>n. net_wf n \<longrightarrow>
     net_show cr n = show_ipv4 (net_addr n) @ ''/'' @ show_nat (net_prefix_len n) \<and>
     net_parse cr (net_show cr n) = Some n)"

text \<open>The standard base64 engine: decoding inverts encoding, the text is from its alphabet.\<close>

definition b64_roundtrip :: "crates \<Rightarrow> bool" where
  "b64_roundtrip cr \<longleftrightarrow> (\<forall>bs. b64_decode cr (b64_encode cr bs) = Inr bs \<and>
     plain (b64_encode cr bs) \<and> (bs \<noteq> [] \<longrightarrow> b64_encode cr bs \<noteq> []))"

text \<open>Only canonical encodings are accepted.\<close>

definition b64_canonical :: "crates \<Rightarrow> bool" where
  "b64_canonical cr \<longleftrightarrow> (\<forall>s bs. b64_decode cr s = Inr bs \<longrightarrow> b64_encode cr bs = s)"

definition random_32 :: "crates \<Rightarrow> bool" where
  "random_32 cr \<longleftrightarrow> (\<forall>k. length (csprng cr k) = 32)"

definition sha256_32 :: "crates \<Rightarrow> bool" where
  "sha256_32 cr \<longleftrightarrow> (\<forall>s. length (sha256 cr s) = 32)"

definition x25519_32 :: "crates \<Rightarrow> bool" where
  "x25519_32 cr \<longleftrightarrow> (\<forall>k. length (x25519_public cr k) = 32)"

section \<open>Networks as printed fields\<close>

lemma plain_slash [simp]: "plain_char CHR ''/''"
  by (simp add: plain_char_def byte_def)

lemma net_show_plain:
  assumes "ipnet_text cr" and "net_wf n"
  shows "plain (net_show cr n)" and "CHR '','' \<notin> set (net_show cr n)" and "net_show cr n \<noteq> []"
proof -
  have s: "net_show cr n = show_ipv4 (net_addr n) @ ''/'' @ show_nat (net_prefix_len n)"
    using assms by (simp add: ipnet_text_def)
  then show "plain (net_show cr n)" "CHR '','' \<notin> set (net_show cr n)" "net_show cr n \<noteq> []"
    by (simp_all add: s)
qed

lemma net_codec: "ipnet_text cr \<Longrightarrow> list_codec (net_show cr) (net_parse cr) net_wf"
  unfolding list_codec_def field_codec_def list_codec_axioms_def
  using net_show_plain by (auto simp only: ipnet_text_def)

lemma key_codec:
  "b64_roundtrip cr \<Longrightarrow>
    field_codec (b64_encode cr) (\<lambda>s. case b64_decode cr s of Inl _ \<Rightarrow> None | Inr bs \<Rightarrow> Some bs)
      (\<lambda>bs. bs \<noteq> [])"
  by unfold_locales (auto simp: b64_roundtrip_def)

lemma net_range_order:
  assumes "ipnet_ranges cr" and "net_wf n"
  shows "net_network cr n \<le> net_broadcast cr n"
  using assms by (simp add: ipnet_ranges_def word_le_nat_alt)

end
