(* ===== verification/Hostname.thy ===== *)
theory Hostname
  imports Rust_Str
begin

text \<open>
  \<open>wg-common/src/hostname.rs\<close>: the DNS-label check, shown to be exactly the documented
  regular expression.
\<close>

datatype hostname_error = Empty | TooLong nat | InvalidFormat string

definition is_alnum_lower :: "char \<Rightarrow> bool" where
  "is_alnum_lower b \<longleftrightarrow> is_ascii_lowercase b \<or> is_ascii_digit b"

definition hostname_validate :: "string \<Rightarrow> hostname_error + unit" where
  "hostname_validate hostname =
     guard_err (hostname = []) Empty (
     guard_err (length hostname > 63) (TooLong (length hostname)) (
     let first_ok = is_alnum_lower (hostname ! 0);
         last_ok = is_alnum_lower (hostname ! (length hostname - 1));
         middle_ok = (if length hostname \<le> 2 then True
                      else list_all (\<lambda>b. is_alnum_lower b \<or> b = CHR ''-'')
                             (take (length hostname - 2) (drop 1 hostname)))
     in if first_ok \<and> last_ok \<and> middle_ok then Inr () else Inl (InvalidFormat hostname)))"

text \<open>\<open>^[a-z0-9]([a-z0-9-]{0,61}[a-z0-9])?$\<close>\<close>

definition hostname_regex :: "string \<Rightarrow> bool" where
  "hostname_regex s \<longleftrightarrow>
     (\<exists>a. s = [a] \<and> is_alnum_lower a) \<or>
     (\<exists>a m b. s = a # m @ [b] \<and> length m \<le> 61 \<and> is_alnum_lower a \<and> is_alnum_lower b \<and>
        list_all (\<lambda>c. is_alnum_lower c \<or> c = CHR ''-'') m)"

lemma hostname_shape:
  obtains "s = []" | a where "s = [a]" | a m b where "s = a # m @ [b :: char]"
  by (cases s) (metis rev_exhaust)+

lemma hostname_validate_middle:
  "hostname_validate (a # m @ [b]) = Inr () \<longleftrightarrow>
     length m \<le> 61 \<and> is_alnum_lower a \<and> is_alnum_lower b \<and>
     list_all (\<lambda>c. is_alnum_lower c \<or> c = CHR ''-'') m"
  by (cases m) (auto simp: hostname_validate_def guard_err_def Let_def nth_append)

lemma hostname_validate_regex: "hostname_validate s = Inr () \<longleftrightarrow> hostname_regex s"
proof (cases s rule: hostname_shape)
  case 1
  then show ?thesis by (simp add: hostname_validate_def hostname_regex_def)
next
  case (2 a)
  then show ?thesis by (auto simp: hostname_validate_def hostname_regex_def Let_def)
next
  case (3 a m b)
  then show ?thesis by (auto simp: hostname_validate_middle hostname_regex_def)
qed

text \<open>What the other components rely on: the text is plain, so it is safe as a path segment.\<close>

definition hostname_char :: "char \<Rightarrow> bool" where
  "hostname_char c \<longleftrightarrow> is_alnum_lower c \<or> c = CHR ''-''"

lemma hostname_chars:
  assumes "hostname_validate s = Inr ()"
  shows "list_all hostname_char s"
  using assms unfolding hostname_validate_regex hostname_regex_def
  by (auto simp: hostname_char_def list_all_iff)

lemma hostname_nonempty: "hostname_validate s = Inr () \<Longrightarrow> s \<noteq> []"
  by (auto simp: hostname_validate_def)

lemma hostname_char_plain:
  "hostname_char c \<Longrightarrow> plain_char c \<and> c \<noteq> CHR ''/'' \<and> c \<noteq> CHR ''.''"
  by (auto simp: hostname_char_def is_alnum_lower_def is_ascii_lowercase_def is_ascii_digit_def
      plain_char_def byte_def)

lemma hostname_plain: "hostname_validate s = Inr () \<Longrightarrow> plain s"
  using hostname_chars hostname_char_plain by (fastforce simp: plain_def list_all_iff)

lemma hostname_no_slash:
  "hostname_validate s = Inr () \<Longrightarrow> CHR ''/'' \<notin> set s \<and> CHR ''.'' \<notin> set s"
  using hostname_chars hostname_char_plain by (fastforce simp: list_all_iff)

text \<open>
  C32. The hostname check accepts exactly the texts matching
  \<open>^[a-z0-9]([a-z0-9-]{0,61}[a-z0-9])?$\<close>; an accepted name has no slash, dot, space or control
  character, so it is safe as a path segment of an object key.
\<close>
theorem hostname_validate_exact:
  "(hostname_validate s = Inr () \<longleftrightarrow> hostname_regex s) \<and>
   (hostname_regex s \<longrightarrow> plain s \<and> CHR ''/'' \<notin> set s \<and> CHR ''.'' \<notin> set s)"
  using hostname_plain hostname_no_slash by (auto simp: hostname_validate_regex)

lemma hostname_validate_exact_witness:
  "plain ''master-us'' \<and> CHR ''/'' \<notin> set ''master-us'' \<and> CHR ''.'' \<notin> set ''master-us''"
proof (rule hostname_validate_exact [THEN conjunct2, rule_format])
  have "hostname_validate ''master-us'' = Inr ()" by code_simp
  then show "hostname_regex ''master-us''" by (simp add: hostname_validate_regex)
qed

end
