(* ===== verification/Strict_Json.thy ===== *)
theory Strict_Json
  imports Rust_Str
begin

text \<open>
  \<open>wg-common/src/strict_json.rs\<close>: the structural pre-pass that rejects duplicate object
  keys.  The input is the list of the text's characters (each as its bytes, so a literal
  stands for the character); the \<open>peek\<close>/\<open>next\<close> loop is a recursion on what is left of it,
  and the sets of seen keys are lists.  The main lemma characterises the scanner on every
  JSON document written without whitespace, keys compared as the scanner reads them; theory
  \<open>Json_Text\<close> adds the layout and what keys stand for.
\<close>

datatype strict_json_error = DuplicateKey string | Malformed string

datatype ctx = Object (obj_seen: "string list") (obj_expect_key: bool) | Array

fun parse_string_loop :: "string \<Rightarrow> string list \<Rightarrow> strict_json_error + string \<times> string list" where
  "parse_string_loop s [] = Inl (Malformed ''unterminated string'')"
| "parse_string_loop s (c # cs) =
     (if c = [CHR 0x22] then Inr (s, cs)
      else if c = [CHR 0x5C] then
        (case cs of
           [] \<Rightarrow> Inl (Malformed ''unterminated escape'')
         | esc # cs' \<Rightarrow> parse_string_loop (s @ esc) cs')
      else parse_string_loop (s @ c) cs)"

text \<open>Called with the opening quote still in front.\<close>

definition parse_string :: "string list \<Rightarrow> strict_json_error + string \<times> string list" where
  "parse_string cs = parse_string_loop [] (tl cs)"

lemma parse_string_loop_shorter:
  "parse_string_loop s cs = Inr (t, rest) \<Longrightarrow> length rest \<le> length cs"
  by (induction s cs rule: parse_string_loop.induct) (auto split: if_splits list.splits)

text \<open>The key of a string literal, in the context on top of the stack.\<close>

definition note_string :: "string \<Rightarrow> ctx list \<Rightarrow> strict_json_error + ctx list" where
  "note_string s stack =
     (case stack of
        Object seen True # st \<Rightarrow>
          guard_err (s \<in> set seen) (DuplicateKey s) (Inr (Object (s # seen) False # st))
      | _ \<Rightarrow> Inr stack)"

definition expect_next_key :: "ctx list \<Rightarrow> ctx list" where
  "expect_next_key stack = (case stack of Object seen _ # st \<Rightarrow> Object seen True # st | _ \<Rightarrow> stack)"

function scan :: "string list \<Rightarrow> ctx list \<Rightarrow> strict_json_error + unit" where
  "scan [] stack = guard_err (stack \<noteq> []) (Malformed ''unterminated object/array'') (Inr ())"
| "scan (c # cs) stack =
     (if is_whitespace (code_point c) then scan cs stack
      else if c = ''{'' then scan cs (Object [] True # stack)
      else if c = ''}'' then
        (case stack of Object _ _ # st \<Rightarrow> scan cs st | _ \<Rightarrow> Inl (Malformed ''unexpected }''))
      else if c = ''['' then scan cs (Array # stack)
      else if c = '']'' then
        (case stack of Array # st \<Rightarrow> scan cs st | _ \<Rightarrow> Inl (Malformed ''unexpected ]''))
      else if c = '','' then scan cs (expect_next_key stack)
      else if c = '':'' then scan cs stack
      else if c = [CHR 0x22] then
        (case parse_string (c # cs) of
           Inl e \<Rightarrow> Inl e
         | Inr (s, rest) \<Rightarrow>
             (case note_string s stack of Inl e \<Rightarrow> Inl e | Inr st \<Rightarrow> scan rest st))
      else scan cs stack)"
  by pat_completeness auto
termination
  by (relation "measure (\<lambda>(cs, _). length cs)")
    (auto simp: parse_string_def dest!: parse_string_loop_shorter)

definition check_no_duplicate_keys :: "string \<Rightarrow> strict_json_error + unit" where
  "check_no_duplicate_keys s = scan (utf8_chunks s) []"

declare scan.simps(2) [simp del]

lemmas ctx_splits = list.split ctx.split bool.split

section \<open>JSON documents\<close>

text \<open>
  A document as its characters.  A string body is a list of plain characters and two-character
  escapes; \<open>JAtom\<close> is a number or one of the literals.
\<close>

datatype json_char = Lit string | Esc string

datatype json =
    JAtom "string list"
  | JString "json_char list"
  | JArray "json list"
  | JObject "(json_char list \<times> json) list"

fun render_char :: "json_char \<Rightarrow> string list" where
  "render_char (Lit c) = [c]"
| "render_char (Esc c) = [[CHR 0x5C], c]"

text \<open>The scanner's reading of a string body: an escape stands for its second character.\<close>

fun char_view :: "json_char \<Rightarrow> string" where
  "char_view (Lit c) = c"
| "char_view (Esc c) = c"

definition view :: "json_char list \<Rightarrow> string" where
  "view s = concat (map char_view s)"

definition quote :: "json_char list \<Rightarrow> string list" where
  "quote s = [CHR 0x22] # concat (map render_char s) @ [[CHR 0x22]]"

fun separated :: "string list list \<Rightarrow> string list" where
  "separated [] = []"
| "separated [x] = x"
| "separated (x # y # xs) = x @ [CHR '',''] # separated (y # xs)"

fun render_json :: "json \<Rightarrow> string list" where
  "render_json (JAtom cs) = cs"
| "render_json (JString s) = quote s"
| "render_json (JArray xs) = ''['' # separated (map render_json xs) @ ['']'']"
| "render_json (JObject ms) =
     ''{'' # separated (map (\<lambda>(k, v). quote k @ '':'' # render_json v) ms) @ [''}'']"

definition structural :: "string \<Rightarrow> bool" where
  "structural c \<longleftrightarrow> c \<in> set [''{'', ''}'', ''['', '']'', '','', '':'', [CHR 0x22]]"

definition wf_char :: "json_char \<Rightarrow> bool" where
  "wf_char c = (case c of Lit c \<Rightarrow> c \<noteq> [CHR 0x22] \<and> c \<noteq> [CHR 0x5C] | Esc _ \<Rightarrow> True)"

fun wf_json :: "json \<Rightarrow> bool" where
  "wf_json (JAtom cs) \<longleftrightarrow> list_all (\<lambda>c. \<not> structural c) cs"
| "wf_json (JString s) \<longleftrightarrow> list_all wf_char s"
| "wf_json (JArray xs) \<longleftrightarrow> list_all wf_json xs"
| "wf_json (JObject ms) \<longleftrightarrow> list_all (\<lambda>(k, v). list_all wf_char k \<and> wf_json v) ms"

text \<open>No object of the document has two members whose keys the scanner reads alike.\<close>

fun no_dup :: "json \<Rightarrow> bool" where
  "no_dup (JAtom cs) \<longleftrightarrow> True"
| "no_dup (JString s) \<longleftrightarrow> True"
| "no_dup (JArray xs) \<longleftrightarrow> list_all no_dup xs"
| "no_dup (JObject ms) \<longleftrightarrow> distinct (map (\<lambda>(k, v). view k) ms) \<and> list_all (\<lambda>(k, v). no_dup v) ms"

section \<open>The scanner on documents\<close>

lemma parse_string_loop_body:
  "list_all wf_char s \<Longrightarrow>
    parse_string_loop t (concat (map render_char s) @ [CHR 0x22] # rest) = Inr (t @ view s, rest)"
proof (induction s arbitrary: t)
  case (Cons c s)
  then show ?case by (cases c) (auto simp: wf_char_def view_def)
qed (simp add: view_def)

lemma not_white_structural: "structural c \<Longrightarrow> \<not> is_whitespace (code_point c)"
  by (auto simp: structural_def is_whitespace_def byte_def)

lemma scan_atom_char: "\<not> structural c \<Longrightarrow> scan (c # cs) stack = scan cs stack"
  by (simp add: scan.simps(2) structural_def)

lemma scan_atom: "list_all (\<lambda>c. \<not> structural c) cs \<Longrightarrow> scan (cs @ rest) stack = scan rest stack"
  by (induction cs) (simp_all add: scan_atom_char)

lemma scan_structural:
  "scan (''{'' # cs) stack = scan cs (Object [] True # stack)"
  "scan (''}'' # cs) (Object s e # stack) = scan cs stack"
  "scan (''['' # cs) stack = scan cs (Array # stack)"
  "scan ('']'' # cs) (Array # stack) = scan cs stack"
  "scan ('','' # cs) stack = scan cs (expect_next_key stack)"
  "scan ('':'' # cs) stack = scan cs stack"
  by (simp_all add: scan.simps(2) is_whitespace_def byte_def)

lemma scan_quote:
  assumes "list_all wf_char s"
  shows "scan (quote s @ rest) stack =
    (case note_string (view s) stack of Inl e \<Rightarrow> Inl e | Inr st \<Rightarrow> scan rest st)"
  using parse_string_loop_body [OF assms, of "[]" rest]
  by (simp add: quote_def scan.simps(2) parse_string_def is_whitespace_def byte_def)

text \<open>Where a value may stand: not where the next string would be read as a key.\<close>

definition value_position :: "ctx list \<Rightarrow> bool" where
  "value_position stack = (case stack of Object _ e # _ \<Rightarrow> \<not> e | _ \<Rightarrow> True)"

lemma value_position_simps [simp]:
  "value_position []" "value_position (Array # st)" "value_position (Object s e # st) \<longleftrightarrow> \<not> e"
  by (simp_all add: value_position_def)

lemma note_string_value: "value_position stack \<Longrightarrow> note_string s stack = Inr stack"
  by (auto simp: value_position_def note_string_def split: list.split ctx.split bool.split)

definition is_dup :: "strict_json_error + unit \<Rightarrow> bool" where
  "is_dup r \<longleftrightarrow> (\<exists>k. r = Inl (DuplicateKey k))"

text \<open>The outcome of reading one value in front of \<open>rest\<close>.\<close>

definition reads :: "json \<Rightarrow> bool" where
  "reads j \<longleftrightarrow> (\<forall>rest stack. value_position stack \<longrightarrow>
     (if no_dup j then scan (render_json j @ rest) stack = scan rest stack
      else is_dup (scan (render_json j @ rest) stack)))"

lemma reads_accept:
  "reads j \<Longrightarrow> no_dup j \<Longrightarrow> value_position stack \<Longrightarrow> scan (render_json j @ rest) stack = scan rest stack"
  by (simp add: reads_def)

lemma reads_reject:
  "reads j \<Longrightarrow> \<not> no_dup j \<Longrightarrow> value_position stack \<Longrightarrow> is_dup (scan (render_json j @ rest) stack)"
  by (simp add: reads_def)

lemma scan_elements:
  assumes "\<forall>j\<in>set xs. reads j"
  shows "if list_all no_dup xs
    then scan (separated (map render_json xs) @ '']'' # rest) (Array # stack) = scan rest stack
    else is_dup (scan (separated (map render_json xs) @ '']'' # rest) (Array # stack))"
  using assms
proof (induction xs rule: induct_list012)
  case (2 j)
  then show ?case
    using reads_accept [of j "Array # stack"] reads_reject [of j "Array # stack"]
    by (auto simp: scan_structural)
next
  case (3 j k xs)
  show ?case
  proof (cases "no_dup j")
    case True
    then have "scan (separated (map render_json (j # k # xs)) @ '']'' # rest) (Array # stack)
      = scan (separated (map render_json (k # xs)) @ '']'' # rest) (Array # stack)"
      using 3 reads_accept [of j "Array # stack"]
      by (simp add: scan_structural expect_next_key_def)
    then show ?thesis using 3 True by (simp del: separated.simps list.map)
  next
    case False
    then show ?thesis using 3 reads_reject [of j "Array # stack"] by simp
  qed
qed (simp add: scan_structural)

definition render_member :: "json_char list \<times> json \<Rightarrow> string list" where
  "render_member = (\<lambda>(k, v). quote k @ '':'' # render_json v)"

lemma scan_member:
  assumes "list_all wf_char k" and "reads v"
  shows "if view k \<notin> set seen \<and> no_dup v
    then scan (render_member (k, v) @ rest) (Object seen True # stack) =
      scan rest (Object (view k # seen) False # stack)
    else is_dup (scan (render_member (k, v) @ rest) (Object seen True # stack))"
proof -
  have q: "scan (render_member (k, v) @ rest) (Object seen True # stack) =
      (if view k \<in> set seen then Inl (DuplicateKey (view k))
       else scan (render_json v @ rest) (Object (view k # seen) False # stack))"
    using assms(1) by (simp add: render_member_def scan_quote note_string_def scan_structural guard_err_def)
  show ?thesis
    using q reads_accept [OF assms(2), of "Object (view k # seen) False # stack" rest]
      reads_reject [OF assms(2), of "Object (view k # seen) False # stack" rest]
    by (auto simp: is_dup_def)
qed

definition members_ok :: "string list \<Rightarrow> (json_char list \<times> json) list \<Rightarrow> bool" where
  "members_ok seen ms \<longleftrightarrow> distinct (map (\<lambda>(k, v). view k) ms) \<and>
     (\<forall>(k, v)\<in>set ms. view k \<notin> set seen \<and> no_dup v)"

lemma members_ok_simps [simp]:
  "members_ok seen []"
  "members_ok seen ((k, v) # ms) \<longleftrightarrow>
    (view k \<notin> set seen \<and> no_dup v) \<and> members_ok (view k # seen) ms"
  by (auto simp: members_ok_def) (force simp: image_iff)

lemma scan_members:
  assumes "\<forall>(k, v)\<in>set ms. list_all wf_char k \<and> reads v"
  shows "if members_ok seen ms
    then scan (separated (map render_member ms) @ ''}'' # rest) (Object seen True # stack) = scan rest stack
    else is_dup (scan (separated (map render_member ms) @ ''}'' # rest) (Object seen True # stack))"
  using assms
proof (induction ms arbitrary: seen rule: induct_list012)
  case 1
  then show ?case by (simp add: scan_structural)
next
  case (2 m)
  obtain k v where m: "m = (k, v)" by fastforce
  with 2 have "list_all wf_char k" "reads v" by simp_all
  from scan_member [OF this, of seen] m show ?case by (simp add: scan_structural split: if_splits)
next
  case (3 m n ms)
  obtain k v where m: "m = (k, v)" by fastforce
  with 3 have kv: "list_all wf_char k" "reads v" by simp_all
  show ?case
  proof (cases "view k \<notin> set seen \<and> no_dup v")
    case True
    have IH: "if members_ok (view k # seen) (n # ms)
      then scan (separated (map render_member (n # ms)) @ ''}'' # rest) (Object (view k # seen) True # stack)
        = scan rest stack
      else is_dup (scan (separated (map render_member (n # ms)) @ ''}'' # rest) (Object (view k # seen) True # stack))"
      by (rule 3) (use 3 in simp)
    have "scan (separated (map render_member (m # n # ms)) @ ''}'' # rest) (Object seen True # stack)
      = scan (separated (map render_member (n # ms)) @ ''}'' # rest) (Object (view k # seen) True # stack)"
      using scan_member [OF kv, of seen] True by (simp add: m scan_structural expect_next_key_def)
    moreover have "members_ok seen (m # n # ms) \<longleftrightarrow> members_ok (view k # seen) (n # ms)"
      using True unfolding m members_ok_simps(2) by simp
    ultimately show ?thesis using IH by (simp only:)
  next
    case False
    then have "is_dup (scan (separated (map render_member (m # n # ms)) @ ''}'' # rest) (Object seen True # stack))"
      using scan_member [OF kv, of seen] False by (simp add: m)
    moreover have "\<not> members_ok seen (m # n # ms)"
      using False unfolding m members_ok_simps(2) by blast
    ultimately show ?thesis by (simp only: if_False)
  qed
qed

lemma render_object:
  "render_json (JObject ms) = ''{'' # separated (map render_member ms) @ [''}'']"
  by (simp add: render_member_def)

lemma wf_json_reads: "wf_json j \<Longrightarrow> reads j"
proof (induction j rule: wf_json.induct)
  case (1 cs)
  then show ?case by (simp add: reads_def scan_atom)
next
  case (2 s)
  then show ?case by (simp add: reads_def scan_quote note_string_value)
next
  case (3 xs)
  then have "\<forall>j\<in>set xs. reads j" by (simp add: list_all_iff)
  note elements = scan_elements [OF this]
  show ?case unfolding reads_def
  proof (intro allI impI)
    fix rest stack
    show "if no_dup (JArray xs) then scan (render_json (JArray xs) @ rest) stack = scan rest stack
      else is_dup (scan (render_json (JArray xs) @ rest) stack)"
      using elements [of rest stack] by (simp add: scan_structural)
  qed
next
  case (4 ms)
  then have "\<forall>(k, v)\<in>set ms. list_all wf_char k \<and> reads v" by (fastforce simp: list_all_iff)
  note members = scan_members [OF this]
  have ok: "members_ok [] ms \<longleftrightarrow> no_dup (JObject ms)"
    by (auto simp: members_ok_def list_all_iff)
  show ?case unfolding reads_def
  proof (intro allI impI)
    fix rest stack
    show "if no_dup (JObject ms) then scan (render_json (JObject ms) @ rest) stack = scan rest stack
      else is_dup (scan (render_json (JObject ms) @ rest) stack)"
      using members [of "[]" rest stack] unfolding ok render_object
      by (simp add: scan_structural del: no_dup.simps)
  qed
qed

lemma scan_document:
  assumes "wf_json j"
  shows "if no_dup j then scan (render_json j) [] = Inr () else is_dup (scan (render_json j) [])"
proof -
  have "reads j" by (rule wf_json_reads [OF assms])
  then show ?thesis using reads_accept [of j "[]" "[]"] reads_reject [of j "[]" "[]"] by auto
qed

end
