(* ===== verification/Topology.thy ===== *)
theory Topology
  imports Externals Hostname Strict_Json
begin

text \<open>
  \<open>wg-common/src/topology.rs\<close> and \<open>limits.rs\<close>: the input topology, its validation, and the
  edge set (masters fully meshed, every spoke joined to every master).  Record fields carry a
  prefix naming their struct (\<open>wg_\<close> \<open>WgConfig\<close>, \<open>vn_\<close> \<open>ValidatedNode\<close>, \<dots>).  The two
  \<open>unwrap\<close> calls of \<open>validate\<close> are the error \<open>Panic\<close>, shown unreachable.
\<close>

section \<open>Limits\<close>

definition MAX_NODES :: nat where
  "MAX_NODES = 4096"

definition MAX_DISCOVERY_JSON_BYTES :: nat where
  "MAX_DISCOVERY_JSON_BYTES = 16 * 1024 * 1024"

definition MAX_RENDERED_CONFIG_BYTES :: nat where
  "MAX_RENDERED_CONFIG_BYTES = 1024 * 1024"

definition DEFAULT_LISTEN_PORT :: "16 word" where
  "DEFAULT_LISTEN_PORT = 51820"

definition DEFAULT_PERSISTENT_KEEPALIVE_WHEN_NO_ENDPOINT :: "16 word" where
  "DEFAULT_PERSISTENT_KEEPALIVE_WHEN_NO_ENDPOINT = 25"

definition MIN_MTU :: "16 word" where
  "MIN_MTU = 576"

section \<open>Data\<close>

record r2_config =
  r2_endpoint :: string
  r2_access_key_id :: string
  r2_secret_access_key :: string
  r2_session_token :: "string option"
  r2_region :: string
  r2_bucket :: string

record wg_config =
  wg_tunnel_address :: string
  wg_listen_port :: "16 word"
  wg_endpoint :: "string option"
  wg_dns :: "string option"
  wg_mtu :: "16 word option"
  wg_extra_allowed_ips :: "string list"
  wg_persistent_keepalive :: "16 word option"

record node_config =
  nc_hostname :: string
  nc_wg_config :: wg_config

record topology_config =
  tc_r2_config :: r2_config
  tc_nodes :: "node_config list"
  tc_master :: "string list"

datatype validation_error =
    DuplicateJsonKey strict_json_error
  | InvalidJson string
  | InvalidHostname string hostname_error
  | DuplicateHostname string
  | EmptyNodes
  | TooManyNodes nat
  | UnknownMaster string
  | DuplicateMaster string
  | InvalidTunnelAddress string string
  | DuplicateTunnelAddress (dup_addr: string) (dup_a: string) (dup_b: string)
  | InvalidListenPort string
  | InvalidEndpoint string string string
  | InvalidDns string string
  | InvalidMtu string "16 word"
  | NonCanonicalRoute string string
  | InvalidRoute string string string
  | DefaultRouteRejected string
  | OverlappingRoutes (ov_a_host: string) (ov_a_route: string) (ov_b_host: string) (ov_b_route: string)
  | RouteCoversTunnelAddress (cov_host: string) (cov_route: string) (cov_node: string) (cov_addr: string)
  | EdgeMissingEndpoint string string
  | InvalidR2Endpoint string string
  | InvalidR2Credentials string
  | Panic

record validated_node =
  vn_hostname :: string
  vn_tunnel_address :: "32 word"
  vn_listen_port :: "16 word"
  vn_endpoint :: "string option"
  vn_dns :: "ip_addr option"
  vn_mtu :: "16 word option"
  vn_extra_allowed_ips :: "ipv4net list"
  vn_persistent_keepalive :: "16 word option"

record validated_topology =
  vt_nodes :: "validated_node list"
  vt_masters :: "string btree_set"

section \<open>Field checks\<close>

definition validate_r2_endpoint :: "crates \<Rightarrow> string \<Rightarrow> string + unit" where
  "validate_r2_endpoint cr s =
     and_then (ok_or ''not a valid URL'' (url_parse cr s)) (\<lambda>url.
     guard_err (url_scheme url \<noteq> ''http'' \<and> url_scheme url \<noteq> ''https'')
       ''scheme must be http or https'' (
     guard_err (url_host_str url = None) ''URL must have a host'' (
     guard_err (url_username url \<noteq> [] \<or> url_password url \<noteq> None)
       ''URL must not contain userinfo'' (
     guard_err (url_query url \<noteq> None) ''URL must not contain a query string'' (
     guard_err (url_fragment url \<noteq> None) ''URL must not contain a fragment'' (
     Inr ()))))))"

definition r2_endpoint_host :: "crates \<Rightarrow> string \<Rightarrow> string option" where
  "r2_endpoint_host cr s = Option.bind (url_parse cr s) url_host_str"

definition validate_r2_credentials :: "string \<Rightarrow> string \<Rightarrow> string option \<Rightarrow> string + unit" where
  "validate_r2_credentials access_key_id secret_access_key session_token =
     guard_err (access_key_id = []) ''access key id must not be empty'' (
     guard_err (secret_access_key = []) ''secret access key must not be empty'' (
     guard_err (session_token = Some []) ''session token, if present, must not be empty'' (
     Inr ())))"

definition parse_canonical_ipv4_net :: "crates \<Rightarrow> string \<Rightarrow> string + ipv4net" where
  "parse_canonical_ipv4_net cr s =
     and_then (ok_or ''not a valid IPv4 CIDR'' (net_parse cr s)) (\<lambda>net.
     guard_err (net_addr net \<noteq> net_network cr net)
       ''host bits set (not the canonical network address)'' (
     Inr net))"

definition net_range :: "crates \<Rightarrow> ipv4net \<Rightarrow> 32 word \<times> 32 word" where
  "net_range cr net = (net_network cr net, net_broadcast cr net)"

definition ranges_overlap :: "32 word \<times> 32 word \<Rightarrow> 32 word \<times> 32 word \<Rightarrow> bool" where
  "ranges_overlap a b \<longleftrightarrow> fst a \<le> snd b \<and> fst b \<le> snd a"

definition validate_endpoint_syntax :: "string \<Rightarrow> string + unit" where
  "validate_endpoint_syntax s =
     guard_err (s = []) ''endpoint must not be empty'' (
     and_then
       (case strip_prefix ''['' s of
          Some rest \<Rightarrow>
            and_then (ok_or ''unterminated IPv6 bracket'' (split_once CHR '']'' rest)) (\<lambda>(addr, after).
            and_then (ok_or ''invalid IPv6 address'' (parse_ipv6 addr)) (\<lambda>_.
            and_then (ok_or ''missing port after IPv6 bracket'' (strip_prefix '':'' after)) (\<lambda>port_str.
            Inr (addr, port_str))))
        | None \<Rightarrow> ok_or ''missing :port'' (rsplit_once CHR '':'' s))
       (\<lambda>(host, port_str).
     guard_err (host = [] \<or> length host > 253) ''invalid host length'' (
     guard_err (list_ex (\<lambda>c. is_whitespace c \<or> is_control c) (chars host))
       ''host contains whitespace/control characters'' (
     and_then (ok_or ''invalid port'' (parse_u16 port_str)) (\<lambda>port.
     guard_err (port = 0) ''port must be 1-65535'' (
     Inr ()))))))"

section \<open>The edge set\<close>

definition canonical_pair :: "string \<Rightarrow> string \<Rightarrow> string \<times> string" where
  "canonical_pair a b = (if a \<le> b then (a, b) else (b, a))"

definition compute_edges :: "string list \<Rightarrow> string btree_set \<Rightarrow> (string \<times> string) btree_set" where
  "compute_edges hostnames masters =
     (let master_list = filter (\<lambda>h. h \<in> set masters) hostnames;
          spoke_list = filter (\<lambda>h. h \<notin> set masters) hostnames;
          edges = fold (\<lambda>(i, a) edges.
                    fold (\<lambda>b. bs_insert (canonical_pair a b)) (drop (i + 1) master_list) edges)
                    (List.enumerate 0 master_list) []
      in fold (\<lambda>m edges. fold (\<lambda>s. bs_insert (canonical_pair m s)) spoke_list edges)
           master_list edges)"

definition node :: "validated_topology \<Rightarrow> string \<Rightarrow> validated_node option" where
  "node t hostname = List.find (\<lambda>n. vn_hostname n = hostname) (vt_nodes t)"

definition edges :: "validated_topology \<Rightarrow> (string \<times> string) btree_set" where
  "edges t = compute_edges (map vn_hostname (vt_nodes t)) (vt_masters t)"

section \<open>Validation\<close>

definition check_hostname :: "node_config \<Rightarrow> string btree_set \<Rightarrow> validation_error + string btree_set" where
  "check_hostname n seen_hostnames =
     and_then (map_err (InvalidHostname (nc_hostname n)) (hostname_validate (nc_hostname n))) (\<lambda>_.
     guard_err (nc_hostname n \<in> set seen_hostnames) (DuplicateHostname (nc_hostname n)) (
     Inr (bs_insert (nc_hostname n) seen_hostnames)))"

definition check_master ::
  "string btree_set \<Rightarrow> string \<Rightarrow> string btree_set \<Rightarrow> validation_error + string btree_set" where
  "check_master seen_hostnames m masters =
     guard_err (m \<notin> set seen_hostnames) (UnknownMaster m) (
     guard_err (m \<in> set masters) (DuplicateMaster m) (
     Inr (bs_insert m masters)))"

definition check_route :: "crates \<Rightarrow> string \<Rightarrow> string \<Rightarrow> ipv4net list \<Rightarrow> validation_error + ipv4net list" where
  "check_route cr hostname r extra_nets =
     and_then (map_err (\<lambda>_. NonCanonicalRoute hostname r) (parse_canonical_ipv4_net cr r)) (\<lambda>net.
     guard_err (net_prefix_len net = 0) (DefaultRouteRejected hostname) (
     Inr (extra_nets @ [net])))"

type_synonym addr_owners = "(32 word, string) btree_map"

definition check_node ::
  "crates \<Rightarrow> node_config \<Rightarrow> validated_node list \<times> addr_owners
    \<Rightarrow> validation_error + validated_node list \<times> addr_owners" where
  "check_node cr n = (\<lambda>(validated_nodes, owners).
     let hostname = nc_hostname n; wg = nc_wg_config n in
     and_then (map_err (\<lambda>_. InvalidTunnelAddress hostname (wg_tunnel_address wg))
       (parse_canonical_ipv4_net cr (wg_tunnel_address wg))) (\<lambda>net.
     guard_err (net_prefix_len net \<noteq> 32) (InvalidTunnelAddress hostname (wg_tunnel_address wg)) (
     and_then (case bt_get owners (net_addr net) of
         Some prev_owner \<Rightarrow> Inl (DuplicateTunnelAddress (wg_tunnel_address wg) prev_owner hostname)
       | None \<Rightarrow> Inr (bt_insert (net_addr net) hostname owners)) (\<lambda>owners'.
     guard_err (wg_listen_port wg = 0) (InvalidListenPort hostname) (
     and_then (case wg_endpoint wg of
         Some ep \<Rightarrow> map_err (InvalidEndpoint hostname ep) (validate_endpoint_syntax ep)
       | None \<Rightarrow> Inr ()) (\<lambda>_.
     and_then (case wg_dns wg of
         Some d \<Rightarrow> and_then (ok_or (InvalidDns hostname d) (parse_ip_addr d)) (\<lambda>ip. Inr (Some ip))
       | None \<Rightarrow> Inr None) (\<lambda>dns.
     and_then (case wg_mtu wg of
         Some mtu \<Rightarrow> guard_err (mtu < MIN_MTU) (InvalidMtu hostname mtu) (Inr ())
       | None \<Rightarrow> Inr ()) (\<lambda>_.
     and_then (fold_res (check_route cr hostname) (wg_extra_allowed_ips wg) []) (\<lambda>extra_nets.
     Inr (validated_nodes @ [\<lparr>vn_hostname = hostname, vn_tunnel_address = net_addr net,
            vn_listen_port = wg_listen_port wg, vn_endpoint = wg_endpoint wg, vn_dns = dns,
            vn_mtu = wg_mtu wg, vn_extra_allowed_ips = extra_nets,
            vn_persistent_keepalive = wg_persistent_keepalive wg\<rparr>], owners'))))))))))"

definition check_covers ::
  "crates \<Rightarrow> validated_node list \<Rightarrow> validated_node \<Rightarrow> ipv4net \<Rightarrow> validation_error + unit" where
  "check_covers cr nodes owner r =
     for_each (\<lambda>n.
       guard_err (fst (net_range cr r) \<le> vn_tunnel_address n \<and> vn_tunnel_address n \<le> snd (net_range cr r))
         (RouteCoversTunnelAddress (vn_hostname owner) (net_show cr r) (vn_hostname n)
           (show_ipv4 (vn_tunnel_address n)))
         (Inr ())) nodes"

definition check_disjoint ::
  "crates \<Rightarrow> string \<Rightarrow> ipv4net \<Rightarrow> string \<Rightarrow> ipv4net \<Rightarrow> validation_error + unit" where
  "check_disjoint cr a_host r_a b_host r_b =
     guard_err (ranges_overlap (net_range cr r_a) (net_range cr r_b))
       (OverlappingRoutes a_host (net_show cr r_a) b_host (net_show cr r_b)) (Inr ())"

definition check_routes_of :: "crates \<Rightarrow> validated_node list \<Rightarrow> nat \<Rightarrow> validation_error + unit" where
  "check_routes_of cr nodes i =
     (let ni = nodes ! i; routes = vn_extra_allowed_ips ni in
      and_then (for_each (check_covers cr nodes ni) routes) (\<lambda>_.
      and_then (for_each (\<lambda>j. for_each (\<lambda>r_a. for_each (\<lambda>r_b.
            check_disjoint cr (vn_hostname ni) r_a (vn_hostname (nodes ! j)) r_b)
          (vn_extra_allowed_ips (nodes ! j))) routes) [i + 1..<length nodes]) (\<lambda>_.
      for_each (\<lambda>a_idx. for_each (\<lambda>b_idx.
          check_disjoint cr (vn_hostname ni) (routes ! a_idx) (vn_hostname ni) (routes ! b_idx))
        [a_idx + 1..<length routes]) [0..<length routes])))"

definition check_edge :: "validated_node list \<Rightarrow> string \<times> string \<Rightarrow> validation_error + unit" where
  "check_edge nodes = (\<lambda>(a, b).
     and_then (ok_or Panic (List.find (\<lambda>n. vn_hostname n = a) nodes)) (\<lambda>a_node.
     and_then (ok_or Panic (List.find (\<lambda>n. vn_hostname n = b) nodes)) (\<lambda>b_node.
     guard_err (vn_endpoint a_node = None \<and> vn_endpoint b_node = None)
       (EdgeMissingEndpoint a b) (Inr ()))))"

definition topology_validate ::
  "crates \<Rightarrow> topology_config \<Rightarrow> validation_error + validated_topology \<times> string list" where
  "topology_validate cr config =
     (let r2 = tc_r2_config config in
     and_then (map_err (InvalidR2Endpoint (r2_endpoint r2)) (validate_r2_endpoint cr (r2_endpoint r2))) (\<lambda>_.
     and_then (map_err InvalidR2Credentials (validate_r2_credentials (r2_access_key_id r2)
         (r2_secret_access_key r2) (r2_session_token r2))) (\<lambda>_.
     guard_err (tc_nodes config = []) EmptyNodes (
     guard_err (length (tc_nodes config) > MAX_NODES) (TooManyNodes (length (tc_nodes config))) (
     and_then (fold_res check_hostname (tc_nodes config) []) (\<lambda>seen_hostnames.
     and_then (fold_res (check_master seen_hostnames) (tc_master config) []) (\<lambda>masters.
     let warnings = (if masters = []
       then [''master list is empty: no peer edges will be generated for any node''] else []) in
     and_then (fold_res (check_node cr) (tc_nodes config) ([], [])) (\<lambda>(nodes, _).
     and_then (for_each (check_routes_of cr nodes) [0..<length nodes]) (\<lambda>_.
     and_then (for_each (check_edge nodes) (compute_edges (map vn_hostname nodes) masters)) (\<lambda>_.
     Inr (\<lparr>vt_nodes = sort_key vn_hostname nodes, vt_masters = masters\<rparr>, warnings)))))))))))"

text \<open>\<open>serde_json::from_str\<close> is a parameter; the error keeps the value the source prints.\<close>

definition topology_parse ::
  "(string \<Rightarrow> string + topology_config) \<Rightarrow> string \<Rightarrow> validation_error + topology_config" where
  "topology_parse from_str s =
     and_then (map_err DuplicateJsonKey (check_no_duplicate_keys s)) (\<lambda>_.
     map_err InvalidJson (from_str s))"

section \<open>The edges are the hub-and-spoke mesh\<close>

lemma bs_wf_fold_fold:
  "(\<And>x es. bs_wf es \<Longrightarrow> bs_wf (f x es)) \<Longrightarrow> bs_wf es \<Longrightarrow> bs_wf (fold f xs es)"
  by (induction xs arbitrary: es) auto

lemma set_fold_insert_map: "set (fold (\<lambda>b. bs_insert (f b)) xs es) = f ` set xs \<union> set es"
  by (induction xs arbitrary: es) auto

lemma bs_wf_fold_insert_map: "bs_wf es \<Longrightarrow> bs_wf (fold (\<lambda>b. bs_insert (f b)) xs es)"
  by (rule bs_wf_fold_fold) auto

fun mesh :: "string list \<Rightarrow> (string \<times> string) set" where
  "mesh [] = {}"
| "mesh (a # xs) = canonical_pair a ` set xs \<union> mesh xs"

lemma set_mesh_fold:
  "ml = xs @ ys \<Longrightarrow>
    set (fold (\<lambda>(i, a) es. fold (\<lambda>b. bs_insert (canonical_pair a b)) (drop (i + 1) ml) es)
      (List.enumerate (length xs) ys) es) = mesh ys \<union> set es"
proof (induction ys arbitrary: xs es)
  case (Cons a ys)
  let ?es = "fold (\<lambda>b. bs_insert (canonical_pair a b)) ys es"
  have "drop (length xs + 1) ml = ys" using Cons.prems by simp
  moreover have "set (fold (\<lambda>(i, a) es. fold (\<lambda>b. bs_insert (canonical_pair a b)) (drop (i + 1) ml) es)
      (List.enumerate (length (xs @ [a])) ys) ?es) = mesh ys \<union> set ?es"
    by (rule Cons.IH) (use Cons.prems in simp)
  ultimately show ?case by (auto simp: set_fold_insert_map)
qed simp

lemma canonical_pair_less: "a \<noteq> b \<Longrightarrow> canonical_pair a b = (x, y) \<longleftrightarrow> x < y \<and> {x, y} = {a, b}"
  by (auto simp: canonical_pair_def doubleton_eq_iff)

lemma mesh_iff: "distinct xs \<Longrightarrow> (x, y) \<in> mesh xs \<longleftrightarrow> x < y \<and> x \<in> set xs \<and> y \<in> set xs"
proof (induction xs)
  case (Cons a xs)
  have "(x, y) \<in> canonical_pair a ` set xs \<longleftrightarrow> (\<exists>b\<in>set xs. canonical_pair a b = (x, y))" by force
  also have "\<dots> \<longleftrightarrow> (\<exists>b\<in>set xs. x < y \<and> {x, y} = {a, b})"
    using Cons.prems by (intro bex_cong refl canonical_pair_less) auto
  finally show ?case using Cons by (auto simp: doubleton_eq_iff)
qed simp

lemma set_star_fold:
  "set (fold (\<lambda>m es. fold (\<lambda>s. bs_insert (canonical_pair m s)) ss es) ms es)
    = (\<Union>m\<in>set ms. canonical_pair m ` set ss) \<union> set es"
  by (induction ms arbitrary: es) (auto simp: set_fold_insert_map)

lemma bs_wf_compute_edges: "bs_wf (compute_edges hs ms)"
  unfolding compute_edges_def Let_def
  by (intro bs_wf_fold_fold) (auto intro!: bs_wf_fold_insert_map)

lemma compute_edges_iff:
  assumes "distinct hs"
  shows "(x, y) \<in> set (compute_edges hs ms) \<longleftrightarrow>
    x < y \<and> x \<in> set hs \<and> y \<in> set hs \<and> (x \<in> set ms \<or> y \<in> set ms)"
proof -
  let ?m = "filter (\<lambda>h. h \<in> set ms) hs" and ?s = "filter (\<lambda>h. h \<notin> set ms) hs"
  have "set (compute_edges hs ms) = (\<Union>m\<in>set ?m. canonical_pair m ` set ?s) \<union> mesh ?m"
    using set_mesh_fold [of ?m "[]" ?m "[]"] by (simp add: compute_edges_def Let_def set_star_fold)
  moreover have "(x, y) \<in> mesh ?m \<longleftrightarrow> x < y \<and> x \<in> set ?m \<and> y \<in> set ?m"
    by (rule mesh_iff) (use assms in simp)
  moreover have "(x, y) \<in> (\<Union>m\<in>set ?m. canonical_pair m ` set ?s) \<longleftrightarrow>
      (\<exists>m\<in>set ?m. \<exists>s\<in>set ?s. canonical_pair m s = (x, y))" by force
  moreover have "\<dots> \<longleftrightarrow> (\<exists>m\<in>set ?m. \<exists>s\<in>set ?s. x < y \<and> {x, y} = {m, s})"
    by (intro bex_cong refl canonical_pair_less) auto
  ultimately show ?thesis by (auto simp: doubleton_eq_iff)
qed

lemma compute_edges_cong:
  "distinct hs \<Longrightarrow> distinct hs' \<Longrightarrow> set hs = set hs' \<Longrightarrow> compute_edges hs ms = compute_edges hs' ms"
  by (rule bs_wf_unique) (auto simp: bs_wf_compute_edges compute_edges_iff)

section \<open>What validation establishes\<close>

definition net_ok :: "crates \<Rightarrow> ipv4net \<Rightarrow> bool" where
  "net_ok cr r \<longleftrightarrow> net_addr r = net_network cr r"

text \<open>The validated node is what the configuration says, each field checked.\<close>

definition node_matches :: "crates \<Rightarrow> node_config \<Rightarrow> validated_node \<Rightarrow> bool" where
  "node_matches cr c n \<longleftrightarrow>
     vn_hostname n = nc_hostname c \<and>
     (\<exists>net. net_parse cr (wg_tunnel_address (nc_wg_config c)) = Some net \<and> net_ok cr net \<and>
        net_prefix_len net = 32 \<and> vn_tunnel_address n = net_addr net) \<and>
     vn_listen_port n = wg_listen_port (nc_wg_config c) \<and> vn_listen_port n \<noteq> 0 \<and>
     vn_endpoint n = wg_endpoint (nc_wg_config c) \<and>
     (\<forall>ep. vn_endpoint n = Some ep \<longrightarrow> validate_endpoint_syntax ep = Inr ()) \<and>
     vn_dns n = Option.bind (wg_dns (nc_wg_config c)) parse_ip_addr \<and>
     (wg_dns (nc_wg_config c) \<noteq> None \<longrightarrow> vn_dns n \<noteq> None) \<and>
     vn_mtu n = wg_mtu (nc_wg_config c) \<and> (\<forall>m. vn_mtu n = Some m \<longrightarrow> MIN_MTU \<le> m) \<and>
     list_all2 (\<lambda>s r. net_parse cr s = Some r \<and> net_ok cr r \<and> net_prefix_len r \<noteq> 0)
       (wg_extra_allowed_ips (nc_wg_config c)) (vn_extra_allowed_ips n) \<and>
     vn_persistent_keepalive n = wg_persistent_keepalive (nc_wg_config c)"

lemma parse_canonical_Inr:
  "parse_canonical_ipv4_net cr s = Inr net \<longleftrightarrow> net_parse cr s = Some net \<and> net_ok cr net"
  by (auto simp: parse_canonical_ipv4_net_def and_then_Inr_iff net_ok_def)

lemma check_route_Inr:
  "check_route cr h r ns = Inr ns' \<longleftrightarrow>
    (\<exists>net. net_parse cr r = Some net \<and> net_ok cr net \<and> net_prefix_len net \<noteq> 0 \<and> ns' = ns @ [net])"
  by (auto simp: check_route_def and_then_Inr_iff parse_canonical_Inr)

lemma check_routes_Inr:
  "fold_res (check_route cr h) rs ns = Inr ns' \<longleftrightarrow>
    (\<exists>nets. ns' = ns @ nets \<and>
      list_all2 (\<lambda>s r. net_parse cr s = Some r \<and> net_ok cr r \<and> net_prefix_len r \<noteq> 0) rs nets)"
proof (induction rs arbitrary: ns)
  case (Cons r rs)
  then show ?case
    by (auto simp: and_then_Inr_iff check_route_Inr list_all2_Cons1)
qed auto

lemma check_node_Inr:
  "check_node cr c (ns, owners) = Inr (ns', owners') \<longleftrightarrow>
    (\<exists>n. node_matches cr c n \<and> ns' = ns @ [n] \<and> bt_get owners (vn_tunnel_address n) = None \<and>
      owners' = bt_insert (vn_tunnel_address n) (nc_hostname c) owners)" (is "?l \<longleftrightarrow> ?r")
proof
  assume ?l
  then show ?r
    by (auto simp: check_node_def Let_def and_then_Inr_iff parse_canonical_Inr check_routes_Inr
        node_matches_def split: option.splits)
next
  assume ?r
  then obtain n where n: "node_matches cr c n" "ns' = ns @ [n]"
    "bt_get owners (vn_tunnel_address n) = None"
    "owners' = bt_insert (vn_tunnel_address n) (nc_hostname c) owners" by blast
  then show ?l
    by (cases n) (auto simp: check_node_def Let_def and_then_Inr_iff parse_canonical_Inr
        check_routes_Inr node_matches_def split: option.splits)
qed

end
