(* ===== verification/Io_Logic.thy ===== *)
theory Io_Logic
  imports Prelude
begin

text \<open>
  A Hoare logic for the operations of the model.  \<open>triple P m Q E\<close>: from a state with \<open>P\<close>, the
  operation \<open>m\<close> either returns a value and state with \<open>Q\<close> or an error and state with \<open>E\<close>.  The
  rules follow the combinators of the prelude, so a proof about a handler follows its text.
\<close>

definition triple ::
  "('s \<Rightarrow> bool) \<Rightarrow> ('s, 'e, 'a) io \<Rightarrow> ('a \<Rightarrow> 's \<Rightarrow> bool) \<Rightarrow> ('e \<Rightarrow> 's \<Rightarrow> bool) \<Rightarrow> bool" where
  "triple P m Q E \<longleftrightarrow> (\<forall>s. P s \<longrightarrow> (case m s of (Inr x, t) \<Rightarrow> Q x t | (Inl e, t) \<Rightarrow> E e t))"

lemma tripleI:
  assumes "\<And>s x t. P s \<Longrightarrow> m s = (Inr x, t) \<Longrightarrow> Q x t" and "\<And>s e t. P s \<Longrightarrow> m s = (Inl e, t) \<Longrightarrow> E e t"
  shows "triple P m Q E"
  using assms by (fastforce simp: triple_def split: prod.splits sum.splits)

lemma tripleD:
  assumes "triple P m Q E" and "P s"
  shows "m s = (Inr x, t) \<Longrightarrow> Q x t" and "m s = (Inl e, t) \<Longrightarrow> E e t"
  using assms by (auto simp: triple_def dest!: spec [of _ s])

lemma triple_result:
  assumes "triple P m Q E" and "P s"
  shows "case m s of (Inr x, t) \<Rightarrow> Q x t | (Inl e, t) \<Rightarrow> E e t"
  using assms by (auto simp: triple_def)

lemma triple_weaken:
  assumes "triple P m Q E" and "\<And>s. P' s \<Longrightarrow> P s" and "\<And>x s. Q x s \<Longrightarrow> Q' x s" and "\<And>e s. E e s \<Longrightarrow> E' e s"
  shows "triple P' m Q' E'"
  using assms by (fastforce simp: triple_def split: prod.splits sum.splits)

named_theorems triple_rules \<open>rules of the logic for the combinators\<close>

lemma triple_return [triple_rules]: "(\<And>s. P s \<Longrightarrow> Q x s) \<Longrightarrow> triple P (io_return x) Q E"
  by (simp add: triple_def)

lemma triple_throw [triple_rules]: "(\<And>s. P s \<Longrightarrow> E e s) \<Longrightarrow> triple P (io_throw e) Q E"
  by (simp add: triple_def)

lemma triple_lift [triple_rules]:
  "(\<And>s x. P s \<Longrightarrow> r = Inr x \<Longrightarrow> Q x s) \<Longrightarrow> (\<And>s e. P s \<Longrightarrow> r = Inl e \<Longrightarrow> E e s) \<Longrightarrow> triple P (io_lift r) Q E"
  by (cases r) (auto simp: triple_def)

lemma triple_then:
  "triple P m R E \<Longrightarrow> (\<And>x. triple (R x) (k x) Q E) \<Longrightarrow> triple P (io_then m k) Q E"
  by (fastforce simp: triple_def io_then_def split: prod.splits sum.splits)

lemma triple_then_lift [triple_rules]:
  "(\<And>s e. P s \<Longrightarrow> r = Inl e \<Longrightarrow> E e s) \<Longrightarrow> (\<And>x. r = Inr x \<Longrightarrow> triple P (k x) Q E) \<Longrightarrow>
    triple P (io_then (io_lift r) k) Q E"
  by (cases r) (auto simp: triple_def io_then_def split: prod.splits sum.splits)

lemma triple_map_err: "triple P m Q (\<lambda>e s. E (g e) s) \<Longrightarrow> triple P (io_map_err g m) Q E"
  by (fastforce simp: triple_def io_map_err_def map_err_def split: prod.splits sum.splits)

lemma triple_if [triple_rules]:
  "(b \<Longrightarrow> triple P m Q E) \<Longrightarrow> (\<not> b \<Longrightarrow> triple P n Q E) \<Longrightarrow> triple P (if b then m else n) Q E"
  by simp

lemma triple_case_option [triple_rules]:
  "(x = None \<Longrightarrow> triple P m Q E) \<Longrightarrow> (\<And>y. x = Some y \<Longrightarrow> triple P (n y) Q E) \<Longrightarrow>
    triple P (case x of None \<Rightarrow> m | Some y \<Rightarrow> n y) Q E"
  by (cases x) auto

lemma triple_case_prod [triple_rules]:
  "(\<And>a b. x = (a, b) \<Longrightarrow> triple P (m a b) Q E) \<Longrightarrow> triple P (case x of (a, b) \<Rightarrow> m a b) Q E"
  by (cases x) auto

lemma triple_let [triple_rules]: "triple P (m x) Q E \<Longrightarrow> triple P (Let x m) Q E"
  by simp

text \<open>A loop, with an invariant over the elements done.\<close>

lemma triple_fold:
  assumes "\<And>ys x b. (\<exists>zs. xs = ys @ x # zs) \<Longrightarrow>
      triple (I ys b) (f x b) (\<lambda>b'. I (ys @ [x]) b') E"
  shows "triple (I [] b) (io_fold f xs b) (\<lambda>b'. I xs b') E"
proof -
  have "triple (I ys b) (io_fold f zs b) (\<lambda>b'. I xs b') E" if "xs = ys @ zs" for ys zs b
    using that
  proof (induction zs arbitrary: ys b)
    case Nil
    then show ?case by (simp add: triple_def)
  next
    case (Cons x zs)
    have "triple (I ys b) (f x b) (\<lambda>b'. I (ys @ [x]) b') E" by (rule assms) (use Cons.prems in blast)
    moreover have "triple (I (ys @ [x]) b') (io_fold f zs b') (\<lambda>b'. I xs b') E" for b'
      by (rule Cons.IH) (simp add: Cons.prems)
    ultimately show ?case by (simp add: triple_then)
  qed
  from this [of "[]" xs b] show ?thesis by simp
qed

text \<open>The frequent case: an assertion on the state that every operation keeps, errors included.\<close>

definition keeps :: "('s \<Rightarrow> bool) \<Rightarrow> ('s, 'e, 'a) io \<Rightarrow> bool" where
  "keeps I m \<longleftrightarrow> triple I m (\<lambda>_. I) (\<lambda>_. I)"

named_theorems keeps_rules \<open>operations that keep an assertion\<close>

lemma keepsI: "(\<And>s r t. I s \<Longrightarrow> m s = (r, t) \<Longrightarrow> I t) \<Longrightarrow> keeps I m"
  by (fastforce simp: keeps_def intro!: tripleI)

lemma keepsD: "keeps I m \<Longrightarrow> I s \<Longrightarrow> m s = (r, t) \<Longrightarrow> I t"
  by (cases r) (auto simp: keeps_def dest: tripleD)

lemma keeps_return [keeps_rules]: "keeps I (io_return x)"
  and keeps_throw [keeps_rules]: "keeps I (io_throw e)"
  and keeps_lift [keeps_rules]: "keeps I (io_lift r)"
  by (auto simp: keeps_def intro: triple_return triple_throw triple_lift)

lemma keeps_then [keeps_rules]: "keeps I m \<Longrightarrow> (\<And>x. keeps I (k x)) \<Longrightarrow> keeps I (io_then m k)"
  by (auto simp: keeps_def intro: triple_then)

lemma keeps_map_err [keeps_rules]: "keeps I m \<Longrightarrow> keeps I (io_map_err g m)"
  by (auto simp: keeps_def intro: triple_map_err)

lemma keeps_if [keeps_rules]: "(b \<Longrightarrow> keeps I m) \<Longrightarrow> (\<not> b \<Longrightarrow> keeps I n) \<Longrightarrow> keeps I (if b then m else n)"
  by simp

lemma keeps_case_option [keeps_rules]:
  "(x = None \<Longrightarrow> keeps I m) \<Longrightarrow> (\<And>y. x = Some y \<Longrightarrow> keeps I (n y)) \<Longrightarrow>
    keeps I (case x of None \<Rightarrow> m | Some y \<Rightarrow> n y)"
  by (cases x) auto

lemma keeps_case_prod [keeps_rules]:
  "(\<And>a b. x = (a, b) \<Longrightarrow> keeps I (m a b)) \<Longrightarrow> keeps I (case x of (a, b) \<Rightarrow> m a b)"
  by (cases x) auto

lemma keeps_fold [keeps_rules]:
  "(\<And>x b. x \<in> set xs \<Longrightarrow> keeps I (f x b)) \<Longrightarrow> keeps I (io_fold f xs b)"
  by (induction xs arbitrary: b) (auto intro: keeps_rules)

section \<open>Sequences of events\<close>

text \<open>Every event is justified by the events before it.\<close>

definition each_after :: "('a list \<Rightarrow> 'a \<Rightarrow> bool) \<Rightarrow> 'a list \<Rightarrow> bool" where
  "each_after P evs \<longleftrightarrow> (\<forall>i<length evs. P (take i evs) (evs ! i))"

lemma each_after_Nil [simp]: "each_after P []"
  by (simp add: each_after_def)

lemma each_after_snoc [simp]: "each_after P (evs @ [e]) \<longleftrightarrow> each_after P evs \<and> P evs e"
  by (auto simp: each_after_def nth_append less_Suc_eq)

lemma each_after_mono: "each_after P evs \<Longrightarrow> (\<And>es e. P es e \<Longrightarrow> Q es e) \<Longrightarrow> each_after Q evs"
  by (simp add: each_after_def)

lemma each_after_append:
  assumes "each_after P es" and "each_after Q fs" and "\<And>gs e. e \<in> set fs \<Longrightarrow> Q gs e \<Longrightarrow> P (es @ gs) e"
  shows "each_after P (es @ fs)"
  using assms(2,3)
proof (induction fs rule: rev_induct)
  case (snoc f fs)
  then have "each_after P (es @ fs)" by simp
  moreover have "P (es @ fs) f" using snoc.prems by simp
  ultimately show ?case using each_after_snoc [of P "es @ fs" f] by simp
qed (simp add: assms(1))

section \<open>Operations whose result is inspected\<close>

text \<open>
  \<open>yields P q Q\<close>: from a state with \<open>P\<close>, \<open>q\<close> gives a value and a state with \<open>Q\<close>.  Used for the
  handlers that inspect every result themselves and return no error; the rules follow the
  shape \<open>case q s of (x, t) \<Rightarrow> \<dots>\<close>.
\<close>

definition yields :: "('s \<Rightarrow> bool) \<Rightarrow> ('s \<Rightarrow> 'a \<times> 's) \<Rightarrow> ('a \<Rightarrow> 's \<Rightarrow> bool) \<Rightarrow> bool" where
  "yields P q Q \<longleftrightarrow> (\<forall>s. P s \<longrightarrow> (case q s of (x, t) \<Rightarrow> Q x t))"

lemma yieldsI: "(\<And>s x t. P s \<Longrightarrow> q s = (x, t) \<Longrightarrow> Q x t) \<Longrightarrow> yields P q Q"
  by (auto simp: yields_def)

lemma yieldsD: "yields P q Q \<Longrightarrow> P s \<Longrightarrow> q s = (x, t) \<Longrightarrow> Q x t"
  by (auto simp: yields_def)

lemma yields_result: "yields P q Q \<Longrightarrow> P s \<Longrightarrow> case q s of (x, t) \<Rightarrow> Q x t"
  by (simp add: yields_def)

lemma yields_weaken:
  "yields P q Q \<Longrightarrow> (\<And>s. P' s \<Longrightarrow> P s) \<Longrightarrow> (\<And>x s. Q x s \<Longrightarrow> Q' x s) \<Longrightarrow> yields P' q Q'"
  by (fastforce simp: yields_def)

lemma yields_case:
  "yields P q R \<Longrightarrow> (\<And>x. yields (R x) (k x) Q) \<Longrightarrow> yields P (\<lambda>s. case q s of (x, t) \<Rightarrow> k x t) Q"
  by (fastforce simp: yields_def split: prod.splits)

lemma yields_return: "(\<And>s. P s \<Longrightarrow> Q x s) \<Longrightarrow> yields P (\<lambda>s. (x, s)) Q"
  by (simp add: yields_def)

lemma yields_sum:
  "(\<And>e. r = Inl e \<Longrightarrow> yields P (f e) Q) \<Longrightarrow> (\<And>x. r = Inr x \<Longrightarrow> yields P (g x) Q) \<Longrightarrow>
    yields P (\<lambda>s. case r of Inl e \<Rightarrow> f e s | Inr x \<Rightarrow> g x s) Q"
  by (cases r) auto

lemma yields_bool:
  "(b \<Longrightarrow> yields P f Q) \<Longrightarrow> (\<not> b \<Longrightarrow> yields P g Q) \<Longrightarrow>
    yields P (\<lambda>s. case b of True \<Rightarrow> f s | False \<Rightarrow> g s) Q"
  by (cases b) auto

lemma yields_if:
  "(b \<Longrightarrow> yields P f Q) \<Longrightarrow> (\<not> b \<Longrightarrow> yields P g Q) \<Longrightarrow> yields P (\<lambda>s. if b then f s else g s) Q"
  by (cases b) auto

lemma yields_option:
  "(r = None \<Longrightarrow> yields P f Q) \<Longrightarrow> (\<And>x. r = Some x \<Longrightarrow> yields P (g x) Q) \<Longrightarrow>
    yields P (\<lambda>s. case r of None \<Rightarrow> f s | Some x \<Rightarrow> g x s) Q"
  by (cases r) auto

lemma yields_pair:
  "(\<And>a b. r = (a, b) \<Longrightarrow> yields P (f a b) Q) \<Longrightarrow> yields P (\<lambda>s. case r of (a, b) \<Rightarrow> f a b s) Q"
  by (cases r) auto

lemmas yields_rules = yields_case yields_return yields_sum yields_bool yields_if yields_option yields_pair

section \<open>Recording calls\<close>

text \<open>
  A call on a state with a log: the event, made from the result, is appended.  A query is a call
  that leaves no event.
\<close>

type_synonym ('o, 'a) query = "'o \<Rightarrow> 'a \<times> 'o"

definition record_call :: "('e + 'a \<Rightarrow> 'ev) \<Rightarrow> ('s, 'e, 'a) io \<Rightarrow> ('s \<times> 'ev list, 'e, 'a) io" where
  "record_call ev m = (\<lambda>(s, log). case m s of (r, s') \<Rightarrow> (r, (s', log @ [ev r])))"

definition record_query :: "('s, 'a) query \<Rightarrow> ('s \<times> 'ev list, 'a) query" where
  "record_query q = (\<lambda>(s, log). case q s of (x, s') \<Rightarrow> (x, (s', log)))"

lemma record_call_eq [simp]:
  "record_call ev m (s, log) = (case m s of (r, s') \<Rightarrow> (r, (s', log @ [ev r])))"
  by (simp add: record_call_def)

lemma record_call_snd: "record_call ev m s = (r, t) \<Longrightarrow> snd t = snd s @ [ev r]"
  by (auto simp: record_call_def split: prod.splits)

lemma record_query_snd: "record_query q s = (x, t) \<Longrightarrow> snd t = snd s"
  by (auto simp: record_query_def split: prod.splits)

section \<open>Traces\<close>

text \<open>
  A state whose second component is the sequence of events: since \<open>log0\<close> the events \<open>evs\<close> came,
  each allowed by \<open>ok\<close>, and \<open>R evs\<close> holds.
\<close>

definition traced ::
  "('ev list \<Rightarrow> 'ev \<Rightarrow> bool) \<Rightarrow> 'ev list \<Rightarrow> ('ev list \<Rightarrow> bool) \<Rightarrow> 'o \<times> 'ev list \<Rightarrow> bool" where
  "traced ok log0 R s \<longleftrightarrow> (\<exists>evs. snd s = log0 @ evs \<and> each_after ok evs \<and> R evs)"

text \<open>Assertions that hold of longer sequences too.\<close>

definition lasting :: "('ev list \<Rightarrow> bool) \<Rightarrow> bool" where
  "lasting R \<longleftrightarrow> (\<forall>evs es. R evs \<longrightarrow> R (evs @ es))"

lemma lasting_intros [intro]:
  "lasting (\<lambda>_. True)"
  "lasting (\<lambda>evs. ev \<in> set evs)"
  "lasting R \<Longrightarrow> lasting S \<Longrightarrow> lasting (\<lambda>evs. R evs \<and> S evs)"
  "lasting R \<Longrightarrow> lasting S \<Longrightarrow> lasting (\<lambda>evs. R evs \<or> S evs)"
  "(\<And>x. lasting (T x)) \<Longrightarrow> lasting (\<lambda>evs. \<exists>x. T x evs)"
  "lasting (\<lambda>_. b)"
  "(\<And>x. lasting (T x)) \<Longrightarrow> lasting (\<lambda>evs. \<forall>x\<in>A. T x evs)"
  unfolding lasting_def by auto

lemma traced_weaken: "traced ok log0 R s \<Longrightarrow> (\<And>evs. R evs \<Longrightarrow> S evs) \<Longrightarrow> traced ok log0 S s"
  by (auto simp: traced_def)

lemma traced_True: "traced ok log0 R s \<Longrightarrow> traced ok log0 (\<lambda>_. True) s"
  by (erule traced_weaken) simp

lemma traced_start: "R [] \<Longrightarrow> traced ok log (\<lambda>evs. R evs) (s, log)"
  by (auto simp: traced_def)

lemma traced_snoc:
  assumes "traced ok log0 R s" and "snd t = snd s @ [ev]" and "lasting R" and "\<And>evs. R evs \<Longrightarrow> ok evs ev"
  shows "traced ok log0 (\<lambda>evs. R evs \<and> ev \<in> set evs) t"
proof -
  obtain evs where evs: "snd s = log0 @ evs" "each_after ok evs" "R evs" using assms(1) by (auto simp: traced_def)
  moreover have "R (evs @ [ev])" using assms(3) evs(3) by (simp add: lasting_def)
  ultimately show ?thesis
    using assms(2,4) by (auto simp: traced_def intro!: exI [of _ "evs @ [ev]"])
qed

lemma traced_query: "yields (traced ok log0 R) (record_query q) (\<lambda>_. traced ok log0 R)"
  by (rule yieldsI) (auto simp: traced_def dest!: record_query_snd)

lemma traced_call:
  assumes "lasting R" and "\<And>evs r. R evs \<Longrightarrow> ok evs (ev r)"
  shows "yields (traced ok log0 R) (record_call ev m) (\<lambda>r. traced ok log0 (\<lambda>evs. R evs \<and> ev r \<in> set evs))"
  by (rule yieldsI) (use assms in \<open>blast intro: traced_snoc record_call_snd\<close>)

lemma triple_traced:
  assumes "lasting R" and "\<And>evs r. R evs \<Longrightarrow> ok evs (ev r)"
  shows "triple (traced ok log0 R) (record_call ev m)
    (\<lambda>x. traced ok log0 (\<lambda>evs. R evs \<and> ev (Inr x) \<in> set evs))
    (\<lambda>e. traced ok log0 (\<lambda>evs. R evs \<and> ev (Inl e) \<in> set evs))"
  by (rule tripleI) (use assms in \<open>blast intro: traced_snoc record_call_snd\<close>)+

text \<open>A counter that is not zero is positive.\<close>

lemma counter_positive [simp]: "0 < n \<longleftrightarrow> n \<noteq> 0" for n :: "'a :: len word"
  by (auto simp: word_neq_0_conv)

end
