(* ===== verification/Storage.thy ===== *)
theory Storage
  imports Topology Io_Logic
begin

text \<open>
  \<open>wg-server/src/storage.rs\<close>.  The trait \<open>Storage\<close> is a record of operations over an
  unspecified store \<open>'s\<close>; the program's algorithms take it as an argument.  Modelled after it:
  the in-memory \<open>MockStorage\<close>, and \<open>R2Client\<close> over the SDK calls it makes.  \<open>recorded\<close> wraps
  any store so that it keeps the sequence of calls and their results: theorems about that
  sequence hold for every behaviour of the bucket, other writers included.  The locale
  \<open>storage_contract\<close> is what a store promises when nobody else writes; \<open>MockStorage\<close>
  satisfies it.
\<close>

datatype storage_error =
    GetError string string
  | PutError string string
  | ListError string string
  | DeleteError string string
  | MissingETag string

datatype put_outcome = Written string | PreconditionFailed

record fetched_object =
  fo_bytes :: string
  fo_etag :: string

text \<open>Times are nanoseconds since the epoch.\<close>

record 's storage =
  get_object :: "string \<Rightarrow> ('s, storage_error, fetched_object option) io"
  put_if_absent :: "string \<Rightarrow> string \<Rightarrow> string \<Rightarrow> ('s, storage_error, put_outcome) io"
  put_if_match :: "string \<Rightarrow> string \<Rightarrow> string \<Rightarrow> string \<Rightarrow> ('s, storage_error, put_outcome) io"
  list_all_keys :: "string \<Rightarrow> ('s, storage_error, string list) io"
  list_all_with_last_modified :: "string \<Rightarrow> ('s, storage_error, (string \<times> nat) list) io"
  delete_object :: "string \<Rightarrow> ('s, storage_error, unit) io"

section \<open>The in-memory store\<close>

record entry =
  e_bytes :: string
  e_etag :: string
  e_created_at :: nat

text \<open>The map's iteration order is by key; \<open>ms_now\<close> is the clock.\<close>

record mock_storage =
  ms_objects :: "(string, entry) btree_map"
  ms_next_etag :: "64 word"
  ms_fail_next_puts :: "32 word"
  ms_now :: nat

definition fresh_etag :: "mock_storage \<Rightarrow> string \<times> mock_storage" where
  "fresh_etag m =
     (let n = ms_next_etag m + 1 in (''etag-'' @ show_nat (unat n), m\<lparr>ms_next_etag := n\<rparr>))"

definition object_count :: "mock_storage \<Rightarrow> nat" where
  "object_count m = length (ms_objects m)"

definition backdate :: "string \<Rightarrow> nat \<Rightarrow> mock_storage \<Rightarrow> mock_storage" where
  "backdate key age m =
     (case bt_get (ms_objects m) key of
        None \<Rightarrow> m
      | Some e \<Rightarrow> m\<lparr>ms_objects := bt_insert key (e\<lparr>e_created_at := e_created_at e - age\<rparr>) (ms_objects m)\<rparr>)"

definition mock_get_object :: "string \<Rightarrow> (mock_storage, storage_error, fetched_object option) io" where
  "mock_get_object key m =
     (Inr (map_option (\<lambda>e. \<lparr>fo_bytes = e_bytes e, fo_etag = e_etag e\<rparr>) (bt_get (ms_objects m) key)), m)"

text \<open>The injected failure both writes start with, and the insertion both end with.\<close>

definition mock_may_fail :: "string \<Rightarrow> (mock_storage, storage_error, put_outcome) io
    \<Rightarrow> (mock_storage, storage_error, put_outcome) io" where
  "mock_may_fail key k m =
     (if ms_fail_next_puts m > 0
      then (Inl (PutError key ''injected failure''), m\<lparr>ms_fail_next_puts := ms_fail_next_puts m - 1\<rparr>)
      else k m)"

definition mock_write :: "string \<Rightarrow> string \<Rightarrow> (mock_storage, storage_error, put_outcome) io" where
  "mock_write key body m =
     (case fresh_etag m of (etag, m') \<Rightarrow>
        (Inr (Written etag),
         m'\<lparr>ms_objects := bt_insert key \<lparr>e_bytes = body, e_etag = etag, e_created_at = ms_now m\<rparr> (ms_objects m')\<rparr>))"

definition mock_put_if_absent ::
  "string \<Rightarrow> string \<Rightarrow> string \<Rightarrow> (mock_storage, storage_error, put_outcome) io" where
  "mock_put_if_absent key body content_type =
     mock_may_fail key (\<lambda>m.
       if bt_get (ms_objects m) key \<noteq> None then (Inr PreconditionFailed, m)
       else mock_write key body m)"

definition mock_put_if_match ::
  "string \<Rightarrow> string \<Rightarrow> string \<Rightarrow> string \<Rightarrow> (mock_storage, storage_error, put_outcome) io" where
  "mock_put_if_match key body content_type etag =
     mock_may_fail key (\<lambda>m.
       if map_option e_etag (bt_get (ms_objects m) key) \<noteq> Some etag then (Inr PreconditionFailed, m)
       else mock_write key body m)"

definition mock_list_all :: "string \<Rightarrow> (mock_storage, storage_error, string list) io" where
  "mock_list_all prefix m = (Inr (filter (starts_with prefix) (bt_keys (ms_objects m))), m)"

definition mock_list_all_with_last_modified ::
  "string \<Rightarrow> (mock_storage, storage_error, (string \<times> nat) list) io" where
  "mock_list_all_with_last_modified prefix m =
     (Inr (map (\<lambda>(k, e). (k, e_created_at e)) (filter (\<lambda>(k, _). starts_with prefix k) (ms_objects m))), m)"

definition mock_delete_object :: "string \<Rightarrow> (mock_storage, storage_error, unit) io" where
  "mock_delete_object key m = (Inr (), m\<lparr>ms_objects := filter (\<lambda>(k, _). k \<noteq> key) (ms_objects m)\<rparr>)"

definition mock :: "mock_storage storage" where
  "mock = \<lparr>get_object = mock_get_object, put_if_absent = mock_put_if_absent,
     put_if_match = mock_put_if_match, list_all_keys = mock_list_all,
     list_all_with_last_modified = mock_list_all_with_last_modified,
     delete_object = mock_delete_object\<rparr>"

section \<open>The client of the real bucket\<close>

text \<open>
  An \<open>SdkError\<close> has the raw response's status, if there was a response, and a text.  The SDK's
  calls are parameters; \<open>gr_body\<close> is what collecting the body gives.
\<close>

record sdk_error =
  se_status :: "nat option"
  se_text :: string

record get_response =
  gr_e_tag :: "string option"
  gr_content_length :: "int option"
  gr_body :: "string + string"

record list_entry =
  le_key :: "string option"
  le_last_modified :: "(int \<times> nat) option"

record list_page =
  lp_contents :: "list_entry list"
  lp_next_token :: "string option"

record put_request =
  pr_key :: string
  pr_body :: string
  pr_content_type :: string
  pr_cache_control :: string
  pr_if_none_match :: "string option"
  pr_if_match :: "string option"

record 's sdk =
  sdk_get :: "string \<Rightarrow> ('s, sdk_error, get_response) io"
  sdk_put :: "put_request \<Rightarrow> ('s, sdk_error, string option) io"
  sdk_list :: "string \<Rightarrow> string option \<Rightarrow> ('s, sdk_error, list_page) io"
  sdk_delete :: "string \<Rightarrow> ('s, sdk_error, unit) io"

text \<open>
  What a client is built from: the SDK's configuration, with the credentials of the file and of
  no other source, and the bucket its requests name.
\<close>

definition RETRY_MAX_ATTEMPTS :: nat where "RETRY_MAX_ATTEMPTS = 5"

record sdk_config =
  sc_access_key_id :: string
  sc_secret_access_key :: string
  sc_session_token :: "string option"
  sc_provider_name :: string
  sc_region :: string
  sc_endpoint_url :: string
  sc_force_path_style :: bool
  sc_max_attempts :: nat

record r2_client =
  rc_config :: sdk_config
  rc_bucket :: string

definition r2_client_new :: "r2_config \<Rightarrow> r2_client" where
  "r2_client_new cfg =
     \<lparr>rc_config = \<lparr>sc_access_key_id = r2_access_key_id cfg, sc_secret_access_key = r2_secret_access_key cfg,
         sc_session_token = r2_session_token cfg, sc_provider_name = ''wg-server-config'',
         sc_region = r2_region cfg, sc_endpoint_url = r2_endpoint cfg, sc_force_path_style = True,
         sc_max_attempts = RETRY_MAX_ATTEMPTS\<rparr>,
      rc_bucket = r2_bucket cfg\<rparr>"

definition is_not_found :: "sdk_error \<Rightarrow> bool" where
  "is_not_found err = (case se_status err of Some st \<Rightarrow> st = 404 | None \<Rightarrow> False)"

definition is_precondition_failed :: "sdk_error \<Rightarrow> bool" where
  "is_precondition_failed err = (case se_status err of Some st \<Rightarrow> st = 412 | None \<Rightarrow> False)"

definition datetime_to_system_time :: "int \<times> nat \<Rightarrow> nat" where
  "datetime_to_system_time dt = nat (max (fst dt) 0) * 1000000000 + snd dt"

text \<open>The answer of a write: the new ETag, if the response had one.\<close>

definition interpret_put :: "string \<Rightarrow> sdk_error + string option \<Rightarrow> storage_error + put_outcome" where
  "interpret_put key result =
     (case result of
        Inr e_tag \<Rightarrow> and_then (ok_or (MissingETag key) e_tag) (\<lambda>etag. Inr (Written etag))
      | Inl err \<Rightarrow>
          if is_precondition_failed err then Inr PreconditionFailed
          else Inl (PutError key (se_text err)))"

definition show_int :: "int \<Rightarrow> string" where
  "show_int i = (if i < 0 then CHR ''-'' # show_nat (nat (- i)) else show_nat (nat i))"

definition interpret_get :: "string \<Rightarrow> sdk_error + get_response \<Rightarrow> storage_error + fetched_object option" where
  "interpret_get key result =
     (case result of
        Inr resp \<Rightarrow>
          and_then (ok_or (MissingETag key) (gr_e_tag resp)) (\<lambda>etag.
          and_then (case gr_content_length resp of
              Some len \<Rightarrow>
                if len \<ge> 0 \<and> nat len \<le> MAX_DISCOVERY_JSON_BYTES then Inr ()
                else Inl (GetError key (''object is '' @ show_int len @ '' bytes, exceeding the ''
                       @ show_nat MAX_DISCOVERY_JSON_BYTES @ '' byte limit''))
            | None \<Rightarrow> Inl (GetError key ''response had no Content-Length'')) (\<lambda>_.
          and_then (map_err (GetError key) (gr_body resp)) (\<lambda>bytes.
          Inr (Some \<lparr>fo_bytes = bytes, fo_etag = etag\<rparr>))))
      | Inl err \<Rightarrow> if is_not_found err then Inr None else Inl (GetError key (se_text err)))"

definition r2_get_object :: "'s sdk \<Rightarrow> string \<Rightarrow> ('s, storage_error, fetched_object option) io" where
  "r2_get_object c key s = (case sdk_get c key s of (r, s') \<Rightarrow> (interpret_get key r, s'))"

definition r2_put_if_absent ::
  "'s sdk \<Rightarrow> string \<Rightarrow> string \<Rightarrow> string \<Rightarrow> ('s, storage_error, put_outcome) io" where
  "r2_put_if_absent c key body content_type s =
     (case sdk_put c \<lparr>pr_key = key, pr_body = body, pr_content_type = content_type,
         pr_cache_control = ''no-store'', pr_if_none_match = Some ''*'', pr_if_match = None\<rparr> s of
        (r, s') \<Rightarrow> (interpret_put key r, s'))"

definition r2_put_if_match ::
  "'s sdk \<Rightarrow> string \<Rightarrow> string \<Rightarrow> string \<Rightarrow> string \<Rightarrow> ('s, storage_error, put_outcome) io" where
  "r2_put_if_match c key body content_type etag s =
     (case sdk_put c \<lparr>pr_key = key, pr_body = body, pr_content_type = content_type,
         pr_cache_control = ''no-store'', pr_if_none_match = None, pr_if_match = Some etag\<rparr> s of
        (r, s') \<Rightarrow> (interpret_put key r, s'))"

text \<open>
  The listing loop asks for pages until one has no continuation token; a bucket that always
  sends one keeps it going, so the loops are partial and \<open>None\<close> is not returning.
\<close>

partial_function (option) list_loop ::
  "'s sdk \<Rightarrow> string \<Rightarrow> string option \<Rightarrow> list_entry list \<Rightarrow> 's
    \<Rightarrow> ((storage_error + list_entry list) \<times> 's) option" where
  "list_loop c prefix token acc s =
     (case sdk_list c prefix token s of
        (Inl e, s') \<Rightarrow> Some (Inl (ListError prefix (se_text e)), s')
      | (Inr page, s') \<Rightarrow>
          (case lp_next_token page of
             Some t \<Rightarrow> list_loop c prefix (Some t) (acc @ lp_contents page) s'
           | None \<Rightarrow> Some (Inr (acc @ lp_contents page), s')))"

definition r2_list_all :: "'s sdk \<Rightarrow> string \<Rightarrow> 's \<Rightarrow> ((storage_error + string list) \<times> 's) option" where
  "r2_list_all c prefix s =
     map_option (\<lambda>(r, s'). (and_then r (\<lambda>es. Inr (List.map_filter le_key es)), s'))
       (list_loop c prefix None [] s)"

definition r2_list_all_with_last_modified ::
  "'s sdk \<Rightarrow> string \<Rightarrow> 's \<Rightarrow> ((storage_error + (string \<times> nat) list) \<times> 's) option" where
  "r2_list_all_with_last_modified c prefix s =
     map_option (\<lambda>(r, s'). (and_then r (\<lambda>es. Inr (List.map_filter
         (\<lambda>e. case (le_key e, le_last_modified e) of
            (Some k, Some dt) \<Rightarrow> Some (k, datetime_to_system_time dt) | _ \<Rightarrow> None) es)), s'))
       (list_loop c prefix None [] s)"

definition r2_delete_object :: "'s sdk \<Rightarrow> string \<Rightarrow> ('s, storage_error, unit) io" where
  "r2_delete_object c key s = io_map_err (\<lambda>e. DeleteError key (se_text e)) (sdk_delete c key) s"

section \<open>Recording the calls\<close>

datatype event =
    Got string "storage_error + fetched_object option"
  | PutAbsent string string "storage_error + put_outcome"
  | PutMatch string string string "storage_error + put_outcome"
  | Listed string "storage_error + string list"
  | ListedTimes string "storage_error + (string \<times> nat) list"
  | Deleted string "storage_error + unit"

definition recorded :: "'s storage \<Rightarrow> ('s \<times> event list) storage" where
  "recorded st = \<lparr>
     get_object = (\<lambda>k. record_call (Got k) (get_object st k)),
     put_if_absent = (\<lambda>k b ct. record_call (PutAbsent k b) (put_if_absent st k b ct)),
     put_if_match = (\<lambda>k b ct et. record_call (PutMatch k b et) (put_if_match st k b ct et)),
     list_all_keys = (\<lambda>p. record_call (Listed p) (list_all_keys st p)),
     list_all_with_last_modified = (\<lambda>p. record_call (ListedTimes p) (list_all_with_last_modified st p)),
     delete_object = (\<lambda>k. record_call (Deleted k) (delete_object st k))\<rparr>"

definition writes :: "event \<Rightarrow> bool" where
  "writes ev = (case ev of PutAbsent _ _ _ \<Rightarrow> True | PutMatch _ _ _ _ \<Rightarrow> True | Deleted _ _ \<Rightarrow> True | _ \<Rightarrow> False)"

lemmas recorded_simps [simp] = recorded_def storage.simps

section \<open>What a store promises\<close>

text \<open>
  \<open>objs\<close> is the contents: a key's bytes and ETag.  A failed call may still have taken effect
  (a lost response).
\<close>

locale storage_contract =
  fixes st :: "'s storage" and objs :: "'s \<Rightarrow> string \<Rightarrow> (string \<times> string) option"
  assumes get_ok: "\<And>k s r s'. get_object st k s = (r, s') \<Longrightarrow> objs s' = objs s \<and>
      (\<forall>x. r = Inr x \<longrightarrow> map_option (\<lambda>f. (fo_bytes f, fo_etag f)) x = objs s k)"
    and put_absent_ok: "\<And>k b ct s r s'. put_if_absent st k b ct s = (r, s') \<Longrightarrow>
      (case r of
         Inr (Written e) \<Rightarrow> objs s k = None \<and> objs s' = (objs s)(k \<mapsto> (b, e))
       | Inr PreconditionFailed \<Rightarrow> objs s k \<noteq> None \<and> objs s' = objs s
       | Inl _ \<Rightarrow> objs s' = objs s \<or> (\<exists>e. objs s k = None \<and> objs s' = (objs s)(k \<mapsto> (b, e))))"
    and put_match_ok: "\<And>k b ct et s r s'. put_if_match st k b ct et s = (r, s') \<Longrightarrow>
      (case r of
         Inr (Written e) \<Rightarrow> (\<exists>b0. objs s k = Some (b0, et)) \<and> objs s' = (objs s)(k \<mapsto> (b, e))
       | Inr PreconditionFailed \<Rightarrow> (\<forall>b0. objs s k \<noteq> Some (b0, et)) \<and> objs s' = objs s
       | Inl _ \<Rightarrow> objs s' = objs s \<or>
           (\<exists>b0 e. objs s k = Some (b0, et) \<and> objs s' = (objs s)(k \<mapsto> (b, e))))"
    and list_ok: "\<And>p s r s'. list_all_keys st p s = (r, s') \<Longrightarrow> objs s' = objs s \<and>
      (\<forall>ks. r = Inr ks \<longrightarrow> set ks = {k \<in> dom (objs s). starts_with p k})"
    and list_modified_ok: "\<And>p s r s'. list_all_with_last_modified st p s = (r, s') \<Longrightarrow> objs s' = objs s \<and>
      (\<forall>ks. r = Inr ks \<longrightarrow> fst ` set ks = {k \<in> dom (objs s). starts_with p k})"
    and delete_ok: "\<And>k s r s'. delete_object st k s = (r, s') \<Longrightarrow>
      objs s' = (objs s)(k := None) \<or> (\<exists>e. r = Inl e) \<and> objs s' = objs s"
begin

text \<open>An object disappears only when its own key is deleted.\<close>

lemma put_keeps:
  assumes "put_if_absent st k b ct s = (r, s')" and "objs s k' = Some v"
  shows "objs s' k' = Some v"
  using put_absent_ok [OF assms(1)] assms(2) by (auto split: sum.splits put_outcome.splits)

lemma put_match_keeps:
  assumes "put_if_match st k b ct et s = (r, s')" and "k' \<noteq> k"
  shows "objs s' k' = objs s k'"
  using put_match_ok [OF assms(1)] assms(2) by (auto split: sum.splits put_outcome.splits)

lemma delete_keeps:
  assumes "delete_object st k s = (r, s')" and "k' \<noteq> k"
  shows "objs s' k' = objs s k'"
  using delete_ok [OF assms(1)] assms(2) by auto

end

definition mock_objs :: "mock_storage \<Rightarrow> string \<Rightarrow> (string \<times> string) option" where
  "mock_objs m k = map_option (\<lambda>e. (e_bytes e, e_etag e)) (bt_get (ms_objects m) k)"

lemma bt_get_filter: "bt_get (filter (\<lambda>(k, _). k \<noteq> key) m) k = (if k = key then None else bt_get m k)"
  by (induction m) (auto simp: bt_get_def)

lemma mock_write_objs:
  "mock_write key body m = (Inr (Written (''etag-'' @ show_nat (unat (ms_next_etag m + 1)))), m') \<Longrightarrow>
    mock_objs m' = (mock_objs m)(key \<mapsto> (body, ''etag-'' @ show_nat (unat (ms_next_etag m + 1))))"
  by (auto simp: mock_write_def fresh_etag_def Let_def mock_objs_def fun_eq_iff)

lemma mock_write_Inr:
  "fst (mock_write key body m) = Inr (Written (''etag-'' @ show_nat (unat (ms_next_etag m + 1))))"
  by (simp add: mock_write_def fresh_etag_def Let_def)

lemmas mock_defs = mock_def mock_get_object_def mock_put_if_absent_def mock_put_if_match_def
  mock_may_fail_def mock_list_all_def mock_list_all_with_last_modified_def mock_delete_object_def

lemma mock_objs_keys: "dom (mock_objs m) = set (bt_keys (ms_objects m))"
proof (rule set_eqI)
  fix k
  show "k \<in> dom (mock_objs m) \<longleftrightarrow> k \<in> set (bt_keys (ms_objects m))"
    using bt_get_None_keys [of "ms_objects m" k] by (simp add: domIff mock_objs_def)
qed

interpretation mock: storage_contract mock mock_objs
proof
  fix k b ct et p s s'
  show "get_object mock k s = (r, s') \<Longrightarrow> mock_objs s' = mock_objs s \<and>
      (\<forall>x. r = Inr x \<longrightarrow> map_option (\<lambda>f. (fo_bytes f, fo_etag f)) x = mock_objs s k)" for r
    by (auto simp: mock_defs mock_objs_def option.map_comp o_def)
  show "put_if_absent mock k b ct s = (r, s') \<Longrightarrow> (case r of
      Inr (Written e) \<Rightarrow> mock_objs s k = None \<and> mock_objs s' = (mock_objs s)(k \<mapsto> (b, e))
    | Inr PreconditionFailed \<Rightarrow> mock_objs s k \<noteq> None \<and> mock_objs s' = mock_objs s
    | Inl _ \<Rightarrow> mock_objs s' = mock_objs s \<or>
        (\<exists>e. mock_objs s k = None \<and> mock_objs s' = (mock_objs s)(k \<mapsto> (b, e))))" for r
    by (auto simp: mock_defs mock_objs_def mock_write_def fresh_etag_def Let_def fun_eq_iff split: if_splits)
  show "put_if_match mock k b ct et s = (r, s') \<Longrightarrow> (case r of
      Inr (Written e) \<Rightarrow> (\<exists>b0. mock_objs s k = Some (b0, et)) \<and> mock_objs s' = (mock_objs s)(k \<mapsto> (b, e))
    | Inr PreconditionFailed \<Rightarrow> (\<forall>b0. mock_objs s k \<noteq> Some (b0, et)) \<and> mock_objs s' = mock_objs s
    | Inl _ \<Rightarrow> mock_objs s' = mock_objs s \<or>
        (\<exists>b0 e. mock_objs s k = Some (b0, et) \<and> mock_objs s' = (mock_objs s)(k \<mapsto> (b, e))))" for r
    by (auto simp: mock_defs mock_objs_def mock_write_def fresh_etag_def Let_def fun_eq_iff split: if_splits)
  show "list_all_keys mock p s = (r, s') \<Longrightarrow> mock_objs s' = mock_objs s \<and>
      (\<forall>ks. r = Inr ks \<longrightarrow> set ks = {k \<in> dom (mock_objs s). starts_with p k})" for r
    by (auto simp: mock_defs mock_objs_keys)
  show "list_all_with_last_modified mock p s = (r, s') \<Longrightarrow> mock_objs s' = mock_objs s \<and>
      (\<forall>ks. r = Inr ks \<longrightarrow> fst ` set ks = {k \<in> dom (mock_objs s). starts_with p k})" for r
    unfolding mock_objs_keys by (force simp: mock_defs bt_keys_def image_iff)
  show "delete_object mock k s = (r, s') \<Longrightarrow>
      mock_objs s' = (mock_objs s)(k := None) \<or> (\<exists>e. r = Inl e) \<and> mock_objs s' = mock_objs s" for r
    by (auto simp: mock_defs mock_objs_def bt_get_filter fun_eq_iff)
qed

section \<open>The bucket's answers\<close>

lemma interpret_get_Inr_Some:
  "interpret_get key r = Inr (Some f) \<longleftrightarrow>
    (\<exists>resp len. r = Inr resp \<and> gr_e_tag resp = Some (fo_etag f) \<and> gr_content_length resp = Some len \<and>
      0 \<le> len \<and> nat len \<le> MAX_DISCOVERY_JSON_BYTES \<and> gr_body resp = Inr (fo_bytes f))"
proof -
  have f: "f = \<lparr>fo_bytes = b, fo_etag = e\<rparr> \<longleftrightarrow> fo_bytes f = b \<and> fo_etag f = e" for b e
    by (cases f) auto
  show ?thesis
    by (cases r)
      (auto simp: interpret_get_def and_then_Inr_iff f eq_commute [of _ f] split: if_splits option.splits)
qed

text \<open>
  C35. Reading an object from the bucket: \<open>None\<close> is exactly a 404, and an object is returned only
  when the response has an ETag and reports a length within the limit, with the body
  collected after that check.  The conditional writes report \<open>PreconditionFailed\<close> exactly on a
  412 and \<open>Written\<close> exactly on a success with an ETag.
\<close>
theorem bucket_answers:
  "(interpret_get key r = Inr None \<longleftrightarrow> (\<exists>err. r = Inl err \<and> se_status err = Some 404)) \<and>
   (interpret_get key r = Inr (Some f) \<longleftrightarrow>
      (\<exists>resp len. r = Inr resp \<and> gr_e_tag resp = Some (fo_etag f) \<and> gr_content_length resp = Some len \<and>
        0 \<le> len \<and> nat len \<le> MAX_DISCOVERY_JSON_BYTES \<and> gr_body resp = Inr (fo_bytes f))) \<and>
   (interpret_put key p = Inr PreconditionFailed \<longleftrightarrow> (\<exists>err. p = Inl err \<and> se_status err = Some 412)) \<and>
   (interpret_put key p = Inr (Written e) \<longleftrightarrow> p = Inr (Some e))"
proof (intro conjI)
  show "interpret_get key r = Inr None \<longleftrightarrow> (\<exists>err. r = Inl err \<and> se_status err = Some 404)"
    by (cases r) (auto simp: interpret_get_def and_then_Inr_iff is_not_found_def split: option.splits)
  show "interpret_put key p = Inr PreconditionFailed \<longleftrightarrow> (\<exists>err. p = Inl err \<and> se_status err = Some 412)"
    by (cases p) (auto simp: interpret_put_def and_then_Inr_iff is_precondition_failed_def split: option.splits)
  show "interpret_put key p = Inr (Written e) \<longleftrightarrow> p = Inr (Some e)"
    by (cases p) (auto simp: interpret_put_def and_then_Inr_iff)
qed (rule interpret_get_Inr_Some)

text \<open>A finite chain of pages, each but the last with the token of the next.\<close>

inductive page_chain ::
  "'s sdk \<Rightarrow> string \<Rightarrow> string option \<Rightarrow> 's \<Rightarrow> list_page list \<Rightarrow> 's \<Rightarrow> bool" for c prefix where
  last_page: "sdk_list c prefix token s = (Inr page, s') \<Longrightarrow> lp_next_token page = None \<Longrightarrow>
    page_chain c prefix token s [page] s'"
| next_page: "sdk_list c prefix token s = (Inr page, s') \<Longrightarrow> lp_next_token page = Some t \<Longrightarrow>
    page_chain c prefix (Some t) s' pages s'' \<Longrightarrow> page_chain c prefix token s (page # pages) s''"

lemma list_loop_chain:
  "page_chain c prefix token s pages s' \<Longrightarrow>
    list_loop c prefix token acc s = Some (Inr (acc @ concat (map lp_contents pages)), s')"
  by (induction arbitrary: acc rule: page_chain.induct) (simp_all add: list_loop.simps)

lemma list_loop_result:
  "list_loop c prefix token acc s = Some y \<Longrightarrow> y = (Inr es, s') \<Longrightarrow>
    \<exists>pages. page_chain c prefix token s pages s' \<and> es = acc @ concat (map lp_contents pages)"
proof (induct arbitrary: es s' rule: list_loop.raw_induct [rotated 1, consumes 1, case_names step])
  case (step loop c prefix token acc s y)
  obtain r t where l: "sdk_list c prefix token s = (r, t)" by fastforce
  show ?case
  proof (cases r)
    case (Inl e)
    with step l show ?thesis by auto
  next
    case (Inr page)
    show ?thesis
    proof (cases "lp_next_token page")
      case None
      with step Inr l have "page_chain c prefix token s [page] s'" "es = acc @ lp_contents page"
        by (auto intro: last_page)
      then show ?thesis by (intro exI [of _ "[page]"]) simp
    next
      case (Some n)
      with step(2) Inr l have "loop c prefix (Some n) (acc @ lp_contents page) t = Some y" by simp
      from step(1) [OF this step(3)] obtain pages where
        "page_chain c prefix (Some n) t pages s'"
        "es = (acc @ lp_contents page) @ concat (map lp_contents pages)" by blast
      with l Inr Some show ?thesis
        by (intro exI [of _ "page # pages"]) (auto intro: next_page)
    qed
  qed
qed

text \<open>
  C36. Listing returns the keys of all pages in order exactly when the bucket sends a finite
  chain of pages without an error; nothing is skipped at a page boundary.
\<close>
theorem listing_all_pages:
  "r2_list_all c prefix s = Some (Inr keys, s') \<longleftrightarrow>
    (\<exists>pages. page_chain c prefix None s pages s' \<and>
      keys = List.map_filter le_key (concat (map lp_contents pages)))"
proof
  assume "r2_list_all c prefix s = Some (Inr keys, s')"
  then obtain r where "list_loop c prefix None [] s = Some (r, s')"
    "and_then r (\<lambda>es. Inr (List.map_filter le_key es)) = Inr keys"
    by (auto simp: r2_list_all_def)
  then show "\<exists>pages. page_chain c prefix None s pages s' \<and>
      keys = List.map_filter le_key (concat (map lp_contents pages))"
    by (auto simp: and_then_Inr_iff dest: list_loop_result)
qed (auto simp: r2_list_all_def dest: list_loop_chain [where acc = "[]"])

end
