(* ===== verification/Base32.thy ===== *)
theory Base32
  imports Rust_Str
begin

text \<open>
  \<open>wg-common/src/base32.rs\<close>: Crockford Base32 of a 32-byte value read as one big-endian
  256-bit integer.  The loops run on \<open>u8\<close>/\<open>u16\<close> words as in the source; the lemmas relate
  them to the number the bytes denote, which gives the round trips and the exact set of
  texts that are accepted.
\<close>

unbundle bit_operations_syntax

section \<open>The code\<close>

definition ALPHABET :: string where
  "ALPHABET = ''0123456789abcdefghjkmnpqrstvwxyz''"

definition ENCODED_LEN :: nat where
  "ENCODED_LEN = 52"

datatype base32_error = WrongLength nat | InvalidChar nat nat | Overflow

text \<open>One pass of \<open>encode\<close>: the long division of \<open>num\<close> by 32.\<close>

fun div_pass :: "16 word \<Rightarrow> 8 word list \<Rightarrow> 8 word list \<times> 16 word" where
  "div_pass rem [] = ([], rem)"
| "div_pass rem (b # bs) =
     (let cur = push_bit 8 rem OR ucast b in
      case div_pass (cur mod 32) bs of (q, r) \<Rightarrow> (ucast (cur div 32) # q, r))"

fun encode_slots :: "nat \<Rightarrow> 8 word list \<Rightarrow> string \<Rightarrow> string" where
  "encode_slots 0 num digits = digits"
| "encode_slots (Suc n) num digits =
     (case div_pass 0 num of (q, r) \<Rightarrow> encode_slots n q ((ALPHABET ! unat r) # digits))"

definition encode :: "8 word list \<Rightarrow> string" where
  "encode bytes = encode_slots ENCODED_LEN bytes []"

text \<open>One pass of \<open>decode\<close> over the accumulator's bytes, the last one first.\<close>

fun mul_pass :: "16 word \<Rightarrow> 8 word list \<Rightarrow> 8 word list \<times> 16 word" where
  "mul_pass carry [] = ([], carry)"
| "mul_pass carry (b # bs) =
     (let cur = ucast b * 32 + carry in
      case mul_pass (drop_bit 8 cur) bs of (bs', c) \<Rightarrow> (ucast cur # bs', c))"

text \<open>\<open>ch as u8\<close> keeps the low byte of the scalar value.\<close>

definition decode_step :: "nat \<times> nat \<Rightarrow> 8 word list \<Rightarrow> base32_error + 8 word list" where
  "decode_step = (\<lambda>(i, ch) acc.
     and_then (ok_or (InvalidChar ch i) (position (\<lambda>a. byte a = ch mod 256) ALPHABET)) (\<lambda>digit.
     case mul_pass (of_nat digit) (rev acc) of (acc', carry) \<Rightarrow>
       guard_err (carry \<noteq> 0) Overflow (Inr (rev acc'))))"

definition decode :: "string \<Rightarrow> base32_error + 8 word list" where
  "decode s =
     (let cs = chars s in
      guard_err (length cs \<noteq> ENCODED_LEN) (WrongLength (length cs))
        (fold_res decode_step (List.enumerate 0 cs) (replicate 32 0)))"

definition is_canonical :: "string \<Rightarrow> bool" where
  "is_canonical s \<longleftrightarrow>
     is_ok (decode s) \<and> (case s of [] \<Rightarrow> False | c # _ \<Rightarrow> c = CHR ''0'' \<or> c = CHR ''1'')"

text \<open>
  \<open>random_id\<close> consumes the next 32 bytes of the operating system's generator, which is the
  function \<open>csprng\<close> of the number of draws made so far.
\<close>

definition random_id :: "(nat \<Rightarrow> 8 word list) \<Rightarrow> nat \<Rightarrow> string \<times> nat" where
  "random_id csprng draws = (encode (csprng draws), Suc draws)"

section \<open>Words and the numbers they denote\<close>

fun be_value :: "8 word list \<Rightarrow> nat" where
  "be_value [] = 0"
| "be_value (b # bs) = unat b * 256 ^ length bs + be_value bs"

lemma unat8: "unat (b :: 8 word) < 256"
  by (rule less_le_trans [OF unsigned_less]) simp

lemma unat16: "unat (c :: 16 word) < 65536"
  by (rule less_le_trans [OF unsigned_less]) simp

lemma unat_widen [simp]: "unat (ucast (b :: 8 word) :: 16 word) = unat b"
  using unat8 [of b] by (simp add: unsigned_ucast_eq take_bit_nat_eq_self)

lemma unat_narrow: "unat (ucast (c :: 16 word) :: 8 word) = unat c mod 256"
  by (simp add: unsigned_ucast_eq take_bit_eq_mod)

lemma unat_plus_16: "unat a + unat b < 65536 \<Longrightarrow> unat (a + b :: 16 word) = unat a + unat b"
  by (simp add: unat_word_ariths)

lemma unat_mult_16: "unat a * unat b < 65536 \<Longrightarrow> unat (a * b :: 16 word) = unat a * unat b"
  by (simp add: unat_word_ariths)

lemma be_value_bound: "be_value bs < 256 ^ length bs"
proof (induction bs)
  case (Cons b bs)
  have "unat b * 256 ^ length bs + be_value bs < (unat b + 1) * 256 ^ length bs"
    using Cons by simp
  also have "\<dots> \<le> 256 * 256 ^ length bs"
    using unat8 [of b] by (intro mult_right_mono) linarith+
  finally show ?case by simp
qed simp

lemma be_value_append: "be_value (a @ b) = be_value a * 256 ^ length b + be_value b"
  by (induction a) (auto simp: algebra_simps power_add)

lemma be_value_inject:
  "length a = length b \<Longrightarrow> be_value a = be_value b \<Longrightarrow> a = b"
proof (induction a b rule: list_induct2)
  case (Cons x xs y ys)
  have b: "be_value xs < 256 ^ length xs" "be_value ys < 256 ^ length xs"
    using be_value_bound [of xs] be_value_bound [of ys] Cons.hyps by simp_all
  have eq: "unat x * 256 ^ length xs + be_value xs = unat y * 256 ^ length xs + be_value ys"
    using Cons.prems Cons.hyps by simp
  have "unat x = (unat x * 256 ^ length xs + be_value xs) div 256 ^ length xs"
    using b by simp
  also have "\<dots> = unat y" unfolding eq using b by simp
  finally have "unat x = unat y" .
  moreover from this eq have "be_value xs = be_value ys" by simp
  ultimately show ?case using Cons.IH by (simp add: word_unat_eq_iff)
qed simp

section \<open>The two passes\<close>

lemma shift_or:
  assumes "unat rem < 32"
  shows "unat (push_bit 8 rem OR ucast (b :: 8 word) :: 16 word) = unat rem * 256 + unat b"
proof -
  have "push_bit 8 (unat rem) AND unat b = 0"
  proof (rule bit_eqI)
    fix n
    have "n < 8" if "bit (unat b) n"
    proof (rule ccontr)
      assume "\<not> n < 8"
      then have "(256 :: nat) \<le> 2 ^ n"
        using power_increasing [of 8 n "2 :: nat"] by simp
      with unat8 [of b] have "unat b < 2 ^ n" by linarith
      then have "unat b div 2 ^ n = 0" by (rule div_less)
      with that show False by (simp add: bit_iff_odd)
    qed
    then show "bit (push_bit 8 (unat rem) AND unat b) n \<longleftrightarrow> bit (0 :: nat) n"
      by (auto simp: bit_simps)
  qed
  then have "push_bit 8 (unat rem) OR unat b = unat rem * 256 + unat b"
    by (simp add: disjunctive_add_eq_or [symmetric] push_bit_eq_mult)
  moreover have "unat (push_bit 8 rem) = push_bit 8 (unat rem)"
    unfolding unsigned_push_bit_eq
    using assms by (simp add: push_bit_eq_mult take_bit_nat_eq_self)
  ultimately show ?thesis by (simp add: unsigned_or_eq)
qed

lemma div_pass_correct:
  assumes "unat rem < 32" and "div_pass rem bs = (q, r)"
  shows "length q = length bs \<and> unat r < 32 \<and>
    be_value q * 32 + unat r = unat rem * 256 ^ length bs + be_value bs"
  using assms
proof (induction bs arbitrary: rem q)
  case (Cons b bs)
  define cur where "cur = push_bit 8 rem OR (ucast b :: 16 word)"
  have cur: "unat cur = unat rem * 256 + unat b"
    unfolding cur_def by (rule shift_or [OF Cons.prems(1)])
  obtain q' where q: "div_pass (cur mod 32) bs = (q', r)" "q = ucast (cur div 32) # q'"
    using Cons.prems(2) by (auto simp: cur_def Let_def split: prod.splits)
  have m: "unat (cur mod 32) = unat cur mod 32" "unat (cur div 32) = unat cur div 32"
    by (simp_all add: unat_mod unat_div)
  then have IH: "length q' = length bs \<and> unat r < 32 \<and>
      be_value q' * 32 + unat r = (unat cur mod 32) * 256 ^ length bs + be_value bs"
    using Cons.IH [OF _ q(1)] by simp
  have "unat cur div 32 < 256" using cur Cons.prems(1) unat8 [of b] by linarith
  then have h: "unat (ucast (cur div 32) :: 8 word) = unat cur div 32"
    by (simp add: unat_narrow m)
  have "be_value q * 32 + unat r
      = (unat cur div 32 * 32) * 256 ^ length bs + (be_value q' * 32 + unat r)"
    using q(2) h IH by simp
  also have "\<dots> = (unat cur div 32 * 32 + unat cur mod 32) * 256 ^ length bs + be_value bs"
    using IH by (simp only: add_mult_distrib add.assoc)
  also have "\<dots> = unat cur * 256 ^ length bs + be_value bs"
    by (simp only: div_mult_mod_eq)
  also have "\<dots> = unat rem * 256 ^ length (b # bs) + be_value (b # bs)"
    by (simp add: cur algebra_simps)
  finally show ?case using IH q(2) by simp
qed simp

lemma mul_pass_correct:
  assumes "unat carry < 65536 - 8160" and "mul_pass carry bs = (bs', c)"
  shows "length bs' = length bs \<and>
    be_value (rev bs') + unat c * 256 ^ length bs = be_value (rev bs) * 32 + unat carry"
  using assms
proof (induction bs arbitrary: carry bs')
  case (Cons b bs)
  define cur where "cur = ucast b * 32 + carry"
  have "unat (ucast b * 32 :: 16 word) = unat b * 32"
    using unat8 [of b] by (subst unat_mult_16) simp_all
  then have cur: "unat cur = unat b * 32 + unat carry"
    unfolding cur_def using Cons.prems(1) unat8 [of b] by (subst unat_plus_16) auto
  obtain bs'' where p: "mul_pass (drop_bit 8 cur) bs = (bs'', c)" "bs' = ucast cur # bs''"
    using Cons.prems(2) by (auto simp: cur_def Let_def split: prod.splits)
  have d: "unat (drop_bit 8 cur) = unat cur div 256"
    by (simp add: drop_bit_eq_div unat_div)
  have "unat (drop_bit 8 cur) < 65536 - 8160" using d unat16 [of cur] by linarith
  then have IH: "length bs'' = length bs \<and>
      be_value (rev bs'') + unat c * 256 ^ length bs = be_value (rev bs) * 32 + unat cur div 256"
    using Cons.IH [OF _ p(1)] d by simp
  have "be_value (rev bs') + unat c * 256 ^ length (b # bs)
      = 256 * (be_value (rev bs'') + unat c * 256 ^ length bs) + unat cur mod 256"
    using p(2) by (simp add: be_value_append unat_narrow algebra_simps)
  also have "\<dots> = 256 * (be_value (rev bs) * 32) + (256 * (unat cur div 256) + unat cur mod 256)"
    using IH by (simp add: algebra_simps)
  also have "\<dots> = be_value (rev (b # bs)) * 32 + unat carry"
    by (simp add: cur be_value_append algebra_simps)
  finally show ?case using IH p(2) by simp
qed simp

section \<open>Radix-32 texts\<close>

fun digits32 :: "nat \<Rightarrow> nat \<Rightarrow> nat list" where
  "digits32 0 v = []"
| "digits32 (Suc n) v = digits32 n (v div 32) @ [v mod 32]"

definition val32 :: "nat \<Rightarrow> nat list \<Rightarrow> nat" where
  "val32 acc ds = foldl (\<lambda>n d. n * 32 + d) acc ds"

lemma val32_simps [simp]:
  "val32 acc [] = acc"
  "val32 acc (d # ds) = val32 (acc * 32 + d) ds"
  "val32 acc (ds @ [d]) = val32 acc ds * 32 + d"
  by (simp_all add: val32_def)

lemma length_digits32 [simp]: "length (digits32 n v) = n"
  by (induction n arbitrary: v) auto

lemma digits32_less: "d \<in> set (digits32 n v) \<Longrightarrow> d < 32"
  by (induction n arbitrary: v) auto

lemma val32_digits32: "val32 0 (digits32 n v) = v mod 32 ^ n"
proof (induction n arbitrary: v)
  case (Suc n)
  then show ?case
    by (simp add: mod_mult2_eq [of v 32 "32 ^ n"] mult.commute)
qed simp

lemma digits32_val32:
  "list_all (\<lambda>d. d < 32) ds \<Longrightarrow> digits32 (length ds) (val32 0 ds) = ds"
  by (induction ds rule: rev_induct) auto

lemma digits32_Cons: "digits32 (Suc n) v = v div 32 ^ n mod 32 # digits32 n v"
proof (induction n arbitrary: v)
  case (Suc n)
  have "digits32 (Suc (Suc n)) v = digits32 (Suc n) (v div 32) @ [v mod 32]"
    by (rule digits32.simps)
  also have "\<dots> = v div 32 div 32 ^ n mod 32 # digits32 n (v div 32) @ [v mod 32]"
    by (simp only: Suc append_Cons)
  finally show ?case by (simp add: div_mult2_eq [symmetric])
qed simp

lemma val32_mono: "acc \<le> val32 acc ds"
proof (induction ds arbitrary: acc)
  case (Cons d ds)
  have "acc \<le> acc * 32 + d" by simp
  also note Cons
  finally show ?case by simp
qed simp

lemma val32_bound:
  "list_all (\<lambda>d. d < 32) ds \<Longrightarrow> val32 acc ds < (acc + 1) * 32 ^ length ds"
proof (induction ds arbitrary: acc)
  case (Cons d ds)
  then have "val32 (acc * 32 + d) ds < (acc * 32 + d + 1) * 32 ^ length ds" by simp
  also have "\<dots> \<le> ((acc + 1) * 32) * 32 ^ length ds"
    using Cons.prems by (intro mult_right_mono) simp_all
  finally show ?case by (simp add: algebra_simps)
qed simp

fun be_bytes :: "nat \<Rightarrow> nat \<Rightarrow> 8 word list" where
  "be_bytes 0 v = []"
| "be_bytes (Suc n) v = be_bytes n (v div 256) @ [of_nat (v mod 256)]"

lemma be_bytes_value: "v < 256 ^ n \<Longrightarrow> length (be_bytes n v) = n \<and> be_value (be_bytes n v) = v"
proof (induction n arbitrary: v)
  case (Suc n)
  then have "v div 256 < 256 ^ n" by (simp add: less_mult_imp_div_less mult.commute)
  from Suc.IH [OF this] show ?case
    by (simp add: be_value_append unat_of_nat)
qed simp

section \<open>What the two functions compute\<close>

definition digit_of :: "nat \<Rightarrow> nat option" where
  "digit_of ch = position (\<lambda>a. byte a = ch mod 256) ALPHABET"

lemma ALPHABET_facts:
  "distinct ALPHABET" "length ALPHABET = 32" "list_all (\<lambda>c. byte c < 128) ALPHABET"
  by code_simp+

lemma digit_of_less: "digit_of ch = Some d \<Longrightarrow> d < 32"
  using ALPHABET_facts(2) by (auto simp: digit_of_def dest!: position_Some)

lemma digit_of_byte: "digit_of (byte c) = position (\<lambda>a. a = c) ALPHABET"
  by (simp add: digit_of_def)

lemma digit_of_nth: "d < 32 \<Longrightarrow> digit_of (byte (ALPHABET ! d)) = Some d"
  using position_nth [of ALPHABET d] by (simp add: digit_of_byte ALPHABET_facts)

lemma digit_of_SomeD: "digit_of (byte c) = Some d \<Longrightarrow> d < 32 \<and> c = ALPHABET ! d"
  using ALPHABET_facts(2) by (auto simp: digit_of_byte dest!: position_Some)

lemma encode_slots_digits:
  "encode_slots n num ds = map (\<lambda>d. ALPHABET ! d) (digits32 n (be_value num)) @ ds"
proof (induction n arbitrary: num ds)
  case (Suc n)
  obtain q r where p: "div_pass 0 num = (q, r)" by fastforce
  then have "unat r < 32 \<and> be_value q * 32 + unat r = be_value num"
    using div_pass_correct [of 0 num q r] by simp
  then have "be_value num div 32 = be_value q" "be_value num mod 32 = unat r"
    by (auto dest: sym)
  with p Suc show ?case by simp
qed simp

lemma encode_digits: "encode bs = map (\<lambda>d. ALPHABET ! d) (digits32 52 (be_value bs))"
  by (simp add: encode_def ENCODED_LEN_def encode_slots_digits)

lemma decode_step_Inr:
  "decode_step (i, ch) acc = Inr acc' \<longleftrightarrow>
    (\<exists>d. digit_of ch = Some d \<and> length acc' = length acc \<and> be_value acc' = be_value acc * 32 + d)"
proof (cases "digit_of ch")
  case (Some d)
  obtain q c where p: "mul_pass (of_nat d) (rev acc) = (q, c)" by fastforce
  have d: "unat (of_nat d :: 16 word) = d"
    using digit_of_less [OF Some] by (simp add: unat_of_nat)
  then have m: "length q = length acc"
    "be_value (rev q) + unat c * 256 ^ length acc = be_value acc * 32 + d"
    using mul_pass_correct [OF _ p] digit_of_less [OF Some] by simp_all
  have "decode_step (i, ch) acc = guard_err (c \<noteq> 0) Overflow (Inr (rev q))"
    using Some p by (simp add: decode_step_def digit_of_def)
  moreover have "acc' = rev q \<and> c = 0"
    if "length acc' = length acc" "be_value acc' = be_value acc * 32 + d"
  proof -
    have b: "be_value acc' < 256 ^ length acc" using be_value_bound [of acc'] that(1) by simp
    have "unat c = 0"
    proof (rule ccontr)
      assume "unat c \<noteq> 0"
      then have "(256 :: nat) ^ length acc \<le> unat c * 256 ^ length acc" by simp
      with b m(2) that(2) show False by linarith
    qed
    then show ?thesis
      using m that be_value_inject [of acc' "rev q"] by (simp add: unat_eq_0)
  qed
  moreover have "length (rev q) = length acc \<and> be_value (rev q) = be_value acc * 32 + d" if "c = 0"
    using m that by simp
  ultimately show ?thesis using Some by auto
qed (simp add: decode_step_def digit_of_def)

lemma decode_loop_Inr:
  "fold_res decode_step (List.enumerate k cs) acc = Inr acc' \<longleftrightarrow>
    (\<exists>ds. list_all2 (\<lambda>c d. digit_of c = Some d) cs ds \<and> length acc' = length acc \<and>
      be_value acc' = val32 (be_value acc) ds)"
proof (induction cs arbitrary: k acc)
  case Nil
  then show ?case using be_value_inject by auto
next
  case (Cons c cs)
  have "fold_res decode_step (List.enumerate k (c # cs)) acc = Inr acc' \<longleftrightarrow>
      (\<exists>mid. decode_step (k, c) acc = Inr mid \<and>
        fold_res decode_step (List.enumerate (Suc k) cs) mid = Inr acc')"
    by (simp add: and_then_Inr_iff)
  also have "\<dots> \<longleftrightarrow> (\<exists>d ds. digit_of c = Some d \<and> list_all2 (\<lambda>c d. digit_of c = Some d) cs ds \<and>
      length acc' = length acc \<and> be_value acc' = val32 (be_value acc * 32 + d) ds)"
    (is "?l \<longleftrightarrow> ?r")
  proof
    assume ?r
    then obtain d ds where d: "digit_of c = Some d" "list_all2 (\<lambda>c d. digit_of c = Some d) cs ds"
      "length acc' = length acc" "be_value acc' = val32 (be_value acc * 32 + d) ds" by blast
    have "be_value acc * 32 + d < 256 ^ length acc"
      using val32_mono [of "be_value acc * 32 + d" ds] be_value_bound [of acc'] d by simp
    from be_bytes_value [OF this] obtain mid
      where "length mid = length acc" "be_value mid = be_value acc * 32 + d" by blast
    with d show ?l by (auto simp: decode_step_Inr Cons.IH intro!: exI [of _ mid])
  qed (auto simp: decode_step_Inr Cons.IH)
  finally show ?case by (auto simp: list_all2_Cons1) (metis val32_simps(2))
qed

lemma be_value_zeros [simp]: "be_value (replicate n 0) = 0"
  by (induction n) auto

lemma decode_Inr:
  "decode s = Inr bs \<longleftrightarrow> length (chars s) = 52 \<and> length bs = 32 \<and>
    (\<exists>ds. list_all2 (\<lambda>c d. digit_of c = Some d) (chars s) ds \<and> be_value bs = val32 0 ds)"
  by (auto simp: decode_def Let_def ENCODED_LEN_def decode_loop_Inr)

lemma encode_ascii: "ascii (encode bs)"
  using ALPHABET_facts(2,3) digits32_less
  by (fastforce simp: encode_digits ascii_def list_all_iff)

text \<open>The texts of the documented shape, \<open>^[01][0-9abcdefghjkmnpqrstvwxyz]{51}$\<close>.\<close>

definition canonical_text :: "string \<Rightarrow> bool" where
  "canonical_text s \<longleftrightarrow>
     length s = 52 \<and> hd s \<in> {CHR ''0'', CHR ''1''} \<and> list_all (\<lambda>c. c \<in> set ALPHABET) s"

lemma canonical_text_digits:
  "canonical_text s \<longleftrightarrow>
    (\<exists>d ds. s = map (\<lambda>d. ALPHABET ! d) (d # ds) \<and> length ds = 51 \<and> d < 2 \<and> list_all (\<lambda>d. d < 32) ds)"
    (is "?l \<longleftrightarrow> ?r")
proof
  have a: "ALPHABET ! 0 = CHR ''0''" "ALPHABET ! 1 = CHR ''1''" by code_simp+
  {
    assume ?l
    then obtain c cs where s: "s = c # cs" "length cs = 51" "c = CHR ''0'' \<or> c = CHR ''1''"
      "list_all (\<lambda>c. c \<in> set ALPHABET) cs" by (cases s) (auto simp: canonical_text_def)
    define f where "f c = the (position (\<lambda>a. a = c) ALPHABET)" for c
    have f: "f c < 32 \<and> ALPHABET ! f c = c" if c: "c \<in> set ALPHABET" for c
    proof -
      obtain i where "position (\<lambda>a. a = c) ALPHABET = Some i"
        using c position_None [of "\<lambda>a. a = c" ALPHABET] by (cases "position (\<lambda>a. a = c) ALPHABET") auto
      with position_Some [OF this] show ?thesis by (simp add: f_def ALPHABET_facts)
    qed
    have "map (\<lambda>d. ALPHABET ! d) (map f cs) = cs" "list_all (\<lambda>d. d < 32) (map f cs)"
      using s(4) f by (auto simp: list_all_iff intro: map_idI)
    moreover have "\<exists>d < 2. ALPHABET ! d = c"
      using s(3) a by (elim disjE) (rule exI [of _ 0] exI [of _ 1]; simp)+
    ultimately show ?r using s by (metis length_map list.simps(9))
  next
    assume ?r
    then obtain d ds where s: "s = map (\<lambda>d. ALPHABET ! d) (d # ds)" "length ds = 51" "d < 2"
      "list_all (\<lambda>d. d < 32) ds" by blast
    have "d = 0 \<or> d = 1" using s(3) by linarith
    with s a show ?l by (auto simp: canonical_text_def list_all_iff ALPHABET_facts)
  }
qed

lemma canonical_value:
  assumes "length ds = 51" and "d < 2" and "list_all (\<lambda>d. d < 32) ds"
  shows "val32 0 (d # ds) < 256 ^ 32"
proof -
  have "val32 d ds < (d + 1) * 32 ^ 51" using val32_bound [OF assms(3)] assms(1) by simp
  also have "\<dots> \<le> 2 * 32 ^ 51" using assms(2) by (intro mult_right_mono) simp_all
  also have "\<dots> = 256 ^ 32" by simp
  finally show ?thesis by simp
qed

lemma encode_canonical_text:
  assumes "length bs = 32"
  shows "canonical_text (encode bs)"
proof -
  have "be_value bs < 2 * 32 ^ 51" using be_value_bound [of bs] assms by simp
  then have "be_value bs div 32 ^ 51 mod 32 < 2"
    by (simp add: less_mult_imp_div_less)
  moreover have "digits32 52 (be_value bs) = be_value bs div 32 ^ 51 mod 32 # digits32 51 (be_value bs)"
    using digits32_Cons [of 51] by simp
  ultimately show ?thesis
    unfolding canonical_text_digits encode_digits
    using digits32_less [of _ 51 "be_value bs"]
    by (intro exI conjI) (auto simp: list_all_iff)
qed

lemma decode_encode_bytes:
  assumes "length bs = 32"
  shows "decode (encode bs) = Inr bs"
proof -
  let ?ds = "digits32 52 (be_value bs)"
  have "be_value bs < 32 ^ 52" using be_value_bound [of bs] assms by simp
  then have v: "val32 0 ?ds = be_value bs" by (simp add: val32_digits32)
  have "list_all2 (\<lambda>c d. digit_of c = Some d) (map (\<lambda>d. byte (ALPHABET ! d)) ?ds) ?ds"
    unfolding list_all2_map1 list_all2_same using digits32_less digit_of_nth by blast
  moreover have "chars (encode bs) = map (\<lambda>d. byte (ALPHABET ! d)) ?ds"
    using chars_ascii [OF encode_ascii, of bs] by (simp add: encode_digits o_def)
  ultimately show ?thesis using v assms by (auto simp: decode_Inr)
qed

lemma canonical_text_decode:
  assumes "canonical_text s"
  shows "\<exists>bs. length bs = 32 \<and> encode bs = s"
proof -
  obtain d ds where s: "s = map (\<lambda>d. ALPHABET ! d) (d # ds)" "length ds = 51" "d < 2"
    "list_all (\<lambda>d. d < 32) ds" using assms canonical_text_digits by blast
  obtain bs where bs: "length bs = 32" "be_value bs = val32 0 (d # ds)"
    using be_bytes_value [OF canonical_value [OF s(2-4)]] by blast
  have "digits32 (length (d # ds)) (val32 0 (d # ds)) = d # ds"
    by (rule digits32_val32) (use s in auto)
  with bs s have "encode bs = s" by (simp add: encode_digits)
  with bs(1) show ?thesis by blast
qed

lemma is_canonical_ascii:
  assumes "ascii s"
  shows "is_canonical s \<longleftrightarrow> canonical_text s"
proof
  assume "canonical_text s"
  then obtain bs where bs: "length bs = 32" "encode bs = s" using canonical_text_decode by blast
  then have "decode s = Inr bs" using decode_encode_bytes by blast
  then show "is_canonical s"
    using \<open>canonical_text s\<close> by (cases s) (auto simp: is_canonical_def canonical_text_def)
next
  assume c: "is_canonical s"
  then obtain bs where "decode s = Inr bs" by (auto simp: is_canonical_def is_ok_iff)
  then obtain ds where l: "length s = 52" "list_all2 (\<lambda>c d. digit_of c = Some d) (map byte s) ds"
    by (auto simp: decode_Inr chars_ascii [OF assms])
  have "c \<in> set ALPHABET" if c: "c \<in> set s" for c
  proof -
    obtain d where "digit_of (byte c) = Some d"
      using l(2) c by (auto simp: list_all2_map1 list_all2_conv_all_nth in_set_conv_nth)
    then show ?thesis using digit_of_SomeD ALPHABET_facts(2) by fastforce
  qed
  with c l(1) show "canonical_text s"
    by (cases s) (auto simp: is_canonical_def canonical_text_def list_all_iff)
qed

section \<open>Properties\<close>

text \<open>
  C37. Encoding 32 bytes and decoding the text gives the bytes back, and the text has the
  documented shape: 52 characters of the lowercase alphabet, the first one 0 or 1.
\<close>
theorem base32_roundtrip:
  assumes "length bytes = 32"
  shows "decode (encode bytes) = Inr bytes \<and> canonical_text (encode bytes)"
  using assms by (simp add: decode_encode_bytes encode_canonical_text)

lemma base32_roundtrip_witness:
  "decode (encode (replicate 31 7 @ [255])) = Inr (replicate 31 7 @ [255]) \<and>
    canonical_text (encode (replicate 31 7 @ [255]))"
  by (rule base32_roundtrip) simp

text \<open>
  C24. On ASCII text \<open>is_canonical\<close> accepts exactly the encodings of 32-byte values: the accepted
  texts are those of the documented shape, and each is the encoding of the bytes it decodes to.
\<close>
theorem is_canonical_iff_encoding:
  assumes "ascii s"
  shows "(is_canonical s \<longleftrightarrow> canonical_text s) \<and>
    (is_canonical s \<longleftrightarrow> (\<exists>bytes. length bytes = 32 \<and> s = encode bytes))"
  using is_canonical_ascii [OF assms] canonical_text_decode [of s] encode_canonical_text by auto

lemma is_canonical_iff_encoding_witness:
  "is_canonical (replicate 52 CHR ''0'') \<longleftrightarrow> canonical_text (replicate 52 CHR ''0'')"
  by (rule is_canonical_iff_encoding [THEN conjunct1]) code_simp

lemma is_canonical_hd:
  "is_canonical s \<longleftrightarrow> is_ok (decode s) \<and> s \<noteq> [] \<and> (hd s = CHR ''0'' \<or> hd s = CHR ''1'')"
  by (cases s) (auto simp: is_canonical_def)

definition alias_text :: string where
  "alias_text = replicate 51 CHR ''0'' @ [CHR 0xC4, CHR 0xB0]"

text \<open>
  C30. The comparison in \<open>decode\<close> looks only at the low byte of each character, so a character
  outside the alphabet is read as the alphabet's letter with the same low byte: U+0130 counts
  as 0.  Two different texts decode to the same value, and one that is not even ASCII is
  \<open>is_canonical\<close>, although only the lowercase alphabet is documented to be.
\<close>
theorem decode_accepts_aliases:
  "decode alias_text = decode (replicate 52 CHR ''0'') \<and> is_canonical alias_text \<and>
   \<not> canonical_text alias_text"
proof -
  have "list_all2 (\<lambda>c d. digit_of c = Some d) (replicate 51 48 @ [304]) (replicate 52 0)"
    by code_simp
  moreover have "chars alias_text = replicate 51 48 @ [304]" by code_simp
  moreover have "val32 0 (replicate 52 0) = 0" by code_simp
  ultimately have "decode alias_text = Inr (replicate 32 0)"
    by (auto simp: decode_Inr intro!: exI [of _ "replicate 52 0"])
  moreover have "encode (replicate 32 0) = replicate 52 CHR ''0''"
  proof -
    have "map (\<lambda>d. ALPHABET ! d) (digits32 52 0) = replicate 52 CHR ''0''" by code_simp
    then show ?thesis by (simp add: encode_digits)
  qed
  then have "decode (replicate 52 CHR ''0'') = Inr (replicate 32 0)"
    using decode_encode_bytes [of "replicate 32 0"] by simp
  moreover have "\<not> canonical_text alias_text" by code_simp
  moreover have "hd alias_text = CHR ''0''" "alias_text \<noteq> []" by code_simp+
  ultimately show ?thesis by (simp add: is_canonical_hd)
qed

end
