(* ===== verification/Discovery.thy ===== *)
theory Discovery
  imports Base32 Topology
begin

text \<open>
  \<open>wg-common/src/discovery.rs\<close>: the discovery pointer \<open>current.json\<close> and its validation.
\<close>

definition SCHEMA_VERSION :: "32 word" where
  "SCHEMA_VERSION = 1"

record generation_entry =
  ge_id :: string
  ge_nodes :: "(string, string) btree_map"

record current_json =
  schema_version :: "32 word"
  revision :: string
  cur :: "generation_entry option"
  prev :: "generation_entry option"

definition current_json_empty :: "string \<Rightarrow> current_json" where
  "current_json_empty new_revision =
     \<lparr>schema_version = SCHEMA_VERSION, revision = new_revision, cur = None, prev = None\<rparr>"

datatype discovery_error =
    DuplicateJsonKey strict_json_error
  | InvalidJson string
  | UnsupportedSchemaVersion "32 word"
  | InvalidRevision
  | InvalidGenerationId string
  | InvalidDigest string
  | EmptyNodeMap
  | TooManyNodes nat
  | InvalidHostname string hostname_error
  | PreviousWithoutCurrent
  | EqualCurrentPreviousIds

definition discovery_parse :: "(string \<Rightarrow> string + current_json) \<Rightarrow> string \<Rightarrow> discovery_error + current_json" where
  "discovery_parse from_str s =
     and_then (map_err DuplicateJsonKey (check_no_duplicate_keys s)) (\<lambda>_.
     map_err InvalidJson (from_str s))"

definition validate_node_entry :: "string \<times> string \<Rightarrow> discovery_error + unit" where
  "validate_node_entry = (\<lambda>(h, digest).
     and_then (map_err (InvalidHostname h) (hostname_validate h)) (\<lambda>_.
     guard_err (\<not> is_canonical digest) (InvalidDigest h) (Inr ())))"

definition validate_generation_entry :: "generation_entry \<Rightarrow> discovery_error + unit" where
  "validate_generation_entry g =
     guard_err (\<not> is_canonical (ge_id g)) (InvalidGenerationId (ge_id g)) (
     guard_err (ge_nodes g = []) EmptyNodeMap (
     guard_err (length (ge_nodes g) > MAX_NODES) (TooManyNodes (length (ge_nodes g))) (
     for_each validate_node_entry (ge_nodes g))))"

definition discovery_validate :: "current_json \<Rightarrow> discovery_error + unit" where
  "discovery_validate doc =
     guard_err (schema_version doc \<noteq> SCHEMA_VERSION) (UnsupportedSchemaVersion (schema_version doc)) (
     guard_err (\<not> is_canonical (revision doc)) InvalidRevision (
     guard_err (cur doc = None \<and> prev doc \<noteq> None) PreviousWithoutCurrent (
     guard_err (case (cur doc, prev doc) of (Some c, Some p) \<Rightarrow> ge_id c = ge_id p | _ \<Rightarrow> False)
       EqualCurrentPreviousIds (
     for_each validate_generation_entry
       (case_option [] (\<lambda>g. [g]) (cur doc) @ case_option [] (\<lambda>g. [g]) (prev doc))))))"

section \<open>What a valid document is\<close>

definition generation_ok :: "generation_entry \<Rightarrow> bool" where
  "generation_ok g \<longleftrightarrow>
     is_canonical (ge_id g) \<and> ge_nodes g \<noteq> [] \<and> length (ge_nodes g) \<le> MAX_NODES \<and>
     (\<forall>(h, d)\<in>set (ge_nodes g). hostname_regex h \<and> is_canonical d)"

definition discovery_ok :: "current_json \<Rightarrow> bool" where
  "discovery_ok doc \<longleftrightarrow>
     schema_version doc = SCHEMA_VERSION \<and> is_canonical (revision doc) \<and>
     (case (cur doc, prev doc) of
        (None, None) \<Rightarrow> True
      | (None, Some p) \<Rightarrow> False
      | (Some c, None) \<Rightarrow> generation_ok c
      | (Some c, Some p) \<Rightarrow> generation_ok c \<and> generation_ok p \<and> ge_id c \<noteq> ge_id p)"

lemma validate_generation_entry_iff: "validate_generation_entry g = Inr () \<longleftrightarrow> generation_ok g"
  by (fastforce simp: validate_generation_entry_def generation_ok_def for_each_Inr_iff
      validate_node_entry_def and_then_Inr_iff hostname_validate_regex)

lemma discovery_validate_iff: "discovery_validate doc = Inr () \<longleftrightarrow> discovery_ok doc"
  by (auto simp: discovery_validate_def discovery_ok_def for_each_Inr_iff
      validate_generation_entry_iff split: option.splits)

lemma generation_ok_hostname:
  "generation_ok g \<Longrightarrow> (h, d) \<in> set (ge_nodes g) \<Longrightarrow> hostname_validate h = Inr ()"
  by (auto simp: generation_ok_def hostname_validate_regex)

lemma discovery_ok_empty: "is_canonical r \<Longrightarrow> discovery_ok (current_json_empty r)"
  by (simp add: discovery_ok_def current_json_empty_def)

end
