(* ===== verification/Keys.thy ===== *)
theory Keys
  imports Externals
begin

text \<open>
  \<open>wg-common/src/keys.rs\<close>: WireGuard keys as base64 text.  A \<open>StaticSecret\<close> holds its 32
  bytes unchanged; its public key is the crate's function of them.
\<close>

definition KEY_LEN :: nat where
  "KEY_LEN = 32"

datatype key_error = InvalidBase64 string | WrongKeyLength nat | ZeroKey

definition decode_key_bytes :: "crates \<Rightarrow> string \<Rightarrow> key_error + 8 word list" where
  "decode_key_bytes cr b64 =
     and_then (map_err InvalidBase64 (b64_decode cr (trim_end b64))) (\<lambda>bytes.
     guard_err (length bytes \<noteq> KEY_LEN) (WrongKeyLength (length bytes)) (
     guard_err (bytes = replicate KEY_LEN 0) ZeroKey (
     Inr bytes)))"

definition encode_key :: "crates \<Rightarrow> 8 word list \<Rightarrow> string" where
  "encode_key cr bytes = b64_encode cr bytes"

record keypair =
  secret :: "8 word list"

definition keypair_generate :: "crates \<Rightarrow> nat \<Rightarrow> keypair \<times> nat" where
  "keypair_generate cr draws = (\<lparr>secret = csprng cr draws\<rparr>, Suc draws)"

definition from_private_key_base64 :: "crates \<Rightarrow> string \<Rightarrow> key_error + keypair" where
  "from_private_key_base64 cr b64 =
     and_then (decode_key_bytes cr b64) (\<lambda>bytes. Inr \<lparr>secret = bytes\<rparr>)"

definition private_key_base64 :: "crates \<Rightarrow> keypair \<Rightarrow> string" where
  "private_key_base64 cr kp = encode_key cr (secret kp)"

definition public_key_bytes :: "crates \<Rightarrow> keypair \<Rightarrow> 8 word list" where
  "public_key_bytes cr kp = x25519_public cr (secret kp)"

definition public_key_base64 :: "crates \<Rightarrow> keypair \<Rightarrow> string" where
  "public_key_base64 cr kp = encode_key cr (public_key_bytes cr kp)"

definition validate_key_bytes :: "crates \<Rightarrow> string \<Rightarrow> key_error + 8 word list" where
  "validate_key_bytes cr b64 = decode_key_bytes cr b64"

definition validate_public_key :: "crates \<Rightarrow> string \<Rightarrow> key_error + 8 word list" where
  "validate_public_key cr b64 = decode_key_bytes cr b64"

definition generate_preshared_key :: "crates \<Rightarrow> nat \<Rightarrow> string \<times> nat" where
  "generate_preshared_key cr draws = (encode_key cr (csprng cr draws), Suc draws)"

definition validate_preshared_key :: "crates \<Rightarrow> string \<Rightarrow> key_error + 8 word list" where
  "validate_preshared_key cr b64 = decode_key_bytes cr b64"

definition public_key_from_private_base64 :: "crates \<Rightarrow> string \<Rightarrow> key_error + string" where
  "public_key_from_private_base64 cr b64 =
     and_then (from_private_key_base64 cr b64) (\<lambda>kp. Inr (public_key_base64 cr kp))"

section \<open>Valid keys\<close>

definition key_ok :: "8 word list \<Rightarrow> bool" where
  "key_ok bs \<longleftrightarrow> length bs = KEY_LEN \<and> bs \<noteq> replicate KEY_LEN 0"

lemma decode_key_Inr:
  "decode_key_bytes cr s = Inr bs \<longleftrightarrow> b64_decode cr (trim_end s) = Inr bs \<and> key_ok bs"
  by (auto simp: decode_key_bytes_def and_then_Inr_iff key_ok_def)

lemma key_ok_nonempty: "key_ok bs \<Longrightarrow> bs \<noteq> []"
  by (auto simp: key_ok_def KEY_LEN_def)

lemma trim_end_plain: "plain s \<Longrightarrow> trim_end s = s"
proof -
  assume p: "plain s"
  then have "dropWhile (\<lambda>c. is_whitespace (byte c)) (rev s) = rev s"
    by (cases s rule: rev_cases) (auto simp: plain_char_not_whitespace)
  then show ?thesis using plain_ascii [OF p] by (simp add: trim_end_ascii)
qed

lemma encode_key_plain: "b64_roundtrip cr \<Longrightarrow> plain (encode_key cr bs)"
  by (simp add: b64_roundtrip_def encode_key_def)

lemma encode_key_nonempty: "b64_roundtrip cr \<Longrightarrow> bs \<noteq> [] \<Longrightarrow> encode_key cr bs \<noteq> []"
  by (simp add: b64_roundtrip_def encode_key_def)

lemma decode_encode_key: "b64_roundtrip cr \<Longrightarrow> key_ok bs \<Longrightarrow> decode_key_bytes cr (encode_key cr bs) = Inr bs"
  using encode_key_plain [of cr bs]
  by (simp add: decode_key_Inr trim_end_plain) (simp add: b64_roundtrip_def encode_key_def)

lemma encode_decode_key:
  "b64_canonical cr \<Longrightarrow> decode_key_bytes cr s = Inr bs \<Longrightarrow> encode_key cr bs = trim_end s"
  by (simp add: decode_key_Inr b64_canonical_def encode_key_def)

lemma public_key_from_private_Inr:
  "public_key_from_private_base64 cr s = Inr p \<longleftrightarrow>
    (\<exists>bs. decode_key_bytes cr s = Inr bs \<and> p = encode_key cr (x25519_public cr bs))"
  by (auto simp: public_key_from_private_base64_def from_private_key_base64_def and_then_Inr_iff
      public_key_base64_def public_key_bytes_def)

lemma public_from_generated:
  assumes "b64_roundtrip cr" and "key_ok (secret kp)"
  shows "public_key_from_private_base64 cr (private_key_base64 cr kp) = Inr (public_key_base64 cr kp)"
  using decode_encode_key [OF assms]
  by (simp add: public_key_from_private_Inr private_key_base64_def public_key_base64_def
      public_key_bytes_def)

end
