(* ===== verification/Wg_Quick.thy ===== *)
theory Wg_Quick
  imports Topology Keys
begin

text \<open>
  \<open>wg-common/src/render.rs\<close>, lines 160 to 499: the strict parser of the accepted \<open>wg-quick\<close>
  subset.  Both programs validate with it: the server every file it renders or reuses, the
  client every file it downloads.  The \<open>unreachable!\<close> arms are the error \<open>ParsePanic\<close>.
\<close>

datatype parse_error =
    TooLarge nat
  | ControlCharacter
  | Malformed string
  | UnknownSection string
  | DuplicateSection string
  | ForbiddenDirective string
  | UnknownDirective string string
  | DuplicateDirective string string
  | MissingInterface
  | MissingInterfaceField string
  | MissingPeerField string
  | InvalidKey key_error
  | InvalidAddress string
  | InvalidListenPort
  | InvalidDns
  | InvalidMtu
  | EmptyAllowedIps
  | InvalidAllowedIps string string
  | DefaultRouteRejected
  | InvalidEndpoint string
  | InvalidPersistentKeepalive
  | PeerMatchesLocalKey
  | DuplicatePeerPublicKey
  | OverlappingAllowedIps
  | RouteCoversLocalAddress
  | ParsePanic

record parsed_interface =
  pi_private_key :: string
  pi_address :: "32 word"
  pi_listen_port :: "16 word"
  pi_dns :: "ip_addr option"
  pi_mtu :: "16 word option"

record parsed_peer =
  pp_public_key :: string
  pp_preshared_key :: string
  pp_allowed_ips :: "ipv4net list"
  pp_endpoint :: "string option"
  pp_persistent_keepalive :: "16 word option"

record parsed_config =
  pc_interface :: parsed_interface
  pc_peers :: "parsed_peer list"

record raw_section =
  rs_name :: string
  rs_fields :: "(string \<times> string) list"

section \<open>Lines and sections\<close>

definition push_field :: "string \<times> string \<Rightarrow> raw_section list \<Rightarrow> raw_section list option" where
  "push_field kv sections =
     (if sections = [] then None
      else let s = last sections
        in Some (butlast sections @ [s\<lparr>rs_fields := rs_fields s @ [kv]\<rparr>]))"

definition parse_header :: "string \<Rightarrow> raw_section list \<Rightarrow> parse_error + raw_section list" where
  "parse_header inner sections =
     and_then (ok_or (Malformed ''unterminated section header'') (strip_suffix '']'' inner)) (\<lambda>name.
     if name = ''Interface'' then Inr (sections @ [\<lparr>rs_name = ''Interface'', rs_fields = []\<rparr>])
     else if name = ''Peer'' then Inr (sections @ [\<lparr>rs_name = ''Peer'', rs_fields = []\<rparr>])
     else Inl (UnknownSection name))"

definition parse_directive :: "string \<Rightarrow> raw_section list \<Rightarrow> parse_error + raw_section list" where
  "parse_directive line sections =
     and_then (ok_or (Malformed (''expected '' @ [CHR 0x27] @ ''Key = Value'' @ [CHR 0x27]))
       (split_once CHR ''='' line)) (\<lambda>(key, value).
     let key = trim key; value = trim value in
     guard_err (list_ex is_control (chars value)) ControlCharacter (
     ok_or (Malformed ''directive outside any section'') (push_field (key, value) sections)))"

definition parse_line :: "string \<Rightarrow> raw_section list \<Rightarrow> parse_error + raw_section list" where
  "parse_line raw_line sections =
     guard_err (CHR 0x0D \<in> set raw_line) ControlCharacter (
     let line = trim_matches CHR 0x09 (trim_matches CHR '' '' raw_line) in
     if line = [] \<or> starts_with ''#'' line then Inr sections
     else case strip_prefix ''['' line of
       Some inner \<Rightarrow> parse_header inner sections
     | None \<Rightarrow> parse_directive line sections)"

definition parse_sections :: "string \<Rightarrow> parse_error + raw_section list" where
  "parse_sections s = fold_res parse_line (split CHR 0x0A s) []"

section \<open>Fields\<close>

definition check_no_forbidden_or_unknown ::
  "string \<Rightarrow> string list \<Rightarrow> string list \<Rightarrow> string \<Rightarrow> parse_error + unit" where
  "check_no_forbidden_or_unknown key allowed forbidden sec =
     guard_err (key \<in> set forbidden) (ForbiddenDirective key) (
     guard_err (key \<notin> set allowed) (UnknownDirective key sec) (
     Inr ()))"

definition INTERFACE_ALLOWED :: "string list" where
  "INTERFACE_ALLOWED = [''PrivateKey'', ''Address'', ''ListenPort'', ''DNS'', ''MTU'']"

definition INTERFACE_FORBIDDEN :: "string list" where
  "INTERFACE_FORBIDDEN =
     [''PreUp'', ''PostUp'', ''PreDown'', ''PostDown'', ''SaveConfig'', ''Table'']"

definition PEER_ALLOWED :: "string list" where
  "PEER_ALLOWED =
     [''PublicKey'', ''PresharedKey'', ''AllowedIPs'', ''Endpoint'', ''PersistentKeepalive'']"

text \<open>The mutable locals of \<open>parse_interface_fields\<close>.\<close>

record iface_acc =
  ia_seen :: "string list"
  ia_private_key :: "string option"
  ia_address :: "32 word option"
  ia_listen_port :: "16 word option"
  ia_dns :: "ip_addr option"
  ia_mtu :: "16 word option"

definition iface_acc_init :: iface_acc where
  "iface_acc_init = \<lparr>ia_seen = [], ia_private_key = None, ia_address = None,
     ia_listen_port = None, ia_dns = None, ia_mtu = None\<rparr>"

definition interface_field :: "crates \<Rightarrow> string \<times> string \<Rightarrow> iface_acc \<Rightarrow> parse_error + iface_acc" where
  "interface_field cr = (\<lambda>(k, v) acc0.
     and_then (check_no_forbidden_or_unknown k INTERFACE_ALLOWED INTERFACE_FORBIDDEN ''Interface'') (\<lambda>_.
     guard_err (k \<in> set (ia_seen acc0)) (DuplicateDirective k ''Interface'') (
     let acc = acc0\<lparr>ia_seen := k # ia_seen acc0\<rparr> in
     if k = ''PrivateKey'' then
       and_then (map_err InvalidKey (validate_key_bytes cr v)) (\<lambda>_.
       Inr (acc\<lparr>ia_private_key := Some v\<rparr>))
     else if k = ''Address'' then
       and_then (ok_or (InvalidAddress ''not a valid IPv4 CIDR'') (net_parse cr v)) (\<lambda>net.
       guard_err (net_prefix_len net \<noteq> 32) (InvalidAddress ''must be a /32'') (
       Inr (acc\<lparr>ia_address := Some (net_addr net)\<rparr>)))
     else if k = ''ListenPort'' then
       and_then (ok_or InvalidListenPort (parse_u16 v)) (\<lambda>port.
       guard_err (port = 0) InvalidListenPort (
       Inr (acc\<lparr>ia_listen_port := Some port\<rparr>)))
     else if k = ''DNS'' then
       and_then (ok_or InvalidDns (parse_ip_addr v)) (\<lambda>dns.
       Inr (acc\<lparr>ia_dns := Some dns\<rparr>))
     else if k = ''MTU'' then
       and_then (ok_or InvalidMtu (parse_u16 v)) (\<lambda>m.
       guard_err (m < MIN_MTU) InvalidMtu (
       Inr (acc\<lparr>ia_mtu := Some m\<rparr>)))
     else Inl ParsePanic)))"

definition parse_interface_fields :: "crates \<Rightarrow> (string \<times> string) list \<Rightarrow> parse_error + parsed_interface" where
  "parse_interface_fields cr kvs =
     and_then (fold_res (interface_field cr) kvs iface_acc_init) (\<lambda>acc.
     and_then (ok_or (MissingInterfaceField ''PrivateKey'') (ia_private_key acc)) (\<lambda>private_key.
     and_then (ok_or (MissingInterfaceField ''Address'') (ia_address acc)) (\<lambda>address.
     and_then (ok_or (MissingInterfaceField ''ListenPort'') (ia_listen_port acc)) (\<lambda>listen_port.
     Inr \<lparr>pi_private_key = private_key, pi_address = address, pi_listen_port = listen_port,
          pi_dns = ia_dns acc, pi_mtu = ia_mtu acc\<rparr>))))"

record peer_acc =
  pa_seen :: "string list"
  pa_public_key :: "string option"
  pa_preshared_key :: "string option"
  pa_allowed_ips :: "ipv4net list option"
  pa_endpoint :: "string option"
  pa_keepalive :: "16 word option"

definition peer_acc_init :: peer_acc where
  "peer_acc_init = \<lparr>pa_seen = [], pa_public_key = None, pa_preshared_key = None,
     pa_allowed_ips = None, pa_endpoint = None, pa_keepalive = None\<rparr>"

definition parse_allowed_ip :: "crates \<Rightarrow> string \<Rightarrow> parse_error + ipv4net" where
  "parse_allowed_ip cr entry =
     and_then (ok_or (InvalidAllowedIps entry ''not a valid IPv4 CIDR'') (net_parse cr entry)) (\<lambda>net.
     guard_err (net_addr net \<noteq> net_network cr net) (InvalidAllowedIps entry ''host bits set'') (
     guard_err (net_prefix_len net = 0) DefaultRouteRejected (
     Inr net)))"

definition peer_field :: "crates \<Rightarrow> string \<times> string \<Rightarrow> peer_acc \<Rightarrow> parse_error + peer_acc" where
  "peer_field cr = (\<lambda>(k, v) acc0.
     and_then (check_no_forbidden_or_unknown k PEER_ALLOWED [] ''Peer'') (\<lambda>_.
     guard_err (k \<in> set (pa_seen acc0)) (DuplicateDirective k ''Peer'') (
     let acc = acc0\<lparr>pa_seen := k # pa_seen acc0\<rparr> in
     if k = ''PublicKey'' then
       and_then (map_err InvalidKey (validate_public_key cr v)) (\<lambda>_.
       Inr (acc\<lparr>pa_public_key := Some v\<rparr>))
     else if k = ''PresharedKey'' then
       and_then (map_err InvalidKey (validate_preshared_key cr v)) (\<lambda>_.
       Inr (acc\<lparr>pa_preshared_key := Some v\<rparr>))
     else if k = ''AllowedIPs'' then
       guard_err (v = []) EmptyAllowedIps (
       and_then (map_res (parse_allowed_ip cr) (map trim (split CHR '','' v))) (\<lambda>nets.
       Inr (acc\<lparr>pa_allowed_ips := Some nets\<rparr>)))
     else if k = ''Endpoint'' then
       and_then (map_err InvalidEndpoint (validate_endpoint_syntax v)) (\<lambda>_.
       Inr (acc\<lparr>pa_endpoint := Some v\<rparr>))
     else if k = ''PersistentKeepalive'' then
       and_then (ok_or InvalidPersistentKeepalive (parse_u16 v)) (\<lambda>n.
       Inr (acc\<lparr>pa_keepalive := Some n\<rparr>))
     else Inl ParsePanic)))"

definition parse_peer_fields :: "crates \<Rightarrow> (string \<times> string) list \<Rightarrow> parse_error + parsed_peer" where
  "parse_peer_fields cr kvs =
     and_then (fold_res (peer_field cr) kvs peer_acc_init) (\<lambda>acc.
     and_then (ok_or (MissingPeerField ''AllowedIPs'') (pa_allowed_ips acc)) (\<lambda>allowed_ips.
     guard_err (allowed_ips = []) EmptyAllowedIps (
     and_then (ok_or (MissingPeerField ''PublicKey'') (pa_public_key acc)) (\<lambda>public_key.
     and_then (ok_or (MissingPeerField ''PresharedKey'') (pa_preshared_key acc)) (\<lambda>preshared_key.
     Inr \<lparr>pp_public_key = public_key, pp_preshared_key = preshared_key,
          pp_allowed_ips = allowed_ips, pp_endpoint = pa_endpoint acc,
          pp_persistent_keepalive = pa_keepalive acc\<rparr>)))))"

section \<open>The whole file\<close>

definition parse_section ::
  "crates \<Rightarrow> raw_section \<Rightarrow> parsed_interface option \<times> parsed_peer list
    \<Rightarrow> parse_error + parsed_interface option \<times> parsed_peer list" where
  "parse_section cr raw = (\<lambda>(interface, peers).
     if rs_name raw = ''Interface'' then
       guard_err (interface \<noteq> None) (DuplicateSection ''Interface'') (
       and_then (parse_interface_fields cr (rs_fields raw)) (\<lambda>i.
       Inr (Some i, peers)))
     else if rs_name raw = ''Peer'' then
       and_then (parse_peer_fields cr (rs_fields raw)) (\<lambda>p.
       Inr (interface, peers @ [p]))
     else Inl ParsePanic)"

definition check_peer_key :: "string \<Rightarrow> parsed_peer \<Rightarrow> string list \<Rightarrow> parse_error + string list" where
  "check_peer_key local_pub p seen_pub_keys =
     guard_err (pp_public_key p = local_pub) PeerMatchesLocalKey (
     guard_err (pp_public_key p \<in> set seen_pub_keys) DuplicatePeerPublicKey (
     Inr (pp_public_key p # seen_pub_keys)))"

definition check_peer_routes ::
  "crates \<Rightarrow> 32 word \<Rightarrow> parsed_peer list \<Rightarrow> nat \<times> parsed_peer \<Rightarrow> parse_error + unit" where
  "check_peer_routes cr local_addr peers = (\<lambda>(i, peer).
     and_then (for_each (\<lambda>net.
         guard_err (fst (net_range cr net) \<le> local_addr \<and> local_addr \<le> snd (net_range cr net))
           RouteCoversLocalAddress (Inr ()))
       (pp_allowed_ips peer)) (\<lambda>_.
     for_each (\<lambda>other. for_each (\<lambda>a. for_each (\<lambda>b.
           guard_err (ranges_overlap (net_range cr a) (net_range cr b)) OverlappingAllowedIps (Inr ()))
         (pp_allowed_ips other)) (pp_allowed_ips peer)) (drop (i + 1) peers)))"

definition parse_wg_quick :: "crates \<Rightarrow> string \<Rightarrow> parse_error + parsed_config" where
  "parse_wg_quick cr s =
     guard_err (length s > MAX_RENDERED_CONFIG_BYTES) (TooLarge (length s)) (
     guard_err (CHR 0x00 \<in> set s) ControlCharacter (
     and_then (parse_sections s) (\<lambda>sections.
     and_then (fold_res (parse_section cr) sections (None, [])) (\<lambda>(interface, peers).
     and_then (ok_or MissingInterface interface) (\<lambda>interface.
     and_then (map_err InvalidKey (public_key_from_private_base64 cr (pi_private_key interface))) (\<lambda>local_pub.
     and_then (fold_res (check_peer_key local_pub) peers []) (\<lambda>_.
     and_then (for_each (check_peer_routes cr (pi_address interface) peers) (List.enumerate 0 peers)) (\<lambda>_.
     Inr \<lparr>pc_interface = interface, pc_peers = peers\<rparr>))))))))"

end
