(* ===== verification/Retention.thy ===== *)
theory Retention
  imports Storage Discovery Render
begin

text \<open>
  \<open>wg-server/src/retention.rs\<close>, and from \<open>apply.rs\<close> the error type and the key layout that
  both modules share.  \<open>cleanup\<close> deletes the objects of generations that are neither current
  nor previous; \<open>now\<close> is what \<open>SystemTime::now()\<close> returns in this run, and durations are
  nanoseconds.
\<close>

definition CURRENT_JSON_KEY :: string where
  "CURRENT_JSON_KEY = ''current.json''"

definition NODES_PREFIX :: string where
  "NODES_PREFIX = ''nodes/''"

datatype apply_error =
    Validation validation_error
  | StorageErr storage_error
  | DiscoveryErr discovery_error
  | OrphanedStateNoPointer
  | MissingReferencedFile string
  | DigestMismatch string
  | UnparsableCurrentConfig string parse_error
  | BadStoredKey string key_error
  | OneSidedEdge string string string
  | ConflictingPsk string string
  | RenderErr render_error
  | GenerationIdCollision string
  | PointerConflict
  | PointerCommitUnknown
  | PointerRetriesExhausted
  | UnknownRotateHostname string
  | ApplyPanic

definition node_object_key :: "string \<Rightarrow> string \<Rightarrow> string" where
  "node_object_key hostname generation_id =
     NODES_PREFIX @ hostname @ ''/'' @ generation_id @ ''.conf''"

definition DEFAULT_GRACE_PERIOD :: nat where
  "DEFAULT_GRACE_PERIOD = 15 * 60 * 1000000000"

record retention_report =
  rr_deleted :: "string list"
  rr_skipped_within_grace :: "string list"
  rr_skipped_unrecognized :: "string list"

definition parse_node_key :: "string \<Rightarrow> (string \<times> string) option" where
  "parse_node_key key =
     Option.bind (strip_prefix NODES_PREFIX key) (\<lambda>rest.
     Option.bind (split_once CHR ''/'' rest) (\<lambda>(host, filename).
     Option.bind (strip_suffix ''.conf'' filename) (\<lambda>gid.
       if \<not> is_ok (hostname_validate host) then None
       else if \<not> is_canonical gid then None
       else Some (host, gid))))"

definition retained_ids :: "current_json \<Rightarrow> string btree_set" where
  "retained_ids pointer =
     bs_of_list (case_option [] (\<lambda>e. [ge_id e]) (cur pointer) @ case_option [] (\<lambda>e. [ge_id e]) (prev pointer))"

definition cleanup_entry ::
  "'s storage \<Rightarrow> string btree_set \<Rightarrow> nat \<Rightarrow> nat \<Rightarrow> bool \<Rightarrow> string \<times> nat \<Rightarrow> retention_report
    \<Rightarrow> ('s, apply_error, retention_report) io" where
  "cleanup_entry st retained now grace_period dry_run = (\<lambda>(key, last_modified) report.
     case parse_node_key key of
       None \<Rightarrow> io_return (report\<lparr>rr_skipped_unrecognized := rr_skipped_unrecognized report @ [key]\<rparr>)
     | Some (_, gid) \<Rightarrow>
         if gid \<in> set retained then io_return report
         else if now - last_modified < grace_period
         then io_return (report\<lparr>rr_skipped_within_grace := rr_skipped_within_grace report @ [key]\<rparr>)
         else io_then (if dry_run then io_return () else io_map_err StorageErr (delete_object st key)) (\<lambda>_.
           io_return (report\<lparr>rr_deleted := rr_deleted report @ [key]\<rparr>)))"

definition cleanup ::
  "'s storage \<Rightarrow> nat \<Rightarrow> current_json \<Rightarrow> nat \<Rightarrow> bool \<Rightarrow> ('s, apply_error, retention_report) io" where
  "cleanup st now pointer grace_period dry_run =
     io_then (io_map_err StorageErr (list_all_with_last_modified st NODES_PREFIX)) (\<lambda>entries.
     io_fold (cleanup_entry st (retained_ids pointer) now grace_period dry_run) entries
       \<lparr>rr_deleted = [], rr_skipped_within_grace = [], rr_skipped_unrecognized = []\<rparr>)"

end
