(* ===== verification/Apply.thy ===== *)
theory Apply
  imports Retention
begin

text \<open>
  \<open>wg-server/src/apply.rs\<close>: validate the topology, reuse or create keys, render every node,
  upload a new generation and commit the pointer.  The world is the store and the number of
  draws made from the random generator.  \<open>serde_json\<close> is a parameter; \<open>expect\<close> and a failed
  map index are the error \<open>ApplyPanic\<close>.
\<close>

definition MAX_POINTER_RETRIES :: nat where
  "MAX_POINTER_RETRIES = 5"

text \<open>\<open>serde_json::from_str\<close> and \<open>to_vec\<close> for \<open>CurrentJson\<close>.\<close>

record serde =
  from_str :: "string \<Rightarrow> string + current_json"
  to_vec :: "current_json \<Rightarrow> string"

datatype rotate_selection = RotateNone | RotateAll | RotateNamed "string btree_set"

record apply_options =
  ao_dry_run :: bool
  ao_rotate :: rotate_selection
  ao_grace_period :: nat

definition apply_options_default :: apply_options where
  "apply_options_default =
     \<lparr>ao_dry_run = False, ao_rotate = RotateNone, ao_grace_period = DEFAULT_GRACE_PERIOD\<rparr>"

record apply_report =
  ar_warnings :: "string list"
  ar_reused_hostnames :: "string list"
  ar_freshly_keyed_hostnames :: "string list"
  ar_published :: bool
  ar_new_generation_id :: "string option"
  ar_uploaded_hostnames :: "string list"
  ar_cleanup_deleted :: "string list"
  ar_cleanup_skipped_within_grace :: "string list"
  ar_cleanup_error :: "apply_error option"

record 's world =
  w_store :: 's
  w_draws :: nat

section \<open>The world\<close>

definition on_store :: "('s, storage_error, 'a) io \<Rightarrow> ('s world, apply_error, 'a) io" where
  "on_store m w = (case m (w_store w) of (r, s) \<Rightarrow> (map_err StorageErr r, w\<lparr>w_store := s\<rparr>))"

definition on_draws :: "(nat, apply_error, 'a) io \<Rightarrow> ('s world, apply_error, 'a) io" where
  "on_draws m w = (case m (w_draws w) of (r, n) \<Rightarrow> (r, w\<lparr>w_draws := n\<rparr>))"

definition draw_id :: "crates \<Rightarrow> ('s world, apply_error, string) io" where
  "draw_id cr = on_draws (\<lambda>n. case random_id (csprng cr) n of (s, n') \<Rightarrow> (Inr s, n'))"

section \<open>The pointer and the published configurations\<close>

definition digest_of :: "crates \<Rightarrow> string \<Rightarrow> string" where
  "digest_of cr bytes = encode (sha256 cr bytes)"

definition parse_pointer :: "serde \<Rightarrow> string \<Rightarrow> apply_error + current_json" where
  "parse_pointer js bytes = map_err DiscoveryErr (discovery_parse (from_str js) (from_utf8_or_default bytes))"

definition read_pointer :: "serde \<Rightarrow> fetched_object \<Rightarrow> apply_error + current_json \<times> string" where
  "read_pointer js obj =
     and_then (parse_pointer js (fo_bytes obj)) (\<lambda>doc.
     and_then (map_err DiscoveryErr (discovery_validate doc)) (\<lambda>_.
     Inr (doc, fo_etag obj)))"

definition fetch_current_pointer ::
  "crates \<Rightarrow> serde \<Rightarrow> 's storage \<Rightarrow> bool \<Rightarrow> ('s world, apply_error, current_json \<times> string) io" where
  "fetch_current_pointer cr js st dry_run =
     io_then (on_store (get_object st CURRENT_JSON_KEY)) (\<lambda>r.
     case r of
       Some obj \<Rightarrow> io_lift (read_pointer js obj)
     | None \<Rightarrow>
         io_then (on_store (list_all_keys st NODES_PREFIX)) (\<lambda>existing.
         if existing \<noteq> [] then io_throw OrphanedStateNoPointer
         else io_then (draw_id cr) (\<lambda>rid.
           let empty = current_json_empty rid in
           if dry_run then io_return (empty, [])
           else io_then (on_store (put_if_absent st CURRENT_JSON_KEY (to_vec js empty) ''application/json'')) (\<lambda>out.
             case out of
               Written etag \<Rightarrow> io_return (empty, etag)
             | PreconditionFailed \<Rightarrow>
                 io_then (on_store (get_object st CURRENT_JSON_KEY)) (\<lambda>r.
                 case r of Some obj \<Rightarrow> io_lift (read_pointer js obj) | None \<Rightarrow> io_throw ApplyPanic)))))"

type_synonym old_configs = "(string, parsed_config) btree_map"

definition fetch_config ::
  "crates \<Rightarrow> 's storage \<Rightarrow> generation_entry \<Rightarrow> string \<Rightarrow> old_configs \<Rightarrow> ('s world, apply_error, old_configs) io" where
  "fetch_config cr st e hostname out =
     (case bt_get (ge_nodes e) hostname of
        None \<Rightarrow> io_return out
      | Some expected_digest \<Rightarrow>
          io_then (on_store (get_object st (node_object_key hostname (ge_id e)))) (\<lambda>r.
          io_then (io_lift (ok_or (MissingReferencedFile hostname) r)) (\<lambda>obj.
          if digest_of cr (fo_bytes obj) \<noteq> expected_digest then io_throw (DigestMismatch hostname)
          else io_then (io_lift (map_err (UnparsableCurrentConfig hostname)
              (parse_wg_quick cr (from_utf8_lossy (fo_bytes obj))))) (\<lambda>parsed.
            io_return (bt_insert hostname parsed out)))))"

definition fetch_reusable_configs ::
  "crates \<Rightarrow> 's storage \<Rightarrow> generation_entry option \<Rightarrow> string btree_set \<Rightarrow> ('s world, apply_error, old_configs) io" where
  "fetch_reusable_configs cr st current desired_hostnames =
     (case current of
        None \<Rightarrow> io_return []
      | Some e \<Rightarrow> io_fold (fetch_config cr st e) desired_hostnames [])"

section \<open>Keys\<close>

definition is_rotated :: "rotate_selection \<Rightarrow> string \<Rightarrow> bool" where
  "is_rotated sel hostname =
     (case sel of RotateNone \<Rightarrow> False | RotateAll \<Rightarrow> True | RotateNamed names \<Rightarrow> hostname \<in> set names)"

record key_acc =
  ka_node_keys :: "(string, string \<times> string) btree_map"
  ka_reused :: "string list"
  ka_freshly_keyed :: "string list"
  ka_is_fresh :: "(string, bool) btree_map"

definition add_node_key :: "crates \<Rightarrow> string \<Rightarrow> bool \<Rightarrow> keypair \<Rightarrow> key_acc \<Rightarrow> key_acc" where
  "add_node_key cr h fresh kp acc =
     acc\<lparr>ka_node_keys := bt_insert h (private_key_base64 cr kp, public_key_base64 cr kp) (ka_node_keys acc),
         ka_reused := (if fresh then ka_reused acc else ka_reused acc @ [h]),
         ka_freshly_keyed := (if fresh then ka_freshly_keyed acc @ [h] else ka_freshly_keyed acc),
         ka_is_fresh := bt_insert h fresh (ka_is_fresh acc)\<rparr>"

definition resolve_node ::
  "crates \<Rightarrow> old_configs \<Rightarrow> rotate_selection \<Rightarrow> validated_node \<Rightarrow> key_acc \<Rightarrow> (nat, apply_error, key_acc) io" where
  "resolve_node cr old_configs sel n acc =
     (let h = vn_hostname n;
          existing = (if is_rotated sel h then None else bt_get old_configs h)
      in case existing of
        Some old \<Rightarrow>
          io_then (io_lift (map_err (BadStoredKey h)
              (from_private_key_base64 cr (pi_private_key (pc_interface old))))) (\<lambda>kp.
          io_return (add_node_key cr h False kp acc))
      | None \<Rightarrow> (\<lambda>draws. case keypair_generate cr draws of
          (kp, draws') \<Rightarrow> (Inr (add_node_key cr h True kp acc), draws')))"

text \<open>The preshared key \<open>h\<close>'s published configuration records for the peer with this key.\<close>

definition recorded_psk :: "old_configs \<Rightarrow> string \<Rightarrow> string \<Rightarrow> string option" where
  "recorded_psk old_configs h peer_pub =
     map_option pp_preshared_key (Option.bind (bt_get old_configs h)
       (\<lambda>c. List.find (\<lambda>p. pp_public_key p = peer_pub) (pc_peers c)))"

definition fresh_psk :: "crates \<Rightarrow> (nat, apply_error, string) io" where
  "fresh_psk cr draws = (case generate_preshared_key cr draws of (k, draws') \<Rightarrow> (Inr k, draws'))"

definition resolve_edge ::
  "crates \<Rightarrow> old_configs \<Rightarrow> key_acc \<Rightarrow> string \<times> string \<Rightarrow> (string \<times> string, string) btree_map
    \<Rightarrow> (nat, apply_error, (string \<times> string, string) btree_map) io" where
  "resolve_edge cr old_configs acc = (\<lambda>(a, b) edge_psks.
     io_then (io_lift (ok_or ApplyPanic (bt_get (ka_is_fresh acc) a))) (\<lambda>a_fresh.
     io_then (io_lift (ok_or ApplyPanic (bt_get (ka_is_fresh acc) b))) (\<lambda>b_fresh.
     io_then
       (if a_fresh \<or> b_fresh then fresh_psk cr
        else
          io_then (io_lift (ok_or ApplyPanic (bt_get (ka_node_keys acc) a))) (\<lambda>(_, a_pub).
          io_then (io_lift (ok_or ApplyPanic (bt_get (ka_node_keys acc) b))) (\<lambda>(_, b_pub).
          case (recorded_psk old_configs a b_pub, recorded_psk old_configs b a_pub) of
            (Some pa, Some pb) \<Rightarrow> if pa = pb then io_return pa else io_throw (ConflictingPsk a b)
          | (Some _, None) \<Rightarrow> io_throw (OneSidedEdge a b a)
          | (None, Some _) \<Rightarrow> io_throw (OneSidedEdge a b b)
          | (None, None) \<Rightarrow> fresh_psk cr)))
       (\<lambda>psk. io_return (bt_insert (a, b) psk edge_psks)))))"

definition key_acc_init :: key_acc where
  "key_acc_init = \<lparr>ka_node_keys = [], ka_reused = [], ka_freshly_keyed = [], ka_is_fresh = []\<rparr>"

record key_resolution =
  kr_resolved :: resolved_keys
  kr_reused :: "string list"
  kr_freshly_keyed :: "string list"

definition resolve_keys ::
  "crates \<Rightarrow> validated_topology \<Rightarrow> old_configs \<Rightarrow> rotate_selection \<Rightarrow> (nat, apply_error, key_resolution) io" where
  "resolve_keys cr topo old_configs sel =
     io_then (io_fold (resolve_node cr old_configs sel) (vt_nodes topo) key_acc_init) (\<lambda>acc.
     io_then (io_fold (resolve_edge cr old_configs acc) (edges topo) []) (\<lambda>psks.
     io_return \<lparr>kr_resolved = \<lparr>node_keys = ka_node_keys acc, edge_psks = psks\<rparr>,
       kr_reused = ka_reused acc, kr_freshly_keyed = ka_freshly_keyed acc\<rparr>))"

section \<open>Publication\<close>

text \<open>The retry loop of \<open>commit_pointer\<close>, with the number of attempts left.\<close>

fun commit_loop ::
  "serde \<Rightarrow> 's storage \<Rightarrow> string \<Rightarrow> string \<Rightarrow> nat \<Rightarrow> string \<Rightarrow> ('s world, apply_error, unit) io" where
  "commit_loop js st baseline_revision intended_bytes 0 etag = io_throw PointerRetriesExhausted"
| "commit_loop js st baseline_revision intended_bytes (Suc n) etag =
     io_then (on_store (put_if_match st CURRENT_JSON_KEY intended_bytes ''application/json'' etag)) (\<lambda>out.
     case out of
       Written _ \<Rightarrow> io_return ()
     | PreconditionFailed \<Rightarrow>
         io_then (on_store (get_object st CURRENT_JSON_KEY)) (\<lambda>r.
         io_then (io_lift (ok_or PointerCommitUnknown r)) (\<lambda>obj.
         if fo_bytes obj = intended_bytes then io_return ()
         else io_then (io_lift (parse_pointer js (fo_bytes obj))) (\<lambda>observed.
           if revision observed = baseline_revision
           then commit_loop js st baseline_revision intended_bytes n (fo_etag obj)
           else io_throw PointerConflict))))"

definition commit_pointer ::
  "serde \<Rightarrow> 's storage \<Rightarrow> current_json \<Rightarrow> string \<Rightarrow> current_json \<Rightarrow> ('s world, apply_error, unit) io" where
  "commit_pointer js st baseline baseline_etag intended =
     commit_loop js st (revision baseline) (to_vec js intended) MAX_POINTER_RETRIES baseline_etag"

definition render_all ::
  "crates \<Rightarrow> validated_topology \<Rightarrow> resolved_keys \<Rightarrow> string
    \<Rightarrow> (string, string) btree_map \<times> (string, string) btree_map
    \<Rightarrow> apply_error + (string, string) btree_map \<times> (string, string) btree_map" where
  "render_all cr topo resolved hostname = (\<lambda>(rendered, digests).
     and_then (map_err RenderErr (render_node_config cr topo resolved hostname)) (\<lambda>bytes.
     Inr (bt_insert hostname bytes rendered, bt_insert hostname (digest_of cr bytes) digests)))"

definition upload_node ::
  "'s storage \<Rightarrow> (string, string) btree_map \<Rightarrow> string \<Rightarrow> string \<Rightarrow> string list
    \<Rightarrow> ('s world, apply_error, string list) io" where
  "upload_node st rendered new_id hostname uploaded =
     (let key = node_object_key hostname new_id in
      io_then (io_lift (ok_or ApplyPanic (bt_get rendered hostname))) (\<lambda>body.
      io_then (on_store (put_if_absent st key body ''text/plain; charset=utf-8'')) (\<lambda>out.
      case out of
        Written _ \<Rightarrow> io_return (uploaded @ [hostname])
      | PreconditionFailed \<Rightarrow>
          io_then (on_store (get_object st key)) (\<lambda>r.
          io_then (io_lift (ok_or (GenerationIdCollision hostname) r)) (\<lambda>existing.
          if fo_bytes existing \<noteq> body then io_throw (GenerationIdCollision hostname)
          else io_return (uploaded @ [hostname]))))))"

text \<open>The two ways to go on: refresh the pointer's revision, or publish a new generation.\<close>

definition refresh ::
  "crates \<Rightarrow> serde \<Rightarrow> 's storage \<Rightarrow> bool \<Rightarrow> current_json \<Rightarrow> string \<Rightarrow> apply_report
    \<Rightarrow> ('s world, apply_error, current_json \<times> apply_report) io" where
  "refresh cr js st dry_run pointer pointer_etag report =
     io_then (draw_id cr) (\<lambda>rid.
     let refreshed = \<lparr>schema_version = SCHEMA_VERSION, revision = rid, cur = cur pointer, prev = prev pointer\<rparr> in
     io_then (if dry_run then io_return () else commit_pointer js st pointer pointer_etag refreshed) (\<lambda>_.
     io_return (refreshed, report)))"

definition publish ::
  "crates \<Rightarrow> serde \<Rightarrow> 's storage \<Rightarrow> bool \<Rightarrow> current_json \<Rightarrow> string \<Rightarrow> string btree_set
    \<Rightarrow> (string, string) btree_map \<times> (string, string) btree_map \<Rightarrow> apply_report
    \<Rightarrow> ('s world, apply_error, current_json \<times> apply_report) io" where
  "publish cr js st dry_run pointer pointer_etag desired = (\<lambda>(rendered, digests) report0.
     io_then (draw_id cr) (\<lambda>new_id.
     io_then (draw_id cr) (\<lambda>rid.
     let report = report0\<lparr>ar_new_generation_id := Some new_id\<rparr>;
         new_pointer = \<lparr>schema_version = SCHEMA_VERSION, revision = rid,
           cur = Some \<lparr>ge_id = new_id, ge_nodes = digests\<rparr>, prev = cur pointer\<rparr> in
     if dry_run then io_return (new_pointer, report\<lparr>ar_uploaded_hostnames := desired\<rparr>)
     else
       io_then (io_fold (upload_node st rendered new_id) desired []) (\<lambda>uploaded.
       io_then (commit_pointer js st pointer pointer_etag new_pointer) (\<lambda>_.
       io_return (new_pointer, report\<lparr>ar_uploaded_hostnames := uploaded, ar_published := True\<rparr>))))))"

text \<open>Retention cleanup: its failure is recorded in the report.\<close>

definition cleanup_pass ::
  "'s storage \<Rightarrow> nat \<Rightarrow> current_json \<Rightarrow> nat \<Rightarrow> bool \<Rightarrow> apply_report \<Rightarrow> ('s world, apply_error, apply_report) io" where
  "cleanup_pass st now final_pointer grace_period dry_run report w =
     (case cleanup st now final_pointer grace_period dry_run (w_store w) of
        (Inr r, s) \<Rightarrow> (Inr (report\<lparr>ar_cleanup_deleted := rr_deleted r,
           ar_cleanup_skipped_within_grace := rr_skipped_within_grace r\<rparr>), w\<lparr>w_store := s\<rparr>)
      | (Inl e, s) \<Rightarrow> (Inr (report\<lparr>ar_cleanup_error := Some e\<rparr>), w\<lparr>w_store := s\<rparr>))"

definition check_rotate :: "string btree_set \<Rightarrow> rotate_selection \<Rightarrow> apply_error + unit" where
  "check_rotate desired sel =
     (case sel of
        RotateNamed names \<Rightarrow>
          for_each (\<lambda>name. guard_err (name \<notin> set desired) (UnknownRotateHostname name) (Inr ())) names
      | _ \<Rightarrow> Inr ())"

definition apply_topology ::
  "crates \<Rightarrow> serde \<Rightarrow> 's storage \<Rightarrow> nat \<Rightarrow> topology_config \<Rightarrow> apply_options
    \<Rightarrow> ('s world, apply_error, apply_report) io" where
  "apply_topology cr js st now config opts =
     io_then (io_lift (map_err Validation (topology_validate cr config))) (\<lambda>(topo, warnings).
     let desired = bs_of_list (map vn_hostname (vt_nodes topo)) in
     io_then (io_lift (check_rotate desired (ao_rotate opts))) (\<lambda>_.
     io_then (fetch_current_pointer cr js st (ao_dry_run opts)) (\<lambda>(pointer, pointer_etag).
     io_then (fetch_reusable_configs cr st (cur pointer) desired) (\<lambda>old_configs.
     io_then (on_draws (resolve_keys cr topo old_configs (ao_rotate opts))) (\<lambda>kr.
     io_then (io_lift (fold_res (render_all cr topo (kr_resolved kr)) desired ([], []))) (\<lambda>(rendered, digests).
     let current_hostnames = (case cur pointer of None \<Rightarrow> [] | Some e \<Rightarrow> bt_keys (ge_nodes e));
         unchanged = (current_hostnames = desired \<and>
           (case cur pointer of None \<Rightarrow> False | Some e \<Rightarrow> ge_nodes e = digests));
         report = \<lparr>ar_warnings = warnings, ar_reused_hostnames = kr_reused kr,
           ar_freshly_keyed_hostnames = kr_freshly_keyed kr, ar_published = False,
           ar_new_generation_id = None, ar_uploaded_hostnames = [], ar_cleanup_deleted = [],
           ar_cleanup_skipped_within_grace = [], ar_cleanup_error = None\<rparr> in
     io_then
       (if unchanged then refresh cr js st (ao_dry_run opts) pointer pointer_etag report
        else publish cr js st (ao_dry_run opts) pointer pointer_etag desired (rendered, digests) report)
       (\<lambda>(final_pointer, report).
     cleanup_pass st now final_pointer (ao_grace_period opts) (ao_dry_run opts) report)))))))"

end
