(* ===== verification/Retention_Valid.thy ===== *)
theory Retention_Valid
  imports Retention Io_Logic
begin

text \<open>
  Retention cleanup deletes exactly the expired objects of generations the pointer no longer
  names, whatever else is in the bucket and whatever the bucket answers.
\<close>

section \<open>Object keys\<close>

lemma parse_node_key_Some:
  "parse_node_key key = Some (h, g) \<longleftrightarrow>
    key = node_object_key h g \<and> hostname_validate h = Inr () \<and> is_canonical g" (is "?l \<longleftrightarrow> ?r")
proof
  assume ?l
  then show ?r
    by (auto simp: parse_node_key_def node_object_key_def Option.bind_eq_Some_conv strip_prefix_Some
        split_once_Some strip_suffix_Some is_ok_iff split: if_splits)
next
  assume r: ?r
  then have "CHR ''/'' \<notin> set h"
    using hostname_chars [of h] hostname_char_plain by (auto simp: list_all_iff)
  then have "split_once CHR ''/'' (h @ ''/'' @ g @ ''.conf'') = Some (h, g @ ''.conf'')"
    by (simp add: split_once_Some)
  moreover have "strip_suffix ''.conf'' (g @ ''.conf'') = Some g" by (simp add: strip_suffix_Some)
  ultimately show ?l using r by (simp add: parse_node_key_def node_object_key_def)
qed

text \<open>
  The layout of the object keys is a bijection: a key of the bucket is read back as the
  pair of a hostname and a generation id exactly when it is the key written for that pair and
  both are valid; every other key is unrecognised.
\<close>
theorem parse_node_key_exact:
  "parse_node_key key = Some (h, g) \<longleftrightarrow>
    key = node_object_key h g \<and> hostname_validate h = Inr () \<and> is_canonical g"
  by (rule parse_node_key_Some)

lemma node_object_key_inject:
  assumes "hostname_validate h = Inr ()" and "is_canonical g" and "hostname_validate h' = Inr ()" and "is_canonical g'"
    and "node_object_key h g = node_object_key h' g'"
  shows "h = h' \<and> g = g'"
proof -
  have "parse_node_key (node_object_key h g) = Some (h, g)"
    by (rule parse_node_key_Some [THEN iffD2]) (intro conjI refl assms(1,2))
  moreover have "parse_node_key (node_object_key h' g') = Some (h', g')"
    by (rule parse_node_key_Some [THEN iffD2]) (intro conjI refl assms(3,4))
  ultimately have "Some (h, g) = Some (h', g')" unfolding assms(5) by (rule trans [OF sym])
  then show ?thesis by simp
qed

lemma node_object_key_not_current: "node_object_key h g \<noteq> CURRENT_JSON_KEY"
  by (simp add: node_object_key_def NODES_PREFIX_def CURRENT_JSON_KEY_def)

lemma node_object_key_prefix: "starts_with NODES_PREFIX (node_object_key h g)"
  by (simp add: starts_with_iff node_object_key_def)

section \<open>What may be deleted\<close>

definition may_delete :: "current_json \<Rightarrow> nat \<Rightarrow> nat \<Rightarrow> string \<Rightarrow> nat \<Rightarrow> bool" where
  "may_delete p now grace key last_modified \<longleftrightarrow>
     (\<exists>h g. key = node_object_key h g \<and> hostname_validate h = Inr () \<and> is_canonical g \<and>
        g \<notin> ge_id ` set_option (cur p) \<and> g \<notin> ge_id ` set_option (prev p)) \<and>
     grace \<le> now - last_modified"

lemma retained_ids_set: "set (retained_ids p) = ge_id ` set_option (cur p) \<union> ge_id ` set_option (prev p)"
  by (auto simp: retained_ids_def split: option.splits)

lemma may_delete_iff:
  "may_delete p now grace key t \<longleftrightarrow>
    (case parse_node_key key of None \<Rightarrow> False
     | Some (h, g) \<Rightarrow> g \<notin> set (retained_ids p) \<and> \<not> now - t < grace)"
proof (cases "parse_node_key key")
  case None
  then have "\<not> (key = node_object_key h g \<and> hostname_validate h = Inr () \<and> is_canonical g)" for h g
    using parse_node_key_Some [of key h g] by simp
  with None show ?thesis by (auto simp: may_delete_def)
next
  case (Some hg)
  then obtain h g where hg: "parse_node_key key = Some (h, g)" by (cases hg) simp
  have "key = node_object_key h' g' \<and> hostname_validate h' = Inr () \<and> is_canonical g' \<longleftrightarrow> h' = h \<and> g' = g" for h' g'
    using parse_node_key_Some [of key h' g'] hg by auto
  then show ?thesis unfolding may_delete_def hg
    by (auto simp: retained_ids_set not_less)
qed

text \<open>One entry: a call to the store only for an object that may be deleted.\<close>

lemma cleanup_entry_may_delete:
  assumes "may_delete p now grace key t"
  shows "cleanup_entry st (retained_ids p) now grace dry (key, t) report =
    io_then (if dry then io_return () else io_map_err StorageErr (delete_object st key)) (\<lambda>_.
      io_return (report\<lparr>rr_deleted := rr_deleted report @ [key]\<rparr>))"
  using assms by (auto simp: may_delete_iff cleanup_entry_def split: option.splits)

lemma cleanup_entry_keep:
  assumes "\<not> may_delete p now grace key t"
  shows "\<exists>report'. cleanup_entry st (retained_ids p) now grace dry (key, t) report = io_return report' \<and>
    rr_deleted report' = rr_deleted report"
proof (cases "parse_node_key key")
  case (Some hg)
  with assms show ?thesis
    by (cases hg) (auto simp: may_delete_iff cleanup_entry_def simp del: io_simps)
qed (auto simp: cleanup_entry_def simp del: io_simps)

section \<open>Safety, for any bucket\<close>

definition deletion_ok :: "current_json \<Rightarrow> nat \<Rightarrow> nat \<Rightarrow> bool \<Rightarrow> storage_error + (string \<times> nat) list \<Rightarrow> event \<Rightarrow> bool" where
  "deletion_ok p now grace dry listing ev \<longleftrightarrow>
     \<not> dry \<and> (\<exists>key t d entries. ev = Deleted key d \<and> listing = Inr entries \<and> (key, t) \<in> set entries \<and>
       may_delete p now grace key t)"

lemma cleanup_entry_log:
  assumes "(key, t) \<in> set entries"
  shows "keeps (\<lambda>(s, log). \<exists>evs. log = log0 @ evs \<and> list_all (deletion_ok p now grace dry (Inr entries)) evs)
    (cleanup_entry (recorded st) (retained_ids p) now grace dry (key, t) report)"
proof (cases "may_delete p now grace key t")
  case True
  show ?thesis
    unfolding cleanup_entry_may_delete [OF True]
  proof (intro keeps_then keeps_if keeps_map_err keeps_return keepsI)
    fix s r u
    assume "case s of (s, log) \<Rightarrow> \<exists>evs. log = log0 @ evs \<and>
        list_all (deletion_ok p now grace dry (Inr entries)) evs"
      and "\<not> dry" and "delete_object (recorded st) key s = (r, u)"
    then show "case u of (s, log) \<Rightarrow> \<exists>evs. log = log0 @ evs \<and>
        list_all (deletion_ok p now grace dry (Inr entries)) evs"
      using True assms by (cases s) (auto simp: deletion_ok_def split: prod.splits)
  qed
next
  case False
  from cleanup_entry_keep [OF this] obtain report' where
    "cleanup_entry (recorded st) (retained_ids p) now grace dry (key, t) report = io_return report'" by blast
  then show ?thesis by (simp only: keeps_return)
qed

text \<open>
  C19. Whatever the bucket holds and answers, cleanup lists once and then only deletes, in a
  dry run nothing, and every deleted key was in that listing, is the key of a node's object
  of a generation that is neither the pointer's current nor its previous one, and is at least
  the grace period old.
\<close>
theorem cleanup_safe:
  "case cleanup (recorded st) now p grace dry (s, log) of
     (r, s', log') \<Rightarrow> \<exists>listing evs. log' = log @ ListedTimes NODES_PREFIX listing # evs \<and>
       list_all (deletion_ok p now grace dry listing) evs"
proof -
  obtain listing s1 where l: "list_all_with_last_modified st NODES_PREFIX s = (listing, s1)" by fastforce
  let ?log = "log @ [ListedTimes NODES_PREFIX listing]"
  show ?thesis
  proof (cases listing)
    case (Inl e)
    with l show ?thesis by (simp add: cleanup_def io_then_def io_map_err_def)
  next
    case (Inr entries)
    let ?I = "\<lambda>(s, log'). \<exists>evs. log' = ?log @ evs \<and> list_all (deletion_ok p now grace dry listing) evs"
    have "keeps ?I (io_fold (cleanup_entry (recorded st) (retained_ids p) now grace dry) entries b)" for b
    proof (rule keeps_fold)
      fix x b
      assume "x \<in> set entries"
      moreover obtain key t where x: "x = (key, t)" by fastforce
      ultimately have "(key, t) \<in> set entries" by simp
      from cleanup_entry_log [OF this]
      show "keeps ?I (cleanup_entry (recorded st) (retained_ids p) now grace dry x b)"
        unfolding x Inr .
    qed
    note kept = this
    have "?I t" if f: "io_fold (cleanup_entry (recorded st) (retained_ids p) now grace dry) entries b (s1, ?log) = (r, t)"
      for b r t by (rule keepsD [OF kept _ f]) simp
    with l Inr show ?thesis
      by (fastforce simp: cleanup_def io_then_def io_map_err_def split: prod.splits)
  qed
qed

section \<open>Exactness, on the in-memory store\<close>

definition expired :: "current_json \<Rightarrow> nat \<Rightarrow> nat \<Rightarrow> (string \<times> nat) list \<Rightarrow> string list" where
  "expired p now grace entries = map fst (filter (\<lambda>(k, t). may_delete p now grace k t) entries)"

lemma expired_simps [simp]:
  "expired p now grace [] = []"
  "expired p now grace ((k, t) # es) =
    (if may_delete p now grace k t then k # expired p now grace es else expired p now grace es)"
  by (simp_all add: expired_def)

lemma cleanup_fold_mock:
  "\<exists>rep' m'. io_fold (cleanup_entry mock (retained_ids p) now grace False) es rep m = (Inr rep', m') \<and>
    rr_deleted rep' = rr_deleted rep @ expired p now grace es \<and>
    ms_objects m' = filter (\<lambda>(k, _). k \<notin> set (expired p now grace es)) (ms_objects m)"
proof (induction es arbitrary: rep m)
  case (Cons e es)
  obtain k t where e: "e = (k, t)" by fastforce
  show ?case
  proof (cases "may_delete p now grace k t")
    case True
    let ?m = "m\<lparr>ms_objects := filter (\<lambda>(k', _). k' \<noteq> k) (ms_objects m)\<rparr>"
    let ?rep = "rep\<lparr>rr_deleted := rr_deleted rep @ [k]\<rparr>"
    have "cleanup_entry mock (retained_ids p) now grace False (k, t) rep m = (Inr ?rep, ?m)"
      unfolding cleanup_entry_may_delete [OF True]
      by (simp add: io_then_def io_map_err_def mock_def mock_delete_object_def)
    moreover obtain rep' m' where
      "io_fold (cleanup_entry mock (retained_ids p) now grace False) es ?rep ?m = (Inr rep', m')"
      "rr_deleted rep' = rr_deleted ?rep @ expired p now grace es"
      "ms_objects m' = filter (\<lambda>(k, _). k \<notin> set (expired p now grace es)) (ms_objects ?m)"
      using Cons.IH [of ?rep ?m] by blast
    ultimately show ?thesis
      using True e by (intro exI [of _ rep'] exI [of _ m'])
        (auto simp: case_prod_beta intro!: filter_cong)
  next
    case False
    then obtain r where "cleanup_entry mock (retained_ids p) now grace False (k, t) rep = io_return r"
      "rr_deleted r = rr_deleted rep" using cleanup_entry_keep [OF False] by blast
    with Cons.IH [of r m] False e show ?thesis by (auto simp: io_then_def)
  qed
qed (simp add: case_prod_unfold)

definition mock_expired :: "current_json \<Rightarrow> nat \<Rightarrow> nat \<Rightarrow> string \<times> entry \<Rightarrow> bool" where
  "mock_expired p now grace = (\<lambda>(k, e). may_delete p now grace k (e_created_at e))"

lemma may_delete_prefix: "may_delete p now grace k t \<Longrightarrow> starts_with NODES_PREFIX k"
  using node_object_key_prefix by (auto simp: may_delete_def)

lemma expired_listing:
  "expired p now grace (map (\<lambda>(k, e). (k, e_created_at e)) (filter (\<lambda>(k, _). starts_with NODES_PREFIX k) os))
    = map fst (filter (mock_expired p now grace) os)"
  by (induction os) (auto simp: mock_expired_def dest: may_delete_prefix)

lemma filter_expired:
  assumes "distinct (map fst os)"
  shows "filter (\<lambda>(k, _). k \<notin> fst ` set (filter P os)) os = filter (\<lambda>x. \<not> P x) os"
proof (rule filter_cong [OF refl])
  fix x
  assume x: "x \<in> set os"
  obtain k e where ke: "x = (k, e)" by fastforce
  have one: "y = e" if "(k, y) \<in> set os" for y
    by (rule eq_key_imp_eq_value [OF assms that]) (use x ke in simp)
  have "k \<in> fst ` set (filter P os) \<longleftrightarrow> P x"
  proof
    assume "k \<in> fst ` set (filter P os)"
    then obtain y where "(k, y) \<in> set os" "P (k, y)" by auto
    with one ke show "P x" by blast
  next
    assume "P x"
    with x ke have "(k, e) \<in> set (filter P os)" by simp
    then show "k \<in> fst ` set (filter P os)" by force
  qed
  then show "(case x of (k, _) \<Rightarrow> k \<notin> fst ` set (filter P os)) = (\<not> P x)" using ke by simp
qed

text \<open>
  C29. Without other writers cleanup is exact: it succeeds, the objects that remain are exactly
  those that may not be deleted, in place and unchanged, and the report lists exactly the keys
  removed.
\<close>
theorem cleanup_exact:
  assumes "bt_wf (ms_objects m)"
  shows "\<exists>report m'. cleanup mock now p grace False m = (Inr report, m') \<and>
    ms_objects m' = filter (\<lambda>x. \<not> mock_expired p now grace x) (ms_objects m) \<and>
    rr_deleted report = map fst (filter (mock_expired p now grace) (ms_objects m))"
proof -
  let ?es = "map (\<lambda>(k, e). (k, e_created_at e)) (filter (\<lambda>(k, _). starts_with NODES_PREFIX k) (ms_objects m))"
  have d: "distinct (map fst (ms_objects m))"
    using assms by (simp add: bt_wf_keys bs_wf_sorted_distinct bt_keys_def)
  have "cleanup mock now p grace False m =
      io_fold (cleanup_entry mock (retained_ids p) now grace False) ?es
        \<lparr>rr_deleted = [], rr_skipped_within_grace = [], rr_skipped_unrecognized = []\<rparr> m"
    by (simp add: cleanup_def io_then_def io_map_err_def mock_def mock_list_all_with_last_modified_def)
  then show ?thesis
    using cleanup_fold_mock [of p now grace ?es "\<lparr>rr_deleted = [], rr_skipped_within_grace = [],
        rr_skipped_unrecognized = []\<rparr>" m] filter_expired [OF d]
    by (auto simp: expired_listing)
qed

theorem cleanup_exact_witness:
  "let g = replicate 52 CHR ''0''; k = node_object_key ''a'' g;
       m = \<lparr>ms_objects = [(k, \<lparr>e_bytes = ''x'', e_etag = ''e'', e_created_at = 0\<rparr>)],
            ms_next_etag = 1, ms_fail_next_puts = 0, ms_now = 0\<rparr>
   in \<exists>report m'. cleanup mock 9 (current_json_empty g) 5 False m = (Inr report, m') \<and>
     ms_objects m' = filter (\<lambda>x. \<not> mock_expired (current_json_empty g) 9 5 x) (ms_objects m) \<and>
     rr_deleted report = map fst (filter (mock_expired (current_json_empty g) 9 5) (ms_objects m))"
  unfolding Let_def by (rule cleanup_exact) (simp add: bt_wf_def bt_keys_def)

end
