(* ===== verification/Apply_Valid.thy ===== *)
theory Apply_Valid
  imports Apply Retention_Valid
begin

text \<open>
  What an apply does to the bucket, as theorems about the sequence of calls it makes on any
  bucket, other writers and failures included.
\<close>

section \<open>Rules for the world\<close>

lemma triple_on_store:
  "triple P m Q (\<lambda>e s. E (StorageErr e) s) \<Longrightarrow>
    triple (\<lambda>w. P (w_store w)) (on_store m) (\<lambda>x w. Q x (w_store w)) (\<lambda>e w. E e (w_store w))"
  by (fastforce simp: triple_def on_store_def map_err_def split: prod.splits sum.splits)

lemma keeps_on_store [keeps_rules]: "keeps I m \<Longrightarrow> keeps (\<lambda>w. I (w_store w)) (on_store m)"
  unfolding keeps_def by (rule triple_on_store)

lemma keeps_on_draws [keeps_rules]: "keeps (\<lambda>w. I (w_store w)) (on_draws m)"
  by (auto simp: keeps_def triple_def on_draws_def split: prod.splits sum.splits)

lemma keeps_draw_id [keeps_rules]: "keeps (\<lambda>w. I (w_store w)) (draw_id cr)"
  unfolding draw_id_def by (rule keeps_on_draws)

section \<open>A dry run\<close>

definition only_read :: "event list \<Rightarrow> 's \<times> event list \<Rightarrow> bool" where
  "only_read log0 s \<longleftrightarrow> (\<exists>evs. snd s = log0 @ evs \<and> list_all (\<lambda>e. \<not> writes e) evs)"

lemma only_read_refl [simp]: "only_read log (s, log)"
  by (simp add: only_read_def)

lemma only_read_calls [keeps_rules]:
  "keeps (only_read log0) (get_object (recorded st) k)"
  "keeps (only_read log0) (list_all_keys (recorded st) p)"
  "keeps (only_read log0) (list_all_with_last_modified (recorded st) p)"
  by (rule keepsI; fastforce simp: only_read_def writes_def split: prod.splits)+

lemma only_read_cleanup: "keeps (only_read log0) (cleanup (recorded st) now p grace True)"
proof (rule keepsI)
  fix s r t
  assume ro: "only_read log0 s" and c: "cleanup (recorded st) now p grace True s = (r, t)"
  obtain s0 log where s: "s = (s0, log)" by fastforce
  from cleanup_safe [where st = st and now = now and p = p and grace = grace and dry = True and s = s0 and log = log] c s obtain listing evs where
    t: "snd t = log @ ListedTimes NODES_PREFIX listing # evs"
    and ok: "list_all (deletion_ok p now grace True listing) evs"
    by (cases t) auto
  from ok have "evs = []" by (cases evs) (auto simp: deletion_ok_def)
  with ro t s show "only_read log0 t" by (auto simp: only_read_def writes_def)
qed

lemma only_read_cleanup_pass:
  "keeps (\<lambda>w. only_read log0 (w_store w)) (cleanup_pass (recorded st) now p grace True report)"
proof (rule keepsI)
  fix w r w'
  assume ro: "only_read log0 (w_store w)" and c: "cleanup_pass (recorded st) now p grace True report w = (r, w')"
  obtain x s where x: "cleanup (recorded st) now p grace True (w_store w) = (x, s)" by (rule prod.exhaust)
  with c have "w_store w' = s" by (cases x) (auto simp add: cleanup_pass_def)
  with keepsD [OF only_read_cleanup ro x] show "only_read log0 (w_store w')" by simp
qed

lemma keeps_fetch_reusable [keeps_rules]:
  assumes "\<And>k. keeps I (get_object st k)"
  shows "keeps (\<lambda>w. I (w_store w)) (fetch_reusable_configs cr st current desired)"
  unfolding fetch_reusable_configs_def fetch_config_def
  by (intro keeps_rules assms)

lemma only_read_fetch: "keeps (\<lambda>w. only_read log0 (w_store w)) (fetch_current_pointer cr js (recorded st) True)"
  unfolding fetch_current_pointer_def Let_def if_True by (intro keeps_rules)

lemma only_read_refresh:
  "keeps (\<lambda>w. only_read log0 (w_store w)) (refresh cr js (recorded st) True p etag report)"
  unfolding refresh_def Let_def if_True by (intro keeps_rules)

lemma only_read_publish:
  "keeps (\<lambda>w. only_read log0 (w_store w)) (publish cr js (recorded st) True p etag desired (rs, ds) report)"
  unfolding publish_def Let_def if_True prod.case by (intro keeps_rules)

lemma only_read_apply:
  assumes "ao_dry_run opts"
  shows "keeps (\<lambda>w. only_read log0 (w_store w)) (apply_topology cr js (recorded st) now config opts)"
proof -
  have d: "ao_dry_run opts = True" using assms by simp
  show ?thesis
    unfolding apply_topology_def Let_def d
    by (intro keeps_rules only_read_fetch only_read_refresh only_read_publish only_read_cleanup_pass)
qed

text \<open>
  C20. A dry run writes nothing: whatever the bucket answers, it only reads and lists, also when
  it fails; no object is put or deleted.
\<close>
theorem dry_run_writes_nothing:
  "case apply_topology cr js (recorded st) now config (opts\<lparr>ao_dry_run := True\<rparr>) w of
     (r, w') \<Rightarrow> \<exists>evs. snd (w_store w') = snd (w_store w) @ evs \<and> list_all (\<lambda>e. \<not> writes e) evs"
proof -
  obtain r w' where a: "apply_topology cr js (recorded st) now config (opts\<lparr>ao_dry_run := True\<rparr>) w = (r, w')"
    by fastforce
  have "only_read (snd (w_store w)) (w_store w')"
    by (rule keepsD [OF only_read_apply _ a]) (simp_all add: only_read_def)
  with a show ?thesis by (simp add: only_read_def)
qed

section \<open>The order of the calls\<close>

text \<open>
  What earlier calls established: a pointer and its ETag as read (or created), an object stored
  under a key, the bytes of the pointer in place, all objects of a generation stored with
  their digests and each a valid configuration.
\<close>

definition pointer_read :: "serde \<Rightarrow> event list \<Rightarrow> current_json \<Rightarrow> string \<Rightarrow> bool" where
  "pointer_read js evs p etag \<longleftrightarrow>
     (\<exists>f. Got CURRENT_JSON_KEY (Inr (Some f)) \<in> set evs \<and> fo_etag f = etag \<and> parse_pointer js (fo_bytes f) = Inr p) \<or>
     (\<exists>rid. p = current_json_empty rid \<and> PutAbsent CURRENT_JSON_KEY (to_vec js p) (Inr (Written etag)) \<in> set evs)"

definition stored :: "event list \<Rightarrow> string \<Rightarrow> string \<Rightarrow> bool" where
  "stored evs k b \<longleftrightarrow>
     (\<exists>e. PutAbsent k b (Inr (Written e)) \<in> set evs) \<or> (\<exists>f. Got k (Inr (Some f)) \<in> set evs \<and> fo_bytes f = b)"

definition committed :: "event list \<Rightarrow> string \<Rightarrow> bool" where
  "committed evs b \<longleftrightarrow>
     (\<exists>et e. PutMatch CURRENT_JSON_KEY b et (Inr (Written e)) \<in> set evs) \<or>
     (\<exists>f. Got CURRENT_JSON_KEY (Inr (Some f)) \<in> set evs \<and> fo_bytes f = b)"

definition backed :: "crates \<Rightarrow> event list \<Rightarrow> generation_entry \<Rightarrow> bool" where
  "backed cr evs g \<longleftrightarrow>
     (\<forall>(h, d)\<in>set (ge_nodes g). \<exists>b. stored evs (node_object_key h (ge_id g)) b \<and> d = digest_of cr b \<and>
        is_ok (parse_wg_quick cr b))"

definition unnamed :: "current_json \<Rightarrow> string \<Rightarrow> bool" where
  "unnamed p key \<longleftrightarrow>
     (\<exists>h g. key = node_object_key h g \<and> hostname_validate h = Inr () \<and> is_canonical g \<and>
        g \<notin> ge_id ` set_option (cur p) \<and> g \<notin> ge_id ` set_option (prev p))"

text \<open>
  A call is in order after the calls \<open>evs\<close>: the pointer is created only in an empty bucket; it is
  replaced only under the ETag of a pointer with the revision this run started from, and the
  new one names the old generations or a generation whose objects are all stored; an object
  is deleted only once the pointer in place does not name it.
\<close>

definition call_ok :: "crates \<Rightarrow> serde \<Rightarrow> event list \<Rightarrow> event \<Rightarrow> bool" where
  "call_ok cr js evs ev =
     (case ev of
        Got _ _ \<Rightarrow> True
      | Listed _ _ \<Rightarrow> True
      | ListedTimes _ _ \<Rightarrow> True
      | PutAbsent k b _ \<Rightarrow>
          k = CURRENT_JSON_KEY \<and> (\<exists>rid. b = to_vec js (current_json_empty rid)) \<and>
            Got CURRENT_JSON_KEY (Inr None) \<in> set evs \<and> Listed NODES_PREFIX (Inr []) \<in> set evs \<or>
          (\<exists>h g. k = node_object_key h g \<and> is_ok (parse_wg_quick cr b))
      | PutMatch k b et _ \<Rightarrow>
          k = CURRENT_JSON_KEY \<and>
          (\<exists>base e0 p seen. pointer_read js evs base e0 \<and> pointer_read js evs seen et \<and>
             revision seen = revision base \<and> b = to_vec js p \<and>
             (cur p = cur base \<and> prev p = prev base \<or>
              prev p = cur base \<and> (\<exists>g. cur p = Some g \<and> backed cr evs g)))
      | Deleted k _ \<Rightarrow> \<exists>p. committed evs (to_vec js p) \<and> unnamed p k)"

definition stable :: "(event list \<Rightarrow> bool) \<Rightarrow> bool" where
  "stable R \<longleftrightarrow> (\<forall>evs es. R evs \<longrightarrow> R (evs @ es))"

named_theorems stable_rules \<open>assertions that later calls keep\<close>

lemma stable_basic [stable_rules]:
  "stable (\<lambda>_. True)"
  "stable (\<lambda>evs. ev \<in> set evs)"
  "stable (\<lambda>evs. pointer_read js evs p etag)"
  "stable (\<lambda>evs. stored evs k b)"
  "stable (\<lambda>evs. committed evs b)"
  "stable (\<lambda>_. c)"
  by (auto simp: stable_def pointer_read_def stored_def committed_def)

lemma stable_conj [stable_rules]: "stable R \<Longrightarrow> stable S \<Longrightarrow> stable (\<lambda>evs. R evs \<and> S evs)"
  by (simp add: stable_def)

lemma stable_ex [stable_rules]: "(\<And>x. stable (R x)) \<Longrightarrow> stable (\<lambda>evs. \<exists>x. R x evs)"
  by (auto simp: stable_def)

lemma stable_ball [stable_rules]: "(\<And>x. stable (R x)) \<Longrightarrow> stable (\<lambda>evs. \<forall>x\<in>A. R x evs)"
  by (auto simp: stable_def)

lemma stableD: "stable R \<Longrightarrow> R evs \<Longrightarrow> R (evs @ es)"
  by (simp add: stable_def)

text \<open>The calls since \<open>log0\<close> are in order, and established \<open>R\<close>.\<close>

definition trace ::
  "crates \<Rightarrow> serde \<Rightarrow> event list \<Rightarrow> (event list \<Rightarrow> bool) \<Rightarrow> 's \<times> event list \<Rightarrow> bool" where
  "trace cr js log0 R s \<longleftrightarrow> (\<exists>evs. snd s = log0 @ evs \<and> each_after (call_ok cr js) evs \<and> R evs)"

lemma trace_weaken: "trace cr js log0 R s \<Longrightarrow> (\<And>evs. R evs \<Longrightarrow> S evs) \<Longrightarrow> trace cr js log0 S s"
  by (auto simp: trace_def)

lemma trace_call:
  assumes "stable R" and ok: "\<And>evs r. R evs \<Longrightarrow> call_ok cr js evs (ev r)"
  shows "triple (trace cr js log0 R) (record_call ev m)
    (\<lambda>x. trace cr js log0 (\<lambda>evs. R evs \<and> ev (Inr x) \<in> set evs)) (\<lambda>_. trace cr js log0 R)"
proof (rule tripleI)
  fix s x t
  assume "trace cr js log0 R s" and "record_call ev m s = (Inr x, t)"
  then show "trace cr js log0 (\<lambda>evs. R evs \<and> ev (Inr x) \<in> set evs) t"
    using ok stableD [OF assms(1)]
    by (cases s) (fastforce simp: trace_def split: prod.splits intro!: exI [of _ "_ @ [ev (Inr x)]"])
next
  fix s e t
  assume "trace cr js log0 R s" and "record_call ev m s = (Inl e, t)"
  then show "trace cr js log0 R t"
    using ok stableD [OF assms(1)]
    by (cases s) (fastforce simp: trace_def split: prod.splits intro!: exI [of _ "_ @ [ev (Inl e)]"])
qed

lemma trace_reads:
  assumes "stable R"
  shows "triple (trace cr js log0 R) (get_object (recorded st) k)
      (\<lambda>x. trace cr js log0 (\<lambda>evs. R evs \<and> Got k (Inr x) \<in> set evs)) (\<lambda>_. trace cr js log0 R)"
    and "triple (trace cr js log0 R) (list_all_keys (recorded st) p)
      (\<lambda>x. trace cr js log0 (\<lambda>evs. R evs \<and> Listed p (Inr x) \<in> set evs)) (\<lambda>_. trace cr js log0 R)"
  unfolding recorded_def storage.simps by (rule trace_call [OF assms]; simp add: call_ok_def)+

lemma trace_put_absent:
  assumes "stable R" and "\<And>evs r. R evs \<Longrightarrow> call_ok cr js evs (PutAbsent k b r)"
  shows "triple (trace cr js log0 R) (put_if_absent (recorded st) k b ct)
      (\<lambda>x. trace cr js log0 (\<lambda>evs. R evs \<and> PutAbsent k b (Inr x) \<in> set evs)) (\<lambda>_. trace cr js log0 R)"
  unfolding recorded_def storage.simps by (rule trace_call [OF assms])

lemma trace_put_match:
  assumes "stable R" and "\<And>evs r. R evs \<Longrightarrow> call_ok cr js evs (PutMatch k b et r)"
  shows "triple (trace cr js log0 R) (put_if_match (recorded st) k b ct et)
      (\<lambda>x. trace cr js log0 (\<lambda>evs. R evs \<and> PutMatch k b et (Inr x) \<in> set evs)) (\<lambda>_. trace cr js log0 R)"
  unfolding recorded_def storage.simps by (rule trace_call [OF assms])

text \<open>The same on the world of an apply.\<close>

definition wtrace ::
  "crates \<Rightarrow> serde \<Rightarrow> event list \<Rightarrow> (event list \<Rightarrow> bool) \<Rightarrow> ('s \<times> event list) world \<Rightarrow> bool" where
  "wtrace cr js log0 R w = trace cr js log0 R (w_store w)"

lemma wtrace_weaken: "wtrace cr js log0 R w \<Longrightarrow> (\<And>evs. R evs \<Longrightarrow> S evs) \<Longrightarrow> wtrace cr js log0 S w"
  unfolding wtrace_def by (rule trace_weaken)

lemma wtrace_True: "wtrace cr js log0 R w \<Longrightarrow> wtrace cr js log0 (\<lambda>_. True) w"
  by (erule wtrace_weaken) simp

lemma wtrace_pre:
  "triple (wtrace cr js log0 R') m Q E \<Longrightarrow> (\<And>evs. R evs \<Longrightarrow> R' evs) \<Longrightarrow> triple (wtrace cr js log0 R) m Q E"
  by (erule triple_weaken) (auto elim: wtrace_weaken)

lemma wtrace_store:
  assumes "triple (trace cr js log0 R) m (\<lambda>x. trace cr js log0 (S x)) (\<lambda>_. trace cr js log0 R)"
  shows "triple (wtrace cr js log0 R) (on_store m) (\<lambda>x. wtrace cr js log0 (S x)) (\<lambda>_. wtrace cr js log0 (\<lambda>_. True))"
proof -
  have "triple (\<lambda>w. trace cr js log0 R (w_store w)) (on_store m) (\<lambda>x w. trace cr js log0 (S x) (w_store w))
      (\<lambda>_ w. trace cr js log0 R (w_store w))" by (rule triple_on_store) (rule assms)
  then show ?thesis unfolding wtrace_def by (rule triple_weaken) (auto elim: trace_weaken)
qed

lemmas wtrace_get = wtrace_store [OF trace_reads(1)]
lemmas wtrace_list = wtrace_store [OF trace_reads(2)]
lemmas wtrace_put_absent = wtrace_store [OF trace_put_absent]
lemmas wtrace_put_match = wtrace_store [OF trace_put_match]

lemma wtrace_draws:
  "triple (wtrace cr js log0 R) (on_draws m) (\<lambda>_. wtrace cr js log0 R) (\<lambda>_. wtrace cr js log0 (\<lambda>_. True))"
proof -
  have "keeps (\<lambda>w. trace cr js log0 R (w_store w)) (on_draws m)" by (rule keeps_on_draws)
  then show ?thesis unfolding keeps_def wtrace_def by (rule triple_weaken) (auto elim: trace_weaken)
qed

lemma wtrace_draw_id:
  "triple (wtrace cr js log0 R) (draw_id cr') (\<lambda>_. wtrace cr js log0 R) (\<lambda>_. wtrace cr js log0 (\<lambda>_. True))"
  unfolding draw_id_def by (rule wtrace_draws)

lemma wtrace_return:
  "(\<And>evs. R evs \<Longrightarrow> S x evs) \<Longrightarrow> triple (wtrace cr js log0 R) (io_return x) (\<lambda>x. wtrace cr js log0 (S x)) E"
  by (rule triple_return) (auto elim: wtrace_weaken)

lemma wtrace_throw:
  "triple (wtrace cr js log0 R) (io_throw e) Q (\<lambda>_. wtrace cr js log0 (\<lambda>_. True))"
  by (rule triple_throw) (rule wtrace_True)

lemma wtrace_lift:
  "(\<And>x evs. r = Inr x \<Longrightarrow> R evs \<Longrightarrow> S x evs) \<Longrightarrow>
    triple (wtrace cr js log0 R) (io_lift r) (\<lambda>x. wtrace cr js log0 (S x)) (\<lambda>_. wtrace cr js log0 (\<lambda>_. True))"
  by (rule triple_lift) (auto elim: wtrace_weaken)

lemma wtrace_then_lift:
  "(\<And>x. r = Inr x \<Longrightarrow> triple (wtrace cr js log0 R) (k x) Q (\<lambda>_. wtrace cr js log0 (\<lambda>_. True))) \<Longrightarrow>
    triple (wtrace cr js log0 R) (io_then (io_lift r) k) Q (\<lambda>_. wtrace cr js log0 (\<lambda>_. True))"
  by (rule triple_then_lift) (auto elim: wtrace_weaken)

section \<open>Reading the pointer and the old files\<close>

lemma read_pointer_Inr:
  "read_pointer js obj = Inr (p, etag) \<Longrightarrow> parse_pointer js (fo_bytes obj) = Inr p \<and> etag = fo_etag obj"
  by (auto simp: read_pointer_def and_then_Inr_iff)

lemma fetch_current_pointer_trace:
  "triple (wtrace cr js log0 (\<lambda>_. True)) (fetch_current_pointer cr js (recorded st) False)
    (\<lambda>x. wtrace cr js log0 (\<lambda>evs. pointer_read js evs (fst x) (snd x))) (\<lambda>_. wtrace cr js log0 (\<lambda>_. True))"
proof -
  have obj: "triple (wtrace cr js log0 (\<lambda>evs. R evs \<and> Got CURRENT_JSON_KEY (Inr (Some obj)) \<in> set evs))
      (io_lift (read_pointer js obj)) (\<lambda>x. wtrace cr js log0 (\<lambda>evs. pointer_read js evs (fst x) (snd x)))
      (\<lambda>_. wtrace cr js log0 (\<lambda>_. True))" for obj R
  proof (rule wtrace_lift)
    fix x evs
    assume "read_pointer js obj = Inr x" "R evs \<and> Got CURRENT_JSON_KEY (Inr (Some obj)) \<in> set evs"
    with read_pointer_Inr [of js obj "fst x" "snd x"] show "pointer_read js evs (fst x) (snd x)"
      by (auto simp: pointer_read_def)
  qed
  show ?thesis
    unfolding fetch_current_pointer_def Let_def if_False
    apply (rule triple_then [OF wtrace_get], rule stable_rules)
    apply (rule triple_case_option)
     apply (rule triple_then [OF wtrace_list], intro stable_rules)
     apply (rule triple_if, rule wtrace_throw)
     apply (rule triple_then [OF wtrace_draw_id])
     apply (rule triple_then [OF wtrace_put_absent], intro stable_rules)
      apply (simp add: call_ok_def)
      apply blast
    subgoal for x existing rid out
      apply (cases out)
       apply (simp only: put_outcome.case)
       apply (rule wtrace_return)
       apply (auto simp: pointer_read_def) []
      apply (simp only: put_outcome.case)
      apply (rule triple_then [OF wtrace_get], intro stable_rules)
      apply (rule triple_case_option, rule wtrace_throw)
      apply (simp only:)
      apply (rule obj)
      done
    apply (simp only:)
    apply (rule obj)
    done
qed

lemma keeps_trace_get: "stable R \<Longrightarrow> keeps (trace cr js log0 R) (get_object (recorded st) k)"
  unfolding keeps_def by (rule triple_weaken [OF trace_reads(1)]) (auto elim: trace_weaken)

lemma fetch_reusable_trace:
  assumes "stable R"
  shows "triple (wtrace cr js log0 R) (fetch_reusable_configs cr (recorded st) current desired)
    (\<lambda>_. wtrace cr js log0 R) (\<lambda>_. wtrace cr js log0 (\<lambda>_. True))"
proof -
  have "keeps (wtrace cr js log0 R) (fetch_reusable_configs cr (recorded st) current desired)"
    unfolding wtrace_def by (rule keeps_fetch_reusable) (rule keeps_trace_get [OF assms])
  then show ?thesis unfolding keeps_def by (rule triple_weaken) (auto elim: wtrace_weaken)
qed

section \<open>Rendering all nodes\<close>

definition rendered_ok ::
  "crates \<Rightarrow> string list \<Rightarrow> (string, string) btree_map \<times> (string, string) btree_map \<Rightarrow> bool" where
  "rendered_ok cr hs = (\<lambda>(rendered, digests).
     bt_wf digests \<and> set (bt_keys digests) = set hs \<and>
     (\<forall>h\<in>set hs. \<exists>b. bt_get rendered h = Some b \<and> bt_get digests h = Some (digest_of cr b) \<and>
        is_ok (parse_wg_quick cr b)))"

lemma render_node_valid: "render_node_config cr t keys h = Inr out \<Longrightarrow> is_ok (parse_wg_quick cr out)"
  by (auto simp: render_node_config_def and_then_Inr_iff Let_def is_ok_iff)

lemma render_all_ok:
  assumes "fold_res (render_all cr t keys) hs ([], []) = Inr rd"
  shows "rendered_ok cr hs rd"
proof (rule fold_res_prefix_invariant [OF assms, where P = "rendered_ok cr"])
  fix ys x s t'
  assume P: "rendered_ok cr ys s" and "render_all cr t keys x s = Inr t'"
  moreover obtain rendered digests where "s = (rendered, digests)" by fastforce
  ultimately obtain b where "render_node_config cr t keys x = Inr b"
    "t' = (bt_insert x b rendered, bt_insert x (digest_of cr b) digests)"
    "rendered_ok cr ys (rendered, digests)"
    by (auto simp: render_all_def and_then_Inr_iff)
  then show "rendered_ok cr (ys @ [x]) t'"
    by (auto simp: rendered_ok_def dest: render_node_valid)
qed (simp add: rendered_ok_def bt_keys_def)

lemma bt_wf_get: "bt_wf m \<Longrightarrow> (k, v) \<in> set m \<longleftrightarrow> bt_get m k = Some v"
  by (auto simp: bt_wf_keys bs_wf_sorted_distinct bt_keys_def bt_get_def map_of_eq_Some_iff)

section \<open>Uploading\<close>

lemma upload_node_trace:
  assumes R: "stable R" and b: "bt_get rendered h = Some b" "is_ok (parse_wg_quick cr b)"
  shows "triple (wtrace cr js log0 R) (upload_node (recorded st) rendered gid h done_hosts)
    (\<lambda>_. wtrace cr js log0 (\<lambda>evs. R evs \<and> stored evs (node_object_key h gid) b)) (\<lambda>_. wtrace cr js log0 (\<lambda>_. True))"
  unfolding upload_node_def Let_def b
  apply (rule wtrace_then_lift)
  apply (simp only: ok_or_simps sum.inject)
  apply (rule triple_then [OF wtrace_put_absent], rule R)
   apply (use b in \<open>auto simp: call_ok_def\<close>) []
  subgoal for x out
    apply (cases out)
     apply (simp only: put_outcome.case)
     apply (rule wtrace_return)
     apply (auto simp: stored_def) []
    apply (simp only: put_outcome.case)
    apply (rule triple_then [OF wtrace_get], intro stable_rules R)
    apply (rule wtrace_then_lift)
    apply (rule triple_if, rule wtrace_throw)
    apply (rule wtrace_return)
    apply (auto simp: stored_def) []
    done
  done

lemma upload_trace:
  assumes R: "stable R" and rd: "rendered_ok cr hs (rendered, digests)"
  shows "triple (wtrace cr js log0 R) (io_fold (upload_node (recorded st) rendered gid) hs up)
    (\<lambda>_. wtrace cr js log0 (\<lambda>evs. R evs \<and> backed cr evs \<lparr>ge_id = gid, ge_nodes = digests\<rparr>))
    (\<lambda>_. wtrace cr js log0 (\<lambda>_. True))"
proof -
  let ?S = "\<lambda>ys evs. R evs \<and> (\<forall>h\<in>set ys. \<exists>b. bt_get rendered h = Some b \<and> bt_get digests h = Some (digest_of cr b) \<and>
      is_ok (parse_wg_quick cr b) \<and> stored evs (node_object_key h gid) b)"
  have "triple (wtrace cr js log0 (?S [])) (io_fold (upload_node (recorded st) rendered gid) hs up)
    (\<lambda>_. wtrace cr js log0 (?S hs)) (\<lambda>_. wtrace cr js log0 (\<lambda>_. True))"
  proof (rule triple_fold [where I = "\<lambda>ys _. wtrace cr js log0 (?S ys)"])
    fix ys h and up :: "string list"
    assume "\<exists>zs. hs = ys @ h # zs"
    then obtain b where b: "bt_get rendered h = Some b" "bt_get digests h = Some (digest_of cr b)"
      "is_ok (parse_wg_quick cr b)" using rd by (auto simp: rendered_ok_def)
    have "stable (?S ys)" by (intro stable_rules R)
    from upload_node_trace [OF this b(1,3)]
    show "triple (wtrace cr js log0 (?S ys)) (upload_node (recorded st) rendered gid h up)
        (\<lambda>_. wtrace cr js log0 (?S (ys @ [h]))) (\<lambda>_. wtrace cr js log0 (\<lambda>_. True))"
      by (rule triple_weaken) (use b in \<open>auto elim!: wtrace_weaken\<close>)
  qed
  then show ?thesis
  proof (rule triple_weaken)
    fix x w
    assume "wtrace cr js log0 (?S hs) w"
    then show "wtrace cr js log0 (\<lambda>evs. R evs \<and> backed cr evs \<lparr>ge_id = gid, ge_nodes = digests\<rparr>) w"
    proof (rule wtrace_weaken)
      fix evs
      assume S: "?S hs evs"
      have "\<exists>b. stored evs (node_object_key h gid) b \<and> d = digest_of cr b \<and> is_ok (parse_wg_quick cr b)"
        if "(h, d) \<in> set digests" for h d
      proof -
        have "bt_get digests h = Some d" "h \<in> set hs"
          using rd that bt_wf_get [of digests h d] bt_get_Some_keys [of digests h d] by (auto simp: rendered_ok_def)
        with S show ?thesis by fastforce
      qed
      with S show "R evs \<and> backed cr evs \<lparr>ge_id = gid, ge_nodes = digests\<rparr>" by (auto simp: backed_def)
    qed
  qed (auto elim: wtrace_weaken)
qed

section \<open>Committing the pointer\<close>

lemma stable_backed [stable_rules]: "stable (\<lambda>evs. backed cr evs g)"
  by (fastforce simp: stable_def backed_def stored_def)

lemma stable_disj [stable_rules]: "stable R \<Longrightarrow> stable S \<Longrightarrow> stable (\<lambda>evs. R evs \<or> S evs)"
  by (auto simp: stable_def)

definition content_ok :: "crates \<Rightarrow> current_json \<Rightarrow> current_json \<Rightarrow> event list \<Rightarrow> bool" where
  "content_ok cr base p evs \<longleftrightarrow>
     cur p = cur base \<and> prev p = prev base \<or> prev p = cur base \<and> (\<exists>g. cur p = Some g \<and> backed cr evs g)"

lemma stable_content [stable_rules]: "stable (content_ok cr base p)"
  unfolding content_ok_def by (intro stable_rules)

definition commit_ready :: "crates \<Rightarrow> serde \<Rightarrow> current_json \<Rightarrow> current_json \<Rightarrow> string \<Rightarrow> event list \<Rightarrow> bool" where
  "commit_ready cr js base p etag evs \<longleftrightarrow>
     (\<exists>e0. pointer_read js evs base e0) \<and> content_ok cr base p evs \<and>
     (\<exists>seen. pointer_read js evs seen etag \<and> revision seen = revision base)"

lemma stable_commit_ready [stable_rules]: "stable (commit_ready cr js base p etag)"
  unfolding commit_ready_def by (intro stable_rules)

lemma commit_ready_call:
  "commit_ready cr js base p etag evs \<Longrightarrow> call_ok cr js evs (PutMatch CURRENT_JSON_KEY (to_vec js p) etag r)"
  by (fastforce simp: commit_ready_def call_ok_def content_ok_def)

lemma commit_loop_trace:
  "triple (wtrace cr js log0 (commit_ready cr js base p etag))
    (commit_loop js (recorded st) (revision base) (to_vec js p) n etag)
    (\<lambda>_. wtrace cr js log0 (\<lambda>evs. committed evs (to_vec js p))) (\<lambda>_. wtrace cr js log0 (\<lambda>_. True))"
proof (induction n arbitrary: etag)
  case 0
  then show ?case by (simp only: commit_loop.simps wtrace_throw)
next
  case (Suc n)
  show ?case
    unfolding commit_loop.simps
    apply (rule triple_then [OF wtrace_put_match], rule stable_rules, rule commit_ready_call, assumption)
    subgoal for out
      apply (cases out)
       apply (simp only: put_outcome.case)
       apply (rule wtrace_return)
       apply (auto simp: committed_def) []
      apply (simp only: put_outcome.case)
      apply (rule triple_then [OF wtrace_get], intro stable_rules)
      apply (rule wtrace_then_lift)
      apply (simp only: ok_or_simps)
      apply (rule triple_if)
       apply (rule wtrace_return)
       apply (auto simp: committed_def) []
      apply (rule wtrace_then_lift)
      apply (rule triple_if)
       apply (rule wtrace_pre [OF Suc.IH])
       apply (auto simp: commit_ready_def pointer_read_def) []
      apply (rule wtrace_throw)
      done
    done
qed

lemma commit_pointer_trace:
  "triple (wtrace cr js log0 (\<lambda>evs. pointer_read js evs base etag \<and> content_ok cr base p evs))
    (commit_pointer js (recorded st) base etag p)
    (\<lambda>_. wtrace cr js log0 (\<lambda>evs. committed evs (to_vec js p))) (\<lambda>_. wtrace cr js log0 (\<lambda>_. True))"
  unfolding commit_pointer_def by (rule wtrace_pre [OF commit_loop_trace]) (auto simp: commit_ready_def)

section \<open>A whole apply\<close>

lemma refresh_trace:
  "triple (wtrace cr js log0 (\<lambda>evs. pointer_read js evs pointer etag))
    (refresh cr js (recorded st) False pointer etag report)
    (\<lambda>x. wtrace cr js log0 (\<lambda>evs. committed evs (to_vec js (fst x)))) (\<lambda>_. wtrace cr js log0 (\<lambda>_. True))"
  unfolding refresh_def Let_def if_False
  apply (rule triple_then [OF wtrace_draw_id])
  apply (rule triple_then)
   apply (rule wtrace_pre [OF commit_pointer_trace])
   apply (simp add: content_ok_def)
  apply (rule wtrace_return)
  apply simp
  done

lemma publish_trace:
  assumes "rendered_ok cr hs (rendered, digests)"
  shows "triple (wtrace cr js log0 (\<lambda>evs. pointer_read js evs pointer etag))
    (publish cr js (recorded st) False pointer etag hs (rendered, digests) report)
    (\<lambda>x. wtrace cr js log0 (\<lambda>evs. committed evs (to_vec js (fst x)))) (\<lambda>_. wtrace cr js log0 (\<lambda>_. True))"
  unfolding publish_def Let_def if_False prod.case
  apply (rule triple_then [OF wtrace_draw_id])
  apply (rule triple_then [OF wtrace_draw_id])
  apply (rule triple_then [OF upload_trace [OF _ assms]], rule stable_rules)
  apply (rule triple_then)
   apply (rule wtrace_pre [OF commit_pointer_trace])
   apply (simp add: content_ok_def)
  apply (rule wtrace_return)
  apply simp
  done

lemma deletion_call_ok:
  assumes "committed es (to_vec js p)" and "deletion_ok p now grace dry listing e"
  shows "call_ok cr js es e"
proof -
  from assms(2) obtain key d t where e: "e = Deleted key d" and "may_delete p now grace key t"
    by (auto simp: deletion_ok_def)
  then have "unnamed p key" by (simp add: may_delete_def unnamed_def)
  with assms(1) show ?thesis unfolding call_ok_def e event.case by blast
qed

lemma cleanup_pass_trace:
  "triple (wtrace cr js log0 (\<lambda>evs. committed evs (to_vec js p)))
    (cleanup_pass (recorded st) now p grace dry report)
    (\<lambda>_. wtrace cr js log0 (\<lambda>_. True)) (\<lambda>_. wtrace cr js log0 (\<lambda>_. True))"
proof -
  have "keeps (wtrace cr js log0 (\<lambda>evs. committed evs (to_vec js p))) (cleanup_pass (recorded st) now p grace dry report)"
  proof (rule keepsI)
    fix w r w'
    assume w: "wtrace cr js log0 (\<lambda>evs. committed evs (to_vec js p)) w"
      and c: "cleanup_pass (recorded st) now p grace dry report w = (r, w')"
    obtain s log where s: "w_store w = (s, log)" by (rule prod.exhaust)
    obtain x s' log' where x: "cleanup (recorded st) now p grace dry (s, log) = (x, s', log')" by (rule prod_cases3)
    have w': "w_store w' = (s', log')" using c x s by (cases x) (auto simp: cleanup_pass_def)
    from cleanup_safe [where st = st and now = now and p = p and grace = grace and dry = dry and s = s and log = log] x
    obtain listing evs where l: "log' = log @ ListedTimes NODES_PREFIX listing # evs"
      and ok: "list_all (deletion_ok p now grace dry listing) evs" by auto
    from w s obtain es where es: "log = log0 @ es" "each_after (call_ok cr js) es" "committed es (to_vec js p)"
      by (auto simp: wtrace_def trace_def)
    let ?es = "es @ [ListedTimes NODES_PREFIX listing]"
    have "each_after (call_ok cr js) (?es @ evs)"
    proof (rule each_after_append [where Q = "\<lambda>_. deletion_ok p now grace dry listing"])
      show "each_after (call_ok cr js) ?es" using es(2) by (simp add: call_ok_def)
      show "each_after (\<lambda>_. deletion_ok p now grace dry listing) evs"
        using ok by (simp add: each_after_def list_all_length)
      fix gs e
      assume "deletion_ok p now grace dry listing e"
      moreover have "committed (?es @ gs) (to_vec js p)"
        using stableD [OF stable_basic(5) es(3), of "[ListedTimes NODES_PREFIX listing] @ gs"] by simp
      ultimately show "call_ok cr js (?es @ gs) e" by (rule deletion_call_ok [rotated])
    qed
    moreover have "committed (?es @ evs) (to_vec js p)"
      using stableD [OF stable_basic(5) es(3), of "[ListedTimes NODES_PREFIX listing] @ evs"] by simp
    ultimately show "wtrace cr js log0 (\<lambda>evs. committed evs (to_vec js p)) w'"
      using l es(1) w' by (auto simp: wtrace_def trace_def intro!: exI [of _ "?es @ evs"])
  qed
  then show ?thesis unfolding keeps_def by (rule triple_weaken) (auto elim: wtrace_weaken)
qed

lemma apply_trace_live:
  assumes "\<not> ao_dry_run opts"
  shows "triple (wtrace cr js log0 (\<lambda>_. True)) (apply_topology cr js (recorded st) now config opts)
    (\<lambda>_. wtrace cr js log0 (\<lambda>_. True)) (\<lambda>_. wtrace cr js log0 (\<lambda>_. True))"
proof -
  have d: "ao_dry_run opts = False" using assms by simp
  show ?thesis
    unfolding apply_topology_def Let_def d
    apply (rule wtrace_then_lift)
    apply (rule triple_case_prod)
    apply (rule wtrace_then_lift)
    apply (rule triple_then [OF fetch_current_pointer_trace])
    apply (rule triple_case_prod)
    apply (rule triple_then [OF fetch_reusable_trace], rule stable_rules)
    apply (rule triple_then [OF wtrace_draws])
    apply (rule wtrace_then_lift)
    apply (rule triple_case_prod)
    apply (rule triple_then [where R = "\<lambda>x. wtrace cr js log0 (\<lambda>evs. committed evs (to_vec js (fst x)))"])
     apply (rule triple_if)
      apply (rule wtrace_pre [OF refresh_trace], simp)
     apply (rule wtrace_pre [OF publish_trace])
      apply (drule render_all_ok, simp)
     apply simp
    apply (rule triple_case_prod)
    apply (rule wtrace_pre [OF cleanup_pass_trace], simp)
    done
qed

text \<open>
  C5. In every apply, on any bucket and whatever it answers, the calls come in a safe order: the
  pointer is created only in a bucket read to be empty; it is replaced only under the ETag of
  a pointer whose revision is the one this run started from, so no other writer's change is
  lost; a new pointer keeps the generations of the old one or names a new generation all of
  whose objects have been stored before, with their digests and each a valid configuration,
  and the replaced generation as its previous one; and an object is deleted only after the
  pointer then in place no longer names its generation.
\<close>
theorem apply_call_order:
  "case apply_topology cr js (recorded st) now config opts w of
     (r, w') \<Rightarrow> \<exists>evs. snd (w_store w') = snd (w_store w) @ evs \<and> each_after (call_ok cr js) evs"
proof -
  obtain r w' where a: "apply_topology cr js (recorded st) now config opts w = (r, w')" by (rule prod.exhaust)
  show ?thesis
  proof (cases "ao_dry_run opts")
    case True
    have "only_read (snd (w_store w)) (w_store w')"
      by (rule keepsD [OF only_read_apply [OF True] _ a]) (simp add: only_read_def)
    moreover have "each_after (call_ok cr js) evs" if "list_all (\<lambda>e. \<not> writes e) evs" for evs
      using that by (auto simp: each_after_def call_ok_def writes_def list_all_length split: event.split)
    ultimately show ?thesis using a by (auto simp: only_read_def)
  next
    case False
    have "keeps (wtrace cr js (snd (w_store w)) (\<lambda>_. True)) (apply_topology cr js (recorded st) now config opts)"
      unfolding keeps_def by (rule apply_trace_live [OF False])
    from keepsD [OF this _ a] have "wtrace cr js (snd (w_store w)) (\<lambda>_. True) w'"
      by (simp add: wtrace_def trace_def)
    with a show ?thesis by (auto simp: wtrace_def trace_def)
  qed
qed

end
