(* ===== verification/Utf8.thy ===== *)
theory Utf8
  imports Rust_Str
begin

text \<open>
  UTF-8 texts put together and cut: the concatenation of two valid texts is valid, cutting a
  text between its characters does not change them, and trimming twice is trimming once.
\<close>

section \<open>Concatenation\<close>

lemma utf8_step_valid_append: "utf8_step c s = (True, n) \<Longrightarrow> utf8_step c (s @ t) = (True, n)"
  by (auto simp: utf8_step_def Let_def split: if_splits list.splits)

lemma utf8_valid_Cons:
  "utf8_valid (c # s) \<longleftrightarrow> (\<exists>n. utf8_step c s = (True, n) \<and> utf8_valid (drop (n - 1) s))"
  by (auto simp: utf8_valid_def utf8_scan.simps(2) split: prod.splits)

lemma utf8_valid_append: "utf8_valid s \<Longrightarrow> utf8_valid t \<Longrightarrow> utf8_valid (s @ t)"
proof (induction s rule: utf8_scan.induct)
  case (2 c s)
  then obtain n where n: "utf8_step c s = (True, n)" "utf8_valid (drop (n - 1) s)"
    by (auto simp: utf8_valid_Cons)
  with 2 have "utf8_valid (drop (n - 1) s @ t)" by simp
  then show ?case
    using utf8_step_valid_append [OF n(1)] utf8_step_bound [OF n(1)] by (auto simp: utf8_valid_Cons)
qed simp

lemma utf8_valid_concat: "list_all utf8_valid ss \<Longrightarrow> utf8_valid (concat ss)"
  by (induction ss) (simp_all add: utf8_valid_append utf8_valid_ascii)

section \<open>Cutting\<close>

lemma utf8_step_take: "utf8_step c s = (ok, n) \<Longrightarrow> utf8_step c (take (n - 1) s) = (ok, n)"
  by (auto simp: utf8_step_def Let_def split: if_splits list.splits)

lemma utf8_step_pos: "utf8_step c s = (ok, n) \<Longrightarrow> 0 < n"
  by (auto simp: utf8_step_def Let_def split: if_splits list.splits)

lemma utf8_chunks_Cons:
  "utf8_step c s = (ok, n) \<Longrightarrow> utf8_chunks (c # s) = (c # take (n - 1) s) # utf8_chunks (drop (n - 1) s)"
  by (simp add: utf8_chunks_def utf8_scan.simps(2))

lemma utf8_chunks_Nil [simp]: "utf8_chunks [] = []"
  by (simp add: utf8_chunks_def)

lemma utf8_chunks_drop: "utf8_chunks (concat (drop k (utf8_chunks s))) = drop k (utf8_chunks s)"
proof (induction s arbitrary: k rule: utf8_scan.induct)
  case (2 c s)
  obtain ok n where n: "utf8_step c s = (ok, n)" by fastforce
  show ?case
  proof (cases k)
    case 0
    then show ?thesis by (simp add: concat_utf8_chunks)
  next
    case (Suc j)
    with 2 n show ?thesis by (simp add: utf8_chunks_Cons)
  qed
qed simp

text \<open>The step looks ahead, so what follows must begin as before: it does, or there is nothing more.\<close>

lemma utf8_step_prefix:
  assumes "utf8_step c s = (ok, n)" and "n - 1 \<le> length p" and "p = take (length p) s"
  shows "utf8_step c p = (ok, n)"
proof -
  obtain q where s: "s = p @ q" using assms(3) by (metis append_take_drop_id)
  show ?thesis
    using assms(1,2) unfolding s
    by (cases p; cases "tl p"; cases "tl (tl p)")
      (auto simp: utf8_step_def Let_def split: if_splits list.splits)
qed

lemma utf8_chunks_take: "utf8_chunks (concat (take k (utf8_chunks s))) = take k (utf8_chunks s)"
proof (induction s arbitrary: k rule: utf8_scan.induct)
  case (2 c s)
  obtain ok n where n: "utf8_step c s = (ok, n)" by fastforce
  note bound = utf8_step_bound [OF n]
  show ?case
  proof (cases k)
    case (Suc j)
    let ?r = "concat (take j (utf8_chunks (drop (n - 1) s)))"
    have "drop (n - 1) s = ?r @ concat (drop j (utf8_chunks (drop (n - 1) s)))"
      by (metis append_take_drop_id concat_append concat_utf8_chunks)
    then have "s = (take (n - 1) s @ ?r) @ concat (drop j (utf8_chunks (drop (n - 1) s)))"
      by (metis append_assoc append_take_drop_id)
    then have pre: "take (n - 1) s @ ?r = take (length (take (n - 1) s @ ?r)) s"
      by (metis append_eq_conv_conj)
    have st: "utf8_step c (take (n - 1) s @ ?r) = (ok, n)"
      by (rule utf8_step_prefix [OF n _ pre]) (use bound in simp)
    have "utf8_chunks ?r = take j (utf8_chunks (drop (n - 1) s))" using 2 n by simp
    with bound utf8_chunks_Cons [OF st] show ?thesis by (simp add: Suc utf8_chunks_Cons [OF n])
  qed simp
qed simp

section \<open>Trimming twice\<close>

lemma dropWhile_drop: "\<exists>k. dropWhile p xs = drop k xs"
  by (metis dropWhile_eq_drop)

lemma rev_dropWhile_take: "\<exists>k. rev (dropWhile p (rev xs)) = take k xs"
  by (metis dropWhile_drop rev_drop rev_rev_ident)

lemma trim_chunks:
  "utf8_chunks (trim s) = trim_by (\<lambda>ch. is_whitespace (code_point ch)) (utf8_chunks s)"
proof -
  let ?p = "\<lambda>ch. is_whitespace (code_point ch)"
  obtain j where j: "dropWhile ?p (utf8_chunks s) = drop j (utf8_chunks s)" using dropWhile_drop by blast
  obtain k where k: "rev (dropWhile ?p (rev (drop j (utf8_chunks s)))) = take k (drop j (utf8_chunks s))"
    using rev_dropWhile_take by blast
  have t: "trim_by ?p (utf8_chunks s) = take k (utf8_chunks (concat (drop j (utf8_chunks s))))"
    by (simp add: trim_by_def j k utf8_chunks_drop)
  show ?thesis unfolding trim_def t by (rule utf8_chunks_take)
qed

lemma trim_end_trim: "trim_end (trim s) = trim s"
proof -
  let ?p = "\<lambda>ch. is_whitespace (code_point ch)"
  have "rev (dropWhile ?p (rev (trim_by ?p xs))) = trim_by ?p xs" for xs :: "string list"
    by (simp add: trim_by_def)
  then show ?thesis by (simp add: trim_end_def trim_chunks concat_utf8_chunks flip: trim_def)
qed

lemma utf8_valid_ascii_Cons [simp]: "byte a < 128 \<Longrightarrow> utf8_valid (a # s) \<longleftrightarrow> utf8_valid s"
  by (auto simp: utf8_valid_Cons utf8_step_def)

lemma utf8_valid_Nil [simp]: "utf8_valid []"
  by (simp add: utf8_valid_ascii)

end
