(* ===== verification/Topology_Valid.thy ===== *)
theory Topology_Valid
  imports Topology "HOL-Library.Multiset"
begin

text \<open>
  What \<open>topology::validate\<close> establishes: the loops' invariants, the well-formedness of an
  accepted topology, and the absence of panics.
\<close>

section \<open>The loops\<close>

lemma check_hostnames_Inr:
  assumes "fold_res check_hostname ns [] = Inr seen"
  shows "set seen = nc_hostname ` set ns" and "distinct (map nc_hostname ns)"
    and "\<forall>n\<in>set ns. hostname_regex (nc_hostname n)"
proof -
  let ?P = "\<lambda>ys s. set s = nc_hostname ` set ys \<and> distinct (map nc_hostname ys) \<and>
    (\<forall>n\<in>set ys. hostname_regex (nc_hostname n))"
  have "?P ns seen"
    by (rule fold_res_prefix_invariant [OF assms])
      (auto simp: check_hostname_def and_then_Inr_iff hostname_validate_regex)
  then show "set seen = nc_hostname ` set ns" "distinct (map nc_hostname ns)"
    "\<forall>n\<in>set ns. hostname_regex (nc_hostname n)" by blast+
qed

lemma check_masters_Inr:
  assumes "fold_res (check_master seen) ms [] = Inr masters"
  shows "bs_wf masters" and "set masters = set ms" and "set ms \<subseteq> set seen" and "distinct ms"
proof -
  let ?P = "\<lambda>ys s. bs_wf s \<and> set s = set ys \<and> set ys \<subseteq> set seen \<and> distinct ys"
  have "?P ms masters"
    by (rule fold_res_prefix_invariant [OF assms]) (auto simp: check_master_def)
  then show "bs_wf masters" "set masters = set ms" "set ms \<subseteq> set seen" "distinct ms" by blast+
qed

lemma check_nodes_Inr:
  assumes "fold_res (check_node cr) cs ([], []) = Inr (ns, owners)"
  shows "list_all2 (node_matches cr) cs ns" and "distinct (map vn_tunnel_address ns)"
proof -
  let ?P = "\<lambda>ys (s :: validated_node list \<times> addr_owners). list_all2 (node_matches cr) ys (fst s) \<and>
    distinct (map vn_tunnel_address (fst s)) \<and>
    (\<forall>a. bt_get (snd s) a = None \<longleftrightarrow> a \<notin> vn_tunnel_address ` set (fst s))"
  have "?P cs (ns, owners)"
  proof (rule fold_res_prefix_invariant [OF assms, where P = ?P])
    fix ys x and s t :: "validated_node list \<times> addr_owners"
    assume P: "?P ys s" and "check_node cr x s = Inr t"
    then obtain n where "node_matches cr x n" "fst t = fst s @ [n]"
      "bt_get (snd s) (vn_tunnel_address n) = None"
      "snd t = bt_insert (vn_tunnel_address n) (nc_hostname x) (snd s)"
      by (cases s; cases t) (auto simp: check_node_Inr)
    with P show "?P (ys @ [x]) t" by (auto simp: list_all2_appendI)
  qed simp
  then show "list_all2 (node_matches cr) cs ns" "distinct (map vn_tunnel_address ns)" by simp_all
qed

lemma matches_hostnames: "list_all2 (node_matches cr) cs ns \<Longrightarrow> map vn_hostname ns = map nc_hostname cs"
  by (induction rule: list_all2_induct) (auto simp: node_matches_def)

section \<open>Routes\<close>

definition covers :: "crates \<Rightarrow> ipv4net \<Rightarrow> 32 word \<Rightarrow> bool" where
  "covers cr r a \<longleftrightarrow> net_network cr r \<le> a \<and> a \<le> net_broadcast cr r"

definition disjoint_nets :: "crates \<Rightarrow> ipv4net \<Rightarrow> ipv4net \<Rightarrow> bool" where
  "disjoint_nets cr a b \<longleftrightarrow> \<not> ranges_overlap (net_range cr a) (net_range cr b)"

lemma disjoint_nets_sym: "disjoint_nets cr a b \<longleftrightarrow> disjoint_nets cr b a"
  by (auto simp: disjoint_nets_def ranges_overlap_def)

text \<open>Disjoint networks have no address in common.\<close>

lemma disjoint_nets_covers: "disjoint_nets cr a b \<Longrightarrow> covers cr a x \<Longrightarrow> \<not> covers cr b x"
  by (auto simp: disjoint_nets_def ranges_overlap_def net_range_def covers_def)

definition routes_ok :: "crates \<Rightarrow> validated_node list \<Rightarrow> bool" where
  "routes_ok cr ns \<longleftrightarrow>
     (\<forall>n\<in>set ns. \<forall>r\<in>set (vn_extra_allowed_ips n). \<forall>m\<in>set ns. \<not> covers cr r (vn_tunnel_address m)) \<and>
     (\<forall>n\<in>set ns. \<forall>m\<in>set ns. n \<noteq> m \<longrightarrow>
        (\<forall>a\<in>set (vn_extra_allowed_ips n). \<forall>b\<in>set (vn_extra_allowed_ips m). disjoint_nets cr a b)) \<and>
     (\<forall>n\<in>set ns. sorted_wrt (disjoint_nets cr) (vn_extra_allowed_ips n))"

lemma ball_after: "(\<forall>j\<in>{Suc i..<n}. P j) \<longleftrightarrow> (\<forall>j. i < j \<and> j < n \<longrightarrow> P j)"
  by (auto simp: Suc_le_eq)

lemma sorted_wrt_after:
  "(\<forall>i\<in>{0..<length xs}. \<forall>j\<in>{Suc i..<length xs}. P (xs ! i) (xs ! j)) \<longleftrightarrow> sorted_wrt P xs"
  by (auto simp: sorted_wrt_iff_nth_less ball_after)

lemma check_routes_of_Inr:
  "check_routes_of cr ns i = Inr () \<longleftrightarrow>
    (\<forall>r\<in>set (vn_extra_allowed_ips (ns ! i)). \<forall>m\<in>set ns. \<not> covers cr r (vn_tunnel_address m)) \<and>
    (\<forall>j. i < j \<and> j < length ns \<longrightarrow> (\<forall>a\<in>set (vn_extra_allowed_ips (ns ! i)).
      \<forall>b\<in>set (vn_extra_allowed_ips (ns ! j)). disjoint_nets cr a b)) \<and>
    sorted_wrt (disjoint_nets cr) (vn_extra_allowed_ips (ns ! i))"
  unfolding sorted_wrt_after [symmetric]
  by (simp add: check_routes_of_def and_then_Inr_iff for_each_Inr_iff Let_def check_covers_def
      check_disjoint_def covers_def disjoint_nets_def net_range_def ball_after)

lemma check_routes_Inr_ok:
  assumes "for_each (check_routes_of cr ns) [0..<length ns] = Inr ()"
  shows "routes_ok cr ns"
proof -
  from assms have *: "check_routes_of cr ns i = Inr ()" if "i < length ns" for i
    using that by (simp add: for_each_Inr_iff)
  note * = * [unfolded check_routes_of_Inr]
  have pair: "disjoint_nets cr a b"
    if "i < length ns" "j < length ns" "i \<noteq> j" "a \<in> set (vn_extra_allowed_ips (ns ! i))"
      "b \<in> set (vn_extra_allowed_ips (ns ! j))" for i j a b
    using that * [of i] * [of j] disjoint_nets_sym [of cr a b]
    by (cases "i < j") (auto simp: not_less_iff_gr_or_eq)
  show ?thesis unfolding routes_ok_def
  proof (intro conjI ballI impI)
    fix n m a b
    assume "n \<in> set ns" "m \<in> set ns" "n \<noteq> m" "a \<in> set (vn_extra_allowed_ips n)"
      "b \<in> set (vn_extra_allowed_ips m)"
    then show "disjoint_nets cr a b" using pair by (metis in_set_conv_nth)
  qed (use * in \<open>metis in_set_conv_nth\<close>)+
qed

section \<open>Edges\<close>

lemma find_hostname:
  assumes "distinct (map vn_hostname ns)"
  shows "List.find (\<lambda>n. vn_hostname n = h) ns = Some n \<longleftrightarrow> n \<in> set ns \<and> vn_hostname n = h"
  using assms
  by (induction ns) (auto simp: rev_image_eqI)

lemma find_hostname_None:
  "List.find (\<lambda>n. vn_hostname n = h) ns = None \<longleftrightarrow> h \<notin> vn_hostname ` set ns"
  by (auto simp: find_None_iff)

lemma check_edge_Inr:
  assumes "distinct (map vn_hostname ns)"
  shows "check_edge ns (a, b) = Inr () \<longleftrightarrow>
    (\<exists>n\<in>set ns. \<exists>m\<in>set ns. vn_hostname n = a \<and> vn_hostname m = b \<and>
      (vn_endpoint n \<noteq> None \<or> vn_endpoint m \<noteq> None))"
  by (auto simp: check_edge_def and_then_Inr_iff find_hostname [OF assms])

text \<open>The \<open>unwrap\<close>s of the edge check succeed: an edge joins two of the nodes.\<close>

lemma check_edge_no_panic:
  assumes "distinct (map vn_hostname ns)" and "e \<in> set (compute_edges (map vn_hostname ns) ms)"
  shows "check_edge ns e \<noteq> Inl Panic"
proof -
  obtain a b where e: "e = (a, b)" by fastforce
  then have "a \<in> vn_hostname ` set ns" "b \<in> vn_hostname ` set ns"
    using assms by (simp_all add: compute_edges_iff)
  then show ?thesis
    unfolding e by (auto simp: check_edge_def and_then_Inl_iff guard_err_Inl_iff find_hostname_None)
qed

section \<open>A valid topology\<close>

definition topology_ok :: "crates \<Rightarrow> validated_topology \<Rightarrow> bool" where
  "topology_ok cr t \<longleftrightarrow>
     sorted_wrt (<) (map vn_hostname (vt_nodes t)) \<and>
     (\<forall>n\<in>set (vt_nodes t). hostname_regex (vn_hostname n)) \<and>
     bs_wf (vt_masters t) \<and> set (vt_masters t) \<subseteq> vn_hostname ` set (vt_nodes t) \<and>
     distinct (map vn_tunnel_address (vt_nodes t)) \<and>
     routes_ok cr (vt_nodes t) \<and>
     (\<forall>(a, b)\<in>set (edges t). \<exists>n\<in>set (vt_nodes t). \<exists>m\<in>set (vt_nodes t).
        vn_hostname n = a \<and> vn_hostname m = b \<and> (vn_endpoint n \<noteq> None \<or> vn_endpoint m \<noteq> None))"

definition topology_matches :: "crates \<Rightarrow> topology_config \<Rightarrow> validated_topology \<Rightarrow> bool" where
  "topology_matches cr cfg t \<longleftrightarrow>
     (\<exists>ns. list_all2 (node_matches cr) (tc_nodes cfg) ns \<and> mset (vt_nodes t) = mset ns) \<and>
     set (vt_masters t) = set (tc_master cfg) \<and>
     vt_nodes t \<noteq> [] \<and> length (vt_nodes t) \<le> MAX_NODES"

lemma topology_ok_distinct: "topology_ok cr t \<Longrightarrow> distinct (map vn_hostname (vt_nodes t))"
  by (simp add: topology_ok_def strict_sorted_iff)

lemma routes_ok_cong: "set ns = set ns' \<Longrightarrow> routes_ok cr ns = routes_ok cr ns'"
  by (simp add: routes_ok_def)

lemma topology_validate_ok:
  assumes "topology_validate cr cfg = Inr (t, ws)"
  shows "topology_ok cr t" and "topology_matches cr cfg t"
proof -
  obtain seen masters ns owners where
    seen: "fold_res check_hostname (tc_nodes cfg) [] = Inr seen" and
    masters: "fold_res (check_master seen) (tc_master cfg) [] = Inr masters" and
    nodes: "fold_res (check_node cr) (tc_nodes cfg) ([], []) = Inr (ns, owners)" and
    routes: "for_each (check_routes_of cr ns) [0..<length ns] = Inr ()" and
    edge: "for_each (check_edge ns) (compute_edges (map vn_hostname ns) masters) = Inr ()" and
    t: "t = \<lparr>vt_nodes = sort_key vn_hostname ns, vt_masters = masters\<rparr>" and
    size: "tc_nodes cfg \<noteq> []" "length (tc_nodes cfg) \<le> MAX_NODES"
    using assms by (auto simp: topology_validate_def Let_def and_then_Inr_iff not_less)
  note h = check_hostnames_Inr [OF seen] and m = check_masters_Inr [OF masters]
    and n = check_nodes_Inr [OF nodes]
  have names: "map vn_hostname ns = map nc_hostname (tc_nodes cfg)" by (rule matches_hostnames [OF n(1)])
  have set_names: "vn_hostname ` set ns = nc_hostname ` set (tc_nodes cfg)"
    using arg_cong [OF names, of set] by simp
  have dist: "distinct (map vn_hostname ns)" using h(2) names by simp
  have dist': "distinct (map vn_hostname (sort_key vn_hostname ns))"
    using dist by (simp add: distinct_map)
  have sorted: "sorted_wrt (<) (map vn_hostname (sort_key vn_hostname ns))"
    using dist' by (simp add: strict_sorted_iff)
  have "edges t = compute_edges (map vn_hostname ns) masters"
    using compute_edges_cong [OF dist' dist] by (simp add: edges_def t)
  then have "\<forall>(a, b)\<in>set (edges t). \<exists>n\<in>set ns. \<exists>m\<in>set ns. vn_hostname n = a \<and> vn_hostname m = b \<and>
      (vn_endpoint n \<noteq> None \<or> vn_endpoint m \<noteq> None)"
    using edge check_edge_Inr [OF dist] by (fastforce simp: for_each_Inr_iff)
  moreover have "\<forall>n\<in>set ns. hostname_regex (vn_hostname n)"
    using h(3) set_names by (metis imageE image_eqI)
  moreover have "distinct (map vn_tunnel_address (sort_key vn_hostname ns))"
    using n(2) dist by (simp add: distinct_map)
  ultimately show "topology_ok cr t"
    using sorted m(1-3) h(1) set_names check_routes_Inr_ok [OF routes]
    by (auto simp: topology_ok_def t routes_ok_cong [of "sort_key vn_hostname ns" ns])
  have "length (sort_key vn_hostname ns) \<noteq> 0"
    using size(1) list_all2_lengthD [OF n(1)] by (metis length_0_conv length_sort)
  then have ne: "sort_key vn_hostname ns \<noteq> []" by (metis list.size(3))
  show "topology_matches cr cfg t"
    using n(1) m(2) size list_all2_lengthD [OF n(1)] ne
    by (auto simp: topology_matches_def t intro!: exI [of _ ns])
qed

lemma topology_validate_no_panic: "topology_validate cr cfg \<noteq> Inl Panic"
proof
  assume p: "topology_validate cr cfg = Inl Panic"
  have hs: "fold_res check_hostname ns s \<noteq> Inl Panic" for ns s
    by (induction ns arbitrary: s)
      (auto simp: and_then_Inl_iff check_hostname_def guard_err_Inl_iff map_err_Inl_iff)
  have ms: "fold_res (check_master seen) ns s \<noteq> Inl Panic" for seen ns s
    by (induction ns arbitrary: s) (auto simp: and_then_Inl_iff check_master_def guard_err_Inl_iff)
  have rs: "fold_res (check_route cr h) ns s \<noteq> Inl Panic" for h ns s
    by (induction ns arbitrary: s)
      (auto simp: and_then_Inl_iff check_route_def guard_err_Inl_iff map_err_Inl_iff)
  have nd: "check_node cr n s \<noteq> Inl Panic" for n s
    using rs by (auto simp: check_node_def Let_def and_then_Inl_iff guard_err_Inl_iff map_err_Inl_iff
        split: prod.splits option.splits)
  have ns: "fold_res (check_node cr) ns s \<noteq> Inl Panic" for ns s
    using nd by (induction ns arbitrary: s) (auto simp: and_then_Inl_iff)
  have cr: "check_routes_of cr vs i \<noteq> Inl Panic" for vs i
    by (auto simp: check_routes_of_def Let_def and_then_Inl_iff check_covers_def check_disjoint_def
        guard_err_Inl_iff dest!: for_each_InlD)
  from p obtain seen vs owners masters e where
    "fold_res check_hostname (tc_nodes cfg) [] = Inr seen"
    "fold_res (check_node cr) (tc_nodes cfg) ([], []) = Inr (vs, owners)"
    "e \<in> set (compute_edges (map vn_hostname vs) masters)" "check_edge vs e = Inl Panic"
    by (auto simp: topology_validate_def Let_def and_then_Inl_iff guard_err_Inl_iff map_err_Inl_iff
        hs ms ns cr dest!: for_each_InlD)
  then show False
    using check_edge_no_panic [of vs e masters] check_hostnames_Inr(2)
      matches_hostnames [OF check_nodes_Inr(1)] by metis
qed

section \<open>Properties\<close>

text \<open>
  Validation never panics, and a topology it accepts is sound: hostnames valid, distinct and
  sorted; masters among them; tunnel addresses distinct; every field of every node checked and
  equal to the configuration's; no route covers a tunnel address; the routes of the whole
  fleet pairwise disjoint; and an endpoint on at least one side of every edge.
\<close>
theorem topology_validate_sound:
  "case topology_validate cr cfg of
     Inl e \<Rightarrow> e \<noteq> Panic
   | Inr (t, warnings) \<Rightarrow> topology_ok cr t \<and> topology_matches cr cfg t"
  using topology_validate_no_panic [of cr cfg] topology_validate_ok [of cr cfg]
  by (auto split: sum.split)

text \<open>
  The edges of a valid topology are exactly the ordered pairs of two different nodes of
  which at least one is a master: masters fully meshed, every spoke joined to every master,
  no two spokes joined; and the set is sorted, so iteration is deterministic.
\<close>
theorem edges_hub_and_spoke:
  assumes "topology_ok cr t"
  shows "bs_wf (edges t) \<and>
    (\<forall>a b. (a, b) \<in> set (edges t) \<longleftrightarrow>
      a < b \<and> a \<in> vn_hostname ` set (vt_nodes t) \<and> b \<in> vn_hostname ` set (vt_nodes t) \<and>
      (a \<in> set (vt_masters t) \<or> b \<in> set (vt_masters t)))"
  using topology_ok_distinct [OF assms] by (simp add: edges_def bs_wf_compute_edges compute_edges_iff)

end
