(* ===== verification/Key_Resolution.thy ===== *)
theory Key_Resolution
  imports Apply Topology_Valid Io_Logic
begin

text \<open>
  What \<open>resolve_keys\<close> chooses: a reference description of the keys of every node and edge, and
  of the draws from the random generator, which the two loops implement.
\<close>

section \<open>The reference description\<close>

definition fresh_host :: "old_configs \<Rightarrow> rotate_selection \<Rightarrow> string \<Rightarrow> bool" where
  "fresh_host old sel h \<longleftrightarrow> is_rotated sel h \<or> bt_get old h = None"

definition key_pair_text :: "crates \<Rightarrow> keypair \<Rightarrow> string \<times> string" where
  "key_pair_text cr kp = (private_key_base64 cr kp, public_key_base64 cr kp)"

text \<open>The public key a node ends up with, and whether an edge needs a new preshared key.\<close>

definition pub_of :: "(string, string \<times> string) btree_map \<Rightarrow> string \<Rightarrow> string" where
  "pub_of nk h = snd (the (bt_get nk h))"

definition fresh_edge ::
  "old_configs \<Rightarrow> rotate_selection \<Rightarrow> (string, string \<times> string) btree_map \<Rightarrow> string \<times> string \<Rightarrow> bool" where
  "fresh_edge old sel nk = (\<lambda>(a, b).
     fresh_host old sel a \<or> fresh_host old sel b \<or>
     recorded_psk old a (pub_of nk b) = None \<and> recorded_psk old b (pub_of nk a) = None)"

definition nodes_spec ::
  "crates \<Rightarrow> old_configs \<Rightarrow> rotate_selection \<Rightarrow> nat \<Rightarrow> string list \<Rightarrow> (string, string \<times> string) btree_map \<Rightarrow> bool" where
  "nodes_spec cr old sel n hs nk \<longleftrightarrow>
     (let fs = filter (fresh_host old sel) hs in
      bt_wf nk \<and> set (bt_keys nk) = set hs \<and>
      (\<forall>i<length fs. bt_get nk (fs ! i) = Some (key_pair_text cr \<lparr>secret = csprng cr (n + i)\<rparr>)) \<and>
      (\<forall>h\<in>set hs. \<not> fresh_host old sel h \<longrightarrow>
         (\<exists>c kp. bt_get old h = Some c \<and>
            from_private_key_base64 cr (pi_private_key (pc_interface c)) = Inr kp \<and>
            bt_get nk h = Some (key_pair_text cr kp))))"

definition edges_spec ::
  "crates \<Rightarrow> old_configs \<Rightarrow> rotate_selection \<Rightarrow> nat \<Rightarrow> (string, string \<times> string) btree_map
    \<Rightarrow> (string \<times> string) list \<Rightarrow> (string \<times> string, string) btree_map \<Rightarrow> bool" where
  "edges_spec cr old sel n nk es psks \<longleftrightarrow>
     (let fe = filter (fresh_edge old sel nk) es in
      bt_wf psks \<and> set (bt_keys psks) = set es \<and>
      (\<forall>i<length fe. bt_get psks (fe ! i) = Some (encode_key cr (csprng cr (n + i)))) \<and>
      (\<forall>(a, b)\<in>set es. \<not> fresh_edge old sel nk (a, b) \<longrightarrow>
         (\<exists>psk. bt_get psks (a, b) = Some psk \<and> recorded_psk old a (pub_of nk b) = Some psk \<and>
            recorded_psk old b (pub_of nk a) = Some psk)))"

definition keys_spec ::
  "crates \<Rightarrow> validated_topology \<Rightarrow> old_configs \<Rightarrow> rotate_selection \<Rightarrow> nat \<Rightarrow> nat \<Rightarrow> key_resolution \<Rightarrow> bool" where
  "keys_spec cr topo old sel n n' kr \<longleftrightarrow>
     (let hs = map vn_hostname (vt_nodes topo); nk = node_keys (kr_resolved kr);
          fs = filter (fresh_host old sel) hs in
      kr_freshly_keyed kr = fs \<and> kr_reused kr = filter (\<lambda>h. \<not> fresh_host old sel h) hs \<and>
      nodes_spec cr old sel n hs nk \<and>
      edges_spec cr old sel (n + length fs) nk (edges topo) (edge_psks (kr_resolved kr)) \<and>
      n' = n + length fs + length (filter (fresh_edge old sel nk) (edges topo)))"

text \<open>
  What stops the loops.  A node that keeps its key may have a published key that cannot be
  read; the published files of two nodes that keep their keys may disagree on the preshared key
  of their edge, or only one of them record it.  The error is that of the first node or edge, in
  the order of the topology, that has one.
\<close>

definition unreadable_key :: "crates \<Rightarrow> old_configs \<Rightarrow> rotate_selection \<Rightarrow> string \<Rightarrow> apply_error \<Rightarrow> bool" where
  "unreadable_key cr old sel h e \<longleftrightarrow> \<not> fresh_host old sel h \<and>
     (\<exists>c why. bt_get old h = Some c \<and>
        from_private_key_base64 cr (pi_private_key (pc_interface c)) = Inl why \<and> e = BadStoredKey h why)"

definition edge_conflict ::
  "old_configs \<Rightarrow> rotate_selection \<Rightarrow> (string, string \<times> string) btree_map \<Rightarrow> string \<times> string
    \<Rightarrow> apply_error \<Rightarrow> bool" where
  "edge_conflict old sel nk = (\<lambda>(a, b) e.
     \<not> fresh_host old sel a \<and> \<not> fresh_host old sel b \<and>
     (case (recorded_psk old a (pub_of nk b), recorded_psk old b (pub_of nk a)) of
        (Some p, Some q) \<Rightarrow> p \<noteq> q \<and> e = ConflictingPsk a b
      | (Some _, None) \<Rightarrow> e = OneSidedEdge a b a
      | (None, Some _) \<Rightarrow> e = OneSidedEdge a b b
      | (None, None) \<Rightarrow> False))"

definition first_failure :: "('a \<Rightarrow> 'e \<Rightarrow> bool) \<Rightarrow> 'a list \<Rightarrow> 'e \<Rightarrow> bool" where
  "first_failure fails xs e \<longleftrightarrow>
     (\<exists>ys x zs. xs = ys @ x # zs \<and> (\<forall>y\<in>set ys. \<forall>e'. \<not> fails y e') \<and> fails x e)"

definition keys_error ::
  "crates \<Rightarrow> validated_topology \<Rightarrow> old_configs \<Rightarrow> rotate_selection \<Rightarrow> nat \<Rightarrow> apply_error \<Rightarrow> bool" where
  "keys_error cr topo old sel n e \<longleftrightarrow>
     (let hs = map vn_hostname (vt_nodes topo) in
      first_failure (unreadable_key cr old sel) hs e \<or>
      (\<forall>h\<in>set hs. \<forall>e'. \<not> unreadable_key cr old sel h e') \<and>
      (\<exists>nk. nodes_spec cr old sel n hs nk \<and> first_failure (edge_conflict old sel nk) (edges topo) e))"

section \<open>The loops\<close>

lemma nodes_spec_readable:
  "nodes_spec cr old sel n hs nk \<Longrightarrow> h \<in> set hs \<Longrightarrow> \<not> unreadable_key cr old sel h e"
  by (auto simp: nodes_spec_def unreadable_key_def Let_def)

lemma edges_spec_agree:
  "edges_spec cr old sel n nk es psks \<Longrightarrow> y \<in> set es \<Longrightarrow> \<not> edge_conflict old sel nk y e"
  by (cases y) (fastforce simp: edges_spec_def edge_conflict_def fresh_edge_def Let_def split: option.splits)

definition node_loop_inv ::
  "crates \<Rightarrow> old_configs \<Rightarrow> rotate_selection \<Rightarrow> nat \<Rightarrow> string list \<Rightarrow> key_acc \<Rightarrow> nat \<Rightarrow> bool" where
  "node_loop_inv cr old sel n hs a d \<longleftrightarrow>
     nodes_spec cr old sel n hs (ka_node_keys a) \<and>
     ka_freshly_keyed a = filter (fresh_host old sel) hs \<and>
     ka_reused a = filter (\<lambda>h. \<not> fresh_host old sel h) hs \<and>
     (\<forall>h\<in>set hs. bt_get (ka_is_fresh a) h = Some (fresh_host old sel h)) \<and>
     d = n + length (filter (fresh_host old sel) hs)"

lemma nth_filter_in: "i < length (filter P xs) \<Longrightarrow> filter P xs ! i \<in> set xs"
  using nth_mem by fastforce

lemma nodes_spec_fresh:
  assumes "nodes_spec cr old sel n hs nk" and "fresh_host old sel h" and "h \<notin> set hs"
  shows "nodes_spec cr old sel n (hs @ [h])
    (bt_insert h (key_pair_text cr \<lparr>secret = csprng cr (n + length (filter (fresh_host old sel) hs))\<rparr>) nk)"
proof -
  have "filter (fresh_host old sel) hs ! i \<noteq> h" if "i < length (filter (fresh_host old sel) hs)" for i
    using nth_filter_in [OF that] assms(3) by metis
  with assms show ?thesis
    by (auto simp: nodes_spec_def Let_def nth_append less_Suc_eq)
qed

lemma nodes_spec_reused:
  assumes "nodes_spec cr old sel n hs nk" and "\<not> fresh_host old sel h" and "h \<notin> set hs"
    and "bt_get old h = Some c" and "from_private_key_base64 cr (pi_private_key (pc_interface c)) = Inr kp"
  shows "nodes_spec cr old sel n (hs @ [h]) (bt_insert h (key_pair_text cr kp) nk)"
proof -
  have "filter (fresh_host old sel) hs ! i \<noteq> h" if "i < length (filter (fresh_host old sel) hs)" for i
    using nth_filter_in [OF that] assms(3) by metis
  with assms show ?thesis by (auto simp: nodes_spec_def Let_def)
qed

lemma resolve_node_inv:
  assumes "vn_hostname x \<notin> set hs"
  shows "triple (node_loop_inv cr old sel n hs a) (resolve_node cr old sel x a)
    (node_loop_inv cr old sel n (hs @ [vn_hostname x]))
    (\<lambda>e _. (\<forall>h\<in>set hs. \<forall>e'. \<not> unreadable_key cr old sel h e') \<and> unreadable_key cr old sel (vn_hostname x) e)"
proof (rule tripleI)
  fix d a' d'
  assume I: "node_loop_inv cr old sel n hs a d" and r: "resolve_node cr old sel x a d = (Inr a', d')"
  let ?h = "vn_hostname x"
  show "node_loop_inv cr old sel n (hs @ [?h]) a' d'"
  proof (cases "fresh_host old sel ?h")
    case True
    with r have "a' = add_node_key cr ?h True \<lparr>secret = csprng cr d\<rparr> a" "d' = Suc d"
      by (auto simp: resolve_node_def Let_def fresh_host_def keypair_generate_def split: if_splits)
    with I True assms nodes_spec_fresh [OF _ True assms, of cr n "ka_node_keys a"] show ?thesis
      by (auto simp: node_loop_inv_def add_node_key_def key_pair_text_def)
  next
    case False
    then obtain c where c: "\<not> is_rotated sel ?h" "bt_get old ?h = Some c" by (auto simp: fresh_host_def)
    with r obtain kp where kp: "from_private_key_base64 cr (pi_private_key (pc_interface c)) = Inr kp"
      "a' = add_node_key cr ?h False kp a" "d' = d"
      by (auto simp: resolve_node_def Let_def io_then_Inr)
    with I False assms nodes_spec_reused [OF _ False assms c(2) kp(1), of n "ka_node_keys a"] show ?thesis
      by (auto simp: node_loop_inv_def add_node_key_def key_pair_text_def)
  qed
next
  fix d e d'
  assume I: "node_loop_inv cr old sel n hs a d" and "resolve_node cr old sel x a d = (Inl e, d')"
  then have "unreadable_key cr old sel (vn_hostname x) e"
    by (auto simp: resolve_node_def Let_def io_then_Inl map_err_Inl_iff unreadable_key_def fresh_host_def
        split: option.splits prod.splits if_splits)
  with I show "(\<forall>h\<in>set hs. \<forall>e'. \<not> unreadable_key cr old sel h e') \<and> unreadable_key cr old sel (vn_hostname x) e"
    by (auto simp: node_loop_inv_def dest: nodes_spec_readable)
qed

lemma resolve_nodes_inv:
  assumes "distinct (map vn_hostname ns)"
  shows "triple (\<lambda>d. d = n) (io_fold (resolve_node cr old sel) ns key_acc_init)
    (node_loop_inv cr old sel n (map vn_hostname ns))
    (\<lambda>e _. first_failure (unreadable_key cr old sel) (map vn_hostname ns) e)"
proof -
  let ?E = "\<lambda>e _. first_failure (unreadable_key cr old sel) (map vn_hostname ns) e"
  have "triple (node_loop_inv cr old sel n (map vn_hostname ([] :: validated_node list)) key_acc_init)
      (io_fold (resolve_node cr old sel) ns key_acc_init)
      (node_loop_inv cr old sel n (map vn_hostname ns)) ?E"
  proof (rule triple_fold [where I = "\<lambda>ys :: validated_node list. node_loop_inv cr old sel n (map vn_hostname ys)"])
    fix ys x a
    assume s: "\<exists>zs. ns = ys @ x # zs"
    then have new: "vn_hostname x \<notin> set (map vn_hostname ys)" using assms by auto
    show "triple (node_loop_inv cr old sel n (map vn_hostname ys) a) (resolve_node cr old sel x a)
        (node_loop_inv cr old sel n (map vn_hostname (ys @ [x]))) ?E"
    proof (rule triple_weaken [OF resolve_node_inv [OF new, of cr old sel n a]])
      fix e :: apply_error and d :: nat
      assume "(\<forall>h\<in>set (map vn_hostname ys). \<forall>e'. \<not> unreadable_key cr old sel h e') \<and>
        unreadable_key cr old sel (vn_hostname x) e"
      moreover from s obtain zs where "ns = ys @ x # zs" by blast
      then have "map vn_hostname ns = map vn_hostname ys @ vn_hostname x # map vn_hostname zs" by simp
      ultimately show "?E e d" unfolding first_failure_def by blast
    qed simp_all
  qed
  then show ?thesis
    by (rule triple_weaken) (simp_all add: node_loop_inv_def nodes_spec_def key_acc_init_def bt_keys_def)
qed

lemma edges_spec_fresh:
  assumes "edges_spec cr old sel n nk es psks" and "fresh_edge old sel nk e" and "e \<notin> set es"
  shows "edges_spec cr old sel n nk (es @ [e])
    (bt_insert e (encode_key cr (csprng cr (n + length (filter (fresh_edge old sel nk) es)))) psks)"
proof -
  have "filter (fresh_edge old sel nk) es ! i \<noteq> e" if "i < length (filter (fresh_edge old sel nk) es)" for i
    using nth_filter_in [OF that] assms(3) by metis
  with assms show ?thesis
    by (auto simp: edges_spec_def Let_def nth_append less_Suc_eq)
qed

lemma edges_spec_reused:
  assumes "edges_spec cr old sel n nk es psks" and "\<not> fresh_edge old sel nk (a, b)" and "(a, b) \<notin> set es"
    and "recorded_psk old a (pub_of nk b) = Some psk" and "recorded_psk old b (pub_of nk a) = Some psk"
  shows "edges_spec cr old sel n nk (es @ [(a, b)]) (bt_insert (a, b) psk psks)"
proof -
  have "filter (fresh_edge old sel nk) es ! i \<noteq> (a, b)" if "i < length (filter (fresh_edge old sel nk) es)" for i
    using nth_filter_in [OF that] assms(3) by metis
  with assms show ?thesis by (auto simp: edges_spec_def Let_def)
qed

text \<open>An edge: the node table is the one of the accumulator, which knows both ends.\<close>

lemma resolve_edge_inv:
  assumes a: "node_loop_inv cr old sel n0 hs acc0 d0" and e: "e = (x, y)" and xy: "x \<in> set hs" "y \<in> set hs"
    and new: "e \<notin> set es"
  shows "triple (\<lambda>d. edges_spec cr old sel n (ka_node_keys acc0) es psks \<and>
        d = n + length (filter (fresh_edge old sel (ka_node_keys acc0)) es))
      (resolve_edge cr old acc0 e psks)
      (\<lambda>psks' d. edges_spec cr old sel n (ka_node_keys acc0) (es @ [e]) psks' \<and>
        d = n + length (filter (fresh_edge old sel (ka_node_keys acc0)) (es @ [e])))
      (\<lambda>err _. (\<forall>y\<in>set es. \<forall>e'. \<not> edge_conflict old sel (ka_node_keys acc0) y e') \<and>
        edge_conflict old sel (ka_node_keys acc0) e err)"
proof -
  let ?nk = "ka_node_keys acc0"
  have "bt_get ?nk h \<noteq> None" if "h \<in> set hs" for h
    using a that bt_get_None_keys [of ?nk h] by (simp add: node_loop_inv_def nodes_spec_def Let_def)
  then obtain px py where nk: "bt_get ?nk x = Some px" "bt_get ?nk y = Some py" using xy by blast
  have fr: "bt_get (ka_is_fresh acc0) x = Some (fresh_host old sel x)"
    "bt_get (ka_is_fresh acc0) y = Some (fresh_host old sel y)"
    using a xy by (simp_all add: node_loop_inv_def)
  have pub: "pub_of ?nk x = snd px" "pub_of ?nk y = snd py" using nk by (simp_all add: pub_of_def)
  show ?thesis
  proof (rule tripleI)
    fix d psks' d'
    assume I: "edges_spec cr old sel n ?nk es psks \<and> d = n + length (filter (fresh_edge old sel ?nk) es)"
      and r: "resolve_edge cr old acc0 e psks d = (Inr psks', d')"
    show "edges_spec cr old sel n ?nk (es @ [e]) psks' \<and>
        d' = n + length (filter (fresh_edge old sel ?nk) (es @ [e]))"
    proof (cases "fresh_edge old sel ?nk e")
      case True
      with r e nk fr pub have "psks' = bt_insert e (encode_key cr (csprng cr d)) psks" "d' = Suc d"
        by (auto simp: resolve_edge_def fresh_edge_def io_then_Inr fresh_psk_def generate_preshared_key_def
            split: if_splits prod.splits)
      with I True edges_spec_fresh [OF _ True new, of cr n psks] show ?thesis by simp
    next
      case False
      with r e nk fr pub obtain psk where "psks' = bt_insert e psk psks" "d' = d"
        "recorded_psk old x (pub_of ?nk y) = Some psk" "recorded_psk old y (pub_of ?nk x) = Some psk"
        by (auto simp: resolve_edge_def fresh_edge_def io_then_Inr split: if_splits prod.splits option.splits)
      with I False e new edges_spec_reused [of cr old sel n ?nk es psks x y psk] show ?thesis by auto
    qed
  next
    fix d err d'
    assume I: "edges_spec cr old sel n ?nk es psks \<and> d = n + length (filter (fresh_edge old sel ?nk) es)"
      and "resolve_edge cr old acc0 e psks d = (Inl err, d')"
    then have "edge_conflict old sel ?nk e err"
      using e nk fr pub by (auto simp: resolve_edge_def edge_conflict_def io_then_Inl fresh_psk_def
          split: if_splits prod.splits option.splits)
    with I show "(\<forall>y\<in>set es. \<forall>e'. \<not> edge_conflict old sel ?nk y e') \<and> edge_conflict old sel ?nk e err"
      by (auto dest: edges_spec_agree)
  qed
qed

lemma resolve_edges_inv:
  assumes a: "node_loop_inv cr old sel n0 hs acc0 d0" and es: "distinct es" "\<forall>(x, y)\<in>set es. x \<in> set hs \<and> y \<in> set hs"
  shows "triple (\<lambda>d. d = n) (io_fold (resolve_edge cr old acc0) es [])
    (\<lambda>psks d. edges_spec cr old sel n (ka_node_keys acc0) es psks \<and>
      d = n + length (filter (fresh_edge old sel (ka_node_keys acc0)) es))
    (\<lambda>err _. first_failure (edge_conflict old sel (ka_node_keys acc0)) es err)"
proof -
  let ?E = "\<lambda>err _. first_failure (edge_conflict old sel (ka_node_keys acc0)) es err"
  let ?I = "\<lambda>ys psks d. edges_spec cr old sel n (ka_node_keys acc0) ys psks \<and>
      d = n + length (filter (fresh_edge old sel (ka_node_keys acc0)) ys)"
  have "triple (?I [] []) (io_fold (resolve_edge cr old acc0) es []) (?I es) ?E"
  proof (rule triple_fold [where I = ?I])
    fix ys e psks
    assume s: "\<exists>zs. es = ys @ e # zs"
    obtain x y where xy: "e = (x, y)" by fastforce
    have "e \<notin> set ys" "e \<in> set es" using s es(1) by auto
    with es(2) xy have step: "x \<in> set hs" "y \<in> set hs" "e \<notin> set ys" by auto
    show "triple (?I ys psks) (resolve_edge cr old acc0 e psks) (?I (ys @ [e])) ?E"
      by (rule triple_weaken [OF resolve_edge_inv [OF a xy step, of n psks]])
        (use s in \<open>simp_all only: first_failure_def, blast\<close>)
  qed
  then show ?thesis by (rule triple_weaken) (simp_all add: edges_spec_def bt_keys_def)
qed

lemma resolve_keys_triple:
  assumes "topology_ok cr0 topo"
  shows "triple (\<lambda>d. d = n) (resolve_keys cr topo old sel) (\<lambda>kr d. keys_spec cr topo old sel n d kr)
    (\<lambda>e _. keys_error cr topo old sel n e)"
  unfolding resolve_keys_def
proof (rule triple_then)
  let ?hs = "map vn_hostname (vt_nodes topo)"
  let ?fs = "filter (fresh_host old sel) ?hs"
  let ?E = "\<lambda>e (_ :: nat). keys_error cr topo old sel n e"
  have d: "distinct ?hs" by (rule topology_ok_distinct [OF assms])
  show "triple (\<lambda>d. d = n) (io_fold (resolve_node cr old sel) (vt_nodes topo) key_acc_init)
      (node_loop_inv cr old sel n ?hs) ?E"
    by (rule triple_weaken [OF resolve_nodes_inv [OF d]]) (auto simp: keys_error_def Let_def)
  fix a
  have es: "distinct (edges topo)" "\<forall>(x, y)\<in>set (edges topo). x \<in> set ?hs \<and> y \<in> set ?hs"
    using compute_edges_iff [OF d] bs_wf_compute_edges [of ?hs "vt_masters topo"]
    by (auto simp: edges_def bs_wf_sorted_distinct)
  show "triple (node_loop_inv cr old sel n ?hs a)
      (io_then (io_fold (resolve_edge cr old a) (edges topo) []) (\<lambda>psks. io_return
        \<lparr>kr_resolved = \<lparr>node_keys = ka_node_keys a, edge_psks = psks\<rparr>, kr_reused = ka_reused a,
         kr_freshly_keyed = ka_freshly_keyed a\<rparr>))
      (\<lambda>kr d. keys_spec cr topo old sel n d kr) ?E"
  proof (cases "\<exists>d0. node_loop_inv cr old sel n ?hs a d0")
    case True
    then obtain d0 where I: "node_loop_inv cr old sel n ?hs a d0" by blast
    then have d0: "d = n + length ?fs" if "node_loop_inv cr old sel n ?hs a d" for d
      using that by (simp add: node_loop_inv_def)
    from I have nk: "nodes_spec cr old sel n ?hs (ka_node_keys a)" by (simp add: node_loop_inv_def)
    then have fails: "keys_error cr topo old sel n e"
      if "first_failure (edge_conflict old sel (ka_node_keys a)) (edges topo) e" for e
      using that nodes_spec_readable [OF nk] unfolding keys_error_def Let_def by blast
    show ?thesis
    proof (rule triple_then)
      show "triple (node_loop_inv cr old sel n ?hs a) (io_fold (resolve_edge cr old a) (edges topo) [])
          (\<lambda>psks d. edges_spec cr old sel (n + length ?fs) (ka_node_keys a) (edges topo) psks \<and>
            d = n + length ?fs + length (filter (fresh_edge old sel (ka_node_keys a)) (edges topo))) ?E"
        by (rule triple_weaken [OF resolve_edges_inv [OF I es]]) (auto dest: d0 fails)
      show "triple (\<lambda>d. edges_spec cr old sel (n + length ?fs) (ka_node_keys a) (edges topo) psks \<and>
            d = n + length ?fs + length (filter (fresh_edge old sel (ka_node_keys a)) (edges topo)))
          (io_return \<lparr>kr_resolved = \<lparr>node_keys = ka_node_keys a, edge_psks = psks\<rparr>, kr_reused = ka_reused a,
             kr_freshly_keyed = ka_freshly_keyed a\<rparr>)
          (\<lambda>kr d. keys_spec cr topo old sel n d kr) ?E" for psks
        using I by (intro triple_return) (simp add: keys_spec_def node_loop_inv_def Let_def)
    qed
  next
    case False
    then show ?thesis by (simp add: triple_def)
  qed
qed

lemma keys_error_no_panic: "keys_error cr topo old sel n e \<Longrightarrow> e \<noteq> ApplyPanic"
  by (auto simp: keys_error_def Let_def first_failure_def unreadable_key_def edge_conflict_def
      split: option.splits)

section \<open>Property\<close>

text \<open>
  C15. For a valid topology \<open>resolve_keys\<close> does exactly this.  Every node whose key is published
  and not rotated keeps that key, every other node gets a key pair from the random generator; an
  edge between two nodes that both keep their keys keeps the preshared key both files record for
  it, every other edge gets a new one, as does an edge neither file records; and every new key and
  preshared key is a draw of its own.  It fails, never by a panic, on the first node that would
  keep a key that cannot be read, and when there is none on the first edge between two nodes that
  keep their keys whose files record different preshared keys or of which only one records it;
  the error names that node, or that edge and the file that has the record.  The records of an
  edge with a rotated end are not looked at: a disagreement there is replaced, not reported.
\<close>
theorem resolve_keys_exact:
  assumes "topology_ok cr topo"
  shows "case resolve_keys cr topo old sel n of
    (Inl e, n') \<Rightarrow> keys_error cr topo old sel n e | (Inr kr, n') \<Rightarrow> keys_spec cr topo old sel n n' kr"
  using triple_result [OF resolve_keys_triple [OF assms], of n n cr old sel]
  by (auto split: prod.splits sum.splits)

text \<open>
  The design asks for the records of a pair to agree whether or not keys are rotated.  With
  every node rotated no record is looked at, so nothing that is published can stop the run.
\<close>

lemma rotation_hides_disagreement: "\<not> keys_error cr topo old RotateAll n e"
  by (auto simp: keys_error_def Let_def first_failure_def unreadable_key_def edge_conflict_def fresh_host_def is_rotated_def)

end
