(* ===== verification/Wg_Quick_Valid.thy ===== *)
theory Wg_Quick_Valid
  imports Wg_Quick Topology_Valid
begin

text \<open>
  What the strict parser of \<open>wg-quick\<close> files establishes: every accepted file is a safe
  configuration, no hook directive can be in it, and no input makes the parser panic.
\<close>

section \<open>Field loops\<close>

definition iface_inv :: "crates \<Rightarrow> iface_acc \<Rightarrow> bool" where
  "iface_inv cr acc \<longleftrightarrow>
     (\<forall>k. ia_private_key acc = Some k \<longrightarrow> is_ok (validate_key_bytes cr k)) \<and>
     (\<forall>p. ia_listen_port acc = Some p \<longrightarrow> p \<noteq> 0) \<and>
     (\<forall>m. ia_mtu acc = Some m \<longrightarrow> MIN_MTU \<le> m)"

lemma interface_field_inv:
  "interface_field cr kv acc = Inr acc' \<Longrightarrow> iface_inv cr acc \<Longrightarrow> iface_inv cr acc'"
  by (cases kv) (auto simp: interface_field_def and_then_Inr_iff iface_inv_def Let_def is_ok_iff
      not_less split: if_splits)

lemma parse_interface_fields_Inr:
  "parse_interface_fields cr kvs = Inr i \<longleftrightarrow>
    (\<exists>acc. fold_res (interface_field cr) kvs iface_acc_init = Inr acc \<and>
      ia_private_key acc = Some (pi_private_key i) \<and> ia_address acc = Some (pi_address i) \<and>
      ia_listen_port acc = Some (pi_listen_port i) \<and> ia_dns acc = pi_dns i \<and> ia_mtu acc = pi_mtu i)"
  unfolding parse_interface_fields_def and_then_Inr_iff ok_or_simps sum.inject
  by (rule ex_cong1, rule conj_cong [OF refl], cases i) auto

definition interface_ok :: "crates \<Rightarrow> parsed_interface \<Rightarrow> bool" where
  "interface_ok cr i \<longleftrightarrow>
     is_ok (validate_key_bytes cr (pi_private_key i)) \<and> pi_listen_port i \<noteq> 0 \<and>
     (\<forall>m. pi_mtu i = Some m \<longrightarrow> MIN_MTU \<le> m)"

lemma parse_interface_fields_ok:
  assumes "parse_interface_fields cr kvs = Inr i"
  shows "interface_ok cr i"
proof -
  from assms obtain acc where acc: "fold_res (interface_field cr) kvs iface_acc_init = Inr acc"
    and i: "ia_private_key acc = Some (pi_private_key i)" "ia_listen_port acc = Some (pi_listen_port i)"
      "ia_mtu acc = pi_mtu i"
    by (auto simp only: parse_interface_fields_Inr)
  have "iface_inv cr acc"
    by (rule fold_res_invariant [OF acc])
      (simp add: iface_inv_def iface_acc_init_def, erule (1) interface_field_inv [rotated])
  with i show ?thesis by (auto simp: iface_inv_def interface_ok_def)
qed

definition route_ok :: "crates \<Rightarrow> ipv4net \<Rightarrow> bool" where
  "route_ok cr r \<longleftrightarrow> net_ok cr r \<and> net_prefix_len r \<noteq> 0"

definition peer_inv :: "crates \<Rightarrow> peer_acc \<Rightarrow> bool" where
  "peer_inv cr acc \<longleftrightarrow>
     (\<forall>k. pa_public_key acc = Some k \<longrightarrow> is_ok (validate_public_key cr k)) \<and>
     (\<forall>k. pa_preshared_key acc = Some k \<longrightarrow> is_ok (validate_preshared_key cr k)) \<and>
     (\<forall>rs. pa_allowed_ips acc = Some rs \<longrightarrow> list_all (route_ok cr) rs) \<and>
     (\<forall>ep. pa_endpoint acc = Some ep \<longrightarrow> validate_endpoint_syntax ep = Inr ())"

lemma parse_allowed_ip_Inr:
  "parse_allowed_ip cr s = Inr r \<longleftrightarrow> net_parse cr s = Some r \<and> route_ok cr r"
  by (auto simp: parse_allowed_ip_def and_then_Inr_iff route_ok_def net_ok_def)

lemma parse_allowed_ips_ok: "map_res (parse_allowed_ip cr) ss = Inr rs \<Longrightarrow> list_all (route_ok cr) rs"
  by (auto simp: map_res_Inr_iff parse_allowed_ip_Inr list_all_iff list_all2_conv_all_nth in_set_conv_nth)

lemma peer_field_inv: "peer_field cr kv acc = Inr acc' \<Longrightarrow> peer_inv cr acc \<Longrightarrow> peer_inv cr acc'"
  by (cases kv) (auto simp: peer_field_def and_then_Inr_iff peer_inv_def Let_def is_ok_iff
      dest!: parse_allowed_ips_ok split: if_splits)

lemma parse_peer_fields_Inr:
  "parse_peer_fields cr kvs = Inr p \<longleftrightarrow>
    (\<exists>acc. fold_res (peer_field cr) kvs peer_acc_init = Inr acc \<and>
      pa_public_key acc = Some (pp_public_key p) \<and> pa_preshared_key acc = Some (pp_preshared_key p) \<and>
      pa_allowed_ips acc = Some (pp_allowed_ips p) \<and> pp_allowed_ips p \<noteq> [] \<and>
      pa_endpoint acc = pp_endpoint p \<and> pa_keepalive acc = pp_persistent_keepalive p)"
  unfolding parse_peer_fields_def and_then_Inr_iff ok_or_simps guard_err_simps sum.inject
  by (rule ex_cong1, rule conj_cong [OF refl], cases p) auto

definition peer_ok :: "crates \<Rightarrow> parsed_peer \<Rightarrow> bool" where
  "peer_ok cr p \<longleftrightarrow>
     is_ok (validate_public_key cr (pp_public_key p)) \<and>
     is_ok (validate_preshared_key cr (pp_preshared_key p)) \<and>
     pp_allowed_ips p \<noteq> [] \<and> list_all (route_ok cr) (pp_allowed_ips p) \<and>
     (\<forall>ep. pp_endpoint p = Some ep \<longrightarrow> validate_endpoint_syntax ep = Inr ())"

lemma parse_peer_fields_ok:
  assumes "parse_peer_fields cr kvs = Inr p"
  shows "peer_ok cr p"
proof -
  from assms obtain acc where acc: "fold_res (peer_field cr) kvs peer_acc_init = Inr acc"
    and p: "pa_public_key acc = Some (pp_public_key p)" "pa_preshared_key acc = Some (pp_preshared_key p)"
      "pa_allowed_ips acc = Some (pp_allowed_ips p)" "pa_endpoint acc = pp_endpoint p" "pp_allowed_ips p \<noteq> []"
    by (auto simp only: parse_peer_fields_Inr)
  have "peer_inv cr acc"
    by (rule fold_res_invariant [OF acc])
      (simp add: peer_inv_def peer_acc_init_def, erule (1) peer_field_inv [rotated])
  with p show ?thesis by (auto simp: peer_inv_def peer_ok_def)
qed

section \<open>The whole file\<close>

definition config_ok :: "crates \<Rightarrow> parsed_config \<Rightarrow> bool" where
  "config_ok cr c \<longleftrightarrow>
     interface_ok cr (pc_interface c) \<and> list_all (peer_ok cr) (pc_peers c) \<and>
     (\<exists>own. public_key_from_private_base64 cr (pi_private_key (pc_interface c)) = Inr own \<and>
        own \<notin> pp_public_key ` set (pc_peers c)) \<and>
     distinct (map pp_public_key (pc_peers c)) \<and>
     (\<forall>p\<in>set (pc_peers c). \<forall>r\<in>set (pp_allowed_ips p). \<not> covers cr r (pi_address (pc_interface c))) \<and>
     sorted_wrt (\<lambda>p q. \<forall>a\<in>set (pp_allowed_ips p). \<forall>b\<in>set (pp_allowed_ips q). disjoint_nets cr a b)
       (pc_peers c)"

definition sections_inv :: "crates \<Rightarrow> parsed_interface option \<times> parsed_peer list \<Rightarrow> bool" where
  "sections_inv cr s \<longleftrightarrow>
     (\<forall>i. fst s = Some i \<longrightarrow> interface_ok cr i) \<and> list_all (peer_ok cr) (snd s)"

lemma parse_section_inv:
  "parse_section cr raw s = Inr s' \<Longrightarrow> sections_inv cr s \<Longrightarrow> sections_inv cr s'"
  by (cases s) (auto simp: parse_section_def and_then_Inr_iff sections_inv_def
      dest!: parse_interface_fields_ok parse_peer_fields_ok split: if_splits)

lemma check_peer_keys_Inr:
  assumes "fold_res (check_peer_key own) ps [] = Inr seen"
  shows "own \<notin> pp_public_key ` set ps" and "distinct (map pp_public_key ps)"
proof -
  have "set seen = pp_public_key ` set ps \<and> own \<notin> pp_public_key ` set ps \<and> distinct (map pp_public_key ps)"
    by (rule fold_res_prefix_invariant [OF assms, where P = "\<lambda>ys s. set s = pp_public_key ` set ys \<and>
        own \<notin> pp_public_key ` set ys \<and> distinct (map pp_public_key ys)"])
      (auto simp: check_peer_key_def)
  then show "own \<notin> pp_public_key ` set ps" "distinct (map pp_public_key ps)" by blast+
qed

lemma check_peer_routes_Inr:
  "check_peer_routes cr a ps (i, p) = Inr () \<longleftrightarrow>
    (\<forall>r\<in>set (pp_allowed_ips p). \<not> covers cr r a) \<and>
    (\<forall>q\<in>set (drop (Suc i) ps). \<forall>x\<in>set (pp_allowed_ips p). \<forall>y\<in>set (pp_allowed_ips q). disjoint_nets cr x y)"
  by (auto simp: check_peer_routes_def and_then_Inr_iff for_each_Inr_iff covers_def disjoint_nets_def
      net_range_def)

lemma enumerate_suffix_sorted:
  "(\<forall>(i, x)\<in>set (List.enumerate k xs). Q x \<and> (\<forall>y\<in>set (drop (Suc i) (ys @ xs)). P x y)) \<Longrightarrow>
    length ys = k \<Longrightarrow> list_all Q xs \<and> sorted_wrt P xs"
proof (induction xs arbitrary: k ys)
  case (Cons x xs)
  have "list_all Q xs \<and> sorted_wrt P xs"
    by (rule Cons.IH [of "Suc k" "ys @ [x]"]) (use Cons.prems in auto)
  then show ?case using Cons.prems by auto
qed simp

lemma check_all_peer_routes:
  assumes "for_each (check_peer_routes cr a ps) (List.enumerate 0 ps) = Inr ()"
  shows "\<forall>p\<in>set ps. \<forall>r\<in>set (pp_allowed_ips p). \<not> covers cr r a"
    and "sorted_wrt (\<lambda>p q. \<forall>x\<in>set (pp_allowed_ips p). \<forall>y\<in>set (pp_allowed_ips q). disjoint_nets cr x y) ps"
proof -
  have "list_all (\<lambda>p. \<forall>r\<in>set (pp_allowed_ips p). \<not> covers cr r a) ps \<and>
    sorted_wrt (\<lambda>p q. \<forall>x\<in>set (pp_allowed_ips p). \<forall>y\<in>set (pp_allowed_ips q). disjoint_nets cr x y) ps"
    by (rule enumerate_suffix_sorted [of 0 _ _ "[]"])
      (use assms in \<open>auto simp: for_each_Inr_iff check_peer_routes_Inr\<close>)
  then show "\<forall>p\<in>set ps. \<forall>r\<in>set (pp_allowed_ips p). \<not> covers cr r a"
    "sorted_wrt (\<lambda>p q. \<forall>x\<in>set (pp_allowed_ips p). \<forall>y\<in>set (pp_allowed_ips q). disjoint_nets cr x y) ps"
    by (auto simp: list_all_iff)
qed

lemma parse_wg_quick_ok:
  assumes "parse_wg_quick cr s = Inr c"
  shows "config_ok cr c"
proof -
  from assms obtain secs i ps own seen where
    "fold_res (parse_section cr) secs (None, []) = Inr (Some i, ps)" and
    own: "public_key_from_private_base64 cr (pi_private_key i) = Inr own" and
    keys: "fold_res (check_peer_key own) ps [] = Inr seen" and
    routes: "for_each (check_peer_routes cr (pi_address i) ps) (List.enumerate 0 ps) = Inr ()" and
    c: "c = \<lparr>pc_interface = i, pc_peers = ps\<rparr>"
    by (auto simp: parse_wg_quick_def and_then_Inr_iff)
  then have "sections_inv cr (Some i, ps)"
    by (elim fold_res_invariant) (simp add: sections_inv_def, erule (1) parse_section_inv [rotated])
  with own check_peer_keys_Inr [OF keys] check_all_peer_routes [OF routes] show ?thesis
    by (auto simp: config_ok_def c sections_inv_def)
qed

section \<open>Directives\<close>

text \<open>The text of a line as the parser sees it, and whether it is a directive with this key.\<close>

definition stripped :: "string \<Rightarrow> string" where
  "stripped line = trim_matches CHR 0x09 (trim_matches CHR '' '' line)"

definition directive :: "string \<Rightarrow> string \<Rightarrow> bool" where
  "directive line key \<longleftrightarrow>
     stripped line \<noteq> [] \<and> \<not> starts_with ''#'' (stripped line) \<and> \<not> starts_with ''['' (stripped line) \<and>
     (\<exists>k v. split_once CHR ''='' (stripped line) = Some (k, v) \<and> trim k = key)"

definition section_keys :: "raw_section list \<Rightarrow> string set" where
  "section_keys secs = (\<Union>s\<in>set secs. fst ` set (rs_fields s))"

lemma push_field_keys:
  "push_field (k, v) secs = Some secs' \<Longrightarrow> section_keys secs' = insert k (section_keys secs)"
  by (cases secs rule: rev_cases) (force simp: push_field_def section_keys_def image_Un)+

lemma section_keys_header [simp]: "section_keys (secs @ [\<lparr>rs_name = n, rs_fields = []\<rparr>]) = section_keys secs"
  by (simp add: section_keys_def)

lemma parse_header_keys: "parse_header inner secs = Inr secs' \<Longrightarrow> section_keys secs' = section_keys secs"
  by (auto simp: parse_header_def and_then_Inr_iff split: if_splits)

lemma parse_directive_keys:
  "parse_directive line secs = Inr secs' \<Longrightarrow>
    \<exists>k v. split_once CHR ''='' line = Some (k, v) \<and> section_keys secs' = insert (trim k) (section_keys secs)"
  by (auto simp: parse_directive_def Let_def and_then_Inr_iff push_field_keys)

lemma parse_line_cases:
  "parse_line line secs = Inr secs' \<Longrightarrow>
    secs' = secs \<and> (\<forall>k. \<not> directive line k) \<or>
    (\<exists>inner. parse_header inner secs = Inr secs') \<and> (\<forall>k. \<not> directive line k) \<or>
    parse_directive (stripped line) secs = Inr secs'"
  unfolding parse_line_def Let_def stripped_def [symmetric] directive_def starts_with_def
  by (simp split: if_splits option.splits) blast+

lemma parse_line_keys:
  assumes "parse_line line secs = Inr secs'"
  shows "section_keys secs \<subseteq> section_keys secs' \<and> (directive line k \<longrightarrow> k \<in> section_keys secs')"
  using parse_line_cases [OF assms]
proof (elim disjE conjE exE)
  assume "parse_directive (stripped line) secs = Inr secs'"
  from parse_directive_keys [OF this] obtain key v where
    "split_once CHR ''='' (stripped line) = Some (key, v)"
    "section_keys secs' = insert (trim key) (section_keys secs)" by blast
  then show ?thesis by (auto simp: directive_def)
qed (simp_all add: parse_header_keys)

lemma parse_sections_keys:
  assumes "parse_sections s = Inr secs" and "line \<in> set (split CHR 0x0A s)" and "directive line k"
  shows "k \<in> section_keys secs"
proof -
  have "\<forall>l\<in>set (split CHR 0x0A s). \<forall>k. directive l k \<longrightarrow> k \<in> section_keys secs"
  proof (rule fold_res_prefix_invariant [OF assms(1) [unfolded parse_sections_def],
        where P = "\<lambda>ys secs. \<forall>l\<in>set ys. \<forall>k. directive l k \<longrightarrow> k \<in> section_keys secs"])
    fix ys x s t
    assume "\<forall>l\<in>set ys. \<forall>k. directive l k \<longrightarrow> k \<in> section_keys s" "parse_line x s = Inr t"
    then show "\<forall>l\<in>set (ys @ [x]). \<forall>k. directive l k \<longrightarrow> k \<in> section_keys t"
      using parse_line_keys [of x s t] by (simp add: subset_iff)
  qed simp
  with assms(2,3) show ?thesis by blast
qed

lemma interface_fields_allowed:
  "parse_interface_fields cr kvs = Inr i \<Longrightarrow> fst ` set kvs \<subseteq> set INTERFACE_ALLOWED"
proof -
  have "fold_res (interface_field cr) kvs acc = Inr acc' \<Longrightarrow> fst ` set kvs \<subseteq> set INTERFACE_ALLOWED" for acc acc'
    by (induction kvs arbitrary: acc)
      (auto simp: and_then_Inr_iff interface_field_def check_no_forbidden_or_unknown_def)
  then show "parse_interface_fields cr kvs = Inr i \<Longrightarrow> fst ` set kvs \<subseteq> set INTERFACE_ALLOWED"
    by (auto simp: parse_interface_fields_def and_then_Inr_iff)
qed

lemma peer_fields_allowed:
  "parse_peer_fields cr kvs = Inr p \<Longrightarrow> fst ` set kvs \<subseteq> set PEER_ALLOWED"
proof -
  have "fold_res (peer_field cr) kvs acc = Inr acc' \<Longrightarrow> fst ` set kvs \<subseteq> set PEER_ALLOWED" for acc acc'
    by (induction kvs arbitrary: acc)
      (auto simp: and_then_Inr_iff peer_field_def check_no_forbidden_or_unknown_def)
  then show "parse_peer_fields cr kvs = Inr p \<Longrightarrow> fst ` set kvs \<subseteq> set PEER_ALLOWED"
    by (auto simp: parse_peer_fields_def and_then_Inr_iff)
qed

lemma parse_sections_allowed:
  assumes "fold_res (parse_section cr) secs s = Inr s'"
  shows "section_keys secs \<subseteq> set INTERFACE_ALLOWED \<union> set PEER_ALLOWED"
  using assms
proof (induction secs arbitrary: s)
  case (Cons raw secs)
  then obtain t where "parse_section cr raw s = Inr t" "fold_res (parse_section cr) secs t = Inr s'"
    by (auto simp: and_then_Inr_iff)
  moreover from this(1) have "fst ` set (rs_fields raw) \<subseteq> set INTERFACE_ALLOWED \<union> set PEER_ALLOWED"
    by (cases s) (auto simp: parse_section_def and_then_Inr_iff split: if_splits
        dest!: interface_fields_allowed peer_fields_allowed)
  ultimately show ?case using Cons.IH by (auto simp: section_keys_def)
qed (simp add: section_keys_def)

lemma accepted_directives:
  assumes "parse_wg_quick cr s = Inr c" and "line \<in> set (split CHR 0x0A s)" and "directive line k"
  shows "k \<in> set INTERFACE_ALLOWED \<union> set PEER_ALLOWED"
proof -
  from assms(1) obtain secs t where "parse_sections s = Inr secs" "fold_res (parse_section cr) secs (None, []) = Inr t"
    by (auto simp: parse_wg_quick_def and_then_Inr_iff)
  with assms(2,3) parse_sections_keys parse_sections_allowed show ?thesis by blast
qed

section \<open>Where the values come from\<close>

text \<open>A line of the file that gives key \<open>k\<close> the value \<open>v\<close>.\<close>

definition written :: "string \<Rightarrow> string \<Rightarrow> string \<Rightarrow> bool" where
  "written s k v \<longleftrightarrow>
     (\<exists>line\<in>set (split CHR 0x0A s). directive line k \<and>
        (\<exists>a b. split_once CHR ''='' (stripped line) = Some (a, b) \<and> trim a = k \<and> trim b = v))"

definition interface_written :: "crates \<Rightarrow> (string \<Rightarrow> string \<Rightarrow> bool) \<Rightarrow> parsed_interface \<Rightarrow> bool" where
  "interface_written cr W i \<longleftrightarrow>
     W ''PrivateKey'' (pi_private_key i) \<and>
     (\<exists>v net. W ''Address'' v \<and> net_parse cr v = Some net \<and> net_prefix_len net = 32 \<and> net_addr net = pi_address i) \<and>
     (\<exists>v. W ''ListenPort'' v \<and> parse_u16 v = Some (pi_listen_port i)) \<and>
     (\<forall>d. pi_dns i = Some d \<longrightarrow> (\<exists>v. W ''DNS'' v \<and> parse_ip_addr v = Some d)) \<and>
     (\<forall>m. pi_mtu i = Some m \<longrightarrow> (\<exists>v. W ''MTU'' v \<and> parse_u16 v = Some m))"

definition peer_written :: "crates \<Rightarrow> (string \<Rightarrow> string \<Rightarrow> bool) \<Rightarrow> parsed_peer \<Rightarrow> bool" where
  "peer_written cr W p \<longleftrightarrow>
     W ''PublicKey'' (pp_public_key p) \<and> W ''PresharedKey'' (pp_preshared_key p) \<and>
     (\<exists>v. W ''AllowedIPs'' v \<and> map_res (parse_allowed_ip cr) (map trim (split CHR '','' v)) = Inr (pp_allowed_ips p)) \<and>
     (\<forall>ep. pp_endpoint p = Some ep \<longrightarrow> W ''Endpoint'' ep) \<and>
     (\<forall>n. pp_persistent_keepalive p = Some n \<longrightarrow> (\<exists>v. W ''PersistentKeepalive'' v \<and> parse_u16 v = Some n))"

definition iface_from :: "crates \<Rightarrow> (string \<Rightarrow> string \<Rightarrow> bool) \<Rightarrow> iface_acc \<Rightarrow> bool" where
  "iface_from cr W acc \<longleftrightarrow>
     (\<forall>k. ia_private_key acc = Some k \<longrightarrow> W ''PrivateKey'' k) \<and>
     (\<forall>a. ia_address acc = Some a \<longrightarrow>
        (\<exists>v net. W ''Address'' v \<and> net_parse cr v = Some net \<and> net_prefix_len net = 32 \<and> net_addr net = a)) \<and>
     (\<forall>p. ia_listen_port acc = Some p \<longrightarrow> (\<exists>v. W ''ListenPort'' v \<and> parse_u16 v = Some p)) \<and>
     (\<forall>d. ia_dns acc = Some d \<longrightarrow> (\<exists>v. W ''DNS'' v \<and> parse_ip_addr v = Some d)) \<and>
     (\<forall>m. ia_mtu acc = Some m \<longrightarrow> (\<exists>v. W ''MTU'' v \<and> parse_u16 v = Some m))"

definition peer_from :: "crates \<Rightarrow> (string \<Rightarrow> string \<Rightarrow> bool) \<Rightarrow> peer_acc \<Rightarrow> bool" where
  "peer_from cr W acc \<longleftrightarrow>
     (\<forall>k. pa_public_key acc = Some k \<longrightarrow> W ''PublicKey'' k) \<and>
     (\<forall>k. pa_preshared_key acc = Some k \<longrightarrow> W ''PresharedKey'' k) \<and>
     (\<forall>rs. pa_allowed_ips acc = Some rs \<longrightarrow>
        (\<exists>v. W ''AllowedIPs'' v \<and> map_res (parse_allowed_ip cr) (map trim (split CHR '','' v)) = Inr rs)) \<and>
     (\<forall>ep. pa_endpoint acc = Some ep \<longrightarrow> W ''Endpoint'' ep) \<and>
     (\<forall>n. pa_keepalive acc = Some n \<longrightarrow> (\<exists>v. W ''PersistentKeepalive'' v \<and> parse_u16 v = Some n))"

lemma interface_field_from:
  assumes "interface_field cr (k, v) acc = Inr acc'" and "W k v" and "iface_from cr W acc"
  shows "iface_from cr W acc'"
  using assms by (simp add: interface_field_def and_then_Inr_iff iface_from_def Let_def split: if_splits)
    (elim exE conjE, force)+

lemma peer_field_from:
  assumes "peer_field cr (k, v) acc = Inr acc'" and "W k v" and "peer_from cr W acc"
  shows "peer_from cr W acc'"
  using assms by (simp add: peer_field_def and_then_Inr_iff peer_from_def Let_def split: if_splits)
    (elim exE conjE, force)+

lemma fold_fields_from:
  assumes "\<And>k v acc acc'. f (k, v) acc = Inr acc' \<Longrightarrow> W k v \<Longrightarrow> P acc \<Longrightarrow> P acc'"
    and "\<forall>(k, v)\<in>set kvs. W k v" and "fold_res f kvs acc = Inr acc'" and "P acc"
  shows "P acc'"
  using assms(2-4)
proof (induction kvs arbitrary: acc)
  case (Cons kv kvs)
  obtain k v where kv: "kv = (k, v)" by fastforce
  with Cons.prems obtain acc1 where "f (k, v) acc = Inr acc1" "fold_res f kvs acc1 = Inr acc'"
    by (auto simp: and_then_Inr_iff)
  with Cons kv assms(1) [of k v acc acc1] show ?case by auto
qed simp

lemma section_from:
  assumes "parse_section cr raw (i, ps) = Inr (i', ps')" and "\<forall>(k, v)\<in>set (rs_fields raw). W k v"
    and "\<forall>x. i = Some x \<longrightarrow> interface_written cr W x" and "\<forall>p\<in>set ps. peer_written cr W p"
  shows "(\<forall>x. i' = Some x \<longrightarrow> interface_written cr W x) \<and> (\<forall>p\<in>set ps'. peer_written cr W p)"
proof -
  have I: "interface_written cr W x" if "parse_interface_fields cr (rs_fields raw) = Inr x" for x
  proof -
    from that obtain acc where acc: "fold_res (interface_field cr) (rs_fields raw) iface_acc_init = Inr acc"
      "ia_private_key acc = Some (pi_private_key x)" "ia_address acc = Some (pi_address x)"
      "ia_listen_port acc = Some (pi_listen_port x)" "ia_dns acc = pi_dns x" "ia_mtu acc = pi_mtu x"
      by (auto simp only: parse_interface_fields_Inr)
    have "iface_from cr W acc"
      by (rule fold_fields_from [OF interface_field_from assms(2) acc(1)])
        (simp_all add: iface_from_def iface_acc_init_def)
    with acc(2-6) show ?thesis unfolding iface_from_def interface_written_def by auto
  qed
  have P: "peer_written cr W p" if "parse_peer_fields cr (rs_fields raw) = Inr p" for p
  proof -
    from that obtain acc where acc: "fold_res (peer_field cr) (rs_fields raw) peer_acc_init = Inr acc"
      "pa_public_key acc = Some (pp_public_key p)" "pa_preshared_key acc = Some (pp_preshared_key p)"
      "pa_allowed_ips acc = Some (pp_allowed_ips p)" "pa_endpoint acc = pp_endpoint p"
      "pa_keepalive acc = pp_persistent_keepalive p"
      by (auto simp only: parse_peer_fields_Inr)
    have "peer_from cr W acc"
      by (rule fold_fields_from [OF peer_field_from assms(2) acc(1)])
        (simp_all add: peer_from_def peer_acc_init_def)
    with acc(2-6) show ?thesis unfolding peer_from_def peer_written_def by auto
  qed
  show ?thesis
    using assms(1,3,4) I P by (auto simp: parse_section_def and_then_Inr_iff split: if_splits)
qed

definition fields_written :: "string \<Rightarrow> raw_section list \<Rightarrow> bool" where
  "fields_written s secs \<longleftrightarrow> (\<forall>sec\<in>set secs. \<forall>(k, v)\<in>set (rs_fields sec). written s k v)"

lemma push_field_written:
  "push_field (k, v) secs = Some secs' \<Longrightarrow> fields_written s secs \<Longrightarrow> written s k v \<Longrightarrow> fields_written s secs'"
  by (cases secs rule: rev_cases) (fastforce simp: push_field_def fields_written_def)+

lemma parse_line_written:
  assumes "parse_line line secs = Inr secs'" and "line \<in> set (split CHR 0x0A s)" and "fields_written s secs"
  shows "fields_written s secs'"
proof (cases "stripped line = [] \<or> starts_with ''#'' (stripped line) \<or> starts_with ''['' (stripped line)")
  case True
  with assms(1,3) show ?thesis
    unfolding parse_line_def Let_def stripped_def [symmetric]
    by (auto simp: parse_header_def and_then_Inr_iff fields_written_def starts_with_def split: if_splits option.splits)
next
  case False
  with assms(1) have "parse_directive (stripped line) secs = Inr secs'"
    unfolding parse_line_def Let_def stripped_def [symmetric] by (auto simp: starts_with_def split: if_splits option.splits)
  then obtain a b where ab: "split_once CHR ''='' (stripped line) = Some (a, b)"
    "push_field (trim a, trim b) secs = Some secs'" by (auto simp: parse_directive_def Let_def and_then_Inr_iff)
  with False assms(2) have "written s (trim a) (trim b)" unfolding written_def directive_def by blast
  with ab(2) assms(3) show ?thesis by (blast intro: push_field_written)
qed

lemma parse_sections_written: "parse_sections s = Inr secs \<Longrightarrow> fields_written s secs"
proof -
  have "fold_res parse_line ls secs0 = Inr secs \<Longrightarrow> set ls \<subseteq> set (split CHR 0x0A s) \<Longrightarrow>
      fields_written s secs0 \<Longrightarrow> fields_written s secs" for ls secs0
    by (induction ls arbitrary: secs0) (auto simp: and_then_Inr_iff intro: parse_line_written)
  from this [of "split CHR 0x0A s" "[]"] show "parse_sections s = Inr secs \<Longrightarrow> fields_written s secs"
    by (simp add: parse_sections_def fields_written_def)
qed

lemma parse_wg_quick_written:
  assumes "parse_wg_quick cr s = Inr c"
  shows "interface_written cr (written s) (pc_interface c) \<and> (\<forall>p\<in>set (pc_peers c). peer_written cr (written s) p)"
proof -
  have all: "fold_res (parse_section cr) secs (i, ps) = Inr (i', ps') \<Longrightarrow> fields_written s secs \<Longrightarrow>
      \<forall>x. i = Some x \<longrightarrow> interface_written cr (written s) x \<Longrightarrow> \<forall>p\<in>set ps. peer_written cr (written s) p \<Longrightarrow>
      (\<forall>x. i' = Some x \<longrightarrow> interface_written cr (written s) x) \<and> (\<forall>p\<in>set ps'. peer_written cr (written s) p)"
    for secs i ps i' ps'
  proof (induction secs arbitrary: i ps)
    case (Cons raw secs)
    then obtain j qs where st: "parse_section cr raw (i, ps) = Inr (j, qs)"
      "fold_res (parse_section cr) secs (j, qs) = Inr (i', ps')" by (auto simp: and_then_Inr_iff)
    from section_from [OF st(1) _ Cons.prems(3,4)] Cons.prems(2) Cons.IH [OF st(2)] show ?case
      by (simp add: fields_written_def)
  qed simp
  from assms obtain secs where "parse_sections s = Inr secs"
    and f: "fold_res (parse_section cr) secs (None, []) = Inr (Some (pc_interface c), pc_peers c)"
    by (auto simp: parse_wg_quick_def and_then_Inr_iff)
  with parse_sections_written all [OF f] show ?thesis by simp
qed

section \<open>No panic\<close>

lemma parse_line_names:
  assumes "parse_line line secs = Inr secs'" and "\<forall>s\<in>set secs. rs_name s \<in> {''Interface'', ''Peer''}"
  shows "\<forall>s\<in>set secs'. rs_name s \<in> {''Interface'', ''Peer''}"
  using assms
  by (cases secs rule: rev_cases) (auto simp: parse_line_def Let_def parse_header_def parse_directive_def
      and_then_Inr_iff push_field_def split: if_splits option.splits)

lemma interface_field_no_panic: "interface_field cr kv acc \<noteq> Inl ParsePanic"
  by (cases kv) (auto simp: interface_field_def and_then_Inl_iff guard_err_Inl_iff map_err_Inl_iff
      check_no_forbidden_or_unknown_def INTERFACE_ALLOWED_def Let_def split: if_splits)

lemma map_res_Inl: "map_res f xs = Inl e \<Longrightarrow> \<exists>x\<in>set xs. f x = Inl e"
  by (induction xs) (auto simp: and_then_Inl_iff)

lemma peer_field_no_panic: "peer_field cr kv acc \<noteq> Inl ParsePanic"
  by (cases kv) (auto simp: peer_field_def and_then_Inl_iff guard_err_Inl_iff map_err_Inl_iff
      check_no_forbidden_or_unknown_def PEER_ALLOWED_def Let_def parse_allowed_ip_def
      split: if_splits dest!: map_res_Inl)

lemma fold_res_Inl: "fold_res f xs s = Inl e \<Longrightarrow> \<exists>x\<in>set xs. \<exists>t. f x t = Inl e"
  by (induction xs arbitrary: s) (auto simp: and_then_Inl_iff)

lemma parse_section_no_panic:
  "rs_name raw \<in> {''Interface'', ''Peer''} \<Longrightarrow> parse_section cr raw s \<noteq> Inl ParsePanic"
  using interface_field_no_panic peer_field_no_panic
  by (cases s) (auto simp: parse_section_def and_then_Inl_iff guard_err_Inl_iff
      parse_interface_fields_def parse_peer_fields_def dest!: fold_res_Inl)

lemma parse_line_no_panic: "parse_line line secs \<noteq> Inl ParsePanic"
  by (auto simp: parse_line_def parse_header_def parse_directive_def Let_def and_then_Inl_iff
      guard_err_Inl_iff split: if_splits option.splits)

lemma parse_sections_no_panic: "parse_sections s \<noteq> Inl ParsePanic"
  using parse_line_no_panic by (auto simp: parse_sections_def dest!: fold_res_Inl)

lemma parse_all_sections_no_panic:
  assumes "parse_sections s = Inr secs"
  shows "fold_res (parse_section cr) secs t \<noteq> Inl ParsePanic"
proof -
  have "\<forall>s\<in>set secs. rs_name s \<in> {''Interface'', ''Peer''}"
    by (rule fold_res_invariant [OF assms [unfolded parse_sections_def]]) (simp, rule parse_line_names)
  then show ?thesis using parse_section_no_panic by (auto dest!: fold_res_Inl)
qed

lemma check_peer_keys_no_panic: "fold_res (check_peer_key own) ps s \<noteq> Inl ParsePanic"
  by (auto simp: check_peer_key_def guard_err_Inl_iff dest!: fold_res_Inl)

lemma check_peer_routes_no_panic: "for_each (check_peer_routes cr a ps) es \<noteq> Inl ParsePanic"
  by (auto simp: check_peer_routes_def and_then_Inl_iff guard_err_Inl_iff dest!: for_each_InlD)

lemma parse_wg_quick_no_panic: "parse_wg_quick cr s \<noteq> Inl ParsePanic"
  using parse_sections_no_panic parse_all_sections_no_panic check_peer_keys_no_panic
    check_peer_routes_no_panic
  by (auto simp: parse_wg_quick_def and_then_Inl_iff guard_err_Inl_iff map_err_Inl_iff)

section \<open>Properties\<close>

text \<open>
  C14. The parser never panics, and what it accepts is a safe configuration: valid keys, a
  nonzero port, a legal MTU; no peer with the node's own key, no two peers with one key;
  every peer with a nonempty list of canonical networks, none a default route; no allowed
  network covering the node's own address; and no network of one peer overlapping one of
  another.  Nothing in it is made up: every value is that of a directive of the file, the
  interface's address the one of an \<open>Address\<close> directive with a network of length 32.
\<close>
theorem parse_wg_quick_sound:
  "case parse_wg_quick cr s of
     Inl e \<Rightarrow> e \<noteq> ParsePanic
   | Inr c \<Rightarrow> config_ok cr c \<and> interface_written cr (written s) (pc_interface c) \<and>
       list_all (peer_written cr (written s)) (pc_peers c)"
  using parse_wg_quick_no_panic [of cr s] parse_wg_quick_ok [of cr s] parse_wg_quick_written [of cr s]
  by (auto simp: list_all_iff split: sum.split)

text \<open>
  C34. No line of an accepted file is a hook: every directive of every line has one of the ten
  permitted keys, so a file with a line that runs a command (\<open>PreUp\<close>, \<open>PostUp\<close>, \<dots>) or
  sets \<open>Table\<close> or \<open>SaveConfig\<close> is rejected wherever that line stands.
\<close>
theorem no_hooks:
  assumes "line \<in> set (split CHR 0x0A s)" and "directive line k"
    and "k \<notin> set INTERFACE_ALLOWED \<union> set PEER_ALLOWED"
  shows "\<not> is_ok (parse_wg_quick cr s)"
  using accepted_directives [OF _ assms(1,2), of cr] assms(3) by (auto simp: is_ok_iff)

end
