(* ===== verification/Render_Valid.thy ===== *)
theory Render_Valid
  imports Render Wg_Quick_Valid
begin

text \<open>
  The round trip of the configuration file: what \<open>render_node_config\<close> writes, the strict parser
  reads back as exactly the node's interface and its peers.
\<close>

section \<open>Texts that survive a line of the file\<close>

lemma parse_unsigned_plain: "parse_unsigned b s = Some n \<Longrightarrow> plain s \<and> s \<noteq> []"
proof -
  assume p: "parse_unsigned b s = Some n"
  have d: "list_all is_ascii_digit ds \<Longrightarrow> plain ds" for ds
    by (auto simp: plain_def list_all_iff intro: digit_plain)
  have "plain_char CHR ''+''" by (simp add: plain_char_def byte_def)
  with p d show ?thesis
    by (cases s) (auto simp: parse_unsigned_def Let_def intro: digit_plain split: if_splits)
qed

lemma parse_u16_plain: "parse_u16 s = Some n \<Longrightarrow> plain s \<and> s \<noteq> []"
  by (auto simp: parse_u16_def dest: parse_unsigned_plain)

lemma endpoint_parts:
  assumes "validate_endpoint_syntax ep = Inr ()"
  obtains pre host post where "ep = pre @ host @ post" "plain pre" "plain post" "clean host" "host \<noteq> []"
proof -
  have pc: "plain_char CHR '':''" "plain_char CHR ''[''" "plain_char CHR '']''"
    by (simp_all add: plain_char_def byte_def)
  have cl: "clean h" if "\<not> list_ex (\<lambda>c. is_whitespace c \<or> is_control c) (chars h)" for h
    using that by (auto simp: clean_def list_ex_iff list_all_iff)
  show thesis
  proof (cases "strip_prefix ''['' ep")
    case None
    with assms obtain host port n where "rsplit_once CHR '':'' ep = Some (host, port)" "host \<noteq> []"
      "\<not> list_ex (\<lambda>c. is_whitespace c \<or> is_control c) (chars host)" "parse_u16 port = Some n"
      by (auto simp: validate_endpoint_syntax_def and_then_Inr_iff)
    with cl parse_u16_plain [of port n] pc that [of "[]" host "'':'' @ port"] show thesis
      by (auto simp: rsplit_once_Some)
  next
    case (Some rest)
    with assms obtain host after port n where "split_once CHR '']'' rest = Some (host, after)"
      "strip_prefix '':'' after = Some port" "host \<noteq> []"
      "\<not> list_ex (\<lambda>c. is_whitespace c \<or> is_control c) (chars host)" "parse_u16 port = Some n"
      by (auto simp: validate_endpoint_syntax_def and_then_Inr_iff)
    with Some cl parse_u16_plain [of port n] pc that [of "''[''" host "'']:'' @ port"] show thesis
      by (auto simp: split_once_Some strip_prefix_Some)
  qed
qed

lemma endpoint_clean: "validate_endpoint_syntax ep = Inr () \<Longrightarrow> clean ep \<and> ep \<noteq> []"
proof -
  have pre: "clean (p @ h) \<longleftrightarrow> clean h" if "plain p" for p h
    using that by (induction p) (auto simp: clean_Cons_plain)
  assume "validate_endpoint_syntax ep = Inr ()"
  then show ?thesis
    by (rule endpoint_parts) (auto simp: pre clean_append_plain)
qed

text \<open>The value of a directive: it ends the line it is on and is read back unchanged.\<close>

definition value_ok :: "string \<Rightarrow> bool" where
  "value_ok v \<longleftrightarrow>
     v \<noteq> [] \<and> CHR 0x0A \<notin> set v \<and> CHR 0x0D \<notin> set v \<and> CHR 0x00 \<notin> set v \<and> trim (CHR '' '' # v) = v \<and>
     \<not> list_ex is_control (chars v) \<and> last v \<noteq> CHR '' '' \<and> last v \<noteq> CHR 0x09"

lemma clean_value_ok: "clean v \<Longrightarrow> v \<noteq> [] \<Longrightarrow> value_ok v"
  unfolding value_ok_def
proof (intro conjI)
  assume c: "clean v" and n: "v \<noteq> []"
  have no: "a \<notin> set v" if "byte a < 128" "is_whitespace (byte a) \<or> is_control (byte a)" for a
    by (rule clean_no_ascii [OF c that])
  show "CHR 0x0A \<notin> set v" "CHR 0x0D \<notin> set v" "CHR 0x00 \<notin> set v"
    by (rule no; simp add: byte_def is_control_def)+
  show "last v \<noteq> CHR '' ''" "last v \<noteq> CHR 0x09"
    using no [of "CHR '' ''"] no [of "CHR 0x09"] last_in_set [OF n]
    by (auto simp: byte_def is_whitespace_def)
  show "trim (CHR '' '' # v) = v" by (rule clean_trim_pad [OF c])
  show "\<not> list_ex is_control (chars v)" using c by (auto simp: clean_def list_ex_iff list_all_iff)
qed

lemma plain_value_ok: "plain v \<Longrightarrow> v \<noteq> [] \<Longrightarrow> value_ok v"
  by (simp add: clean_value_ok plain_clean)

lemma spaced_value_ok:
  assumes "list_all (\<lambda>c. plain_char c \<or> c = CHR '' '') v" and "v \<noteq> []"
    and "plain_char (hd v)" and "plain_char (last v)"
  shows "value_ok v"
proof -
  have a: "ascii v" using assms(1) by (auto simp: ascii_def list_all_iff plain_char_def byte_def)
  then have a': "ascii (CHR '' '' # v)" by (simp add: byte_def)
  let ?w = "\<lambda>c. is_whitespace (byte c)"
  have "?w CHR '' ''" by (simp add: is_whitespace_def byte_def)
  then have "trim_by ?w (CHR '' '' # v) = trim_by ?w v"
    using trim_by_pad [of ?w "[CHR '' '']" "[]" v] by simp
  also have "\<dots> = v" using assms(3,4) plain_char_not_whitespace by (intro trim_by_id) auto
  finally have t: "trim (CHR '' '' # v) = v" by (simp add: trim_ascii [OF a'])
  let ?ok = "\<lambda>c. plain_char c \<or> c = CHR '' ''"
  have no: "\<not> ?ok CHR 0x0A" "\<not> ?ok CHR 0x0D" "\<not> ?ok CHR 0x00" "\<not> plain_char CHR '' ''" "\<not> plain_char CHR 0x09"
    by (simp_all add: plain_char_def byte_def)
  have ok: "?ok c" if "c \<in> set v" for c using assms(1) that by (auto simp: list_all_iff)
  have ctl: "\<not> is_control (byte c)" if "?ok c" for c
    using that
  proof
    assume "plain_char c"
    then show ?thesis by (simp add: plain_char_def is_control_def)
  next
    assume "c = CHR '' ''"
    then show ?thesis by (simp add: is_control_def byte_def)
  qed
  have "\<not> list_ex is_control (chars v)"
    unfolding chars_ascii [OF a] using ok ctl by (auto simp: list_ex_iff)
  moreover have "CHR 0x0A \<notin> set v" "CHR 0x0D \<notin> set v" "CHR 0x00 \<notin> set v" using ok no by blast+
  moreover have "last v \<noteq> CHR '' ''" "last v \<noteq> CHR 0x09" using assms(4) no by metis+
  ultimately show ?thesis using t assms(2) by (simp add: value_ok_def)
qed

section \<open>One line\<close>

definition key_word :: "string \<Rightarrow> bool" where
  "key_word k \<longleftrightarrow> k \<noteq> [] \<and> list_all (\<lambda>c. is_ascii_alphanumeric c) k"

lemma key_word_facts:
  assumes "key_word k"
  shows "plain k" and "CHR ''='' \<notin> set k" and "hd k \<noteq> CHR '' ''" and "hd k \<noteq> CHR 0x09"
    and "hd k \<noteq> CHR ''#''" and "hd k \<noteq> CHR ''[''" and "CHR 0x0A \<notin> set k" and "CHR 0x0D \<notin> set k"
    and "CHR 0x00 \<notin> set k"
proof -
  have al: "is_ascii_alphanumeric c" if "c \<in> set k" for c
    using that assms by (auto simp: key_word_def list_all_iff)
  have no: "\<not> is_ascii_alphanumeric CHR ''=''" "\<not> is_ascii_alphanumeric CHR 0x0A"
    "\<not> is_ascii_alphanumeric CHR 0x00"
    "\<not> is_ascii_alphanumeric CHR 0x0D" "\<not> is_ascii_alphanumeric CHR '' ''"
    "\<not> is_ascii_alphanumeric CHR 0x09" "\<not> is_ascii_alphanumeric CHR ''#''"
    "\<not> is_ascii_alphanumeric CHR ''[''"
    by (simp_all add: is_ascii_alphanumeric_def is_ascii_digit_def is_ascii_lowercase_def byte_def)
  show "CHR ''='' \<notin> set k" "CHR 0x0A \<notin> set k" "CHR 0x0D \<notin> set k" "CHR 0x00 \<notin> set k"
    using al no by blast+
  have "hd k \<in> set k" using assms by (simp add: key_word_def)
  from al [OF this] no show "hd k \<noteq> CHR '' ''" "hd k \<noteq> CHR 0x09" "hd k \<noteq> CHR ''#''" "hd k \<noteq> CHR ''[''"
    by metis+
  have "plain_char c" if "is_ascii_alphanumeric c" for c
    using that by (auto simp: is_ascii_alphanumeric_def is_ascii_digit_def is_ascii_lowercase_def plain_char_def)
  with al show "plain k" by (simp add: plain_def list_all_iff)
qed

lemma trim_key: "plain k \<Longrightarrow> trim (k @ '' '') = k"
proof -
  assume p: "plain k"
  then have a: "ascii (k @ '' '')" using plain_ascii [OF p] by (simp add: byte_def)
  let ?w = "\<lambda>c. is_whitespace (byte c)"
  have "trim_by ?w (k @ '' '') = trim_by ?w k"
    using trim_by_pad [of ?w "[]" "'' ''" k] by (simp add: is_whitespace_def byte_def)
  moreover have "trim_by ?w k = trim k" using plain_ascii [OF p] by (simp add: trim_ascii)
  ultimately show ?thesis using trim_plain [OF p] a by (simp add: trim_ascii)
qed

lemma trim_matches_id:
  "s \<noteq> [] \<Longrightarrow> hd s \<noteq> c \<Longrightarrow> last s \<noteq> c \<Longrightarrow> trim_matches c s = s"
  by (simp add: trim_matches_def trim_by_id)

lemma parse_line_field:
  assumes k: "key_word k" and v: "value_ok v"
  shows "parse_line (k @ '' = '' @ v) (secs @ [sec]) = Inr (secs @ [sec\<lparr>rs_fields := rs_fields sec @ [(k, v)]\<rparr>])"
proof -
  let ?l = "k @ '' = '' @ v"
  note kf = key_word_facts [OF k]
  have ne: "k \<noteq> []" "v \<noteq> []" using k v by (auto simp: key_word_def value_ok_def)
  have hd: "hd ?l = hd k" and last: "last ?l = last v" using ne by simp_all
  have "trim_matches CHR '' '' ?l = ?l" "trim_matches CHR 0x09 ?l = ?l"
    using ne hd last kf v by (auto intro!: trim_matches_id simp: value_ok_def)
  moreover have "\<not> starts_with ''#'' ?l" "strip_prefix ''['' ?l = None"
    using ne kf by (cases k; simp add: starts_with_def)+
  moreover have "split_once CHR ''='' ?l = Some (k @ '' '', CHR '' '' # v)"
    using kf(2) by (simp add: split_once_Some)
  moreover have "CHR 0x0D \<notin> set ?l" using kf v by (simp add: value_ok_def)
  ultimately show ?thesis
    using ne v trim_key [OF kf(1)]
    by (simp add: parse_line_def parse_directive_def value_ok_def push_field_def)
qed

lemma parse_line_skip:
  "line = [] \<or> starts_with ''#'' line \<and> CHR 0x0D \<notin> set line \<and> last line \<noteq> CHR '' '' \<and> last line \<noteq> CHR 0x09 \<Longrightarrow>
    parse_line line secs = Inr secs"
proof (elim disjE conjE)
  assume "starts_with ''#'' line" "CHR 0x0D \<notin> set line" "last line \<noteq> CHR '' ''" "last line \<noteq> CHR 0x09"
  moreover from this(1) obtain t where "line = CHR ''#'' # t" by (auto simp: starts_with_iff)
  ultimately show ?thesis by (simp add: parse_line_def trim_matches_id)
qed (simp add: parse_line_def trim_matches_def trim_by_def)

lemma parse_line_header:
  "parse_line ''[Interface]'' secs = Inr (secs @ [\<lparr>rs_name = ''Interface'', rs_fields = []\<rparr>])"
  "parse_line ''[Peer]'' secs = Inr (secs @ [\<lparr>rs_name = ''Peer'', rs_fields = []\<rparr>])"
  by (simp_all add: parse_line_def trim_matches_id parse_header_def starts_with_def strip_suffix_def)

definition field_lines :: "(string \<times> string) list \<Rightarrow> string list" where
  "field_lines kvs = map (\<lambda>(k, v). k @ '' = '' @ v) kvs"

lemma parse_fields:
  "list_all (\<lambda>(k, v). key_word k \<and> value_ok v) kvs \<Longrightarrow>
    fold_res parse_line (field_lines kvs) (secs @ [sec])
      = Inr (secs @ [sec\<lparr>rs_fields := rs_fields sec @ kvs\<rparr>])"
proof (induction kvs arbitrary: sec)
  case (Cons kv kvs)
  obtain k v where kv: "kv = (k, v)" by fastforce
  have "parse_line (k @ '' = '' @ v) (secs @ [sec]) = Inr (secs @ [sec\<lparr>rs_fields := rs_fields sec @ [(k, v)]\<rparr>])"
    by (rule parse_line_field) (use Cons.prems kv in simp_all)
  with Cons kv show ?case by (simp add: field_lines_def)
qed (simp add: field_lines_def)

lemma split_lines:
  "\<forall>l\<in>set ls. CHR 0x0A \<notin> set l \<Longrightarrow> split CHR 0x0A (concat (map ln ls)) = ls @ [[]]"
  by (induction ls) (simp_all add: ln_def split_append_sep)

section \<open>The rendered lines\<close>

definition opt_field :: "string \<Rightarrow> string option \<Rightarrow> (string \<times> string) list" where
  "opt_field k v = (case v of Some x \<Rightarrow> [(k, x)] | None \<Rightarrow> [])"

definition interface_kvs :: "validated_node \<Rightarrow> string \<Rightarrow> (string \<times> string) list" where
  "interface_kvs n priv =
     [(''PrivateKey'', priv), (''Address'', show_ipv4 (vn_tunnel_address n) @ ''/32''),
      (''ListenPort'', show_u16 (vn_listen_port n))]
     @ opt_field ''DNS'' (map_option show_ip_addr (vn_dns n))
     @ opt_field ''MTU'' (map_option show_u16 (vn_mtu n))"

definition peer_kvs ::
  "crates \<Rightarrow> validated_node \<Rightarrow> string \<Rightarrow> string \<Rightarrow> 16 word option \<Rightarrow> (string \<times> string) list" where
  "peer_kvs cr peer pub psk ka =
     [(''PublicKey'', pub), (''PresharedKey'', psk),
      (''AllowedIPs'', join '', '' (sorted_allowed_ips cr peer))]
     @ opt_field ''Endpoint'' (vn_endpoint peer)
     @ opt_field ''PersistentKeepalive'' (map_option show_u16 ka)"

definition peer_lines :: "string \<Rightarrow> (string \<times> string) list \<Rightarrow> string list" where
  "peer_lines h kvs = [[], ''[Peer]'', ''# '' @ h] @ field_lines kvs"

definition config_lines :: "string \<Rightarrow> (string \<times> string) list \<Rightarrow> (string \<times> (string \<times> string) list) list \<Rightarrow> string list" where
  "config_lines h ikvs pkvs =
     [''# Managed by wg-server -- do not edit manually.'', ''# Hostname: '' @ h, [], ''[Interface]'']
     @ field_lines ikvs @ concat (map (\<lambda>(p, kvs). peer_lines p kvs) pkvs)"

definition text_of :: "string list \<Rightarrow> string" where
  "text_of ls = concat (map ln ls)"

lemma text_of_simps [simp]:
  "text_of [] = []"
  "text_of (l # ls) = ln l @ text_of ls"
  "text_of (ls @ ms) = text_of ls @ text_of ms"
  by (simp_all add: text_of_def)

lemma field_lines_simps [simp]:
  "field_lines [] = []"
  "field_lines ((k, v) # kvs) = (k @ '' = '' @ v) # field_lines kvs"
  "field_lines (kvs @ kws) = field_lines kvs @ field_lines kws"
  by (simp_all add: field_lines_def)

text \<open>What is known of the peer \<open>p\<close> of \<open>h\<close> once it has been rendered.\<close>

definition peer_data :: "validated_topology \<Rightarrow> resolved_keys \<Rightarrow> string \<Rightarrow> string \<Rightarrow> validated_node \<Rightarrow> string \<Rightarrow> string \<Rightarrow> bool" where
  "peer_data t keys h p peer pub psk \<longleftrightarrow>
     node t p = Some peer \<and> (\<exists>priv. bt_get (node_keys keys) p = Some (priv, pub)) \<and>
     bt_get (edge_psks keys) (canonical_pair h p) = Some psk"

lemma render_peer_lines:
  assumes "render_peer cr t keys h ka p out = Inr out'"
  obtains peer pub psk where "peer_data t keys h p peer pub psk"
    "out' = out @ text_of (peer_lines p (peer_kvs cr peer pub psk ka))"
  using assms
  by (auto simp: render_peer_def and_then_Inr_iff Let_def peer_data_def peer_lines_def peer_kvs_def
      opt_field_def split: option.splits)

lemma render_peers_lines:
  assumes "fold_res (render_peer cr t keys h ka) ps out = Inr out'"
  shows "\<exists>pkvs. out' = out @ text_of (concat (map (\<lambda>(p, kvs). peer_lines p kvs) pkvs)) \<and>
    list_all2 (\<lambda>p (q, kvs). q = p \<and> (\<exists>peer pub psk. peer_data t keys h p peer pub psk \<and>
      kvs = peer_kvs cr peer pub psk ka)) ps pkvs"
  using assms
proof (induction ps arbitrary: out)
  case (Cons p ps)
  then obtain out1 where 1: "render_peer cr t keys h ka p out = Inr out1"
    and 2: "fold_res (render_peer cr t keys h ka) ps out1 = Inr out'" by (auto simp: and_then_Inr_iff)
  from Cons.IH [OF 2] obtain pkvs where
    "out' = out1 @ text_of (concat (map (\<lambda>(p, kvs). peer_lines p kvs) pkvs))"
    "list_all2 (\<lambda>p (q, kvs). q = p \<and> (\<exists>peer pub psk. peer_data t keys h p peer pub psk \<and>
      kvs = peer_kvs cr peer pub psk ka)) ps pkvs" by blast
  moreover from 1 obtain peer pub psk where "peer_data t keys h p peer pub psk"
    "out1 = out @ text_of (peer_lines p (peer_kvs cr peer pub psk ka))" by (rule render_peer_lines)
  ultimately show ?case
    by (intro exI [of _ "(p, peer_kvs cr peer pub psk ka) # pkvs"]) auto
qed simp

lemma render_node_lines:
  assumes "render_node_config cr t keys h = Inr out"
  obtains n priv pub pkvs c where "node t h = Some n" "bt_get (node_keys keys) h = Some (priv, pub)"
    "out = text_of (config_lines h (interface_kvs n priv) pkvs)"
    "list_all2 (\<lambda>p (q, kvs). q = p \<and> (\<exists>peer pub psk. peer_data t keys h p peer pub psk \<and>
      kvs = peer_kvs cr peer pub psk (resolve_local_keepalive n))) (peers_of h (edges t)) pkvs"
    "parse_wg_quick cr out = Inr c" "length out \<le> MAX_RENDERED_CONFIG_BYTES"
proof -
  from assms obtain n priv pub c where n: "node t h = Some n" and k: "bt_get (node_keys keys) h = Some (priv, pub)"
    and c: "parse_wg_quick cr out = Inr c" and len: "length out \<le> MAX_RENDERED_CONFIG_BYTES"
    and f: "fold_res (render_peer cr t keys h (resolve_local_keepalive n)) (peers_of h (edges t))
      (text_of (config_lines h (interface_kvs n priv) [])) = Inr out"
    by (auto simp: render_node_config_def and_then_Inr_iff Let_def config_lines_def interface_kvs_def
        opt_field_def not_less split: option.splits)
  from render_peers_lines [OF f] obtain pkvs where
    "out = text_of (config_lines h (interface_kvs n priv) []) @ text_of (concat (map (\<lambda>(p, kvs). peer_lines p kvs) pkvs))"
    "list_all2 (\<lambda>p (q, kvs). q = p \<and> (\<exists>peer pub psk. peer_data t keys h p peer pub psk \<and>
      kvs = peer_kvs cr peer pub psk (resolve_local_keepalive n))) (peers_of h (edges t)) pkvs" by blast
  then show thesis by (intro that [OF n k _ _ c len]) (auto simp: config_lines_def)
qed

section \<open>Parsing the rendered lines\<close>

definition kvs_ok :: "(string \<times> string) list \<Rightarrow> bool" where
  "kvs_ok kvs = list_all (\<lambda>(k, v). key_word k \<and> value_ok v) kvs"

definition comment_ok :: "string \<Rightarrow> bool" where
  "comment_ok s \<longleftrightarrow> plain s \<and> s \<noteq> []"

lemma plain_no_controls:
  "plain s \<Longrightarrow> CHR 0x0A \<notin> set s \<and> CHR 0x0D \<notin> set s \<and> CHR 0x00 \<notin> set s \<and> CHR '' '' \<notin> set s \<and> CHR 0x09 \<notin> set s"
proof -
  have no: "\<not> plain_char CHR 0x00" "\<not> plain_char CHR 0x0A" "\<not> plain_char CHR 0x0D" "\<not> plain_char CHR '' ''" "\<not> plain_char CHR 0x09"
    by (simp_all add: plain_char_def byte_def)
  assume "plain s"
  then have "plain_char c" if "c \<in> set s" for c using that by (auto simp: plain_def list_all_iff)
  with no show ?thesis by blast
qed

lemma parse_comment:
  assumes "comment_ok h" and "starts_with ''#'' pre" and "CHR 0x0D \<notin> set pre"
  shows "parse_line (pre @ h) secs = Inr secs"
proof (rule parse_line_skip, rule disjI2, intro conjI)
  note h = assms(1) [unfolded comment_ok_def]
  from assms(2) show "starts_with ''#'' (pre @ h)" by (auto simp: starts_with_iff)
  show "CHR 0x0D \<notin> set (pre @ h)" using assms(3) plain_no_controls [of h] h by simp
  have "last (pre @ h) \<in> set h" using h by simp
  then show "last (pre @ h) \<noteq> CHR '' ''" "last (pre @ h) \<noteq> CHR 0x09"
    using plain_no_controls [of h] h by metis+
qed

lemma parse_comments:
  "comment_ok h \<Longrightarrow> parse_line (''# Hostname: '' @ h) secs = Inr secs"
  "comment_ok h \<Longrightarrow> parse_line (''# '' @ h) secs = Inr secs"
  "parse_line ''# Managed by wg-server -- do not edit manually.'' secs = Inr secs"
  "parse_line [] secs = Inr secs"
  by (rule parse_comment; simp add: starts_with_def)+ (rule parse_line_skip; simp add: starts_with_def)+

lemma parse_peer_lines:
  assumes "comment_ok p" and "kvs_ok kvs"
  shows "fold_res parse_line (peer_lines p kvs) secs = Inr (secs @ [\<lparr>rs_name = ''Peer'', rs_fields = kvs\<rparr>])"
  using parse_fields [OF assms(2) [unfolded kvs_ok_def]] parse_comments(2,4) assms(1)
  by (simp add: peer_lines_def parse_line_header)

definition raw_peer :: "string \<times> (string \<times> string) list \<Rightarrow> raw_section" where
  "raw_peer = (\<lambda>(p, kvs). \<lparr>rs_name = ''Peer'', rs_fields = kvs\<rparr>)"

lemma parse_peers_lines:
  "list_all (\<lambda>(p, kvs). comment_ok p \<and> kvs_ok kvs) pkvs \<Longrightarrow>
    fold_res parse_line (concat (map (\<lambda>(p, kvs). peer_lines p kvs) pkvs)) secs
      = Inr (secs @ map raw_peer pkvs)"
proof (induction pkvs arbitrary: secs)
  case (Cons pk pkvs)
  then show ?case by (cases pk) (simp add: fold_res_append parse_peer_lines raw_peer_def)
qed simp

lemma parse_config_lines:
  assumes "comment_ok h" and "kvs_ok ikvs" and "list_all (\<lambda>(p, kvs). comment_ok p \<and> kvs_ok kvs) pkvs"
  shows "fold_res parse_line (config_lines h ikvs pkvs) []
    = Inr (\<lparr>rs_name = ''Interface'', rs_fields = ikvs\<rparr> # map raw_peer pkvs)"
proof -
  have "fold_res parse_line (field_lines ikvs) ([] @ [\<lparr>rs_name = ''Interface'', rs_fields = []\<rparr>])
      = Inr ([] @ [\<lparr>rs_name = ''Interface'', rs_fields = ikvs\<rparr>])"
    using parse_fields [OF assms(2) [unfolded kvs_ok_def], of "[]" "\<lparr>rs_name = ''Interface'', rs_fields = []\<rparr>"]
    by simp
  then show ?thesis
    using parse_comments assms(1) parse_peers_lines [OF assms(3)] parse_line_header(1) [of "[]"]
    by (simp add: config_lines_def fold_res_append)
qed

lemma field_lines_no_newline:
  "kvs_ok kvs \<Longrightarrow> l \<in> set (field_lines kvs) \<Longrightarrow> CHR 0x0A \<notin> set l \<and> CHR 0x00 \<notin> set l"
  using key_word_facts(7,9)
  by (induction kvs) (auto simp: kvs_ok_def value_ok_def)

lemma config_lines_no_newline:
  assumes "comment_ok h" and "kvs_ok ikvs" and "list_all (\<lambda>(p, kvs). comment_ok p \<and> kvs_ok kvs) pkvs"
    and "l \<in> set (config_lines h ikvs pkvs)"
  shows "CHR 0x0A \<notin> set l \<and> CHR 0x00 \<notin> set l"
proof -
  have c: "comment_ok s \<Longrightarrow> CHR 0x0A \<notin> set s \<and> CHR 0x00 \<notin> set s" for s
    using plain_no_controls [of s] by (simp add: comment_ok_def)
  have p: "CHR 0x0A \<notin> set m \<and> CHR 0x00 \<notin> set m" if "m \<in> set (peer_lines q kvs)" "comment_ok q" "kvs_ok kvs" for m q kvs
    using that c field_lines_no_newline by (auto simp: peer_lines_def)
  show ?thesis
    using assms c p field_lines_no_newline
    by (auto simp: config_lines_def list_all_iff)
qed

lemma parse_sections_text:
  assumes "comment_ok h" and "kvs_ok ikvs" and "list_all (\<lambda>(p, kvs). comment_ok p \<and> kvs_ok kvs) pkvs"
  shows "parse_sections (text_of (config_lines h ikvs pkvs))
    = Inr (\<lparr>rs_name = ''Interface'', rs_fields = ikvs\<rparr> # map raw_peer pkvs)"
proof -
  have "split CHR 0x0A (text_of (config_lines h ikvs pkvs)) = config_lines h ikvs pkvs @ [[]]"
    unfolding text_of_def using config_lines_no_newline [OF assms] by (intro split_lines) blast
  then show ?thesis
    using parse_config_lines [OF assms]
    by (simp add: parse_sections_def fold_res_append parse_comments)
qed

section \<open>The values\<close>

definition key_text :: "string \<Rightarrow> bool" where
  "key_text s \<longleftrightarrow> plain s \<and> s \<noteq> []"

definition keys_text :: "resolved_keys \<Rightarrow> bool" where
  "keys_text keys \<longleftrightarrow>
     (\<forall>h priv pub. bt_get (node_keys keys) h = Some (priv, pub) \<longrightarrow> key_text priv \<and> key_text pub) \<and>
     (\<forall>e psk. bt_get (edge_psks keys) e = Some psk \<longrightarrow> key_text psk)"

definition node_text :: "validated_node \<Rightarrow> bool" where
  "node_text n \<longleftrightarrow>
     (\<forall>d. vn_dns n = Some d \<longrightarrow> ip_ok d) \<and>
     (\<forall>ep. vn_endpoint n = Some ep \<longrightarrow> validate_endpoint_syntax ep = Inr ()) \<and>
     list_all net_wf (vn_extra_allowed_ips n)"

lemma node_matches_text:
  assumes "ipnet_parses_wf cr" and "node_matches cr c n"
  shows "node_text n"
proof -
  have "list_all2 (\<lambda>s r. net_parse cr s = Some r \<and> net_ok cr r \<and> net_prefix_len r \<noteq> 0)
      (wg_extra_allowed_ips (nc_wg_config c)) (vn_extra_allowed_ips n)"
    using assms(2) by (simp add: node_matches_def)
  then have "list_all net_wf (vn_extra_allowed_ips n)"
    using assms(1) by (induction rule: list_all2_induct) (auto simp: ipnet_parses_wf_def)
  with assms(2) show ?thesis
    by (auto simp: node_text_def node_matches_def Option.bind_eq_Some_conv dest: parse_ip_addr_ok)
qed

lemma key_words [simp]:
  "key_word ''PrivateKey''" "key_word ''Address''" "key_word ''ListenPort''" "key_word ''DNS''"
  "key_word ''MTU''" "key_word ''PublicKey''" "key_word ''PresharedKey''" "key_word ''AllowedIPs''"
  "key_word ''Endpoint''" "key_word ''PersistentKeepalive''"
  by (simp_all add: key_word_def is_ascii_alphanumeric_def is_ascii_digit_def is_ascii_lowercase_def byte_def)

lemma show_ipv4_slash: "plain (show_ipv4 a @ ''/32'')"
  by (simp add: plain_char_def byte_def)

lemma interface_kvs_ok:
  assumes "node_text n" and "key_text priv"
  shows "kvs_ok (interface_kvs n priv)"
proof -
  have "value_ok (show_ip_addr d)" if "ip_ok d" for d
    using ip_codec.show_plain [OF that] ip_codec.show_nonempty [OF that] by (rule plain_value_ok)
  moreover have "value_ok (show_ipv4 a @ ''/32'')" for a
    by (rule plain_value_ok [OF show_ipv4_slash]) simp
  moreover have "value_ok (show_u16 w)" for w by (simp add: plain_value_ok)
  moreover have "value_ok priv" using assms(2) by (simp add: key_text_def plain_value_ok)
  ultimately show ?thesis
    using assms(1) by (auto simp: kvs_ok_def interface_kvs_def opt_field_def node_text_def split: option.splits)
qed

text \<open>The list of allowed networks as values, and its text.\<close>

definition allowed_nets :: "crates \<Rightarrow> validated_node \<Rightarrow> ipv4net list" where
  "allowed_nets cr n =
     Ipv4Net (vn_tunnel_address n) 32
     # sort_key (\<lambda>r. (net_network cr r, net_prefix_len r)) (vn_extra_allowed_ips n)"

lemma sorted_allowed_ips_nets:
  "ipnet_text cr \<Longrightarrow> sorted_allowed_ips cr n = map (net_show cr) (allowed_nets cr n)"
proof -
  assume "ipnet_text cr"
  moreover have "show_nat 32 = ''32''" by code_simp
  ultimately show ?thesis
    by (simp add: sorted_allowed_ips_def allowed_nets_def ipnet_text_def net_wf_def)
qed

lemma allowed_nets_wf: "node_text n \<Longrightarrow> list_all net_wf (allowed_nets cr n)"
  by (simp add: allowed_nets_def node_text_def net_wf_def list_all_iff)

lemma join_spaced:
  assumes "list_all plain ss" and "list_all (\<lambda>s. s \<noteq> []) ss" and "ss \<noteq> []"
  shows "list_all (\<lambda>c. plain_char c \<or> c = CHR '' '') (join '', '' ss)" and "join '', '' ss \<noteq> []"
    and "plain_char (hd (join '', '' ss))" and "plain_char (last (join '', '' ss))"
proof -
  have comma: "plain_char CHR '',''" by (simp add: plain_char_def byte_def)
  let ?ok = "\<lambda>t. list_all (\<lambda>c. plain_char c \<or> c = CHR '' '') t \<and> t \<noteq> [] \<and> plain_char (hd t) \<and> plain_char (last t)"
  have pl: "?ok s" if "plain s" "s \<noteq> []" for s
    using that by (auto simp: plain_def list_all_iff)
  have "?ok (join '', '' ss)"
    using assms
  proof (induction ss rule: induct_list012)
    case (2 s)
    then show ?case using pl by simp
  next
    case (3 s t ss)
    then have "?ok (join '', '' (t # ss))" "?ok s" using pl by auto
    then show ?case using comma by (cases s) auto
  qed simp
  then show "list_all (\<lambda>c. plain_char c \<or> c = CHR '' '') (join '', '' ss)" "join '', '' ss \<noteq> []"
    "plain_char (hd (join '', '' ss))" "plain_char (last (join '', '' ss))" by blast+
qed

lemma allowed_value_ok:
  assumes "ipnet_text cr" and "node_text n"
  shows "value_ok (join '', '' (sorted_allowed_ips cr n))"
proof -
  have "list_all plain (sorted_allowed_ips cr n)" "list_all (\<lambda>s. s \<noteq> []) (sorted_allowed_ips cr n)"
    "sorted_allowed_ips cr n \<noteq> []"
    using allowed_nets_wf [OF assms(2), of cr] net_show_plain [OF assms(1)]
    by (auto simp: sorted_allowed_ips_nets [OF assms(1)] list_all_iff allowed_nets_def)
  from join_spaced [OF this] show ?thesis by (rule spaced_value_ok)
qed

lemma peer_kvs_ok:
  assumes "ipnet_text cr" and "node_text peer" and "key_text pub" and "key_text psk"
  shows "kvs_ok (peer_kvs cr peer pub psk ka)"
proof -
  have "value_ok ep" if "vn_endpoint peer = Some ep" for ep
    using that assms(2) endpoint_clean clean_value_ok by (simp add: node_text_def)
  moreover have "value_ok (show_u16 w)" for w by (simp add: plain_value_ok)
  moreover have "value_ok pub" "value_ok psk" using assms(3,4) by (simp_all add: key_text_def plain_value_ok)
  ultimately show ?thesis
    using allowed_value_ok [OF assms(1,2)]
    by (auto simp: kvs_ok_def peer_kvs_def opt_field_def split: option.splits)
qed

section \<open>Reading the fields\<close>

lemma rendered_interface:
  assumes "parse_interface_fields cr (interface_kvs n priv) = Inr i"
    and "ipnet_text cr" and "node_text n"
  shows "i = \<lparr>pi_private_key = priv, pi_address = vn_tunnel_address n, pi_listen_port = vn_listen_port n,
    pi_dns = vn_dns n, pi_mtu = vn_mtu n\<rparr>"
proof -
  have a: "net_parse cr (show_ipv4 (vn_tunnel_address n) @ ''/32'') = Some (Ipv4Net (vn_tunnel_address n) 32)"
  proof -
    have "show_nat 32 = ''32''" by code_simp
    then show ?thesis using assms(2) by (auto simp: ipnet_text_def net_wf_def dest: spec [of _ "Ipv4Net (vn_tunnel_address n) 32"])
  qed
  have d: "parse_ip_addr (show_ip_addr d) = Some d" if "vn_dns n = Some d" for d
    using that assms(3) by (simp add: node_text_def parse_ip_show)
  show ?thesis
    using assms(1) a d
    by (cases i; cases "vn_dns n"; cases "vn_mtu n")
      (auto simp: parse_interface_fields_Inr interface_kvs_def opt_field_def interface_field_def
        and_then_Inr_iff iface_acc_init_def)
qed

lemma rendered_allowed_ips:
  assumes "ipnet_text cr" and "node_text peer"
    and "map_res (parse_allowed_ip cr) (map trim (split CHR '','' (join '', '' (sorted_allowed_ips cr peer)))) = Inr rs"
  shows "rs = allowed_nets cr peer"
proof -
  let ?ns = "allowed_nets cr peer"
  have wf: "\<forall>n\<in>set ?ns. net_wf n" using allowed_nets_wf [OF assms(2), of cr] by (simp add: list_all_iff)
  have "map trim (split CHR '','' (join '', '' (sorted_allowed_ips cr peer))) = map (net_show cr) ?ns"
    unfolding sorted_allowed_ips_nets [OF assms(1)]
    by (rule list_codec.split_join [OF net_codec [OF assms(1)]]) (use wf in \<open>simp_all add: allowed_nets_def\<close>)
  then have "list_all2 (\<lambda>n r. net_parse cr (net_show cr n) = Some r) ?ns rs"
    using assms(3) by (auto simp: map_res_Inr_iff list_all2_map1 parse_allowed_ip_Inr elim: list_all2_mono)
  then have "list_all2 (\<lambda>n r. n \<in> set ?ns \<and> net_parse cr (net_show cr n) = Some r) ?ns rs"
    by (simp add: list_all2_conv_all_nth)
  then have "list_all2 (=) ?ns rs"
    by (rule list_all2_mono) (use wf assms(1) in \<open>auto simp: ipnet_text_def\<close>)
  then show ?thesis by (simp add: list.rel_eq)
qed

lemma rendered_peer:
  assumes "parse_peer_fields cr (peer_kvs cr peer pub psk ka) = Inr p"
    and "ipnet_text cr" and "node_text peer"
  shows "p = \<lparr>pp_public_key = pub, pp_preshared_key = psk, pp_allowed_ips = allowed_nets cr peer,
    pp_endpoint = vn_endpoint peer, pp_persistent_keepalive = ka\<rparr>"
  using assms(1) rendered_allowed_ips [OF assms(2,3)]
  by (cases p; cases "vn_endpoint peer"; cases ka)
    (auto simp: parse_peer_fields_Inr peer_kvs_def opt_field_def peer_field_def and_then_Inr_iff
      peer_acc_init_def split: if_splits)

section \<open>The round trip\<close>

definition rendered_for ::
  "crates \<Rightarrow> validated_topology \<Rightarrow> resolved_keys \<Rightarrow> string \<Rightarrow> validated_node \<Rightarrow> string \<Rightarrow> parsed_config" where
  "rendered_for cr t keys h n priv =
     \<lparr>pc_interface = \<lparr>pi_private_key = priv, pi_address = vn_tunnel_address n,
        pi_listen_port = vn_listen_port n, pi_dns = vn_dns n, pi_mtu = vn_mtu n\<rparr>,
      pc_peers = map (\<lambda>p. let peer = the (node t p) in
        \<lparr>pp_public_key = snd (the (bt_get (node_keys keys) p)),
         pp_preshared_key = the (bt_get (edge_psks keys) (canonical_pair h p)),
         pp_allowed_ips = allowed_nets cr peer, pp_endpoint = vn_endpoint peer,
         pp_persistent_keepalive = resolve_local_keepalive n\<rparr>) (peers_of h (edges t))\<rparr>"

lemma parse_raw_peer:
  "parse_section cr (raw_peer (q, kvs)) (i, ps) = and_then (parse_peer_fields cr kvs) (\<lambda>p. Inr (i, ps @ [p]))"
  by (simp add: parse_section_def raw_peer_def)

lemma parse_peer_sections:
  assumes "fold_res (parse_section cr) (map raw_peer pkvs) (i, ps) = Inr (i', ps')"
  shows "i' = i \<and> (\<exists>qs. ps' = ps @ qs \<and> list_all2 (\<lambda>(q, kvs) p. parse_peer_fields cr kvs = Inr p) pkvs qs)"
  using assms
proof (induction pkvs arbitrary: ps)
  case (Cons pk pkvs)
  obtain q kvs where pk: "pk = (q, kvs)" by fastforce
  with Cons.prems obtain p where p: "parse_peer_fields cr kvs = Inr p"
    and "fold_res (parse_section cr) (map raw_peer pkvs) (i, ps @ [p]) = Inr (i', ps')"
    by (auto simp: and_then_Inr_iff parse_raw_peer)
  from Cons.IH [OF this(2)] obtain qs where "i' = i" "ps' = (ps @ [p]) @ qs"
    "list_all2 (\<lambda>(q, kvs) p. parse_peer_fields cr kvs = Inr p) pkvs qs" by blast
  with p pk show ?case by (intro conjI exI [of _ "p # qs"]) auto
qed simp

lemma parse_rendered_sections:
  assumes "parse_wg_quick cr out = Inr c"
    and "parse_sections out = Inr (\<lparr>rs_name = ''Interface'', rs_fields = ikvs\<rparr> # map raw_peer pkvs)"
  shows "parse_interface_fields cr ikvs = Inr (pc_interface c)"
    and "list_all2 (\<lambda>(q, kvs) p. parse_peer_fields cr kvs = Inr p) pkvs (pc_peers c)"
  using assms
  by (auto simp: parse_wg_quick_def and_then_Inr_iff parse_section_def dest!: parse_peer_sections)

lemma list_all2_map_eq:
  "list_all2 R xs zs \<Longrightarrow> list_all2 S zs ys \<Longrightarrow> (\<And>x z y. x \<in> set xs \<Longrightarrow> R x z \<Longrightarrow> S z y \<Longrightarrow> y = f x) \<Longrightarrow> ys = map f xs"
  by (induction xs zs arbitrary: ys rule: list_all2_induct) (auto simp: list_all2_Cons1)

lemma hostname_comment_ok: "hostname_regex h \<Longrightarrow> comment_ok h"
  using hostname_chars [of h] hostname_nonempty [of h] hostname_char_plain
  by (auto simp: comment_ok_def hostname_validate_regex plain_def list_all_iff)

lemma validated_node_matches:
  assumes "topology_validate cr cfg = Inr (t, ws)" and "n \<in> set (vt_nodes t)"
  obtains c where "node_matches cr c n"
proof -
  obtain ns where ns: "list_all2 (node_matches cr) (tc_nodes cfg) ns" "mset (vt_nodes t) = mset ns"
    using topology_validate_ok(2) [OF assms(1)] by (auto simp: topology_matches_def)
  have "n \<in> set ns" using assms(2) mset_eq_setD [OF ns(2)] by simp
  with ns(1) that show thesis by (auto simp: list_all2_conv_all_nth in_set_conv_nth)
qed

lemma validated_nodes_text:
  assumes "topology_validate cr cfg = Inr (t, ws)" and "ipnet_parses_wf cr" and "node t h = Some n"
  shows "node_text n" and "comment_ok h" and "vn_hostname n = h"
proof -
  have n: "n \<in> set (vt_nodes t)" "vn_hostname n = h"
    using assms(3) by (auto simp: node_def find_Some_iff)
  then show "vn_hostname n = h" by simp
  from assms(1) n(1) obtain c where "node_matches cr c n" by (rule validated_node_matches)
  with assms(2) show "node_text n" by (rule node_matches_text)
  show "comment_ok h"
    using topology_validate_ok(1) [OF assms(1)] n by (auto simp: topology_ok_def hostname_comment_ok)
qed

lemma render_parses_back:
  assumes v: "topology_validate cr cfg = Inr (t, ws)" and cr: "ipnet_text cr" "ipnet_parses_wf cr"
    and k: "keys_text keys" and r: "render_node_config cr t keys h = Inr out"
  shows "\<exists>n priv pub. node t h = Some n \<and> bt_get (node_keys keys) h = Some (priv, pub) \<and>
    parse_wg_quick cr out = Inr (rendered_for cr t keys h n priv)"
proof -
  let ?R = "\<lambda>n p (q, kvs). q = p \<and> (\<exists>peer pub psk. peer_data t keys h p peer pub psk \<and>
      kvs = peer_kvs cr peer pub psk (resolve_local_keepalive n))"
  from r obtain n priv pub pkvs c where n: "node t h = Some n" and key: "bt_get (node_keys keys) h = Some (priv, pub)"
    and out: "out = text_of (config_lines h (interface_kvs n priv) pkvs)"
    and ps: "list_all2 (?R n) (peers_of h (edges t)) pkvs" and c: "parse_wg_quick cr out = Inr c"
    by (rule render_node_lines)
  note nt = validated_nodes_text [OF v cr(2)]
  have peer: "comment_ok p \<and> node_text peer \<and> key_text pub \<and> key_text psk"
    if "peer_data t keys h p peer pub psk" for p peer pub psk
    using that nt k unfolding peer_data_def keys_text_def by blast
  have "list_all (\<lambda>(p, kvs). comment_ok p \<and> kvs_ok kvs) pkvs"
    using ps peer peer_kvs_ok [OF cr(1)]
    by (fastforce simp: list_all_iff list_all2_conv_all_nth in_set_conv_nth)
  moreover have "key_text priv" using k key by (auto simp: keys_text_def)
  ultimately have "parse_sections out
      = Inr (\<lparr>rs_name = ''Interface'', rs_fields = interface_kvs n priv\<rparr> # map raw_peer pkvs)"
    unfolding out using nt(2) [OF n] interface_kvs_ok [OF nt(1) [OF n]] by (intro parse_sections_text)
  note secs = parse_rendered_sections [OF c this]
  have "pc_peers c = pc_peers (rendered_for cr t keys h n priv)"
    unfolding rendered_for_def parsed_config.simps
    by (rule list_all2_map_eq [OF ps secs(2)])
      (use peer rendered_peer [OF _ cr(1)] in \<open>fastforce simp: peer_data_def Let_def\<close>)
  moreover have "pc_interface c = pc_interface (rendered_for cr t keys h n priv)"
    using rendered_interface [OF secs(1) cr(1) nt(1) [OF n]] by (simp add: rendered_for_def)
  ultimately have "c = rendered_for cr t keys h n priv" by (cases c) (simp add: rendered_for_def)
  with n key c show ?thesis by blast
qed

lemma peers_of_edges:
  "set (peers_of h (edges t)) = {p. (h, p) \<in> set (edges t) \<or> (p, h) \<in> set (edges t)}"
  by (force simp: peers_of_def List.map_filter_def split: if_splits)

section \<open>Properties\<close>

text \<open>
  C11. Reading back what was written: the file rendered for a node of a validated topology is
  accepted by the strict parser and means exactly the node: its private key, address, port,
  DNS and MTU, and one peer for every edge of the node, in order of the hostnames, with that
  peer's public key, the edge's preshared key, the peer's address and routes as allowed
  networks, its endpoint, and the node's own keepalive.
\<close>
theorem render_roundtrip:
  assumes "topology_validate cr cfg = Inr (t, ws)" and "ipnet_text cr" and "ipnet_parses_wf cr"
    and "keys_text keys" and "render_node_config cr t keys h = Inr out"
  shows "\<exists>n priv pub. node t h = Some n \<and> bt_get (node_keys keys) h = Some (priv, pub) \<and>
    parse_wg_quick cr out = Inr (rendered_for cr t keys h n priv)"
  using assms by (rule render_parses_back)

text \<open>The two ends of an edge, as their files describe each other.\<close>

definition linked :: "resolved_keys \<Rightarrow> string \<Rightarrow> string \<Rightarrow> parsed_config \<Rightarrow> parsed_config \<Rightarrow> bool" where
  "linked keys a b ca cb \<longleftrightarrow>
     (\<exists>pa\<in>set (pc_peers ca). \<exists>pb\<in>set (pc_peers cb).
        pp_preshared_key pa = pp_preshared_key pb \<and>
        bt_get (node_keys keys) a = Some (pi_private_key (pc_interface ca), pp_public_key pb) \<and>
        bt_get (node_keys keys) b = Some (pi_private_key (pc_interface cb), pp_public_key pa) \<and>
        hd (pp_allowed_ips pa) = Ipv4Net (pi_address (pc_interface cb)) 32 \<and>
        hd (pp_allowed_ips pb) = Ipv4Net (pi_address (pc_interface ca)) 32 \<and>
        (pp_endpoint pa \<noteq> None \<or> pp_endpoint pb \<noteq> None))"

lemma rendered_interface_simps:
  "pi_private_key (pc_interface (rendered_for cr t keys h n priv)) = priv"
  "pi_address (pc_interface (rendered_for cr t keys h n priv)) = vn_tunnel_address n"
  by (simp_all add: rendered_for_def)

lemma rendered_peer_entry:
  assumes "p \<in> set (peers_of h (edges t))"
  shows "\<exists>q\<in>set (pc_peers (rendered_for cr t keys h n priv)).
    pp_public_key q = snd (the (bt_get (node_keys keys) p)) \<and>
    pp_preshared_key q = the (bt_get (edge_psks keys) (canonical_pair h p)) \<and>
    hd (pp_allowed_ips q) = Ipv4Net (vn_tunnel_address (the (node t p))) 32 \<and>
    pp_endpoint q = vn_endpoint (the (node t p))"
  using assms by (auto simp: rendered_for_def Let_def allowed_nets_def intro!: bexI)

lemma edge_endpoint:
  assumes "topology_ok cr t" and "(a, b) \<in> set (edges t)" and "node t a = Some n" and "node t b = Some m"
  shows "vn_endpoint n \<noteq> None \<or> vn_endpoint m \<noteq> None"
proof -
  obtain n' m' where e: "n' \<in> set (vt_nodes t)" "m' \<in> set (vt_nodes t)" "vn_hostname n' = a"
    "vn_hostname m' = b" "vn_endpoint n' \<noteq> None \<or> vn_endpoint m' \<noteq> None"
    using assms(1,2) by (fastforce simp: topology_ok_def)
  then have "node t a = Some n'" "node t b = Some m'"
    using find_hostname [OF topology_ok_distinct [OF assms(1)]] by (simp_all add: node_def)
  with assms(3,4) e(5) show ?thesis by simp
qed

lemma edge_configs_linked:
  assumes "topology_validate cr cfg = Inr (t, ws)" and "ipnet_text cr" and "ipnet_parses_wf cr"
    and "keys_text keys" and "(a, b) \<in> set (edges t)"
    and "render_node_config cr t keys a = Inr out_a" and "render_node_config cr t keys b = Inr out_b"
  shows "\<exists>ca cb. parse_wg_quick cr out_a = Inr ca \<and> parse_wg_quick cr out_b = Inr cb \<and> linked keys a b ca cb"
proof -
  note rb = render_parses_back [OF assms(1-4)]
  from rb [OF assms(6)] rb [OF assms(7)] obtain n priv pub m priv' pub' where
    a: "node t a = Some n" "bt_get (node_keys keys) a = Some (priv, pub)"
      "parse_wg_quick cr out_a = Inr (rendered_for cr t keys a n priv)" and
    b: "node t b = Some m" "bt_get (node_keys keys) b = Some (priv', pub')"
      "parse_wg_quick cr out_b = Inr (rendered_for cr t keys b m priv')" by blast
  have sym: "canonical_pair a b = canonical_pair b a" by (auto simp: canonical_pair_def)
  have "b \<in> set (peers_of a (edges t))" "a \<in> set (peers_of b (edges t))"
    using assms(5) by (simp_all add: peers_of_edges)
  from this [THEN rendered_peer_entry] obtain pa pb where
    "pa \<in> set (pc_peers (rendered_for cr t keys a n priv))"
    "pp_public_key pa = pub'" "pp_preshared_key pa = the (bt_get (edge_psks keys) (canonical_pair a b))"
    "hd (pp_allowed_ips pa) = Ipv4Net (vn_tunnel_address m) 32" "pp_endpoint pa = vn_endpoint m"
    "pb \<in> set (pc_peers (rendered_for cr t keys b m priv'))"
    "pp_public_key pb = pub" "pp_preshared_key pb = the (bt_get (edge_psks keys) (canonical_pair b a))"
    "hd (pp_allowed_ips pb) = Ipv4Net (vn_tunnel_address n) 32" "pp_endpoint pb = vn_endpoint n"
    using a(1,2) b(1,2) by fastforce
  moreover have "vn_endpoint n \<noteq> None \<or> vn_endpoint m \<noteq> None"
    using edge_endpoint topology_validate_ok(1) [OF assms(1)] assms(5) a(1) b(1) by blast
  ultimately have "linked keys a b (rendered_for cr t keys a n priv) (rendered_for cr t keys b m priv')"
    unfolding linked_def rendered_interface_simps using a(2) b(2) sym
    by - (rule bexI [of _ pa], rule bexI [of _ pb], auto)
  with a(3) b(3) show ?thesis by blast
qed

text \<open>
  C13. Both ends of an edge are given files that fit together: they hold the same preshared
  key, each names the other's public key and tunnel address, and at least one of them has an
  endpoint to dial.
\<close>
theorem edge_configs_agree:
  assumes "topology_validate cr cfg = Inr (t, ws)" and "ipnet_text cr" and "ipnet_parses_wf cr"
    and "keys_text keys" and "(a, b) \<in> set (edges t)"
    and "render_node_config cr t keys a = Inr out_a" and "render_node_config cr t keys b = Inr out_b"
  shows "\<exists>ca cb. parse_wg_quick cr out_a = Inr ca \<and> parse_wg_quick cr out_b = Inr cb \<and> linked keys a b ca cb"
  using assms by (rule edge_configs_linked)

end
