(* ===== verification/Render_Total.thy ===== *)
theory Render_Total
  imports Render_Valid
begin

text \<open>
  Rendering never fails for a valid topology and valid, distinct keys, unless the file is larger
  than the limit: the strict parser the renderer checks itself with accepts what it wrote.
\<close>

section \<open>Keys fit to be rendered\<close>

definition node_key_valid :: "crates \<Rightarrow> string \<times> string \<Rightarrow> bool" where
  "node_key_valid cr = (\<lambda>(priv, pub).
     is_ok (validate_key_bytes cr priv) \<and> public_key_from_private_base64 cr priv = Inr pub \<and>
     is_ok (validate_public_key cr pub))"

definition keys_valid :: "crates \<Rightarrow> validated_topology \<Rightarrow> resolved_keys \<Rightarrow> bool" where
  "keys_valid cr t keys \<longleftrightarrow>
     keys_text keys \<and>
     (\<forall>n\<in>set (vt_nodes t). \<exists>k. bt_get (node_keys keys) (vn_hostname n) = Some k \<and> node_key_valid cr k) \<and>
     (\<forall>g h k l. bt_get (node_keys keys) g = Some k \<longrightarrow> bt_get (node_keys keys) h = Some l \<longrightarrow>
        snd k = snd l \<longrightarrow> g = h) \<and>
     (\<forall>e\<in>set (edges t). \<exists>psk. bt_get (edge_psks keys) e = Some psk \<and> is_ok (validate_preshared_key cr psk))"

section \<open>The fields parse\<close>

lemma network_32:
  assumes "ipnet_ranges cr"
  shows "net_network cr (Ipv4Net a 32) = a" and "net_broadcast cr (Ipv4Net a 32) = a"
proof -
  have "unat (net_network cr (Ipv4Net a 32)) = unat a \<and>
      unat (net_broadcast cr (Ipv4Net a 32)) = unat (net_network cr (Ipv4Net a 32))"
    using assms by (simp add: ipnet_ranges_def net_wf_def net_hosts_def)
  then show "net_network cr (Ipv4Net a 32) = a" "net_broadcast cr (Ipv4Net a 32) = a"
    by (simp_all add: word_unat_eq_iff)
qed

lemma covers_32: "ipnet_ranges cr \<Longrightarrow> covers cr (Ipv4Net a 32) b \<longleftrightarrow> a = b"
  by (auto simp: covers_def network_32)

lemma interface_field_steps:
  "validate_key_bytes cr v = Inr bs \<Longrightarrow> ia_seen acc = [] \<Longrightarrow>
    interface_field cr (''PrivateKey'', v) acc = Inr (acc\<lparr>ia_seen := [''PrivateKey''], ia_private_key := Some v\<rparr>)"
  "net_parse cr v = Some (Ipv4Net a 32) \<Longrightarrow> ''Address'' \<notin> set (ia_seen acc) \<Longrightarrow>
    interface_field cr (''Address'', v) acc = Inr (acc\<lparr>ia_seen := ''Address'' # ia_seen acc, ia_address := Some a\<rparr>)"
  "p \<noteq> 0 \<Longrightarrow> ''ListenPort'' \<notin> set (ia_seen acc) \<Longrightarrow>
    interface_field cr (''ListenPort'', show_u16 p) acc
      = Inr (acc\<lparr>ia_seen := ''ListenPort'' # ia_seen acc, ia_listen_port := Some p\<rparr>)"
  "parse_ip_addr v = Some d \<Longrightarrow> ''DNS'' \<notin> set (ia_seen acc) \<Longrightarrow>
    interface_field cr (''DNS'', v) acc = Inr (acc\<lparr>ia_seen := ''DNS'' # ia_seen acc, ia_dns := Some d\<rparr>)"
  "MIN_MTU \<le> m \<Longrightarrow> ''MTU'' \<notin> set (ia_seen acc) \<Longrightarrow>
    interface_field cr (''MTU'', show_u16 m) acc = Inr (acc\<lparr>ia_seen := ''MTU'' # ia_seen acc, ia_mtu := Some m\<rparr>)"
  by (simp_all add: interface_field_def check_no_forbidden_or_unknown_def INTERFACE_ALLOWED_def
      INTERFACE_FORBIDDEN_def Let_def not_less)

lemma interface_parses:
  assumes "ipnet_text cr" and "node_text n" and "is_ok (validate_key_bytes cr priv)"
    and "vn_listen_port n \<noteq> 0" and "\<forall>m. vn_mtu n = Some m \<longrightarrow> MIN_MTU \<le> m"
  shows "parse_interface_fields cr (interface_kvs n priv) =
    Inr \<lparr>pi_private_key = priv, pi_address = vn_tunnel_address n, pi_listen_port = vn_listen_port n,
      pi_dns = vn_dns n, pi_mtu = vn_mtu n\<rparr>"
proof -
  have s: "show_nat 32 = ''32''" by code_simp
  have a: "net_parse cr (show_ipv4 (vn_tunnel_address n) @ ''/32'') = Some (Ipv4Net (vn_tunnel_address n) 32)"
    using assms(1) s by (auto simp: ipnet_text_def net_wf_def dest: spec [of _ "Ipv4Net (vn_tunnel_address n) 32"])
  have d: "parse_ip_addr (show_ip_addr d) = Some d" if "vn_dns n = Some d" for d
    using that assms(2) by (simp add: node_text_def parse_ip_show)
  from assms(3) obtain bs where p: "validate_key_bytes cr priv = Inr bs" by (auto simp: is_ok_iff)
  show ?thesis
    using a d p assms(4,5)
    by (cases "vn_dns n"; cases "vn_mtu n")
      (simp_all add: parse_interface_fields_def interface_kvs_def opt_field_def interface_field_steps
        iface_acc_init_def)
qed

lemma allowed_parses:
  assumes "ipnet_text cr" and "node_text peer" and "list_all (route_ok cr) (allowed_nets cr peer)"
  shows "map_res (parse_allowed_ip cr) (map trim (split CHR '','' (join '', '' (sorted_allowed_ips cr peer))))
    = Inr (allowed_nets cr peer)"
proof -
  let ?ns = "allowed_nets cr peer"
  have wf: "\<forall>n\<in>set ?ns. net_wf n" using allowed_nets_wf [OF assms(2), of cr] by (simp add: list_all_iff)
  have "map trim (split CHR '','' (join '', '' (sorted_allowed_ips cr peer))) = map (net_show cr) ?ns"
    unfolding sorted_allowed_ips_nets [OF assms(1)]
    by (rule list_codec.split_join [OF net_codec [OF assms(1)]]) (use wf in \<open>simp_all add: allowed_nets_def\<close>)
  moreover have "list_all2 (\<lambda>s r. parse_allowed_ip cr s = Inr r) (map (net_show cr) ?ns) ?ns"
    using wf assms(1,3) by (auto simp: list_all2_map1 list_all2_same parse_allowed_ip_Inr ipnet_text_def list_all_iff)
  ultimately show ?thesis by (simp add: map_res_Inr_iff)
qed

lemma peer_parses:
  assumes "ipnet_text cr" and "node_text peer" and "list_all (route_ok cr) (allowed_nets cr peer)"
    and "is_ok (validate_public_key cr pub)" and "is_ok (validate_preshared_key cr psk)"
  shows "parse_peer_fields cr (peer_kvs cr peer pub psk ka) =
    Inr \<lparr>pp_public_key = pub, pp_preshared_key = psk, pp_allowed_ips = allowed_nets cr peer,
      pp_endpoint = vn_endpoint peer, pp_persistent_keepalive = ka\<rparr>"
proof -
  have ne: "join '', '' (sorted_allowed_ips cr peer) \<noteq> []"
    using allowed_value_ok [OF assms(1,2)] by (simp add: value_ok_def)
  obtain bs where p: "validate_public_key cr pub = Inr bs" using assms(4) by (auto simp: is_ok_iff)
  obtain cs where q: "validate_preshared_key cr psk = Inr cs" using assms(5) by (auto simp: is_ok_iff)
  have ep: "validate_endpoint_syntax e = Inr ()" if "vn_endpoint peer = Some e" for e
    using that assms(2) by (simp add: node_text_def)
  have "allowed_nets cr peer \<noteq> []" by (simp add: allowed_nets_def)
  then show ?thesis
    using allowed_parses [OF assms(1-3)] ne p q ep
    by (cases "vn_endpoint peer"; cases ka)
      (simp_all add: parse_peer_fields_def peer_kvs_def opt_field_def peer_field_def
        peer_acc_init_def check_no_forbidden_or_unknown_def PEER_ALLOWED_def Let_def)
qed

section \<open>The whole file parses\<close>

definition peer_entry ::
  "crates \<Rightarrow> validated_topology \<Rightarrow> resolved_keys \<Rightarrow> string \<Rightarrow> 16 word option \<Rightarrow> string \<Rightarrow> string \<times> (string \<times> string) list" where
  "peer_entry cr t keys h ka p =
     (p, peer_kvs cr (the (node t p)) (snd (the (bt_get (node_keys keys) p)))
       (the (bt_get (edge_psks keys) (canonical_pair h p))) ka)"

lemma render_peers_text:
  assumes "\<And>p. p \<in> set ps \<Longrightarrow> \<exists>peer pub psk. peer_data t keys h p peer pub psk"
  shows "fold_res (render_peer cr t keys h ka) ps out
    = Inr (out @ text_of (concat (map (\<lambda>p. case peer_entry cr t keys h ka p of (q, kvs) \<Rightarrow> peer_lines q kvs) ps)))"
  using assms
proof (induction ps arbitrary: out)
  case (Cons p ps)
  from Cons.prems [of p] obtain peer pub psk where "peer_data t keys h p peer pub psk" by auto
  then have "render_peer cr t keys h ka p out
      = Inr (out @ text_of (case peer_entry cr t keys h ka p of (q, kvs) \<Rightarrow> peer_lines q kvs))"
    by (auto simp: peer_data_def render_peer_def Let_def peer_entry_def peer_lines_def peer_kvs_def
        opt_field_def split: option.splits)
  with Cons show ?case by simp
qed simp

lemma parse_peer_sections_ok:
  "list_all2 (\<lambda>(q, kvs) p. parse_peer_fields cr kvs = Inr p) pkvs qs \<Longrightarrow>
    fold_res (parse_section cr) (map raw_peer pkvs) (i, ps) = Inr (i, ps @ qs)"
  by (induction pkvs qs arbitrary: ps rule: list_all2_induct) (auto simp: parse_raw_peer)

lemma check_peer_keys_ok:
  "own \<notin> pp_public_key ` set ps \<Longrightarrow> distinct (map pp_public_key ps) \<Longrightarrow>
    set seen \<inter> pp_public_key ` set ps = {} \<Longrightarrow> is_ok (fold_res (check_peer_key own) ps seen)"
  by (induction ps arbitrary: seen) (auto simp: check_peer_key_def)

lemma check_all_peer_routes_ok:
  assumes "\<forall>p\<in>set ps. \<forall>r\<in>set (pp_allowed_ips p). \<not> covers cr r a"
    and "sorted_wrt (\<lambda>p q. \<forall>x\<in>set (pp_allowed_ips p). \<forall>y\<in>set (pp_allowed_ips q). disjoint_nets cr x y) ps"
  shows "for_each (check_peer_routes cr a ps) (List.enumerate 0 ps) = Inr ()"
  unfolding for_each_Inr_iff
proof
  fix e assume m: "e \<in> set (List.enumerate 0 ps)"
  obtain i p where "e = (i, p)" by (rule prod.exhaust)
  with m have e: "e = (i, ps ! i)" "i < length ps" by (auto simp: in_set_enumerate_eq)
  have "\<exists>j. i < j \<and> j < length ps \<and> q = ps ! j" if q: "q \<in> set (drop (Suc i) ps)" for q
  proof -
    obtain k where "k < length (drop (Suc i) ps)" "q = drop (Suc i) ps ! k" using q by (auto simp: in_set_conv_nth)
    then show ?thesis by (intro exI [of _ "Suc i + k"]) auto
  qed
  with e assms show "check_peer_routes cr a ps e = Inr ()"
    unfolding e(1) check_peer_routes_Inr by (fastforce simp: sorted_wrt_iff_nth_less)
qed

lemma text_of_no_nul: "\<forall>l\<in>set ls. CHR 0x00 \<notin> set l \<Longrightarrow> CHR 0x00 \<notin> set (text_of ls)"
  by (induction ls) (auto simp: ln_def)

lemma rendered_file_parses:
  assumes ok: "comment_ok h" "kvs_ok ikvs" "list_all (\<lambda>(p, kvs). comment_ok p \<and> kvs_ok kvs) pkvs"
    and i: "parse_interface_fields cr ikvs = Inr i"
    and ps: "list_all2 (\<lambda>(q, kvs) p. parse_peer_fields cr kvs = Inr p) pkvs ps"
    and own: "public_key_from_private_base64 cr (pi_private_key i) = Inr own" "own \<notin> pp_public_key ` set ps"
    and dist: "distinct (map pp_public_key ps)"
    and away: "\<forall>p\<in>set ps. \<forall>r\<in>set (pp_allowed_ips p). \<not> covers cr r (pi_address i)"
    and apart: "sorted_wrt (\<lambda>p q. \<forall>x\<in>set (pp_allowed_ips p). \<forall>y\<in>set (pp_allowed_ips q). disjoint_nets cr x y) ps"
    and len: "length (text_of (config_lines h ikvs pkvs)) \<le> MAX_RENDERED_CONFIG_BYTES"
  shows "parse_wg_quick cr (text_of (config_lines h ikvs pkvs)) = Inr \<lparr>pc_interface = i, pc_peers = ps\<rparr>"
proof -
  have "CHR 0x00 \<notin> set (text_of (config_lines h ikvs pkvs))"
    using config_lines_no_newline [OF ok] by (intro text_of_no_nul) blast
  moreover have "fold_res (parse_section cr) (\<lparr>rs_name = ''Interface'', rs_fields = ikvs\<rparr> # map raw_peer pkvs) (None, [])
      = Inr (Some i, ps)"
    using parse_peer_sections_ok [OF ps, of "Some i" "[]"] i by (simp add: parse_section_def)
  moreover obtain seen where "fold_res (check_peer_key own) ps [] = Inr seen"
    using check_peer_keys_ok [OF own(2) dist, of "[]"] by (auto simp: is_ok_iff)
  ultimately show ?thesis
    using parse_sections_text [OF ok] own(1) check_all_peer_routes_ok [OF away apart] len
    by (simp add: parse_wg_quick_def)
qed

section \<open>The peers of a node\<close>

lemma map_filter_Cons: "List.map_filter f (x # xs) = (case f x of None \<Rightarrow> List.map_filter f xs | Some y \<Rightarrow> y # List.map_filter f xs)"
  by (simp add: List.map_filter_def split: option.split)

lemma distinct_peers_of:
  assumes "distinct es" and "\<forall>(a, b)\<in>set es. a < b"
  shows "distinct (peers_of h es)"
proof -
  let ?f = "\<lambda>(a, b). if a = h then Some b else if b = h then Some a else None"
  have "distinct (List.map_filter ?f es)"
    using assms
  proof (induction es)
    case (Cons e es)
    obtain a b where e: "e = (a, b)" by (rule prod.exhaust)
    have "y \<notin> set (List.map_filter ?f es)" if "?f e = Some y" for y
    proof
      assume "y \<in> set (List.map_filter ?f es)"
      then obtain c d where "(c, d) \<in> set es" "?f (c, d) = Some y"
        by (auto simp: List.map_filter_def split: if_splits)
      with that Cons.prems e show False by (auto split: if_splits)
    qed
    with Cons show ?case by (auto simp: map_filter_Cons split: option.split)
  qed (simp add: List.map_filter_def)
  then show ?thesis by (simp add: peers_of_def)
qed

lemma validated_peers:
  assumes "topology_ok cr t"
  shows "distinct (peers_of h (edges t))"
    and "p \<in> set (peers_of h (edges t)) \<Longrightarrow> p \<noteq> h \<and> canonical_pair h p \<in> set (edges t) \<and>
      (\<exists>m\<in>set (vt_nodes t). vn_hostname m = p \<and> node t p = Some m)"
proof -
  note d = topology_ok_distinct [OF assms]
  have e: "bs_wf (edges t)" "\<forall>(a, b)\<in>set (edges t). a < b \<and> a \<in> vn_hostname ` set (vt_nodes t) \<and>
      b \<in> vn_hostname ` set (vt_nodes t)"
    using d by (auto simp: edges_def bs_wf_compute_edges compute_edges_iff)
  then show "distinct (peers_of h (edges t))"
    by (intro distinct_peers_of) (auto simp: bs_wf_sorted_distinct)
  assume "p \<in> set (peers_of h (edges t))"
  then have p: "(h, p) \<in> set (edges t) \<or> (p, h) \<in> set (edges t)" by (simp add: peers_of_edges)
  with e(2) have "p \<noteq> h" "canonical_pair h p \<in> set (edges t)" "p \<in> vn_hostname ` set (vt_nodes t)"
    by (auto simp: canonical_pair_def)
  with find_hostname [OF d] show "p \<noteq> h \<and> canonical_pair h p \<in> set (edges t) \<and>
      (\<exists>m\<in>set (vt_nodes t). vn_hostname m = p \<and> node t p = Some m)"
    by (auto simp: node_def)
qed

lemma sorted_wrt_distinct:
  "distinct xs \<Longrightarrow> (\<And>x y. x \<in> set xs \<Longrightarrow> y \<in> set xs \<Longrightarrow> x \<noteq> y \<Longrightarrow> P x y) \<Longrightarrow> sorted_wrt P xs"
  by (induction xs) auto

lemma disjoint_32:
  assumes "ipnet_ranges cr"
  shows "disjoint_nets cr (Ipv4Net a 32) r \<longleftrightarrow> \<not> covers cr r a"
    and "disjoint_nets cr r (Ipv4Net a 32) \<longleftrightarrow> \<not> covers cr r a"
  using network_32 [OF assms]
  by (auto simp: disjoint_nets_def ranges_overlap_def net_range_def covers_def)

lemma tunnel_addresses_differ:
  assumes "topology_ok cr t" and "n \<in> set (vt_nodes t)" and "m \<in> set (vt_nodes t)" and "n \<noteq> m"
  shows "vn_tunnel_address n \<noteq> vn_tunnel_address m"
  using assms by (auto simp: topology_ok_def distinct_map dest: inj_onD)

lemma allowed_nets_apart:
  assumes "topology_ok cr t" and cr: "ipnet_ranges cr"
    and n: "n \<in> set (vt_nodes t)" and m: "m \<in> set (vt_nodes t)" and "n \<noteq> m"
  shows "\<forall>r\<in>set (allowed_nets cr m). \<not> covers cr r (vn_tunnel_address n)"
    and "\<forall>x\<in>set (allowed_nets cr n). \<forall>y\<in>set (allowed_nets cr m). disjoint_nets cr x y"
  using assms(1) n m assms(5) tunnel_addresses_differ [OF assms(1) n m assms(5)]
  by (auto simp: topology_ok_def routes_ok_def allowed_nets_def covers_32 [OF cr] disjoint_32 [OF cr])

section \<open>The renderer succeeds\<close>

lemma peer_known:
  assumes "topology_ok cr t" and "keys_valid cr t keys" and "p \<in> set (peers_of h (edges t))"
  obtains m priv pub psk where "m \<in> set (vt_nodes t)" "vn_hostname m = p" "p \<noteq> h" "peer_data t keys h p m pub psk"
    "bt_get (node_keys keys) p = Some (priv, pub)" "is_ok (validate_public_key cr pub)"
    "is_ok (validate_preshared_key cr psk)"
proof -
  obtain m where m: "m \<in> set (vt_nodes t)" "vn_hostname m = p" "node t p = Some m" "p \<noteq> h"
      "canonical_pair h p \<in> set (edges t)"
    using validated_peers(2) [OF assms(1,3)] by blast
  then obtain k psk where "bt_get (node_keys keys) p = Some k" "node_key_valid cr k"
      "bt_get (edge_psks keys) (canonical_pair h p) = Some psk" "is_ok (validate_preshared_key cr psk)"
    using assms(2) unfolding keys_valid_def by blast
  with m that [of m "snd k" psk "fst k"] show thesis
    by (auto simp: peer_data_def node_key_valid_def split: prod.splits)
qed

lemma peer_data_rendered:
  assumes "peer_data t keys h p m pub psk"
  shows "peer_entry cr t keys h ka p = (p, peer_kvs cr m pub psk ka)"
  using assms by (auto simp: peer_data_def peer_entry_def)

lemma allowed_nets_ok:
  assumes "topology_validate cr cfg = Inr (t, ws)" and "ipnet_ranges cr" and "m \<in> set (vt_nodes t)"
  shows "list_all (route_ok cr) (allowed_nets cr m)"
proof -
  from assms(1,3) obtain c where "node_matches cr c m" by (rule validated_node_matches)
  then have "list_all2 (\<lambda>s r. net_parse cr s = Some r \<and> net_ok cr r \<and> net_prefix_len r \<noteq> 0)
      (wg_extra_allowed_ips (nc_wg_config c)) (vn_extra_allowed_ips m)"
    by (simp add: node_matches_def)
  then have "\<forall>r\<in>set (vn_extra_allowed_ips m). route_ok cr r"
    by (auto simp: list_all2_conv_all_nth in_set_conv_nth route_ok_def)
  then show ?thesis
    by (auto simp: allowed_nets_def list_all_iff route_ok_def net_ok_def network_32 [OF assms(2)])
qed

lemma rendered_peers_parse:
  assumes v: "topology_validate cr cfg = Inr (t, ws)" and cr: "ipnet_text cr" "ipnet_parses_wf cr" "ipnet_ranges cr"
    and k: "keys_valid cr t keys" and p: "p \<in> set (peers_of h (edges t))"
  shows "case peer_entry cr t keys h (resolve_local_keepalive n) p of (q, kvs) \<Rightarrow>
      comment_ok q \<and> kvs_ok kvs \<and> parse_peer_fields cr kvs = Inr
        \<lparr>pp_public_key = snd (the (bt_get (node_keys keys) p)),
         pp_preshared_key = the (bt_get (edge_psks keys) (canonical_pair h p)),
         pp_allowed_ips = allowed_nets cr (the (node t p)), pp_endpoint = vn_endpoint (the (node t p)),
         pp_persistent_keepalive = resolve_local_keepalive n\<rparr>"
proof -
  obtain m priv pub psk where m: "m \<in> set (vt_nodes t)" "peer_data t keys h p m pub psk"
      "bt_get (node_keys keys) p = Some (priv, pub)" "is_ok (validate_public_key cr pub)"
      "is_ok (validate_preshared_key cr psk)"
    using peer_known [OF topology_validate_ok(1) [OF v] k p] by metis
  then have d: "node t p = Some m" "bt_get (edge_psks keys) (canonical_pair h p) = Some psk"
    by (auto simp: peer_data_def)
  note nt = validated_nodes_text [OF v cr(2) d(1)]
  have "key_text pub" "key_text psk"
    using k m(3) d(2) unfolding keys_valid_def keys_text_def by blast+
  then show ?thesis
    using peer_data_rendered [OF m(2)] nt(1,2) peer_kvs_ok [OF cr(1) nt(1)] m(3) d
      peer_parses [OF cr(1) nt(1) allowed_nets_ok [OF v cr(3) m(1)] m(4,5)] by simp
qed

definition rendered_lines ::
  "crates \<Rightarrow> validated_topology \<Rightarrow> resolved_keys \<Rightarrow> string \<Rightarrow> validated_node \<Rightarrow> string \<Rightarrow> string list" where
  "rendered_lines cr t keys h n priv =
     config_lines h (interface_kvs n priv)
       (map (peer_entry cr t keys h (resolve_local_keepalive n)) (peers_of h (edges t)))"

lemma rendered_lines_parse:
  assumes v: "topology_validate cr cfg = Inr (t, ws)" and cr: "ipnet_text cr" "ipnet_parses_wf cr" "ipnet_ranges cr"
    and k: "keys_valid cr t keys" and n: "node t h = Some n" and priv: "bt_get (node_keys keys) h = Some (priv, pub)"
    and len: "length (text_of (rendered_lines cr t keys h n priv)) \<le> MAX_RENDERED_CONFIG_BYTES"
  shows "is_ok (parse_wg_quick cr (text_of (rendered_lines cr t keys h n priv)))"
proof -
  let ?e = "peer_entry cr t keys h (resolve_local_keepalive n)" and ?ps = "peers_of h (edges t)"
  let ?c = "rendered_for cr t keys h n priv"
  note tok = topology_validate_ok(1) [OF v] and nt = validated_nodes_text [OF v cr(2) n]
  note entries = rendered_peers_parse [OF v cr k, of _ h n]
  have nm: "n \<in> set (vt_nodes t)" using n by (auto simp: node_def find_Some_iff)
  then have nk: "node_key_valid cr (priv, pub)" using k nt(3) priv unfolding keys_valid_def by fastforce
  have peers: "\<exists>m\<in>set (vt_nodes t). n \<noteq> m \<and> vn_hostname m = p \<and> node t p = Some m" if "p \<in> set ?ps" for p
    using validated_peers(2) [OF tok that] nt(3) by auto
  from v nm obtain c where "node_matches cr c n" by (rule validated_node_matches)
  then have c: "vn_listen_port n \<noteq> 0" "\<forall>m. vn_mtu n = Some m \<longrightarrow> MIN_MTU \<le> m"
    unfolding node_matches_def by blast+
  have pubs: "snd (the (bt_get (node_keys keys) p)) = snd (the (bt_get (node_keys keys) q)) \<Longrightarrow> p = q"
    if "p \<in> insert h (set ?ps)" "q \<in> insert h (set ?ps)" for p q
  proof -
    have "bt_get (node_keys keys) p \<noteq> None" if "p \<in> insert h (set ?ps)" for p
      using that priv by (auto elim: peer_known [OF tok k])
    then show "snd (the (bt_get (node_keys keys) p)) = snd (the (bt_get (node_keys keys) q)) \<Longrightarrow> p = q"
      using that k unfolding keys_valid_def by (metis option.collapse)
  qed
  have pk: "map pp_public_key (pc_peers ?c) = map (\<lambda>p. snd (the (bt_get (node_keys keys) p))) ?ps"
    and pa: "map pp_allowed_ips (pc_peers ?c) = map (\<lambda>p. allowed_nets cr (the (node t p))) ?ps"
    by (simp_all add: rendered_for_def Let_def)
  have "parse_wg_quick cr (text_of (config_lines h (interface_kvs n priv) (map ?e ?ps)))
      = Inr \<lparr>pc_interface = pc_interface ?c, pc_peers = pc_peers ?c\<rparr>"
  proof (rule rendered_file_parses)
    show "comment_ok h" by (rule nt(2))
    have "key_text priv" using k priv by (auto simp: keys_valid_def keys_text_def)
    with nt(1) show "kvs_ok (interface_kvs n priv)" by (rule interface_kvs_ok)
    show "list_all (\<lambda>(p, kvs). comment_ok p \<and> kvs_ok kvs) (map ?e ?ps)"
      using entries by (fastforce simp: list_all_iff)
    show "parse_interface_fields cr (interface_kvs n priv) = Inr (pc_interface ?c)"
      using interface_parses [OF cr(1) nt(1) _ c] nk by (simp add: rendered_for_def node_key_valid_def)
    show "list_all2 (\<lambda>(q, kvs) p. parse_peer_fields cr kvs = Inr p) (map ?e ?ps) (pc_peers ?c)"
      using entries by (fastforce simp: rendered_for_def Let_def list_all2_map1 list_all2_map2 list_all2_same)
    show "public_key_from_private_base64 cr (pi_private_key (pc_interface ?c)) = Inr pub"
      using nk by (simp add: rendered_for_def node_key_valid_def)
    have "h \<notin> set ?ps" using validated_peers(2) [OF tok] by blast
    then show "pub \<notin> pp_public_key ` set (pc_peers ?c)"
      using pubs [of h] priv unfolding set_map [symmetric] pk by auto
    show "distinct (map pp_public_key (pc_peers ?c))"
      unfolding pk using validated_peers(1) [OF tok] pubs by (simp add: distinct_map inj_on_def)
    have "\<forall>rs\<in>set (map pp_allowed_ips (pc_peers ?c)). \<forall>r\<in>set rs. \<not> covers cr r (vn_tunnel_address n)"
      unfolding pa using peers allowed_nets_apart(1) [OF tok cr(3) nm] by fastforce
    then show "\<forall>p\<in>set (pc_peers ?c). \<forall>r\<in>set (pp_allowed_ips p). \<not> covers cr r (pi_address (pc_interface ?c))"
      by (simp add: rendered_interface_simps)
    have "sorted_wrt (\<lambda>x y. \<forall>a\<in>set x. \<forall>b\<in>set y. disjoint_nets cr a b) (map pp_allowed_ips (pc_peers ?c))"
      unfolding pa sorted_wrt_map
    proof (rule sorted_wrt_distinct [OF validated_peers(1) [OF tok]])
      fix p q assume "p \<in> set ?ps" "q \<in> set ?ps" "p \<noteq> q"
      with peers [of p] peers [of q] obtain m m' where "m \<in> set (vt_nodes t)" "m' \<in> set (vt_nodes t)" "m \<noteq> m'"
        "node t p = Some m" "node t q = Some m'" by auto
      with allowed_nets_apart(2) [OF tok cr(3)]
      show "\<forall>a\<in>set (allowed_nets cr (the (node t p))). \<forall>b\<in>set (allowed_nets cr (the (node t q))). disjoint_nets cr a b"
        by simp
    qed
    then show "sorted_wrt (\<lambda>p q. \<forall>x\<in>set (pp_allowed_ips p). \<forall>y\<in>set (pp_allowed_ips q). disjoint_nets cr x y) (pc_peers ?c)"
      by (simp add: sorted_wrt_map)
  qed (use len in \<open>simp add: rendered_lines_def\<close>)
  then show ?thesis by (simp add: rendered_lines_def)
qed

lemma render_node_total:
  assumes v: "topology_validate cr cfg = Inr (t, ws)" and cr: "ipnet_text cr" "ipnet_parses_wf cr" "ipnet_ranges cr"
    and k: "keys_valid cr t keys" and n: "node t h = Some n" and key: "bt_get (node_keys keys) h = Some (priv, pub)"
  shows "render_node_config cr t keys h =
    (let out = text_of (rendered_lines cr t keys h n priv) in
     if length out > MAX_RENDERED_CONFIG_BYTES then Inl (RenderTooLarge h (length out)) else Inr out)"
proof -
  let ?head = "text_of (config_lines h (interface_kvs n priv) [])" and ?ps = "peers_of h (edges t)"
  let ?out = "text_of (rendered_lines cr t keys h n priv)"
  have "\<exists>peer pub psk. peer_data t keys h p peer pub psk" if "p \<in> set ?ps" for p
    using peer_known [OF topology_validate_ok(1) [OF v] k that] by metis
  then have "fold_res (render_peer cr t keys h (resolve_local_keepalive n)) ?ps ?head = Inr ?out"
    by (simp add: render_peers_text rendered_lines_def config_lines_def o_def)
  then have "render_node_config cr t keys h = guard_err (length ?out > MAX_RENDERED_CONFIG_BYTES)
      (RenderTooLarge h (length ?out))
      (and_then (map_err (SelfValidationFailed h) (parse_wg_quick cr ?out)) (\<lambda>_. Inr ?out))"
    using n key
    by (simp add: render_node_config_def Let_def config_lines_def interface_kvs_def opt_field_def
        split: option.splits)
  moreover have "is_ok (parse_wg_quick cr ?out)" if "\<not> length ?out > MAX_RENDERED_CONFIG_BYTES"
    using rendered_lines_parse [OF v cr k n key] that by (simp add: not_less)
  ultimately show ?thesis by (auto simp: is_ok_iff Let_def)
qed

section \<open>Property\<close>

text \<open>
  C12. Rendering a node of a valid topology with valid, distinct keys cannot fail for any reason
  but size: the strict parser never rejects what the renderer wrote, and the text is the one
  described by \<open>rendered_lines\<close>: the header, the interface's fields, and a peer section for
  every edge of the node.
\<close>
theorem render_total:
  assumes "topology_validate cr cfg = Inr (t, ws)" and "ipnet_text cr" and "ipnet_parses_wf cr"
    and "ipnet_ranges cr" and "keys_valid cr t keys" and "node t h = Some n"
  shows "\<exists>priv pub out. bt_get (node_keys keys) h = Some (priv, pub) \<and>
    out = text_of (rendered_lines cr t keys h n priv) \<and>
    render_node_config cr t keys h =
      (if length out > MAX_RENDERED_CONFIG_BYTES then Inl (RenderTooLarge h (length out)) else Inr out)"
proof -
  have "n \<in> set (vt_nodes t)" "vn_hostname n = h" using assms(6) by (auto simp: node_def find_Some_iff)
  then obtain priv pub where key: "bt_get (node_keys keys) h = Some (priv, pub)"
    using assms(5) unfolding keys_valid_def by fastforce
  with render_node_total [OF assms key] show ?thesis by (simp add: Let_def)
qed

end
