(* ===== verification/Key_Types.thy ===== *)
theory Key_Types
  imports Utf8 Key_Resolution Render_Total
begin

text \<open>
  The keys \<open>resolve_keys\<close> hands to the renderer are of the right type: valid base64 texts, each
  public key that of its private key, one for every node and every edge.  Reused keys come from
  published files, which the strict parser accepted; new ones from the random generator.
\<close>

section \<open>Values of a parsed file have no white space at the end\<close>

definition trimmed_fields :: "(string \<times> string) list \<Rightarrow> bool" where
  "trimmed_fields kvs \<longleftrightarrow> (\<forall>(k, v)\<in>set kvs. trim_end v = v)"

definition trimmed_sections :: "raw_section list \<Rightarrow> bool" where
  "trimmed_sections secs \<longleftrightarrow> (\<forall>s\<in>set secs. trimmed_fields (rs_fields s))"

lemma push_field_trimmed:
  assumes "push_field (k, v) secs = Some secs'" and "trim_end v = v" and "trimmed_sections secs"
  shows "trimmed_sections secs'"
proof -
  have ne: "secs \<noteq> []" and s': "secs' = butlast secs @ [last secs\<lparr>rs_fields := rs_fields (last secs) @ [(k, v)]\<rparr>]"
    using assms(1) by (auto simp: push_field_def Let_def split: if_splits)
  have "last secs \<in> set secs" using ne by simp
  with assms(2,3) show ?thesis
    by (auto simp: s' trimmed_sections_def trimmed_fields_def dest: in_set_butlastD)
qed

lemma trimmed_section_new: "trimmed_sections secs \<Longrightarrow> trimmed_sections (secs @ [\<lparr>rs_name = n, rs_fields = []\<rparr>])"
  by (simp add: trimmed_sections_def trimmed_fields_def ball_Un)

lemma parse_line_trimmed:
  "parse_line l secs = Inr secs' \<Longrightarrow> trimmed_sections secs \<Longrightarrow> trimmed_sections secs'"
  by (auto simp: parse_line_def parse_header_def parse_directive_def and_then_Inr_iff Let_def
      intro: push_field_trimmed trim_end_trim trimmed_section_new split: if_splits option.splits)

lemma parse_sections_trimmed: "parse_sections s = Inr secs \<Longrightarrow> trimmed_sections secs"
  unfolding parse_sections_def
  by (erule fold_res_invariant) (simp_all add: trimmed_sections_def [of "[]"] parse_line_trimmed)

definition psk_trimmed :: "parsed_peer \<Rightarrow> bool" where
  "psk_trimmed p \<longleftrightarrow> trim_end (pp_preshared_key p) = pp_preshared_key p"

lemma parse_peer_fields_trimmed:
  assumes "parse_peer_fields cr kvs = Inr p" and "trimmed_fields kvs"
  shows "psk_trimmed p"
proof -
  from assms(1) obtain acc where acc: "fold_res (peer_field cr) kvs peer_acc_init = Inr acc"
    and p: "pa_preshared_key acc = Some (pp_preshared_key p)" by (auto simp only: parse_peer_fields_Inr)
  have "\<forall>k. pa_preshared_key acc = Some k \<longrightarrow> trim_end k = k"
    by (rule fold_res_invariant [OF acc, where P = "\<lambda>a. \<forall>k. pa_preshared_key a = Some k \<longrightarrow> trim_end k = k"])
      (use assms(2) in \<open>auto simp: peer_acc_init_def peer_field_def and_then_Inr_iff Let_def trimmed_fields_def
        split: if_splits\<close>)
  with p show ?thesis by (simp add: psk_trimmed_def)
qed

lemma parsed_psk_trimmed:
  assumes "parse_wg_quick cr s = Inr c" and "p \<in> set (pc_peers c)"
  shows "psk_trimmed p"
proof -
  from assms(1) obtain secs i where s: "parse_sections s = Inr secs"
    and f: "fold_res (parse_section cr) secs (None, []) = Inr (Some i, pc_peers c)"
    by (auto simp: parse_wg_quick_def and_then_Inr_iff)
  have "list_all psk_trimmed (snd (Some i, pc_peers c))"
  proof (rule fold_res_invariant [OF f, where P = "\<lambda>s. list_all psk_trimmed (snd s)"])
    fix raw acc acc'
    assume "raw \<in> set secs" "list_all psk_trimmed (snd acc)" "parse_section cr raw acc = Inr acc'"
    then show "list_all psk_trimmed (snd acc')"
      using parse_sections_trimmed [OF s] parse_peer_fields_trimmed
      by (cases acc) (auto simp: parse_section_def and_then_Inr_iff trimmed_sections_def split: if_splits)
  qed simp
  with assms(2) show ?thesis by (simp add: list_all_iff)
qed

section \<open>The type of the resolved keys\<close>

definition keys_typed :: "crates \<Rightarrow> validated_topology \<Rightarrow> resolved_keys \<Rightarrow> bool" where
  "keys_typed cr t keys \<longleftrightarrow>
     keys_text keys \<and>
     (\<forall>n\<in>set (vt_nodes t). \<exists>k. bt_get (node_keys keys) (vn_hostname n) = Some k \<and> node_key_valid cr k) \<and>
     (\<forall>e\<in>set (edges t). \<exists>psk. bt_get (edge_psks keys) e = Some psk \<and> is_ok (validate_preshared_key cr psk))"

definition keys_distinct :: "resolved_keys \<Rightarrow> bool" where
  "keys_distinct keys \<longleftrightarrow>
     (\<forall>g h k l. bt_get (node_keys keys) g = Some k \<longrightarrow> bt_get (node_keys keys) h = Some l \<longrightarrow>
        snd k = snd l \<longrightarrow> g = h)"

lemma keys_valid_iff: "keys_valid cr t keys \<longleftrightarrow> keys_typed cr t keys \<and> keys_distinct keys"
  unfolding keys_valid_def keys_typed_def keys_distinct_def by blast

text \<open>What the crates are trusted with: a random key or a public key is never the zero key.\<close>

definition random_keys :: "crates \<Rightarrow> bool" where
  "random_keys cr \<longleftrightarrow> (\<forall>k. key_ok (csprng cr k))"

definition x25519_keys :: "crates \<Rightarrow> bool" where
  "x25519_keys cr \<longleftrightarrow> (\<forall>bs. key_ok bs \<longrightarrow> key_ok (x25519_public cr bs))"

definition published_configs :: "crates \<Rightarrow> old_configs \<Rightarrow> bool" where
  "published_configs cr old \<longleftrightarrow> (\<forall>h c. bt_get old h = Some c \<longrightarrow> (\<exists>s. parse_wg_quick cr s = Inr c))"

lemma key_pair_typed:
  assumes "b64_roundtrip cr" and "x25519_keys cr" and "key_ok (secret kp)"
  shows "node_key_valid cr (key_pair_text cr kp)"
    and "key_text (fst (key_pair_text cr kp)) \<and> key_text (snd (key_pair_text cr kp))"
proof -
  have pub: "key_ok (public_key_bytes cr kp)" using assms(2,3) by (simp add: x25519_keys_def public_key_bytes_def)
  show "node_key_valid cr (key_pair_text cr kp)"
    using decode_encode_key [OF assms(1,3)] decode_encode_key [OF assms(1) pub] public_from_generated [OF assms(1,3)]
    by (simp add: node_key_valid_def key_pair_text_def validate_key_bytes_def validate_public_key_def
        private_key_base64_def public_key_base64_def is_ok_iff)
  show "key_text (fst (key_pair_text cr kp)) \<and> key_text (snd (key_pair_text cr kp))"
    using encode_key_plain [OF assms(1)] encode_key_nonempty [OF assms(1)] key_ok_nonempty assms(3) pub
    by (simp add: key_text_def key_pair_text_def private_key_base64_def public_key_base64_def)
qed

lemma psk_typed:
  assumes "b64_roundtrip cr" and "key_ok bs"
  shows "is_ok (validate_preshared_key cr (encode_key cr bs)) \<and> key_text (encode_key cr bs)"
  using decode_encode_key [OF assms] encode_key_plain [OF assms(1)] encode_key_nonempty [OF assms(1)]
    key_ok_nonempty [OF assms(2)]
  by (simp add: validate_preshared_key_def is_ok_iff key_text_def)

lemma recorded_psk_typed:
  assumes "b64_roundtrip cr" and "b64_canonical cr" and "published_configs cr old" and "recorded_psk old h q = Some psk"
  shows "is_ok (validate_preshared_key cr psk) \<and> key_text psk"
proof -
  from assms(4) obtain c p where c: "bt_get old h = Some c"
    and f: "List.find (\<lambda>p. pp_public_key p = q) (pc_peers c) = Some p" and psk: "psk = pp_preshared_key p"
    by (auto simp: recorded_psk_def bind_eq_Some_conv)
  have p: "p \<in> set (pc_peers c)" "psk = pp_preshared_key p" using f psk by (auto simp: find_Some_iff)
  from assms(3) c obtain s where s: "parse_wg_quick cr s = Inr c" by (auto simp: published_configs_def)
  have "is_ok (validate_preshared_key cr psk)"
    using parse_wg_quick_ok [OF s] p by (auto simp: config_ok_def list_all_iff peer_ok_def)
  then obtain bs where bs: "decode_key_bytes cr psk = Inr bs" by (auto simp: validate_preshared_key_def is_ok_iff)
  have "psk = encode_key cr bs"
    using encode_decode_key [OF assms(2) bs] parsed_psk_trimmed [OF s p(1)] p(2) by (simp add: psk_trimmed_def)
  moreover have "key_ok bs" using bs by (simp add: decode_key_Inr)
  ultimately show ?thesis using psk_typed [OF assms(1)] by simp
qed

section \<open>Resolving keys\<close>

lemma nodes_typed:
  assumes laws: "b64_roundtrip cr" "random_keys cr" "x25519_keys cr" and old: "published_configs cr old"
    and spec: "nodes_spec cr old sel n hs nk"
  shows "\<forall>h\<in>set hs. \<exists>kp. bt_get nk h = Some (key_pair_text cr kp) \<and> key_ok (secret kp)"
proof
  fix h
  assume h: "h \<in> set hs"
  let ?fs = "filter (fresh_host old sel) hs"
  show "\<exists>kp. bt_get nk h = Some (key_pair_text cr kp) \<and> key_ok (secret kp)"
  proof (cases "fresh_host old sel h")
    case True
    then have "h \<in> set ?fs" using h by simp
    then obtain i where "i < length ?fs" "?fs ! i = h" by (metis in_set_conv_nth)
    then show ?thesis using spec laws(2) by (auto simp: nodes_spec_def Let_def random_keys_def)
  next
    case False
    then show ?thesis
      using spec h by (force simp: nodes_spec_def Let_def from_private_key_base64_def and_then_Inr_iff decode_key_Inr)
  qed
qed

lemma edges_typed:
  assumes laws: "b64_roundtrip cr" "b64_canonical cr" "random_keys cr" and old: "published_configs cr old"
    and spec: "edges_spec cr old sel n nk es psks"
  shows "\<forall>e\<in>set es. \<exists>psk. bt_get psks e = Some psk \<and> is_ok (validate_preshared_key cr psk) \<and> key_text psk"
proof
  fix e
  assume e: "e \<in> set es"
  obtain a b where ab: "e = (a, b)" by fastforce
  let ?fe = "filter (fresh_edge old sel nk) es"
  show "\<exists>psk. bt_get psks e = Some psk \<and> is_ok (validate_preshared_key cr psk) \<and> key_text psk"
  proof (cases "fresh_edge old sel nk e")
    case True
    then have "e \<in> set ?fe" using e by simp
    then obtain i where "i < length ?fe" "?fe ! i = e" by (metis in_set_conv_nth)
    then show ?thesis
      using spec psk_typed [OF laws(1)] laws(3) by (auto simp: edges_spec_def Let_def random_keys_def)
  next
    case False
    then obtain psk where "bt_get psks e = Some psk" "recorded_psk old a (pub_of nk b) = Some psk"
      using spec e ab by (auto simp: edges_spec_def Let_def)
    then show ?thesis using recorded_psk_typed [OF laws(1,2) old] by blast
  qed
qed

lemma keys_spec_typed:
  assumes laws: "b64_roundtrip cr" "b64_canonical cr" "random_keys cr" "x25519_keys cr"
    and old: "published_configs cr old" and spec: "keys_spec cr topo old sel n n' kr"
  shows "keys_typed cr topo (kr_resolved kr)"
proof -
  let ?hs = "map vn_hostname (vt_nodes topo)" and ?nk = "node_keys (kr_resolved kr)"
  let ?psks = "edge_psks (kr_resolved kr)"
  from spec have ns: "nodes_spec cr old sel n ?hs ?nk"
    and es: "edges_spec cr old sel (n + length (filter (fresh_host old sel) ?hs)) ?nk (edges topo) ?psks"
    by (simp_all add: keys_spec_def Let_def)
  note nt = nodes_typed [OF laws(1,3,4) old ns] and et = edges_typed [OF laws(1-3) old es]
  note pair = key_pair_typed [OF laws(1,4)]
  have "h \<in> set ?hs" if "bt_get ?nk h = Some k" for h k
    using bt_get_Some_keys [OF that] ns by (simp add: nodes_spec_def Let_def)
  then have "key_text priv \<and> key_text pub" if "bt_get ?nk h = Some (priv, pub)" for h priv pub
    using that nt pair(2) by fastforce
  moreover have "e \<in> set (edges topo)" if "bt_get ?psks e = Some psk" for e psk
    using bt_get_Some_keys [OF that] es by (simp add: edges_spec_def Let_def)
  then have "key_text psk" if "bt_get ?psks e = Some psk" for e psk
    using that et by fastforce
  ultimately have "keys_text (kr_resolved kr)" by (simp add: keys_text_def)
  then show ?thesis using nt et pair(1) unfolding keys_typed_def by fastforce
qed

text \<open>The only errors: the published files of an edge's ends disagree on it.\<close>

definition disagreement :: "apply_error \<Rightarrow> bool" where
  "disagreement e \<longleftrightarrow> (\<exists>a b. e = ConflictingPsk a b \<or> (\<exists>m. e = OneSidedEdge a b m))"

lemma resolve_node_succeeds:
  assumes "published_configs cr old"
  shows "triple (\<lambda>_. True) (resolve_node cr old sel n acc) (\<lambda>_ _. True) (\<lambda>_ _. False)"
proof (rule tripleI)
  fix s e s'
  assume r: "resolve_node cr old sel n acc s = (Inl e, s')"
  then obtain c k where c: "bt_get old (vn_hostname n) = Some c"
    and k: "from_private_key_base64 cr (pi_private_key (pc_interface c)) = Inl k"
    by (auto simp: resolve_node_def Let_def io_then_Inl map_err_Inl_iff split: option.splits prod.splits if_splits)
  from assms c obtain f where "parse_wg_quick cr f = Inr c" by (auto simp: published_configs_def)
  from parse_wg_quick_ok [OF this] k show False
    by (auto simp: config_ok_def interface_ok_def validate_key_bytes_def is_ok_iff from_private_key_base64_def)
qed simp

lemma resolve_edge_errors:
  "triple (\<lambda>_. True) (resolve_edge cr old acc e psks) (\<lambda>_ _. True) (\<lambda>err _. err = ApplyPanic \<or> disagreement err)"
proof -
  obtain a b where e: "e = (a, b)" by fastforce
  have recorded: "triple (\<lambda>_. True) (case (pa, pb) of
        (Some pa, Some pb) \<Rightarrow> if pa = pb then io_return pa else io_throw (ConflictingPsk a b)
      | (Some _, None) \<Rightarrow> io_throw (OneSidedEdge a b a)
      | (None, Some _) \<Rightarrow> io_throw (OneSidedEdge a b b)
      | (None, None) \<Rightarrow> fresh_psk cr) (\<lambda>_ _. True) (\<lambda>err _. err = ApplyPanic \<or> disagreement err)" for pa pb
    by (auto simp: triple_def disagreement_def fresh_psk_def split: option.splits prod.splits)
  have fresh: "triple (\<lambda>_. True) (fresh_psk cr) (\<lambda>_ _. True) (\<lambda>err _. err = ApplyPanic \<or> disagreement err)"
    by (simp add: triple_def fresh_psk_def split: prod.splits)
  show ?thesis
    unfolding e resolve_edge_def prod.case
    by (rule triple_then_lift triple_then [where R = "\<lambda>_ _. True"] triple_if triple_case_prod recorded [unfolded prod.case] fresh
        triple_return TrueI | simp add: ok_or_def split: option.splits)+
qed

lemma resolve_keys_errors:
  assumes "published_configs cr old"
  shows "triple (\<lambda>_. True) (resolve_keys cr topo old sel) (\<lambda>_ _. True) (\<lambda>err _. err = ApplyPanic \<or> disagreement err)"
proof -
  have "triple (\<lambda>_. True) (io_fold (resolve_node cr old sel) (vt_nodes topo) key_acc_init) (\<lambda>_ _. True)
      (\<lambda>err _. err = ApplyPanic \<or> disagreement err)"
    by (rule triple_fold [where I = "\<lambda>_ _ _. True"])
      (rule triple_weaken [OF resolve_node_succeeds [OF assms]]; simp)
  moreover have "triple (\<lambda>_. True) (io_fold (resolve_edge cr old acc) (edges topo) []) (\<lambda>_ _. True)
      (\<lambda>err _. err = ApplyPanic \<or> disagreement err)" for acc
    by (rule triple_fold [where I = "\<lambda>_ _ _. True"]) (rule resolve_edge_errors)
  ultimately show ?thesis
    unfolding resolve_keys_def by (intro triple_then [where R = "\<lambda>_ _. True"]) (auto intro: triple_return)
qed

lemma resolve_keys_types:
  assumes "topology_ok cr0 topo" and laws: "b64_roundtrip cr" "b64_canonical cr" "random_keys cr" "x25519_keys cr"
    and old: "published_configs cr old"
  shows "triple (\<lambda>_. True) (resolve_keys cr topo old sel) (\<lambda>kr _. keys_typed cr topo (kr_resolved kr))
    (\<lambda>err _. disagreement err)"
proof (rule tripleI)
  fix n kr n'
  assume "resolve_keys cr topo old sel n = (Inr kr, n')"
  from tripleD(1) [OF resolve_keys_triple [OF assms(1)] refl this]
  show "keys_typed cr topo (kr_resolved kr)" by (rule keys_spec_typed [OF laws old])
next
  fix n err n'
  assume r: "resolve_keys cr topo old sel n = (Inl err, n')"
  from tripleD(2) [OF resolve_keys_triple [OF assms(1)] refl r] keys_error_no_panic
  have "err \<noteq> ApplyPanic" by blast
  with tripleD(2) [OF resolve_keys_errors [OF old] TrueI r] show "disagreement err" by simp
qed

section \<open>Property\<close>

text \<open>
  C28. The keys \<open>resolve_keys\<close> returns are well typed, whichever are reused and whichever new: every
  node has a private key that decodes to 32 bytes, not all zero, together with its public key;
  every edge has a preshared key that decodes; and every text is fit to be written to a file.
  When the old configurations are files the strict parser accepted, the only errors are two
  files that disagree on the edge between them: a stored key is never unreadable.
\<close>
theorem resolve_keys_well_typed:
  assumes "topology_ok cr topo" and "b64_roundtrip cr" and "b64_canonical cr" and "random_keys cr"
    and "x25519_keys cr" and "published_configs cr old"
  shows "case resolve_keys cr topo old sel n of
    (Inl err, _) \<Rightarrow> disagreement err | (Inr kr, _) \<Rightarrow> keys_typed cr topo (kr_resolved kr)"
  using triple_result [OF resolve_keys_types [OF assms, where sel = sel], of n] by (simp split: prod.splits sum.splits)

end
