(* ===== verification/Publish_Valid.thy ===== *)
theory Publish_Valid
  imports Apply_Valid Key_Types
begin

text \<open>
  What an apply leaves behind in a bucket without other writers: the lemmas are proved in the
  context of \<open>storage_contract\<close> and hold for every store with that contract.
\<close>

section \<open>A published generation\<close>

text \<open>
  \<open>c\<close> is the contents of the bucket: a key's bytes and ETag.  Every file has its digest, and
  whatever property \<open>F\<close> is asked of files.
\<close>

definition published ::
  "crates \<Rightarrow> (string \<Rightarrow> bool) \<Rightarrow> (string \<Rightarrow> (string \<times> string) option) \<Rightarrow> generation_entry \<Rightarrow> bool" where
  "published cr F c g \<longleftrightarrow>
     (\<forall>(h, d)\<in>set (ge_nodes g). \<exists>b e. c (node_object_key h (ge_id g)) = Some (b, e) \<and> digest_of cr b = d \<and> F b)"

lemma node_key_injective:
  assumes "node_object_key h g = node_object_key h' g'" and "CHR ''/'' \<notin> set h" and "CHR ''/'' \<notin> set h'"
  shows "h = h' \<and> g = g'"
proof -
  let ?k = "\<lambda>h g. h @ CHR ''/'' # g @ ''.conf''"
  have "?k h g = ?k h' g'" using assms(1) by (simp add: node_object_key_def)
  moreover have "split_once CHR ''/'' (?k h g) = Some (h, g @ ''.conf'')"
    "split_once CHR ''/'' (?k h' g') = Some (h', g' @ ''.conf'')"
    by (rule split_once_append [OF assms(2)], rule split_once_append [OF assms(3)])
  ultimately have "h = h' \<and> g @ ''.conf'' = g' @ ''.conf''" by (metis option.inject prod.inject)
  then show ?thesis by simp
qed

lemma valid_hostname_no_slash: "hostname_validate h = Inr () \<Longrightarrow> CHR ''/'' \<notin> set h"
  using hostname_chars [of h] hostname_char_plain by (auto simp: list_all_iff)

lemma published_current:
  "published cr F c g \<Longrightarrow> published cr F (c(CURRENT_JSON_KEY := v)) g"
  unfolding published_def using node_object_key_not_current by fastforce

lemma published_insert:
  assumes "published cr F c g" and "c k = None"
  shows "published cr F (c(k := v)) g"
  using assms unfolding published_def by fastforce

lemma may_delete_other:
  assumes "may_delete p now grace k t" and "cur p = Some g" and "CHR ''/'' \<notin> set h"
  shows "node_object_key h (ge_id g) \<noteq> k"
proof
  assume eq: "node_object_key h (ge_id g) = k"
  from assms(1,2) obtain h' g' where k: "k = node_object_key h' g'" "hostname_validate h' = Inr ()" "g' \<noteq> ge_id g"
    by (auto simp: may_delete_def)
  with node_key_injective eq assms(3) valid_hostname_no_slash show False by metis
qed

lemma published_delete:
  assumes "published cr F c g" and "may_delete p now grace k t" and "cur p = Some g"
    and "\<forall>h\<in>set (bt_keys (ge_nodes g)). CHR ''/'' \<notin> set h"
  shows "published cr F (c(k := None)) g"
proof -
  have "node_object_key h (ge_id g) \<noteq> k" if "(h, d) \<in> set (ge_nodes g)" for h d
    using that assms(4) by (intro may_delete_other [OF assms(2,3)]) (force simp: bt_keys_def)
  with assms(1) show ?thesis unfolding published_def by fastforce
qed

text \<open>
  \<open>ds\<close> are the digests of the files rendered for the nodes of \<open>t\<close>, all with the same keys.
  What a successful apply leaves is \<open>serving\<close>: the pointer in place names a published generation with
  those digests, and has whatever property \<open>Q\<close> is asked of pointers, and the keys whatever \<open>K\<close> is.
\<close>

definition described ::
  "crates \<Rightarrow> validated_topology \<Rightarrow> resolved_keys \<Rightarrow> (string, string) btree_map \<Rightarrow> bool" where
  "described cr t keys ds \<longleftrightarrow>
     bt_wf ds \<and> bt_keys ds = map vn_hostname (vt_nodes t) \<and>
     (\<forall>h\<in>set (bt_keys ds). \<exists>b. render_node_config cr t keys h = Inr b \<and> bt_get ds h = Some (digest_of cr b))"

definition serving ::
  "crates \<Rightarrow> serde \<Rightarrow> (resolved_keys \<Rightarrow> bool) \<Rightarrow> (string \<Rightarrow> bool) \<Rightarrow> (current_json \<Rightarrow> bool)
    \<Rightarrow> (string \<Rightarrow> (string \<times> string) option) \<Rightarrow> validated_topology \<Rightarrow> bool" where
  "serving cr js K F Q c t \<longleftrightarrow>
     (\<exists>p g e keys. c CURRENT_JSON_KEY = Some (to_vec js p, e) \<and> Q p \<and> cur p = Some g \<and>
        K keys \<and> described cr t keys (ge_nodes g) \<and> published cr F c g)"

text \<open>A pointer as an apply starts from it: read and validated, or the empty one.\<close>

definition starting :: "crates \<Rightarrow> serde \<Rightarrow> (current_json \<Rightarrow> bool) \<Rightarrow> current_json \<Rightarrow> bool" where
  "starting cr js G p \<longleftrightarrow>
     (\<exists>b. parse_pointer js b = Inr p \<and> discovery_ok p \<and> G p) \<or>
     (\<exists>k. p = current_json_empty (encode (csprng cr k)))"

definition pointer_entry :: "serde \<Rightarrow> (current_json \<Rightarrow> bool) \<Rightarrow> (string \<Rightarrow> (string \<times> string) option) \<Rightarrow> bool" where
  "pointer_entry js G c \<longleftrightarrow>
     (\<forall>b e p. c CURRENT_JSON_KEY = Some (b, e) \<longrightarrow> parse_pointer js b = Inr p \<longrightarrow> G p)"

text \<open>The two pointers an apply may commit.\<close>

definition refreshed_pointer :: "crates \<Rightarrow> current_json \<Rightarrow> nat \<Rightarrow> current_json" where
  "refreshed_pointer cr p k =
     \<lparr>schema_version = SCHEMA_VERSION, revision = encode (csprng cr k), cur = cur p, prev = prev p\<rparr>"

definition next_pointer :: "crates \<Rightarrow> current_json \<Rightarrow> (string, string) btree_map \<Rightarrow> nat \<Rightarrow> nat \<Rightarrow> current_json" where
  "next_pointer cr p ds j k =
     \<lparr>schema_version = SCHEMA_VERSION, revision = encode (csprng cr k),
      cur = Some \<lparr>ge_id = encode (csprng cr j), ge_nodes = ds\<rparr>, prev = cur p\<rparr>"

definition checked ::
  "crates \<Rightarrow> string list \<Rightarrow> (string \<Rightarrow> (string \<times> string) option) \<Rightarrow> generation_entry \<Rightarrow> bool" where
  "checked cr hs c g \<longleftrightarrow>
     (\<forall>h\<in>set hs. \<forall>d. bt_get (ge_nodes g) h = Some d \<longrightarrow>
        (\<exists>b e. c (node_object_key h (ge_id g)) = Some (b, e) \<and> digest_of cr b = d \<and>
           is_ok (parse_wg_quick cr (from_utf8_lossy b))))"

lemma render_all_files:
  assumes "fold_res (render_all cr t keys) hs ([], []) = Inr (rendered, digests)"
  shows "(\<forall>h b. bt_get rendered h = Some b \<longrightarrow> render_node_config cr t keys h = Inr b) \<and>
    (\<forall>h\<in>set hs. \<exists>b. render_node_config cr t keys h = Inr b \<and> bt_get digests h = Some (digest_of cr b))"
proof -
  let ?P = "\<lambda>ys (rendered, digests). (\<forall>h b. bt_get rendered h = Some b \<longrightarrow> render_node_config cr t keys h = Inr b) \<and>
    (\<forall>h\<in>set ys. \<exists>b. render_node_config cr t keys h = Inr b \<and> bt_get digests h = Some (digest_of cr b))"
  have "?P hs (rendered, digests)"
    by (rule fold_res_prefix_invariant [OF assms, where P = ?P])
      (auto simp: render_all_def and_then_Inr_iff bt_get_def [of "[]"] split: if_splits)
  then show ?thesis by simp
qed

section \<open>The operations, under the contract\<close>

context storage_contract begin

definition contents :: "'s world \<Rightarrow> string \<Rightarrow> (string \<times> string) option" where
  "contents w = objs (w_store w)"

text \<open>Assertions on the contents; errors are not constrained here.\<close>

lemma call_get:
  "triple (\<lambda>w. P (contents w)) (on_store (get_object st k))
    (\<lambda>x w. P (contents w) \<and> map_option (\<lambda>f. (fo_bytes f, fo_etag f)) x = contents w k) (\<lambda>_ _. True)"
  using get_ok
  by (fastforce simp: triple_def contents_def on_store_def map_err_def split: prod.splits sum.splits)

lemma call_list:
  "triple (\<lambda>w. P (contents w)) (on_store (list_all_keys st p)) (\<lambda>_ w. P (contents w)) (\<lambda>_ _. True)"
  using list_ok
  by (fastforce simp: triple_def contents_def on_store_def map_err_def split: prod.splits sum.splits)

lemma call_put_absent:
  assumes "\<And>c e. P c \<Longrightarrow> c k = None \<Longrightarrow> Q (Written e) (c(k \<mapsto> (b, e)))" and "\<And>c. P c \<Longrightarrow> Q PreconditionFailed c"
  shows "triple (\<lambda>w. P (contents w)) (on_store (put_if_absent st k b ct)) (\<lambda>x w. Q x (contents w)) (\<lambda>_ _. True)"
proof (rule tripleI)
  fix w x w'
  assume P: "P (contents w)" and r: "on_store (put_if_absent st k b ct) w = (Inr x, w')"
  obtain y s where y: "put_if_absent st k b ct (w_store w) = (y, s)" by fastforce
  with r have "y = Inr x" "w_store w' = s" by (auto simp: on_store_def)
  with put_absent_ok [OF y] P assms show "Q x (contents w')"
    by (cases x) (auto simp: contents_def)
qed simp

lemma call_put_match:
  assumes "\<And>c e. P c \<Longrightarrow> Q (Written e) (c(k \<mapsto> (b, e)))" and "\<And>c. P c \<Longrightarrow> Q PreconditionFailed c"
  shows "triple (\<lambda>w. P (contents w)) (on_store (put_if_match st k b ct et)) (\<lambda>x w. Q x (contents w)) (\<lambda>_ _. True)"
proof (rule tripleI)
  fix w x w'
  assume P: "P (contents w)" and r: "on_store (put_if_match st k b ct et) w = (Inr x, w')"
  obtain y s where y: "put_if_match st k b ct et (w_store w) = (y, s)" by fastforce
  with r have "y = Inr x" "w_store w' = s" by (auto simp: on_store_def)
  with put_match_ok [OF y] P assms show "Q x (contents w')"
    by (cases x) (auto simp: contents_def)
qed simp

lemma call_draws:
  "triple (\<lambda>w. P (contents w)) (on_draws m) (\<lambda>_ w. P (contents w)) (\<lambda>_ _. True)"
  by (fastforce simp: triple_def contents_def on_draws_def split: prod.splits sum.splits)

lemma call_draw_id:
  "triple (\<lambda>w. P (contents w)) (draw_id cr) (\<lambda>x w. (\<exists>k. x = encode (csprng cr k)) \<and> P (contents w)) (\<lambda>_ _. True)"
  by (fastforce simp: triple_def contents_def draw_id_def on_draws_def random_id_def)

text \<open>A lemma that needs the value drawn.\<close>

lemma call_draw_id_then:
  assumes "\<And>k. triple (\<lambda>w. P (contents w)) (f (encode (csprng cr k))) Q (\<lambda>_ _. True)"
  shows "triple (\<lambda>w. P (contents w)) (io_then (draw_id cr) f) Q (\<lambda>_ _. True)"
proof (rule triple_then [OF call_draw_id [where P = P]])
  fix x
  show "triple (\<lambda>w. (\<exists>k. x = encode (csprng cr k)) \<and> P (contents w)) (f x) Q (\<lambda>_ _. True)"
  proof (cases "\<exists>k. x = encode (csprng cr k)")
    case True
    then obtain k where "x = encode (csprng cr k)" by blast
    then show ?thesis using assms [of k] by (auto elim!: triple_weaken)
  next
    case False
    then show ?thesis by (simp add: triple_def)
  qed
qed

text \<open>Uploading one generation stores it; committing puts the pointer in place.\<close>

lemma upload_node_stores:
  assumes b: "bt_get rendered h = Some b" and P: "\<And>c k v. P c \<Longrightarrow> c k = None \<Longrightarrow> P (c(k := v))"
  shows "triple (\<lambda>w. P (contents w)) (upload_node st rendered gid h up)
    (\<lambda>_ w. P (contents w) \<and> (\<exists>e. contents w (node_object_key h gid) = Some (b, e))) (\<lambda>_ _. True)"
  unfolding upload_node_def Let_def b
  apply (rule triple_then_lift, simp)
  apply (simp only: ok_or_simps sum.inject)
  apply (rule triple_then [OF call_put_absent [where Q = "\<lambda>x c. P c \<and>
      (\<forall>e. x = Written e \<longrightarrow> c (node_object_key h gid) = Some (b, e))"]])
    apply (simp add: P)
   apply simp
  subgoal for x out
    apply (cases out)
     apply (simp only: put_outcome.case)
     apply (rule triple_return)
     apply auto []
    apply (simp only: put_outcome.case)
    apply (rule triple_then [where R = "\<lambda>x w. P (contents w) \<and>
        map_option (\<lambda>f. (fo_bytes f, fo_etag f)) x = contents w (node_object_key h gid)"])
     apply (rule triple_weaken [OF call_get [where P = P]]; simp)
    apply (rule triple_then_lift, simp)
    apply (rule triple_if, rule triple_throw, simp)
    apply (rule triple_return)
    apply (auto dest: sym) []
    done
  done

lemma uploads_store:
  assumes rd: "rendered_ok cr hs (rendered, digests)" and F: "\<And>h b. bt_get rendered h = Some b \<Longrightarrow> F b"
  shows "triple (\<lambda>w. True) (io_fold (upload_node st rendered gid) hs up)
    (\<lambda>_ w. published cr F (contents w) \<lparr>ge_id = gid, ge_nodes = digests\<rparr>) (\<lambda>_ _. True)"
proof -
  let ?P = "\<lambda>ys c. \<forall>h\<in>set ys. \<exists>b e. bt_get rendered h = Some b \<and> bt_get digests h = Some (digest_of cr b) \<and>
      c (node_object_key h gid) = Some (b, e)"
  have "triple (\<lambda>w. ?P [] (contents w)) (io_fold (upload_node st rendered gid) hs up)
      (\<lambda>_ w. ?P hs (contents w)) (\<lambda>_ _. True)"
  proof (rule triple_fold [where I = "\<lambda>ys _ w. ?P ys (contents w)"])
    fix ys h and up :: "string list"
    assume "\<exists>zs. hs = ys @ h # zs"
    then obtain b where b: "bt_get rendered h = Some b" "bt_get digests h = Some (digest_of cr b)"
      using rd by (auto simp: rendered_ok_def)
    have "?P ys (c(k := v))" if "?P ys c" "c k = None" for c k and v :: "(string \<times> string) option"
      using that by fastforce
    from upload_node_stores [OF b(1), where P = "?P ys", OF this]
    show "triple (\<lambda>w. ?P ys (contents w)) (upload_node st rendered gid h up)
        (\<lambda>_ w. ?P (ys @ [h]) (contents w)) (\<lambda>_ _. True)"
      by (rule triple_weaken) (use b in auto)
  qed
  then show ?thesis
  proof (rule triple_weaken)
    fix w
    assume S: "?P hs (contents w)"
    show "published cr F (contents w) \<lparr>ge_id = gid, ge_nodes = digests\<rparr>"
      unfolding published_def
    proof (clarsimp)
      fix h d
      assume "(h, d) \<in> set digests"
      then have "bt_get digests h = Some d" "h \<in> set hs"
        using rd bt_wf_get [of digests h d] bt_get_Some_keys [of digests h d] by (auto simp: rendered_ok_def)
      with S F show "\<exists>b. (\<exists>e. contents w (node_object_key h gid) = Some (b, e)) \<and> digest_of cr b = d \<and> F b"
        by fastforce
    qed
  qed simp_all
qed

lemma commit_loop_commits:
  assumes P: "\<And>c v. P c \<Longrightarrow> P (c(CURRENT_JSON_KEY := v))"
  shows "triple (\<lambda>w. P (contents w)) (commit_loop js st rev0 bytes n etag)
    (\<lambda>_ w. P (contents w) \<and> (\<exists>e. contents w CURRENT_JSON_KEY = Some (bytes, e))) (\<lambda>_ _. True)"
proof (induction n arbitrary: etag)
  case 0
  then show ?case by (simp add: triple_def)
next
  case (Suc n)
  show ?case
    unfolding commit_loop.simps
    apply (rule triple_then [OF call_put_match [where Q = "\<lambda>x c. P c \<and>
        (\<forall>e. x = Written e \<longrightarrow> c CURRENT_JSON_KEY = Some (bytes, e))"]])
      apply (simp add: P)
     apply simp
    subgoal for out
      apply (cases out)
       apply (simp only: put_outcome.case)
       apply (rule triple_return)
       apply auto []
      apply (simp only: put_outcome.case)
      apply (rule triple_then [where R = "\<lambda>x w. P (contents w) \<and>
          map_option (\<lambda>f. (fo_bytes f, fo_etag f)) x = contents w CURRENT_JSON_KEY"])
       apply (rule triple_weaken [OF call_get [where P = P]]; simp)
      apply (rule triple_then_lift, simp)
      apply (rule triple_if)
       apply (rule triple_return)
       apply (auto dest: sym) []
      apply (rule triple_then_lift, simp)
      apply (rule triple_if)
       apply (rule triple_weaken [OF Suc.IH]; simp)
      apply (rule triple_throw, simp)
      done
    done
qed

text \<open>Cleanup keeps what its deletions and its listing keep.\<close>

lemma cleanup_invariant:
  assumes del: "\<And>key t. may_delete p now grace key t \<Longrightarrow> keeps I (delete_object st key)"
    and l: "keeps I (list_all_with_last_modified st NODES_PREFIX)"
  shows "keeps I (cleanup st now p grace dry)"
proof -
  have entry: "keeps I (cleanup_entry st (retained_ids p) now grace dry (key, t) report)" for key t report
  proof (cases "may_delete p now grace key t")
    case True
    show ?thesis
      unfolding cleanup_entry_may_delete [OF True] by (intro keeps_rules del [OF True])
  next
    case False
    from cleanup_entry_keep [OF this] obtain report' where
      "cleanup_entry st (retained_ids p) now grace dry (key, t) report = io_return report'" by blast
    then show ?thesis by (simp only: keeps_return)
  qed
  show ?thesis
    unfolding cleanup_def
  proof (intro keeps_then keeps_map_err keeps_fold l)
    fix entries x b
    show "keeps I (cleanup_entry st (retained_ids p) now grace dry x b)" using entry by (cases x) simp
  qed
qed

lemma listing_keeps: "keeps (\<lambda>s. P (objs s)) (list_all_with_last_modified st NODES_PREFIX)"
  by (rule keepsI) (use list_modified_ok in metis)

text \<open>The pointer and the generation it names.\<close>

lemma cleanup_keeps:
  assumes p: "cur p = Some g" and hs: "\<forall>h\<in>set (bt_keys (ge_nodes g)). CHR ''/'' \<notin> set h"
  shows "keeps (\<lambda>s. published cr F (objs s) g \<and> objs s CURRENT_JSON_KEY = v) (cleanup st now p grace dry)"
proof (rule cleanup_invariant [OF _ listing_keeps])
  fix key t
  assume m: "may_delete p now grace key t"
  show "keeps (\<lambda>s. published cr F (objs s) g \<and> objs s CURRENT_JSON_KEY = v) (delete_object st key)"
  proof (rule keepsI)
    fix s r s'
    assume I: "published cr F (objs s) g \<and> objs s CURRENT_JSON_KEY = v" and d: "delete_object st key s = (r, s')"
    have "key \<noteq> CURRENT_JSON_KEY" using m node_object_key_not_current by (auto simp: may_delete_def)
    with I delete_ok [OF d] published_delete [OF _ m p hs]
    show "published cr F (objs s') g \<and> objs s' CURRENT_JSON_KEY = v" by auto
  qed
qed

text \<open>The files of the current generation are read and checked.\<close>

lemma checked_Nil: "checked cr [] c g"
  by (simp add: checked_def)

lemma fetch_checks:
  "triple (\<lambda>w. True) (fetch_reusable_configs cr st current desired)
    (\<lambda>_ w. \<forall>g. current = Some g \<longrightarrow> checked cr desired (contents w) g) (\<lambda>_ _. True)"
proof (cases current)
  case None
  then show ?thesis by (simp add: fetch_reusable_configs_def triple_def)
next
  case (Some g)
  let ?P = "\<lambda>ys c. checked cr ys c g"
  have "triple (\<lambda>w. ?P [] (contents w)) (io_fold (fetch_config cr st g) desired []) (\<lambda>_ w. ?P desired (contents w)) (\<lambda>_ _. True)"
  proof (rule triple_fold [where I = "\<lambda>ys _ w. ?P ys (contents w)"])
    fix ys h out
    show "triple (\<lambda>w. ?P ys (contents w)) (fetch_config cr st g h out) (\<lambda>_ w. ?P (ys @ [h]) (contents w)) (\<lambda>_ _. True)"
      unfolding fetch_config_def
      apply (rule triple_case_option)
       apply (rule triple_return)
       apply (simp add: checked_def)
      apply (rule triple_then [OF call_get])
      apply (rule triple_then_lift, simp)
      apply (rule triple_if, rule triple_throw, simp)
      apply (rule triple_then_lift, simp)
      apply (rule triple_return)
      apply (auto simp: checked_def is_ok_iff dest: sym) []
      done
  qed
  then show ?thesis
    by (auto simp: Some fetch_reusable_configs_def checked_Nil elim!: triple_weaken)
qed

lemma fetch_starts:
  "triple (\<lambda>_. A) (fetch_reusable_configs cr st current desired)
    (\<lambda>_ w. A \<and> (\<forall>g. current = Some g \<longrightarrow> checked cr desired (contents w) g)) (\<lambda>_ _. True)"
  using fetch_checks [of cr current desired] by (cases A) (simp_all add: triple_def)

text \<open>What it returns are files the strict parser accepted.\<close>

lemma fetch_configs_published:
  "triple (\<lambda>_. True) (fetch_reusable_configs cr st current desired) (\<lambda>old _. published_configs cr old) (\<lambda>_ _. True)"
proof (cases current)
  case None
  then show ?thesis by (simp add: fetch_reusable_configs_def triple_def published_configs_def bt_get_def)
next
  case (Some g)
  have "triple (\<lambda>_. published_configs cr []) (io_fold (fetch_config cr st g) desired [])
      (\<lambda>old _. published_configs cr old) (\<lambda>_ _. True)"
  proof (rule triple_fold [where I = "\<lambda>_ old _. published_configs cr old"])
    fix ys h out
    show "triple (\<lambda>_. published_configs cr out) (fetch_config cr st g h out) (\<lambda>old _. published_configs cr old) (\<lambda>_ _. True)"
    proof (rule tripleI)
      fix s x s'
      assume "published_configs cr out" and "fetch_config cr st g h out s = (Inr x, s')"
      then show "published_configs cr x"
        by (auto simp: fetch_config_def io_then_Inr published_configs_def split: option.splits if_splits)
    qed simp
  qed
  then show ?thesis by (simp add: Some fetch_reusable_configs_def published_configs_def bt_get_def)
qed

lemma fetch_old:
  "triple (\<lambda>_. A) (fetch_reusable_configs cr st current desired)
    (\<lambda>old w. published_configs cr old \<and> A \<and> (\<forall>g. current = Some g \<longrightarrow> checked cr desired (contents w) g)) (\<lambda>_ _. True)"
proof (rule tripleI)
  fix w x w'
  assume A and r: "fetch_reusable_configs cr st current desired w = (Inr x, w')"
  with tripleD(1) [OF fetch_starts [where A = A] _ r] tripleD(1) [OF fetch_configs_published _ r]
  show "published_configs cr x \<and> A \<and> (\<forall>g. current = Some g \<longrightarrow> checked cr desired (contents w') g)" by blast
qed simp

lemma call_resolve:
  assumes "\<And>old n kr n'. published_configs cr old \<Longrightarrow> resolve_keys cr t old sel n = (Inr kr, n') \<Longrightarrow> K (kr_resolved kr)"
  shows "triple (\<lambda>w. published_configs cr old \<and> P (contents w)) (on_draws (resolve_keys cr t old sel))
    (\<lambda>kr w. K (kr_resolved kr) \<and> P (contents w)) (\<lambda>_ _. True)"
  using assms by (fastforce simp: triple_def contents_def on_draws_def split: prod.splits sum.splits)

lemma read_pointer_starts:
  assumes "read_pointer js obj = Inr (p, etag)" and "pointer_entry js G c"
    and "c CURRENT_JSON_KEY = Some (fo_bytes obj, e)"
  shows "starting cr js G p"
  using assms by (auto simp: read_pointer_def and_then_Inr_iff discovery_validate_iff pointer_entry_def starting_def)

lemma read_pointer_call:
  "triple (\<lambda>w. pointer_entry js G (contents w) \<and>
      map_option (\<lambda>f. (fo_bytes f, fo_etag f)) (Some obj) = contents w CURRENT_JSON_KEY)
    (io_lift (read_pointer js obj)) (\<lambda>x _. starting cr js G (fst x)) (\<lambda>_ _. True)"
proof (rule triple_lift)
  fix w x
  assume "pointer_entry js G (contents w) \<and>
      map_option (\<lambda>f. (fo_bytes f, fo_etag f)) (Some obj) = contents w CURRENT_JSON_KEY"
    and r: "read_pointer js obj = Inr x"
  then show "starting cr js G (fst x)"
    using read_pointer_starts [of js obj "fst x" "snd x" G "contents w"] by (cases x) (auto dest: sym)
qed simp

lemma fetch_pointer_starts:
  "triple (\<lambda>w. pointer_entry js G (contents w)) (fetch_current_pointer cr js st False)
    (\<lambda>x _. starting cr js G (fst x)) (\<lambda>_ _. True)"
  unfolding fetch_current_pointer_def Let_def if_False
  apply (rule triple_then [OF call_get])
  apply (rule triple_case_option)
   apply (rule triple_weaken [where P = "\<lambda>w. pointer_entry js G (contents w)"
      and Q = "\<lambda>x _. starting cr js G (fst x)" and E = "\<lambda>_ _. True"])
     apply (rule triple_then [OF call_list])
     apply (rule triple_if, rule triple_throw, simp)
     apply (rule call_draw_id_then)
     apply (rule triple_then [OF call_put_absent [where P = "pointer_entry js G" and Q = "\<lambda>x c. x = PreconditionFailed \<longrightarrow> pointer_entry js G c"]])
       apply simp
      apply simp
  subgoal for x existing k out
    apply (cases out)
     apply (simp only: put_outcome.case)
     apply (rule triple_return)
     apply (auto simp: starting_def) []
    apply (simp only: put_outcome.case)
    apply (rule triple_then [where R = "\<lambda>x w. pointer_entry js G (contents w) \<and>
        map_option (\<lambda>f. (fo_bytes f, fo_etag f)) x = contents w CURRENT_JSON_KEY"])
     apply (rule triple_weaken [OF call_get [where P = "pointer_entry js G"]]; simp)
    apply (rule triple_case_option, rule triple_throw, simp)
    apply (simp only:)
    apply (rule read_pointer_call)
    done
    apply simp
   apply simp
  apply simp
  apply (erule ssubst)
  apply (rule read_pointer_call)
  done

lemma cleanup_pass_keeps:
  assumes p: "cur p = Some g" and hs: "\<forall>h\<in>set (bt_keys (ge_nodes g)). CHR ''/'' \<notin> set h"
  shows "triple (\<lambda>w. published cr F (contents w) g \<and> contents w CURRENT_JSON_KEY = v)
    (cleanup_pass st now p grace dry report)
    (\<lambda>_ w. published cr F (contents w) g \<and> contents w CURRENT_JSON_KEY = v) (\<lambda>_ _. True)"
proof (rule tripleI)
  fix w x w'
  assume I: "published cr F (contents w) g \<and> contents w CURRENT_JSON_KEY = v"
    and c: "cleanup_pass st now p grace dry report w = (Inr x, w')"
  obtain y s where y: "cleanup st now p grace dry (w_store w) = (y, s)" by (rule prod.exhaust)
  with c have "w_store w' = s" by (cases y) (auto simp: cleanup_pass_def)
  with keepsD [OF cleanup_keeps [OF p hs] I [unfolded contents_def] y]
  show "published cr F (contents w') g \<and> contents w' CURRENT_JSON_KEY = v" by (simp add: contents_def)
qed simp


lemma refresh_serves:
  assumes "cur pointer = Some g"
  shows "triple (\<lambda>w. published cr F (contents w) g) (refresh cr js st False pointer etag report)
    (\<lambda>x w. (\<exists>k. fst x = refreshed_pointer cr pointer k) \<and> published cr F (contents w) g \<and>
      (\<exists>e. contents w CURRENT_JSON_KEY = Some (to_vec js (fst x), e))) (\<lambda>_ _. True)"
  unfolding refresh_def Let_def if_False commit_pointer_def
  apply (rule call_draw_id_then)
  apply (rule triple_then [OF commit_loop_commits])
   apply (rule published_current, assumption)
  apply (rule triple_return)
  apply (auto simp: refreshed_pointer_def)
  done

lemma publish_serves:
  assumes "rendered_ok cr hs (rendered, digests)" and "\<And>h b. bt_get rendered h = Some b \<Longrightarrow> F b"
  shows "triple (\<lambda>w. True) (publish cr js st False pointer etag hs (rendered, digests) report)
    (\<lambda>x w. \<exists>j k g. fst x = next_pointer cr pointer digests j k \<and> cur (fst x) = Some g \<and> ge_nodes g = digests \<and>
      published cr F (contents w) g \<and>
      (\<exists>e. contents w CURRENT_JSON_KEY = Some (to_vec js (fst x), e))) (\<lambda>_ _. True)"
  unfolding publish_def Let_def if_False prod.case commit_pointer_def
  apply (rule call_draw_id_then [where P = "\<lambda>_. True"])
  apply (rule call_draw_id_then [where P = "\<lambda>_. True"])
  apply (rule triple_then [OF uploads_store [OF assms]], assumption)
  apply (rule triple_then [OF commit_loop_commits])
   apply (rule published_current, assumption)
  apply (rule triple_return)
  apply (auto simp: next_pointer_def)
  done

lemma unchanged_published:
  assumes "checked cr hs c g" and "bt_keys (ge_nodes g) = hs" and "bt_wf (ge_nodes g)"
    and "\<And>b. is_ok (parse_wg_quick cr (from_utf8_lossy b)) \<Longrightarrow> F b"
  shows "published cr F c g"
  unfolding published_def
proof clarify
  fix h d
  assume "(h, d) \<in> set (ge_nodes g)"
  then have "bt_get (ge_nodes g) h = Some d" "h \<in> set hs"
    using assms(2,3) bt_wf_get [of "ge_nodes g" h d] bt_get_Some_keys [of "ge_nodes g" h d] by auto
  with assms(1,4) show "\<exists>b e. c (node_object_key h (ge_id g)) = Some (b, e) \<and> digest_of cr b = d \<and> F b"
    by (fastforce simp: checked_def)
qed

lemma rendered_keys: "rendered_ok cr (bs_of_list hs) (rendered, digests) \<Longrightarrow> bt_keys digests = bs_of_list hs"
  by (rule bs_wf_unique) (simp_all add: rendered_ok_def bt_wf_keys)

text \<open>What is committed, before the cleanup.\<close>

definition committed ::
  "crates \<Rightarrow> serde \<Rightarrow> (string \<Rightarrow> bool) \<Rightarrow> (current_json \<Rightarrow> bool) \<Rightarrow> (string, string) btree_map \<Rightarrow> current_json
    \<Rightarrow> 's world \<Rightarrow> bool" where
  "committed cr js F Q ds p w \<longleftrightarrow>
     (\<exists>g. cur p = Some g \<and> Q p \<and> ge_nodes g = ds \<and> published cr F (contents w) g \<and>
       (\<exists>e. contents w CURRENT_JSON_KEY = Some (to_vec js p, e)))"

lemma change_serves:
  assumes rd: "rendered_ok cr (bs_of_list hs) (rendered, digests)"
    and F: "\<And>h b. bt_get rendered h = Some b \<Longrightarrow> F b" "\<And>b. is_ok (parse_wg_quick cr (from_utf8_lossy b)) \<Longrightarrow> F b"
    and Q: "\<And>g k. cur pointer = Some g \<Longrightarrow> ge_nodes g = digests \<Longrightarrow> Q (refreshed_pointer cr pointer k)"
      "\<And>j k. Q (next_pointer cr pointer digests j k)"
  shows "triple (\<lambda>w. \<forall>g. cur pointer = Some g \<longrightarrow> checked cr (bs_of_list hs) (contents w) g)
    (if (case cur pointer of None \<Rightarrow> [] | Some e \<Rightarrow> bt_keys (ge_nodes e)) = bs_of_list hs \<and>
        (case cur pointer of None \<Rightarrow> False | Some e \<Rightarrow> ge_nodes e = digests)
     then refresh cr js st False pointer etag report
     else publish cr js st False pointer etag (bs_of_list hs) (rendered, digests) report)
    (\<lambda>x. committed cr js F Q digests (fst x)) (\<lambda>_ _. True)"
proof (rule triple_if)
  assume "(case cur pointer of None \<Rightarrow> [] | Some e \<Rightarrow> bt_keys (ge_nodes e)) = bs_of_list hs \<and>
      (case cur pointer of None \<Rightarrow> False | Some e \<Rightarrow> ge_nodes e = digests)"
  then obtain g where g: "cur pointer = Some g" "bt_keys (ge_nodes g) = bs_of_list hs" "ge_nodes g = digests"
    by (auto split: option.splits)
  have wf: "bt_wf (ge_nodes g)" using rd g(3) by (simp add: rendered_ok_def)
  show "triple (\<lambda>w. \<forall>g. cur pointer = Some g \<longrightarrow> checked cr (bs_of_list hs) (contents w) g)
      (refresh cr js st False pointer etag report) (\<lambda>x. committed cr js F Q digests (fst x)) (\<lambda>_ _. True)"
  proof (rule triple_weaken [OF refresh_serves [OF g(1), where F = F]])
    fix x w
    assume "(\<exists>k. fst x = refreshed_pointer cr pointer k) \<and> published cr F (contents w) g \<and>
      (\<exists>e. contents w CURRENT_JSON_KEY = Some (to_vec js (fst x), e))"
    then show "committed cr js F Q digests (fst x) w"
      using g Q(1) [OF g(1,3)] by (auto simp: committed_def refreshed_pointer_def)
  qed (use g(1) unchanged_published [OF _ g(2) wf F(2)] in auto)
next
  show "triple (\<lambda>w. \<forall>g. cur pointer = Some g \<longrightarrow> checked cr (bs_of_list hs) (contents w) g)
      (publish cr js st False pointer etag (bs_of_list hs) (rendered, digests) report)
      (\<lambda>x. committed cr js F Q digests (fst x)) (\<lambda>_ _. True)"
    by (rule triple_weaken [OF publish_serves [OF rd, where F = F], OF F(1)])
      (use Q(2) in \<open>auto simp: committed_def\<close>)
qed

lemma topology_hostnames:
  assumes "topology_ok cr t"
  shows "bs_of_list (map vn_hostname (vt_nodes t)) = map vn_hostname (vt_nodes t)"
    and "\<forall>h\<in>set (bs_of_list (map vn_hostname (vt_nodes t))). CHR ''/'' \<notin> set h"
  using assms valid_hostname_no_slash
  by (auto simp: topology_ok_def bs_wf_def hostname_validate_regex intro!: bs_of_list_id)

lemma cleanup_serves:
  assumes ds: "described cr t keys ds" and k: "K keys" and t: "topology_ok cr t"
  shows "triple (committed cr js F Q ds (fst x))
    (case x of (final_pointer, report) \<Rightarrow> cleanup_pass st now final_pointer grace dry report)
    (\<lambda>_ w. serving cr js K F Q (contents w) t) (\<lambda>_ _. True)"
proof (rule triple_case_prod, rule tripleI)
  fix p report w y w'
  assume x: "x = (p, report)" and R: "committed cr js F Q ds (fst x) w"
    and c: "cleanup_pass st now p grace dry report w = (Inr y, w')"
  from R x obtain g e where g: "cur p = Some g" "Q p" "ge_nodes g = ds" "published cr F (contents w) g"
    "contents w CURRENT_JSON_KEY = Some (to_vec js p, e)" by (auto simp: committed_def)
  have slash: "\<forall>h\<in>set (bt_keys (ge_nodes g)). CHR ''/'' \<notin> set h"
    using topology_hostnames [OF t] ds g(3) by (simp add: described_def)
  have "published cr F (contents w') g \<and> contents w' CURRENT_JSON_KEY = Some (to_vec js p, e)"
    by (rule tripleD(1) [OF cleanup_pass_keeps [OF g(1) slash] _ c]) (use g in simp_all)
  with g ds k show "serving cr js K F Q (contents w') t" by (auto simp: serving_def)
qed simp

lemma triple_absurd: "(\<And>s. \<not> P s) \<Longrightarrow> triple P m Q E"
  by (simp add: triple_def)

lemma apply_serves:
  assumes "\<not> ao_dry_run opts"
    and K: "\<And>t ws old n kr n'. topology_validate cr config = Inr (t, ws) \<Longrightarrow> published_configs cr old \<Longrightarrow>
        resolve_keys cr t old (ao_rotate opts) n = (Inr kr, n') \<Longrightarrow> K t (kr_resolved kr)"
    and F: "\<And>t ws keys h b. topology_validate cr config = Inr (t, ws) \<Longrightarrow>
        K t keys \<Longrightarrow> render_node_config cr t keys h = Inr b \<Longrightarrow> F b"
      "\<And>b. is_ok (parse_wg_quick cr (from_utf8_lossy b)) \<Longrightarrow> F b"
    and Q: "\<And>t ws p g keys k. topology_validate cr config = Inr (t, ws) \<Longrightarrow> starting cr js G p \<Longrightarrow>
        cur p = Some g \<Longrightarrow> K t keys \<Longrightarrow> described cr t keys (ge_nodes g) \<Longrightarrow> Q (refreshed_pointer cr p k)"
      "\<And>t ws p ds keys j k. topology_validate cr config = Inr (t, ws) \<Longrightarrow> starting cr js G p \<Longrightarrow>
        K t keys \<Longrightarrow> described cr t keys ds \<Longrightarrow> Q (next_pointer cr p ds j k)"
  shows "triple (\<lambda>w. pointer_entry js G (contents w)) (apply_topology cr js st now config opts)
    (\<lambda>_ w. \<exists>t ws. topology_validate cr config = Inr (t, ws) \<and> serving cr js (K t) F Q (contents w) t) (\<lambda>_ _. True)"
proof -
  have d: "ao_dry_run opts = False" using assms(1) by simp
  have rest: "triple (\<lambda>w. K t keys \<and> starting cr js G pointer \<and> (\<forall>g. cur pointer = Some g \<longrightarrow>
        checked cr (bs_of_list (map vn_hostname (vt_nodes t))) (contents w) g))
      (io_then (if (case cur pointer of None \<Rightarrow> [] | Some e \<Rightarrow> bt_keys (ge_nodes e))
            = bs_of_list (map vn_hostname (vt_nodes t)) \<and>
          (case cur pointer of None \<Rightarrow> False | Some e \<Rightarrow> ge_nodes e = digests)
        then refresh cr js st False pointer etag report
        else publish cr js st False pointer etag (bs_of_list (map vn_hostname (vt_nodes t))) (rendered, digests) report)
        (\<lambda>x. case x of (final_pointer, report) \<Rightarrow> cleanup_pass st now final_pointer grace False report))
      (\<lambda>_ w. \<exists>t ws. topology_validate cr config = Inr (t, ws) \<and> serving cr js (K t) F Q (contents w) t) (\<lambda>_ _. True)"
    if t: "topology_validate cr config = Inr (t, ws)"
      and r: "fold_res (render_all cr t keys) (bs_of_list (map vn_hostname (vt_nodes t))) ([], []) = Inr (rendered, digests)"
    for t ws pointer etag keys rendered digests report grace
  proof (cases "K t keys \<and> starting cr js G pointer")
    case True
    then have k: "K t keys" and True: "starting cr js G pointer" by simp_all
    note ok = topology_validate_ok(1) [OF t]
    note files = render_all_files [OF r] and rd = render_all_ok [OF r]
    have ds: "described cr t keys digests"
      using files rd rendered_keys [OF rd] topology_hostnames(1) [OF ok] by (auto simp: described_def rendered_ok_def)
    have "triple (\<lambda>w. \<forall>g. cur pointer = Some g \<longrightarrow> checked cr (bs_of_list (map vn_hostname (vt_nodes t))) (contents w) g)
      (if (case cur pointer of None \<Rightarrow> [] | Some e \<Rightarrow> bt_keys (ge_nodes e))
            = bs_of_list (map vn_hostname (vt_nodes t)) \<and>
          (case cur pointer of None \<Rightarrow> False | Some e \<Rightarrow> ge_nodes e = digests)
        then refresh cr js st False pointer etag report
        else publish cr js st False pointer etag (bs_of_list (map vn_hostname (vt_nodes t))) (rendered, digests) report)
      (\<lambda>x. committed cr js F Q digests (fst x)) (\<lambda>_ _. True)"
    proof (rule change_serves [OF rd])
      show "F b" if "bt_get rendered h = Some b" for h b using files that F(1) [OF t k] by blast
      show "Q (refreshed_pointer cr pointer k)" if "cur pointer = Some g" "ge_nodes g = digests" for g k
        by (rule Q(1) [OF t True that(1) k]) (use ds that(2) in simp)
      show "Q (next_pointer cr pointer digests j k)" for j k
        by (rule Q(2) [OF t True k ds])
    qed (rule F(2))
    from triple_then [OF this cleanup_serves [where K = "K t", OF ds k ok]] show ?thesis
      by (rule triple_weaken) (use t in auto)
  next
    case False
    then show ?thesis by (intro triple_absurd) blast
  qed
  show ?thesis
    unfolding apply_topology_def Let_def d
    apply (rule triple_then_lift, simp)
    apply (rule triple_case_prod)
    subgoal premises v for x t ws
      apply (rule triple_then_lift, simp)
      apply (rule triple_then [OF fetch_pointer_starts])
      apply (rule triple_case_prod)
      apply (rule triple_then [OF fetch_old])
      apply (rule triple_then [OF call_resolve [where K = "K t"]])
       apply (rule K, use v in simp, assumption, assumption)
      apply (rule triple_then_lift, simp)
      apply (rule triple_case_prod)
      apply (rule triple_weaken [OF rest])
         apply (use v in simp)
        apply simp
       apply auto
      done
    done
qed

end

section \<open>Property\<close>

text \<open>
  C4. After a successful apply of a topology to a bucket without other writers, whether it
  published a new generation, refreshed the pointer, retried, or cleaned up, the pointer in
  the bucket names a current generation for exactly the topology's hostnames; its digests are
  those of the files rendered for these nodes, all with the same keys; and the object of every
  node is present and has its digest.
\<close>
theorem apply_serves_every_node:
  "case apply_topology cr js mock now config (opts\<lparr>ao_dry_run := False\<rparr>) w of
     (Inl e, w') \<Rightarrow> True
   | (Inr report, w') \<Rightarrow> \<exists>t ws. topology_validate cr config = Inr (t, ws) \<and>
       serving cr js (\<lambda>_. True) (\<lambda>_. True) (\<lambda>_. True) (mock_objs (w_store w')) t"
  using triple_result [OF mock.apply_serves [where opts = "opts\<lparr>ao_dry_run := False\<rparr>" and cr = cr
        and js = js and now = now and config = config and K = "\<lambda>_ _. True" and F = "\<lambda>_. True" and Q = "\<lambda>_. True" and G = "\<lambda>_. True"], of w]
  by (auto simp: mock.contents_def pointer_entry_def split: prod.splits sum.splits)

end
