(* ===== verification/System_Ops.thy ===== *)
theory System_Ops
  imports Wg_Quick Io_Logic
begin

text \<open>
  \<open>wg-client/src/system.rs\<close>.  The trait \<open>SystemOps\<close> is a record of operations over an
  unspecified host \<open>'o\<close>, which every operation may change.  \<open>MockSystemOps\<close> is the
  repository's in-memory host; \<open>observed\<close> keeps the sequence of calls of any host, so that
  ordering is stated for every behaviour of the machine.
\<close>

type_synonym path = string

record 'o system_ops =
  read_file :: "path \<Rightarrow> ('o, string option) query"
  write_file_atomic :: "path \<Rightarrow> string \<Rightarrow> ('o, string, unit) io"
  copy_file :: "path \<Rightarrow> path \<Rightarrow> ('o, string, unit) io"
  file_exists :: "path \<Rightarrow> ('o, bool) query"
  interface_exists :: "string \<Rightarrow> ('o, bool) query"
  apply_interface :: "string \<Rightarrow> path \<Rightarrow> ('o, string, unit) io"
  teardown_interface :: "string \<Rightarrow> ('o, string, unit) io"
  preflight :: "parsed_config \<Rightarrow> string \<Rightarrow> string \<Rightarrow> ('o, string, unit) io"

definition tmp_path_for :: "path \<Rightarrow> path" where
  "tmp_path_for p = p @ ''.wg-client-tmp''"

section \<open>The in-memory host\<close>

record mock_system =
  my_files :: "(path, string) btree_map"
  my_up_interfaces :: "string btree_set"
  my_fail_next_apply :: "32 word"
  my_fail_next_teardown :: "32 word"
  my_fail_next_write :: "32 word"
  my_fail_next_preflight :: "32 word"
  my_calls :: "string list"

definition set_file :: "path \<Rightarrow> string \<Rightarrow> mock_system \<Rightarrow> mock_system" where
  "set_file p contents m = m\<lparr>my_files := bt_insert p contents (my_files m)\<rparr>"

definition get_file :: "path \<Rightarrow> mock_system \<Rightarrow> string option" where
  "get_file p m = bt_get (my_files m) p"

definition my_read_file :: "path \<Rightarrow> (mock_system, string option) query" where
  "my_read_file p m = (bt_get (my_files m) p, m)"

definition my_write_file_atomic :: "path \<Rightarrow> string \<Rightarrow> (mock_system, string, unit) io" where
  "my_write_file_atomic p contents m =
     (if my_fail_next_write m > 0
      then (Inl ''injected write failure'', m\<lparr>my_fail_next_write := my_fail_next_write m - 1\<rparr>)
      else (Inr (), set_file p contents m))"

definition my_copy_file :: "path \<Rightarrow> path \<Rightarrow> (mock_system, string, unit) io" where
  "my_copy_file from_path to_path m =
     (case bt_get (my_files m) from_path of
        None \<Rightarrow> (Inl (from_path @ '' does not exist''), m)
      | Some contents \<Rightarrow> (Inr (), set_file to_path contents m))"

definition my_file_exists :: "path \<Rightarrow> (mock_system, bool) query" where
  "my_file_exists p m = (p \<in> set (bt_keys (my_files m)), m)"

definition my_interface_exists :: "string \<Rightarrow> (mock_system, bool) query" where
  "my_interface_exists iface m = (iface \<in> set (my_up_interfaces m), m)"

text \<open>The texts of parse errors are not printed; the mock's error keeps its fixed part.\<close>

definition my_apply_interface :: "crates \<Rightarrow> string \<Rightarrow> path \<Rightarrow> (mock_system, string, unit) io" where
  "my_apply_interface cr iface conf_path m0 =
     (let m = m0\<lparr>my_calls := my_calls m0 @ [''up:'' @ iface]\<rparr> in
      if my_fail_next_apply m > 0
      then (Inl ''injected interface apply failure'', m\<lparr>my_fail_next_apply := my_fail_next_apply m - 1\<rparr>)
      else case bt_get (my_files m) conf_path of
        None \<Rightarrow> (Inl (conf_path @ '' does not exist''), m)
      | Some bytes \<Rightarrow>
          (case parse_wg_quick cr (from_utf8_lossy bytes) of
             Inl _ \<Rightarrow> (Inl (''parse '' @ conf_path), m)
           | Inr _ \<Rightarrow> (Inr (), m\<lparr>my_up_interfaces := bs_insert iface (my_up_interfaces m)\<rparr>)))"

definition my_teardown_interface :: "string \<Rightarrow> (mock_system, string, unit) io" where
  "my_teardown_interface iface m0 =
     (let m = m0\<lparr>my_calls := my_calls m0 @ [''down:'' @ iface]\<rparr> in
      if my_fail_next_teardown m > 0
      then (Inl ''injected interface teardown failure'',
        m\<lparr>my_fail_next_teardown := my_fail_next_teardown m - 1\<rparr>)
      else (Inr (), m\<lparr>my_up_interfaces := filter (\<lambda>i. i \<noteq> iface) (my_up_interfaces m)\<rparr>))"

definition my_preflight :: "parsed_config \<Rightarrow> string \<Rightarrow> string \<Rightarrow> (mock_system, string, unit) io" where
  "my_preflight cfg storage_endpoint_host managed_iface m0 =
     (let m = m0\<lparr>my_calls := my_calls m0 @ [''preflight'']\<rparr> in
      if my_fail_next_preflight m > 0
      then (Inl ''injected preflight failure'',
        m\<lparr>my_fail_next_preflight := my_fail_next_preflight m - 1\<rparr>)
      else (Inr (), m))"

definition mock_sys :: "crates \<Rightarrow> mock_system system_ops" where
  "mock_sys cr = \<lparr>read_file = my_read_file, write_file_atomic = my_write_file_atomic,
     copy_file = my_copy_file, file_exists = my_file_exists,
     interface_exists = my_interface_exists, apply_interface = my_apply_interface cr,
     teardown_interface = my_teardown_interface, preflight = my_preflight\<rparr>"

section \<open>Recording the calls\<close>

datatype host_event =
    Wrote path string "string + unit"
  | Copied path path "string + unit"
  | AppliedInterface string path "string + unit"
  | ToreDown string "string + unit"
  | Preflighted parsed_config "string + unit"

definition observed :: "'o system_ops \<Rightarrow> ('o \<times> host_event list) system_ops" where
  "observed ops = \<lparr>
     read_file = (\<lambda>p. record_query (read_file ops p)),
     write_file_atomic = (\<lambda>p b. record_call (Wrote p b) (write_file_atomic ops p b)),
     copy_file = (\<lambda>f t. record_call (Copied f t) (copy_file ops f t)),
     file_exists = (\<lambda>p. record_query (file_exists ops p)),
     interface_exists = (\<lambda>i. record_query (interface_exists ops i)),
     apply_interface = (\<lambda>i p. record_call (AppliedInterface i p) (apply_interface ops i p)),
     teardown_interface = (\<lambda>i. record_call (ToreDown i) (teardown_interface ops i)),
     preflight = (\<lambda>c h i. record_call (Preflighted c) (preflight ops c h i))\<rparr>"

end
