(* ===== verification/Sync.thy ===== *)
theory Sync
  imports System_Ops Discovery
begin

text \<open>
  \<open>wg-client/src/sync.rs\<close>: one sync pass.  Discover the current generation, download and
  verify this node's file, and install it through the local transaction: back up, mark
  pending, tear down, write, configure, clear the mark; on failure roll back.  The pass runs
  on a host \<open>'o\<close> and reads a store \<open>'s\<close>; the texts of errors are kept as values of
  \<open>sync_error\<close>.
\<close>

definition MAX_DISCOVERY_ROUNDS :: nat where
  "MAX_DISCOVERY_ROUNDS = 3"

record local_state =
  ls_hostname :: string
  ls_applied_generation_id :: "string option"
  ls_applied_digest :: "string option"
  ls_pending :: bool
  ls_had_backup_before_pending :: bool

definition local_state_default :: local_state where
  "local_state_default = \<lparr>ls_hostname = [], ls_applied_generation_id = None,
     ls_applied_digest = None, ls_pending = False, ls_had_backup_before_pending = False\<rparr>"

text \<open>What \<open>serde_json\<close> does for the two documents the client reads and writes.\<close>

record client_serde =
  cs_current :: "string \<Rightarrow> string + current_json"
  cs_state_from :: "string \<Rightarrow> local_state option"
  cs_state_to :: "local_state \<Rightarrow> string + string"

text \<open>\<open>ReadStorage\<close>: reading an object of the bucket.\<close>

type_synonym 's read_storage = "string \<Rightarrow> ('s, string, string option) io"

datatype sync_error =
    StorageFailed string
  | NoPublication
  | BadPointer discovery_error
  | NothingPublished
  | NotRegistered string
  | DigestMismatchFor string
  | RoundsExhausted
  | InvalidDownload parse_error
  | PreflightFailed string
  | BackupFailed string
  | PendingNotPersisted string
  | TeardownFailed string
  | InstallFailed string
  | ApplyFailed string

record sync_outcome =
  so_no_op :: bool
  so_applied :: bool
  so_recovered_pending :: bool
  so_restored_local :: bool
  so_rollback_attempted :: bool
  so_rollback_succeeded :: bool
  so_error :: "sync_error option"

definition sync_outcome_default :: sync_outcome where
  "sync_outcome_default = \<lparr>so_no_op = False, so_applied = False, so_recovered_pending = False,
     so_restored_local = False, so_rollback_attempted = False, so_rollback_succeeded = False,
     so_error = None\<rparr>"

definition append_suffix :: "path \<Rightarrow> string \<Rightarrow> path" where
  "append_suffix p suffix = p @ suffix"

definition state_path_for :: "path \<Rightarrow> path" where
  "state_path_for conf_path = append_suffix conf_path ''.state.json''"

definition backup_path_for :: "path \<Rightarrow> path" where
  "backup_path_for conf_path = append_suffix conf_path ''.bak''"

definition load_state :: "client_serde \<Rightarrow> 'o system_ops \<Rightarrow> path \<Rightarrow> ('o, local_state) query" where
  "load_state js ops p host =
     (case read_file ops p host of (b, host) \<Rightarrow>
       ((case Option.bind b (cs_state_from js) of Some st \<Rightarrow> st | None \<Rightarrow> local_state_default), host))"

definition save_state :: "client_serde \<Rightarrow> 'o system_ops \<Rightarrow> path \<Rightarrow> local_state \<Rightarrow> ('o, string, unit) io" where
  "save_state js ops p state =
     io_then (io_lift (cs_state_to js state)) (\<lambda>bytes. write_file_atomic ops p bytes)"

definition client_digest_of :: "crates \<Rightarrow> string \<Rightarrow> string" where
  "client_digest_of cr bytes = encode (sha256 cr bytes)"

section \<open>Discovery\<close>

definition client_key :: "string \<Rightarrow> string \<Rightarrow> string" where
  "client_key hostname gid = ''nodes/'' @ hostname @ ''/'' @ gid @ ''.conf''"

text \<open>The rounds left of \<open>discover_and_download\<close>; the result is (id, digest, bytes).\<close>

fun discover_rounds ::
  "crates \<Rightarrow> client_serde \<Rightarrow> 's read_storage \<Rightarrow> string \<Rightarrow> nat \<Rightarrow> ('s, sync_error, string \<times> string \<times> string) io" where
  "discover_rounds cr js st hostname 0 = io_throw RoundsExhausted"
| "discover_rounds cr js st hostname (Suc n) =
     io_then (io_map_err StorageFailed (st ''current.json'')) (\<lambda>r.
     io_then (io_lift (ok_or NoPublication r)) (\<lambda>current_bytes.
     io_then (io_lift (map_err BadPointer (discovery_parse (cs_current js) (from_utf8_lossy current_bytes)))) (\<lambda>doc.
     io_then (io_lift (map_err BadPointer (discovery_validate doc))) (\<lambda>_.
     io_then (io_lift (ok_or NothingPublished (cur doc))) (\<lambda>current.
     io_then (io_lift (ok_or (NotRegistered hostname) (bt_get (ge_nodes current) hostname))) (\<lambda>expected_digest.
     io_then (io_map_err StorageFailed (st (client_key hostname (ge_id current)))) (\<lambda>r.
     case r of
       Some bytes \<Rightarrow>
         if client_digest_of cr bytes \<noteq> expected_digest then io_throw (DigestMismatchFor hostname)
         else io_return (ge_id current, client_digest_of cr bytes, bytes)
     | None \<Rightarrow> discover_rounds cr js st hostname n)))))))"

definition discover_and_download ::
  "crates \<Rightarrow> client_serde \<Rightarrow> 's read_storage \<Rightarrow> string \<Rightarrow> ('s, sync_error, string \<times> string \<times> string) io" where
  "discover_and_download cr js st hostname = discover_rounds cr js st hostname MAX_DISCOVERY_ROUNDS"

section \<open>The local transaction\<close>

text \<open>A step that cannot fail: it updates the state and the outcome.  Failures to persist are logged only.\<close>

definition ignore_result :: "('o, string, unit) io \<Rightarrow> 'o \<Rightarrow> 'o" where
  "ignore_result m host = snd (m host)"

definition attempt_rollback ::
  "client_serde \<Rightarrow> 'o system_ops \<Rightarrow> string \<Rightarrow> path \<Rightarrow> bool \<Rightarrow> local_state \<Rightarrow> sync_outcome
    \<Rightarrow> ('o, local_state \<times> sync_outcome) query" where
  "attempt_rollback js ops iface conf_path had_backup state outcome0 host =
     (let state_path = state_path_for conf_path;
          outcome = outcome0\<lparr>so_rollback_attempted := True\<rparr> in
      if \<not> had_backup then ((state, outcome), ignore_result (save_state js ops state_path state) host)
      else case copy_file ops (backup_path_for conf_path) conf_path host of
        (Inl _, host) \<Rightarrow> ((state, outcome), ignore_result (save_state js ops state_path state) host)
      | (Inr _, host) \<Rightarrow>
          (case apply_interface ops iface conf_path host of (r, host) \<Rightarrow>
            let ok = is_ok r;
                outcome = outcome\<lparr>so_rollback_succeeded := ok\<rparr>;
                state = (if ok then state\<lparr>ls_pending := False\<rparr> else state)
            in ((state, outcome), ignore_result (save_state js ops state_path state) host)))"

definition restore_local_if_valid ::
  "crates \<Rightarrow> 'o system_ops \<Rightarrow> string \<Rightarrow> path \<Rightarrow> sync_outcome \<Rightarrow> ('o, sync_outcome) query" where
  "restore_local_if_valid cr ops iface conf_path outcome host =
     (case read_file ops conf_path host of
        (None, host) \<Rightarrow> (outcome, host)
      | (Some existing, host) \<Rightarrow>
          if \<not> is_ok (parse_wg_quick cr (from_utf8_lossy existing)) then (outcome, host)
          else (case apply_interface ops iface conf_path host of
              (Inr _, host) \<Rightarrow> (outcome\<lparr>so_restored_local := True\<rparr>, host)
            | (Inl _, host) \<Rightarrow> (outcome, host)))"

text \<open>Recovery of a transaction a previous run left pending.\<close>

definition recover_pending ::
  "client_serde \<Rightarrow> 'o system_ops \<Rightarrow> path \<Rightarrow> local_state \<Rightarrow> sync_outcome \<Rightarrow> ('o, local_state \<times> sync_outcome) query" where
  "recover_pending js ops conf_path state outcome host =
     (if \<not> ls_pending state then ((state, outcome), host)
      else
        let outcome = outcome\<lparr>so_recovered_pending := True\<rparr>;
            host = (if ls_had_backup_before_pending state then
                (case file_exists ops (backup_path_for conf_path) host of (ex, host) \<Rightarrow>
                   if ex then ignore_result (copy_file ops (backup_path_for conf_path) conf_path) host
                   else host)
              else host);
            state = state\<lparr>ls_pending := False\<rparr>
        in ((state, outcome), ignore_result (save_state js ops (state_path_for conf_path) state) host))"

text \<open>
  From the decision to install on: back up, mark pending, tear down, write, configure.  The
  result is the outcome; \<open>state\<close> is the local state before.
\<close>

definition finish_install ::
  "client_serde \<Rightarrow> 'o system_ops \<Rightarrow> string \<Rightarrow> string \<Rightarrow> path \<Rightarrow> bool \<Rightarrow> string \<times> string \<times> string
    \<Rightarrow> local_state \<Rightarrow> sync_outcome \<Rightarrow> ('o, sync_outcome) query" where
  "finish_install js ops hostname iface conf_path had_backup = (\<lambda>(gid, digest, bytes) state outcome host.
     case write_file_atomic ops conf_path bytes host of
       (Inl e, host) \<Rightarrow>
         (case attempt_rollback js ops iface conf_path had_backup state
             (outcome\<lparr>so_error := Some (InstallFailed e)\<rparr>) host of
           ((_, outcome), host) \<Rightarrow> (outcome, host))
     | (Inr _, host) \<Rightarrow>
         (case apply_interface ops iface conf_path host of
            (Inl e, host) \<Rightarrow>
              (case attempt_rollback js ops iface conf_path had_backup state
                  (outcome\<lparr>so_error := Some (ApplyFailed e)\<rparr>) host of
                ((_, outcome), host) \<Rightarrow> (outcome, host))
          | (Inr _, host) \<Rightarrow>
              let state = state\<lparr>ls_pending := False, ls_applied_generation_id := Some gid,
                    ls_applied_digest := Some digest, ls_hostname := hostname\<rparr> in
              (outcome\<lparr>so_applied := True\<rparr>,
               ignore_result (save_state js ops (state_path_for conf_path) state) host)))"

definition teardown_and_install ::
  "client_serde \<Rightarrow> 'o system_ops \<Rightarrow> string \<Rightarrow> string \<Rightarrow> path \<Rightarrow> bool \<Rightarrow> string \<times> string \<times> string
    \<Rightarrow> local_state \<Rightarrow> sync_outcome \<Rightarrow> ('o, sync_outcome) query" where
  "teardown_and_install js ops hostname iface conf_path had_backup found state outcome host =
     (case interface_exists ops iface host of
        (False, host) \<Rightarrow> finish_install js ops hostname iface conf_path had_backup found state outcome host
      | (True, host) \<Rightarrow>
          (case teardown_interface ops iface host of
             (Inl e, host) \<Rightarrow> (outcome\<lparr>so_error := Some (TeardownFailed e)\<rparr>, host)
           | (Inr _, host) \<Rightarrow>
               finish_install js ops hostname iface conf_path had_backup found state outcome host))"

definition install ::
  "client_serde \<Rightarrow> 'o system_ops \<Rightarrow> string \<Rightarrow> string \<Rightarrow> path \<Rightarrow> string \<times> string \<times> string
    \<Rightarrow> local_state \<Rightarrow> sync_outcome \<Rightarrow> ('o, sync_outcome) query" where
  "install js ops hostname iface conf_path found state outcome host =
     (case file_exists ops conf_path host of (had_backup, host) \<Rightarrow>
        (case (if had_backup then copy_file ops conf_path (backup_path_for conf_path) host
               else (Inr (), host)) of
           (Inl e, host) \<Rightarrow> (outcome\<lparr>so_error := Some (BackupFailed e)\<rparr>, host)
         | (Inr _, host) \<Rightarrow>
             let state = state\<lparr>ls_pending := True, ls_had_backup_before_pending := had_backup\<rparr> in
             (case save_state js ops (state_path_for conf_path) state host of
                (Inl e, host) \<Rightarrow> (outcome\<lparr>so_error := Some (PendingNotPersisted e)\<rparr>, host)
              | (Inr _, host) \<Rightarrow>
                  teardown_and_install js ops hostname iface conf_path had_backup found state outcome host)))"

section \<open>One pass\<close>

text \<open>The pass up to the first access to the bucket.\<close>

definition local_phase ::
  "crates \<Rightarrow> client_serde \<Rightarrow> 'o system_ops \<Rightarrow> string \<Rightarrow> path \<Rightarrow> ('o, local_state \<times> sync_outcome) query" where
  "local_phase cr js ops iface conf_path host =
     (case load_state js ops (state_path_for conf_path) host of (state, host) \<Rightarrow>
     (case recover_pending js ops conf_path state sync_outcome_default host of ((state, outcome), host) \<Rightarrow>
     (case interface_exists ops iface host of
        (True, host) \<Rightarrow> ((state, outcome), host)
      | (False, host) \<Rightarrow>
          (case restore_local_if_valid cr ops iface conf_path outcome host of
            (outcome, host) \<Rightarrow> ((state, outcome), host)))))"

text \<open>The pass from the verified download on.\<close>

definition apply_phase ::
  "crates \<Rightarrow> client_serde \<Rightarrow> 'o system_ops \<Rightarrow> string \<Rightarrow> string \<Rightarrow> path \<Rightarrow> bool \<Rightarrow> string
    \<Rightarrow> string \<times> string \<times> string \<Rightarrow> local_state \<Rightarrow> sync_outcome \<Rightarrow> ('o, sync_outcome) query" where
  "apply_phase cr js ops hostname iface conf_path force storage_endpoint_host found state outcome host =
     (case parse_wg_quick cr (from_utf8_lossy (snd (snd found))) of
        Inl e \<Rightarrow> (outcome\<lparr>so_error := Some (InvalidDownload e)\<rparr>, host)
      | Inr parsed_cfg \<Rightarrow>
          (case (if \<not> force \<and> ls_applied_digest state = Some (fst (snd found))
                 then interface_exists ops iface host else (False, host)) of
             (True, host) \<Rightarrow> (outcome\<lparr>so_no_op := True\<rparr>, host)
           | (False, host) \<Rightarrow>
               (case preflight ops parsed_cfg storage_endpoint_host iface host of
                  (Inl e, host) \<Rightarrow> (outcome\<lparr>so_error := Some (PreflightFailed e)\<rparr>, host)
                | (Inr _, host) \<Rightarrow> install js ops hostname iface conf_path found state outcome host)))"

definition run_once ::
  "crates \<Rightarrow> client_serde \<Rightarrow> 's read_storage \<Rightarrow> 'o system_ops \<Rightarrow> string \<Rightarrow> string \<Rightarrow> path \<Rightarrow> bool \<Rightarrow> string
    \<Rightarrow> 's \<times> 'o \<Rightarrow> sync_outcome \<times> 's \<times> 'o" where
  "run_once cr js st ops hostname iface conf_path force storage_endpoint_host = (\<lambda>(bucket, host).
     case local_phase cr js ops iface conf_path host of ((state, outcome), host) \<Rightarrow>
     (case discover_and_download cr js st hostname bucket of
        (Inl e, bucket) \<Rightarrow> (outcome\<lparr>so_error := Some e\<rparr>, bucket, host)
      | (Inr found, bucket) \<Rightarrow>
          (case apply_phase cr js ops hostname iface conf_path force storage_endpoint_host found state outcome host of
            (outcome, host) \<Rightarrow> (outcome, bucket, host))))"

end
