(* ===== verification/Sync_Valid.thy ===== *)
theory Sync_Valid
  imports Sync Io_Logic
begin

text \<open>
  What a sync pass does to the host, as theorems about the sequence of calls it makes on any
  host and bucket, and about the files and interfaces of a working host.
\<close>

section \<open>The order of the calls\<close>

text \<open>
  A call is in order after the calls \<open>evs\<close>.  \<open>found\<close> is what discovery returned.  The
  configuration file is only written with the verified download, after its preflight and
  after the pending mark was saved; the interface is only torn down then, too.
\<close>

definition marked :: "client_serde \<Rightarrow> path \<Rightarrow> host_event list \<Rightarrow> bool" where
  "marked js conf evs \<longleftrightarrow>
     (\<exists>b state. Wrote (state_path_for conf) b (Inr ()) \<in> set evs \<and> cs_state_to js state = Inr b \<and> ls_pending state)"

definition cleared :: "crates \<Rightarrow> sync_error + string \<times> string \<times> string \<Rightarrow> string \<Rightarrow> host_event list \<Rightarrow> bool" where
  "cleared cr found bytes evs \<longleftrightarrow>
     (\<exists>gid digest cfg. found = Inr (gid, digest, bytes) \<and>
        parse_wg_quick cr (from_utf8_lossy bytes) = Inr cfg \<and> Preflighted cfg (Inr ()) \<in> set evs)"

definition host_call_ok ::
  "crates \<Rightarrow> client_serde \<Rightarrow> string \<Rightarrow> path \<Rightarrow> sync_error + string \<times> string \<times> string
    \<Rightarrow> host_event list \<Rightarrow> host_event \<Rightarrow> bool" where
  "host_call_ok cr js iface conf found evs ev =
     (case ev of
        Wrote p b _ \<Rightarrow> p = state_path_for conf \<or> p = conf \<and> cleared cr found b evs \<and> marked js conf evs
      | Copied from_path to_path _ \<Rightarrow>
          from_path = backup_path_for conf \<and> to_path = conf \<or>
          from_path = conf \<and> to_path = backup_path_for conf \<and> (\<exists>b. cleared cr found b evs)
      | AppliedInterface i p _ \<Rightarrow> i = iface \<and> p = conf
      | ToreDown i _ \<Rightarrow> i = iface \<and> (\<exists>b. cleared cr found b evs) \<and> marked js conf evs
      | Preflighted cfg _ \<Rightarrow>
          \<exists>gid digest b. found = Inr (gid, digest, b) \<and> parse_wg_quick cr (from_utf8_lossy b) = Inr cfg)"

lemma lasting_marks [intro]: "lasting (marked js conf)" "lasting (cleared cr found b)"
  unfolding lasting_def marked_def cleared_def by auto

section \<open>The steps of a pass\<close>

lemma yields_ignore:
  "yields P m (\<lambda>_. Q) \<Longrightarrow> yields P (\<lambda>s. (x, ignore_result m s)) (\<lambda>y. Q)"
  by (simp add: yields_def ignore_result_def split_beta)

text \<open>A saved state: with \<open>Inr\<close> the file holds the text of the state.\<close>

definition saved :: "client_serde \<Rightarrow> path \<Rightarrow> local_state \<Rightarrow> string + unit \<Rightarrow> host_event list \<Rightarrow> bool" where
  "saved js conf state r evs \<longleftrightarrow> (is_ok r \<longrightarrow>
     (\<exists>b. Wrote (state_path_for conf) b (Inr ()) \<in> set evs \<and> cs_state_to js state = Inr b))"

lemma saved_marked: "saved js conf state r evs \<Longrightarrow> is_ok r \<Longrightarrow> ls_pending state \<Longrightarrow> marked js conf evs"
  by (auto simp: saved_def marked_def)

text \<open>The calls of the observed host, with what each adds.\<close>

lemma observed_sel [simp]:
  "read_file (observed ops) p = record_query (read_file ops p)"
  "file_exists (observed ops) p = record_query (file_exists ops p)"
  "interface_exists (observed ops) i = record_query (interface_exists ops i)"
  "write_file_atomic (observed ops) p b = record_call (Wrote p b) (write_file_atomic ops p b)"
  "copy_file (observed ops) p q = record_call (Copied p q) (copy_file ops p q)"
  "apply_interface (observed ops) i p = record_call (AppliedInterface i p) (apply_interface ops i p)"
  "teardown_interface (observed ops) i = record_call (ToreDown i) (teardown_interface ops i)"
  "preflight (observed ops) c h i = record_call (Preflighted c) (preflight ops c h i)"
  by (simp_all add: observed_def)

lemma save_state_trace:
  assumes "lasting R"
  shows "yields (traced (host_call_ok cr js iface conf found) log0 R)
    (save_state js (observed ops) (state_path_for conf) state)
    (\<lambda>r. traced (host_call_ok cr js iface conf found) log0 (\<lambda>evs. R evs \<and> saved js conf state r evs))"
    (is "yields (traced ?ok log0 R) _ _")
proof (cases "cs_state_to js state")
  case (Inl e)
  have "yields (traced ?ok log0 R) (\<lambda>s. (Inl e, s)) (\<lambda>r. traced ?ok log0 (\<lambda>evs. R evs \<and> saved js conf state r evs))"
    by (rule yields_return) (auto simp: saved_def elim: traced_weaken)
  moreover have "save_state js (observed ops) (state_path_for conf) state = (\<lambda>s. (Inl e, s))"
    using Inl by (simp add: save_state_def fun_eq_iff)
  ultimately show ?thesis by (simp only:)
next
  case (Inr b)
  have "yields (traced ?ok log0 R)
      (record_call (Wrote (state_path_for conf) b) (write_file_atomic ops (state_path_for conf) b))
      (\<lambda>r. traced ?ok log0 (\<lambda>evs. R evs \<and> Wrote (state_path_for conf) b r \<in> set evs))"
    by (rule traced_call) (simp_all add: assms host_call_ok_def)
  then have "yields (traced ?ok log0 R)
      (record_call (Wrote (state_path_for conf) b) (write_file_atomic ops (state_path_for conf) b))
      (\<lambda>r. traced ?ok log0 (\<lambda>evs. R evs \<and> saved js conf state r evs))"
    by (rule yields_weaken) (auto simp: saved_def Inr elim!: traced_weaken, (case_tac x; simp)+)
  moreover have "save_state js (observed ops) (state_path_for conf) state =
      record_call (Wrote (state_path_for conf) b) (write_file_atomic ops (state_path_for conf) b)"
    using Inr by (simp add: save_state_def fun_eq_iff)
  ultimately show ?thesis by (simp only:)
qed

lemma save_ignored:
  assumes "lasting R"
  shows "yields (traced (host_call_ok cr js iface conf found) log0 R)
    (\<lambda>s. (x, ignore_result (save_state js (observed ops) (state_path_for conf) state) s))
    (\<lambda>y. traced (host_call_ok cr js iface conf found) log0 R)"
  by (rule yields_ignore, rule yields_weaken [OF save_state_trace [OF assms]]) (auto elim: traced_weaken)

lemma yields_traced_drop:
  "yields P q (\<lambda>r. traced ok log0 (\<lambda>evs. R evs \<and> S r evs)) \<Longrightarrow> yields P q (\<lambda>_. traced ok log0 R)"
  by (erule yields_weaken) (auto elim: traced_weaken)

lemma attempt_rollback_trace:
  assumes "lasting R"
  shows "yields (traced (host_call_ok cr js iface conf found) log0 R)
    (attempt_rollback js (observed ops) iface conf had_backup state outcome)
    (\<lambda>_. traced (host_call_ok cr js iface conf found) log0 R)"
  unfolding attempt_rollback_def [abs_def] Let_def observed_sel
  by (rule yields_rules save_ignored assms
      yields_traced_drop [OF traced_call [OF assms]] | simp add: host_call_ok_def)+

lemma restore_local_trace:
  assumes "lasting R"
  shows "yields (traced (host_call_ok cr js iface conf found) log0 R)
    (restore_local_if_valid cr (observed ops) iface conf outcome)
    (\<lambda>_. traced (host_call_ok cr js iface conf found) log0 R)"
  unfolding restore_local_if_valid_def [abs_def] Let_def observed_sel
  by (rule yields_rules traced_query assms
      yields_traced_drop [OF traced_call [OF assms]] | assumption | simp add: host_call_ok_def)+

lemma load_state_trace:
  "yields (traced ok log0 R) (load_state js (observed ops) p) (\<lambda>_. traced ok log0 R)"
  unfolding load_state_def [abs_def] observed_sel
  by (rule yields_rules traced_query | assumption)+

text \<open>Recovery restores the backup first, then saves the state.\<close>

lemma recover_pending_eq:
  "recover_pending js ops conf state outcome = (\<lambda>host.
     if \<not> ls_pending state then ((state, outcome), host)
     else case (\<lambda>host. if ls_had_backup_before_pending state
         then (case file_exists ops (backup_path_for conf) host of (ex, host) \<Rightarrow>
           if ex then ((), ignore_result (copy_file ops (backup_path_for conf) conf) host) else ((), host))
         else ((), host)) host of
       (_, host) \<Rightarrow> ((state\<lparr>ls_pending := False\<rparr>, outcome\<lparr>so_recovered_pending := True\<rparr>),
         ignore_result (save_state js ops (state_path_for conf) (state\<lparr>ls_pending := False\<rparr>)) host))"
  by (auto simp: fun_eq_iff recover_pending_def Let_def split_beta)

lemma recover_pending_trace:
  assumes "lasting R"
  shows "yields (traced (host_call_ok cr js iface conf found) log0 R)
    (recover_pending js (observed ops) conf state outcome)
    (\<lambda>_. traced (host_call_ok cr js iface conf found) log0 R)"
  unfolding recover_pending_eq observed_sel
  by (rule yields_rules save_ignored yields_ignore traced_query assms
      yields_traced_drop [OF traced_call [OF assms]] | assumption | simp add: host_call_ok_def)+

lemma local_phase_trace:
  assumes "lasting R"
  shows "yields (traced (host_call_ok cr js iface conf found) log0 R)
    (local_phase cr js (observed ops) iface conf)
    (\<lambda>_. traced (host_call_ok cr js iface conf found) log0 R)"
  unfolding local_phase_def [abs_def] observed_sel
  by (rule yields_rules load_state_trace recover_pending_trace restore_local_trace traced_query assms
      | assumption)+

text \<open>From the write of the new file on.\<close>

lemma finish_install_trace:
  assumes "lasting R" and "\<And>evs. R evs \<Longrightarrow> cleared cr found (snd (snd f)) evs \<and> marked js conf evs"
  shows "yields (traced (host_call_ok cr js iface conf found) log0 R)
    (finish_install js (observed ops) hostname iface conf had_backup f state outcome)
    (\<lambda>_. traced (host_call_ok cr js iface conf found) log0 R)"
proof -
  obtain gid digest b where f: "f = (gid, digest, b)" by (cases f) auto
  show ?thesis
    unfolding f finish_install_def [abs_def] prod.case Let_def observed_sel
    by (rule yields_rules attempt_rollback_trace save_ignored assms
        yields_traced_drop [OF traced_call [OF assms(1)]] | assumption
      | use assms(2) in \<open>force simp: f host_call_ok_def\<close>)+
qed

lemma teardown_and_install_trace:
  assumes "lasting R" and "\<And>evs. R evs \<Longrightarrow> cleared cr found (snd (snd f)) evs \<and> marked js conf evs"
  shows "yields (traced (host_call_ok cr js iface conf found) log0 R)
    (teardown_and_install js (observed ops) hostname iface conf had_backup f state outcome)
    (\<lambda>_. traced (host_call_ok cr js iface conf found) log0 R)"
  unfolding teardown_and_install_def [abs_def] observed_sel
  by (rule yields_rules finish_install_trace traced_query assms
      yields_traced_drop [OF traced_call [OF assms(1)]] | assumption
    | use assms(2) in \<open>force simp: host_call_ok_def\<close>)+

lemma install_trace:
  assumes "lasting R" and cl: "\<And>evs. R evs \<Longrightarrow> cleared cr found (snd (snd f)) evs"
  shows "yields (traced (host_call_ok cr js iface conf found) log0 R)
    (install js (observed ops) hostname iface conf f state outcome)
    (\<lambda>_. traced (host_call_ok cr js iface conf found) log0 R)"
proof -
  let ?ok = "host_call_ok cr js iface conf found"
  have backup: "yields (traced ?ok log0 R)
      (\<lambda>s. if b then record_call (Copied conf (backup_path_for conf)) (copy_file ops conf (backup_path_for conf)) s
        else (Inr (), s)) (\<lambda>_. traced ?ok log0 R)" for b
    by (rule yields_rules yields_traced_drop [OF traced_call [OF assms(1)]] | assumption
      | use cl in \<open>force simp: host_call_ok_def\<close>)+
  have rest: "yields (traced ?ok log0 R)
      (\<lambda>host. case save_state js (observed ops) (state_path_for conf) st1 host of
          (Inl e, host) \<Rightarrow> (outcome\<lparr>so_error := Some (PendingNotPersisted e)\<rparr>, host)
        | (Inr _, host) \<Rightarrow>
            teardown_and_install js (observed ops) hostname iface conf had f st1 outcome host)
      (\<lambda>_. traced ?ok log0 R)" if p: "ls_pending st1" for st1 had
  proof (rule yields_case [OF save_state_trace [OF assms(1)]])
    fix r :: "string + unit"
    show "yields (traced ?ok log0 (\<lambda>evs. R evs \<and> saved js conf st1 r evs))
      (\<lambda>host. case r of Inl e \<Rightarrow> (outcome\<lparr>so_error := Some (PendingNotPersisted e)\<rparr>, host)
        | Inr _ \<Rightarrow> teardown_and_install js (observed ops) hostname iface conf had f st1 outcome host)
      (\<lambda>_. traced ?ok log0 R)"
    proof (cases r)
      case (Inl e)
      then show ?thesis by (auto simp: yields_def elim: traced_weaken)
    next
      case (Inr u)
      have "yields (traced ?ok log0 (\<lambda>evs. R evs \<and> marked js conf evs))
          (teardown_and_install js (observed ops) hostname iface conf had f st1 outcome)
          (\<lambda>_. traced ?ok log0 (\<lambda>evs. R evs \<and> marked js conf evs))"
        by (rule teardown_and_install_trace) (auto intro: assms(1) dest: cl)
      then have "yields (traced ?ok log0 (\<lambda>evs. R evs \<and> saved js conf st1 r evs))
          (teardown_and_install js (observed ops) hostname iface conf had f st1 outcome)
          (\<lambda>_. traced ?ok log0 R)"
        by (rule yields_weaken) (use Inr p in \<open>auto elim!: traced_weaken intro: saved_marked\<close>)
      with Inr show ?thesis by simp
    qed
  qed
  show ?thesis
    unfolding install_def [abs_def] observed_sel Let_def
    by (rule yields_rules traced_query backup rest | assumption | simp)+
qed

lemma apply_phase_trace:
  assumes found: "found = Inr f"
  shows "yields (traced (host_call_ok cr js iface conf found) log0 (\<lambda>_. True))
    (apply_phase cr js (observed ops) hostname iface conf force ep f state outcome)
    (\<lambda>_. traced (host_call_ok cr js iface conf found) log0 (\<lambda>_. True))"
proof (cases "parse_wg_quick cr (from_utf8_lossy (snd (snd f)))")
  case (Inl e)
  then show ?thesis unfolding apply_phase_def [abs_def] by (simp add: yields_return)
next
  case (Inr cfg)
  let ?ok = "host_call_ok cr js iface conf found"
  obtain gid digest b where f: "f = (gid, digest, b)" by (cases f) auto
  have query: "yields (traced ?ok log0 (\<lambda>_. True))
      (\<lambda>s. if c then record_query (interface_exists ops iface) s else (False, s))
      (\<lambda>_. traced ?ok log0 (\<lambda>_. True))" for c
    by (rule yields_rules traced_query | assumption)+
  have pre: "yields (traced ?ok log0 (\<lambda>_. True))
      (record_call (Preflighted cfg) (preflight ops cfg ep iface))
      (\<lambda>r. traced ?ok log0 (\<lambda>evs. True \<and> Preflighted cfg r \<in> set evs))"
    by (rule traced_call) (use Inr in \<open>auto simp: host_call_ok_def found f\<close>)
  have inst: "yields (traced ?ok log0 (\<lambda>evs. True \<and> Preflighted cfg (Inr ()) \<in> set evs))
      (install js (observed ops) hostname iface conf f state outcome) (\<lambda>_. traced ?ok log0 (\<lambda>_. True))"
  proof -
    have "yields (traced ?ok log0 (\<lambda>evs. Preflighted cfg (Inr ()) \<in> set evs))
        (install js (observed ops) hostname iface conf f state outcome)
        (\<lambda>_. traced ?ok log0 (\<lambda>evs. Preflighted cfg (Inr ()) \<in> set evs))"
      by (rule install_trace) (use Inr in \<open>auto simp: cleared_def found f\<close>)
    then show ?thesis by (rule yields_weaken) (auto elim: traced_weaken)
  qed
  have rest: "yields (traced ?ok log0 (\<lambda>_. True))
      (\<lambda>host. case record_call (Preflighted cfg) (preflight ops cfg ep iface) host of
          (Inl e, host) \<Rightarrow> (outcome\<lparr>so_error := Some (PreflightFailed e)\<rparr>, host)
        | (Inr _, host) \<Rightarrow> install js (observed ops) hostname iface conf f state outcome host)
      (\<lambda>_. traced ?ok log0 (\<lambda>_. True))"
  proof (rule yields_case [OF pre], rule yields_sum)
    fix r e
    show "yields (traced ?ok log0 (\<lambda>evs. True \<and> Preflighted cfg r \<in> set evs))
        (Pair (outcome\<lparr>so_error := Some (PreflightFailed e)\<rparr>)) (\<lambda>_. traced ?ok log0 (\<lambda>_. True))"
      by (rule yields_return) (auto elim: traced_weaken)
  qed (use inst in simp)
  show ?thesis
    unfolding apply_phase_def [abs_def] Inr sum.case observed_sel
    by (rule yields_rules query rest | assumption)+
qed

section \<open>Properties\<close>

text \<open>
  C9. In every sync pass, on any host and bucket and whatever they answer, the calls come in a
  safe order.  The configuration file is only written with the bytes discovery verified, and,
  like the teardown of the interface, only after those bytes parsed, the route preflight
  accepted them and the pending mark was saved; otherwise the file is only replaced by its
  backup; the backup is only overwritten with the current file once a download was accepted;
  and only this interface and this node's files are touched.
\<close>
theorem sync_call_order:
  "case run_once cr js st (observed ops) hostname iface conf force ep (bucket, host, log) of
     (outcome, bucket', host', log') \<Rightarrow>
       \<exists>evs. log' = log @ evs \<and>
         each_after (host_call_ok cr js iface conf (fst (discover_and_download cr js st hostname bucket))) evs"
proof -
  obtain found bucket1 where d: "discover_and_download cr js st hostname bucket = (found, bucket1)" by fastforce
  let ?T = "traced (host_call_ok cr js iface conf found) log (\<lambda>_. True)"
  obtain state outcome w where l:
    "local_phase cr js (observed ops) iface conf (host, log) = ((state, outcome), w)" by (metis prod.exhaust)
  have w: "?T w"
    by (rule yieldsD [OF local_phase_trace _ l]) (auto simp: traced_def intro: lasting_intros)
  show ?thesis
  proof (cases found)
    case (Inl e)
    with w show ?thesis
      by (cases w) (simp add: run_once_def l d traced_def)
  next
    case (Inr f)
    obtain o2 h2 l2 where a: "apply_phase cr js (observed ops) hostname iface conf force ep f state outcome w
        = (o2, h2, l2)" by (metis prod.exhaust)
    from yieldsD [OF apply_phase_trace [OF Inr] w a]
    show ?thesis using Inr by (simp add: run_once_def l d a traced_def)
  qed
qed

end
