(* ===== verification/Host_Contract.thy ===== *)
theory Host_Contract
  imports Sync
begin

text \<open>
  What a sync pass relies on of the host it runs on: the contract \<open>host_contract\<close> of the
  operations of \<open>SystemOps\<close>, any of which may fail, and \<open>system_contract\<close> for a host that answers its
  queries truly.  The repository's in-memory host satisfies both.
\<close>

section \<open>What a host promises\<close>

text \<open>
  \<open>files\<close> and \<open>up\<close> are the host's files and interfaces, \<open>conf\<close> the configuration file; the contract
  speaks of the three files of a pass.  The three queries report absence when the call behind
  them fails: what they find is there, but only if \<open>exact\<close> is what they do not find absent.  A
  write is atomic; a failed copy may damage its target only; configuring an interface needs a
  valid file.
\<close>

definition managed :: "path \<Rightarrow> path set" where
  "managed conf = {conf, backup_path_for conf, state_path_for conf}"

lemma managed_paths [simp]:
  "conf \<in> managed conf" "backup_path_for conf \<in> managed conf" "state_path_for conf \<in> managed conf"
  by (simp_all add: managed_def)

locale host_contract =
  fixes cr :: crates and ops :: "'o system_ops"
    and files :: "'o \<Rightarrow> path \<Rightarrow> string option" and up :: "'o \<Rightarrow> string set" and conf :: path and exact :: bool
  assumes read_sound: "\<And>p s r s'. read_file ops p s = (r, s') \<Longrightarrow> p \<in> managed conf \<Longrightarrow>
      (r = files s p \<or> \<not> exact \<and> r = None) \<and> files s' = files s \<and> up s' = up s"
    and exists_sound: "\<And>p s r s'. file_exists ops p s = (r, s') \<Longrightarrow> p \<in> managed conf \<Longrightarrow>
      (r = (files s p \<noteq> None) \<or> \<not> exact \<and> \<not> r) \<and> files s' = files s \<and> up s' = up s"
    and iface_sound: "\<And>i s r s'. interface_exists ops i s = (r, s') \<Longrightarrow>
      (r \<longrightarrow> i \<in> up s) \<and> files s' = files s \<and> up s' = up s"
    and write_ok: "\<And>p b s r s'. write_file_atomic ops p b s = (r, s') \<Longrightarrow> p \<in> managed conf \<Longrightarrow>
      up s' = up s \<and> files s' = (if is_ok r then (files s)(p \<mapsto> b) else files s)"
    and copy_ok: "\<And>f t s r s'. copy_file ops f t s = (r, s') \<Longrightarrow> f \<in> managed conf \<Longrightarrow> t \<in> managed conf \<Longrightarrow>
      up s' = up s \<and>
      (if is_ok r then files s f \<noteq> None \<and> files s' = (files s)(t := files s f)
       else (\<forall>p. p \<noteq> t \<longrightarrow> files s' p = files s p))"
    and apply_ok: "\<And>i p s r s'. apply_interface ops i p s = (r, s') \<Longrightarrow> p \<in> managed conf \<Longrightarrow>
      files s' = files s \<and>
      (is_ok r \<longrightarrow> i \<in> up s' \<and>
        (\<exists>b. files s p = Some b \<and> is_ok (parse_wg_quick cr (from_utf8_lossy b))))"
    and teardown_ok: "\<And>i s r s'. teardown_interface ops i s = (r, s') \<Longrightarrow> files s' = files s \<and>
      (is_ok r \<longrightarrow> up s' = up s - {i})"
    and preflight_ok: "\<And>c h i s r s'. preflight ops c h i s = (r, s') \<Longrightarrow> files s' = files s \<and> up s' = up s"

text \<open>A host whose queries are exact.\<close>

locale system_contract = host_contract cr ops files up conf True
  for cr :: crates and ops :: "'o system_ops"
    and files :: "'o \<Rightarrow> path \<Rightarrow> string option" and up :: "'o \<Rightarrow> string set" and conf :: path +
  assumes iface_exact: "\<And>i s s'. interface_exists ops i s = (False, s') \<Longrightarrow> i \<notin> up s"
begin

lemma read_ok:
  "read_file ops p s = (r, s') \<Longrightarrow> p \<in> managed conf \<Longrightarrow> r = files s p \<and> files s' = files s \<and> up s' = up s"
  by (drule read_sound) simp_all

lemma exists_ok:
  "file_exists ops p s = (r, s') \<Longrightarrow> p \<in> managed conf \<Longrightarrow>
    r = (files s p \<noteq> None) \<and> files s' = files s \<and> up s' = up s"
  by (drule exists_sound) simp_all

lemma iface_ok:
  "interface_exists ops i s = (r, s') \<Longrightarrow> r = (i \<in> up s) \<and> files s' = files s \<and> up s' = up s"
  using iface_sound [of i s r s'] iface_exact [of i s s'] by (cases r) auto

end

lemmas mock_sys_defs = mock_sys_def my_read_file_def my_write_file_atomic_def my_copy_file_def
  my_file_exists_def my_interface_exists_def my_apply_interface_def my_teardown_interface_def
  my_preflight_def set_file_def

definition mock_up :: "mock_system \<Rightarrow> string set" where
  "mock_up m = set (my_up_interfaces m)"

definition mock_files :: "mock_system \<Rightarrow> path \<Rightarrow> string option" where
  "mock_files m p = get_file p m"

lemma mock_files_simps [simp]:
  "mock_files (m\<lparr>my_files := f\<rparr>) = bt_get f"
  "mock_files (m\<lparr>my_up_interfaces := u\<rparr>) = mock_files m"
  "mock_files (m\<lparr>my_calls := c\<rparr>) = mock_files m"
  "mock_files (m\<lparr>my_fail_next_apply := n\<rparr>) = mock_files m"
  "mock_files (m\<lparr>my_fail_next_teardown := n\<rparr>) = mock_files m"
  "mock_files (m\<lparr>my_fail_next_write := n\<rparr>) = mock_files m"
  "mock_files (m\<lparr>my_fail_next_preflight := n\<rparr>) = mock_files m"
  by (simp_all add: fun_eq_iff mock_files_def get_file_def)

lemma mock_files_get: "bt_get (my_files m) p = mock_files m p"
  by (simp add: mock_files_def get_file_def)

lemma mock_files_keys: "p \<in> set (bt_keys (my_files m)) \<longleftrightarrow> mock_files m p \<noteq> None"
  using bt_get_None_keys [of "my_files m" p] by (simp add: mock_files_get)

lemma bt_get_insert_fun: "bt_get (bt_insert k v m) = (bt_get m)(k \<mapsto> v)"
  by (simp add: fun_eq_iff)

lemma bt_get_my_files: "bt_get (my_files m) = mock_files m"
  by (simp add: fun_eq_iff mock_files_get)

interpretation mock_sys: system_contract cr "mock_sys cr" mock_files mock_up conf for cr conf
proof
  fix p q b i c h s s'
  note simps = mock_sys_defs mock_up_def bt_get_insert_fun bt_get_my_files mock_files_keys Let_def
  show "read_file (mock_sys cr) p s = (r, s') \<Longrightarrow>
      (r = mock_files s p \<or> \<not> True \<and> r = None) \<and> mock_files s' = mock_files s \<and> mock_up s' = mock_up s" for r
    by (auto simp: simps)
  show "file_exists (mock_sys cr) p s = (r, s') \<Longrightarrow>
      (r = (mock_files s p \<noteq> None) \<or> \<not> True \<and> \<not> r) \<and> mock_files s' = mock_files s \<and> mock_up s' = mock_up s" for r
    by (auto simp: simps)
  show "interface_exists (mock_sys cr) i s = (r, s') \<Longrightarrow>
      (r \<longrightarrow> i \<in> mock_up s) \<and> mock_files s' = mock_files s \<and> mock_up s' = mock_up s" for r
    by (auto simp: simps)
  show "interface_exists (mock_sys cr) i s = (False, s') \<Longrightarrow> i \<notin> mock_up s"
    by (auto simp: simps)
  show "write_file_atomic (mock_sys cr) p b s = (r, s') \<Longrightarrow> mock_up s' = mock_up s \<and>
      mock_files s' = (if is_ok r then (mock_files s)(p \<mapsto> b) else mock_files s)" for r
    by (auto simp: simps split: if_splits)
  show "copy_file (mock_sys cr) p q s = (r, s') \<Longrightarrow> mock_up s' = mock_up s \<and>
      (if is_ok r then mock_files s p \<noteq> None \<and> mock_files s' = (mock_files s)(q := mock_files s p)
       else (\<forall>x. x \<noteq> q \<longrightarrow> mock_files s' x = mock_files s x))" for r
    by (auto simp: simps split: option.splits)
  show "apply_interface (mock_sys cr) i p s = (r, s') \<Longrightarrow> mock_files s' = mock_files s \<and>
      (is_ok r \<longrightarrow> i \<in> mock_up s' \<and>
        (\<exists>b. mock_files s p = Some b \<and> is_ok (parse_wg_quick cr (from_utf8_lossy b))))" for r
    by (auto simp: simps split: if_splits option.splits sum.splits)
  show "teardown_interface (mock_sys cr) i s = (r, s') \<Longrightarrow> mock_files s' = mock_files s \<and>
      (is_ok r \<longrightarrow> mock_up s' = mock_up s - {i})" for r
    by (auto simp: simps split: if_splits)
  show "preflight (mock_sys cr) c h i s = (r, s') \<Longrightarrow> mock_files s' = mock_files s \<and> mock_up s' = mock_up s" for r
    by (auto simp: simps split: if_splits)
qed

end
