(* ===== verification/Sync_Transaction.thy ===== *)
theory Sync_Transaction
  imports Sync_Valid Host_Contract
begin

text \<open>
  What a sync pass leaves on a host any of whose operations may fail (\<open>host_contract\<close>): the file,
  the backup, the saved state and the interface after every outcome.  The lemmas are proved
  from the contract; the properties are about the in-memory host, which satisfies it.
\<close>

lemma yields_exact: "yields P q (\<lambda>r t. \<exists>s. P s \<and> q s = (r, t))"
  by (rule yieldsI) blast

text \<open>The files a pass works with are different ones.\<close>

lemma pass_paths [simp]:
  "state_path_for c \<noteq> c" "c \<noteq> state_path_for c" "backup_path_for c \<noteq> c" "c \<noteq> backup_path_for c"
  "state_path_for c \<noteq> backup_path_for c" "backup_path_for c \<noteq> state_path_for c"
  by (simp_all add: state_path_for_def backup_path_for_def append_suffix_def)

text \<open>
  \<open>leaves\<close> says what a pass leaves: \<open>c1\<close> is the file and \<open>u1\<close> the interfaces when it starts to talk
  to the bucket, \<open>found\<close> the verified download.  After a failure between the mark and the end, the
  mark is durable, unless the rollback brought the file and the interface back.  It is of one
  of two kinds: with a backup, then the backup holds the old file; or without one, then the
  file holds what it held or the whole download.  On a host with exact queries a mark without a
  backup means that there was no file; on others the query for it may have failed.
\<close>

definition pending_on_disk :: "client_serde \<Rightarrow> path \<Rightarrow> bool \<Rightarrow> (path \<Rightarrow> string option) \<Rightarrow> bool" where
  "pending_on_disk js conf had fs \<longleftrightarrow>
     (\<exists>b state. fs (state_path_for conf) = Some b \<and> cs_state_to js state = Inr b \<and> ls_pending state \<and>
        ls_had_backup_before_pending state = had)"

definition recoverable ::
  "client_serde \<Rightarrow> path \<Rightarrow> bool \<Rightarrow> string option \<Rightarrow> string \<Rightarrow> bool \<Rightarrow> (path \<Rightarrow> string option) \<Rightarrow> bool" where
  "recoverable js conf exact c1 new had fs \<longleftrightarrow>
     pending_on_disk js conf had fs \<and>
     (if had then c1 \<noteq> None \<and> fs (backup_path_for conf) = c1
      else (exact \<longrightarrow> c1 = None) \<and> (fs conf = c1 \<or> fs conf = Some new))"

definition interrupts :: "sync_error \<Rightarrow> bool" where
  "interrupts e = (case e of TeardownFailed _ \<Rightarrow> True | InstallFailed _ \<Rightarrow> True | ApplyFailed _ \<Rightarrow> True | _ \<Rightarrow> False)"

definition leaves ::
  "client_serde \<Rightarrow> string \<Rightarrow> path \<Rightarrow> bool \<Rightarrow> string option \<Rightarrow> string set \<Rightarrow> local_state
    \<Rightarrow> sync_error + string \<times> string \<times> string \<Rightarrow> sync_outcome \<Rightarrow> (path \<Rightarrow> string option) \<Rightarrow> string set \<Rightarrow> bool" where
  "leaves js iface conf exact c1 u1 state found outcome fs us =
     (case so_error outcome of
        None \<Rightarrow> iface \<in> us \<and>
          (\<exists>gid digest bytes. found = Inr (gid, digest, bytes) \<and>
            (if so_applied outcome then fs conf = Some bytes
             else so_no_op outcome \<and> ls_applied_digest state = Some digest \<and> fs conf = c1))
      | Some e \<Rightarrow> so_applied outcome = False \<and>
          (if \<not> interrupts e then fs conf = c1 \<and> us = u1
           else if so_rollback_succeeded outcome then fs conf = c1 \<and> c1 \<noteq> None \<and> iface \<in> us
           else \<exists>gid digest bytes had. found = Inr (gid, digest, bytes) \<and> recoverable js conf exact c1 bytes had fs))"

context host_contract
begin

lemma save_result:
  assumes "save_state js ops (state_path_for conf) state s = (r, t)"
  shows "up t = up s \<and> (if is_ok r
    then \<exists>b. cs_state_to js state = Inr b \<and> files t = (files s)(state_path_for conf \<mapsto> b) else files t = files s)"
  using assms
  by (cases "cs_state_to js state") (auto simp: save_state_def dest!: write_ok)

lemma ignored_save:
  "up (ignore_result (save_state js ops (state_path_for conf) state) s) = up s"
  "q \<noteq> state_path_for conf \<Longrightarrow> files (ignore_result (save_state js ops (state_path_for conf) state) s) q = files s q"
  "ls_pending state \<Longrightarrow> ls_had_backup_before_pending state = had \<Longrightarrow> recoverable js conf exact c1 new had (files s) \<Longrightarrow>
    recoverable js conf exact c1 new had (files (ignore_result (save_state js ops (state_path_for conf) state) s))"
proof -
  obtain r t where e: "save_state js ops (state_path_for conf) state s = (r, t)" by fastforce
  note r = save_result [OF e]
  have i: "ignore_result (save_state js ops (state_path_for conf) state) s = t" by (simp add: ignore_result_def e)
  show "up (ignore_result (save_state js ops (state_path_for conf) state) s) = up s"
    "q \<noteq> state_path_for conf \<Longrightarrow> files (ignore_result (save_state js ops (state_path_for conf) state) s) q = files s q"
    "ls_pending state \<Longrightarrow> ls_had_backup_before_pending state = had \<Longrightarrow> recoverable js conf exact c1 new had (files s) \<Longrightarrow>
      recoverable js conf exact c1 new had (files (ignore_result (save_state js ops (state_path_for conf) state) s))"
    unfolding i using r by (auto simp: recoverable_def pending_on_disk_def split: if_splits)
qed

lemma recoverable_other:
  "recoverable js conf exact c1 new had fs \<Longrightarrow> (\<And>p. p \<noteq> conf \<Longrightarrow> fs' p = fs p) \<Longrightarrow>
    had \<or> fs' conf = fs conf \<or> fs' conf = Some new \<Longrightarrow> recoverable js conf exact c1 new had fs'"
  by (auto simp: recoverable_def pending_on_disk_def)

lemma rollback_leaves:
  assumes "recoverable js conf exact c1 new had (files s)"
    and "ls_pending state" and "ls_had_backup_before_pending state = had"
    and "so_rollback_succeeded outcome = False"
    and "attempt_rollback js ops iface conf had state outcome s = ((state', outcome'), t)"
  shows "so_error outcome' = so_error outcome \<and> so_applied outcome' = so_applied outcome \<and>
    (if so_rollback_succeeded outcome' then files t conf = c1 \<and> c1 \<noteq> None \<and> iface \<in> up t
     else recoverable js conf exact c1 new had (files t))"
proof (cases had)
  case False
  then show ?thesis
    using assms ignored_save(3) [OF assms(2,3,1)] by (auto simp: attempt_rollback_def Let_def)
next
  case True
  obtain r s1 where c: "copy_file ops (backup_path_for conf) conf s = (r, s1)" by fastforce
  note c' = copy_ok [OF c, simplified]
  have rec1: "recoverable js conf exact c1 new had (files s1)"
    using c' assms(1) True by (cases "is_ok r") (auto elim!: recoverable_other)
  show ?thesis
  proof (cases r)
    case (Inl e)
    then show ?thesis
      using assms True ignored_save(3) [OF assms(2,3) rec1] by (auto simp: attempt_rollback_def Let_def c)
  next
    case (Inr u)
    obtain r2 s2 where a: "apply_interface ops iface conf s1 = (r2, s2)" by fastforce
    note a' = apply_ok [OF a, simplified]
    have f1: "files s1 conf = c1 \<and> c1 \<noteq> None" using c' Inr assms(1) True by (auto simp: recoverable_def)
    have "recoverable js conf exact c1 new had (files s2)" using rec1 a' by simp
    note rec2 = ignored_save(3) [OF assms(2,3) this]
    show ?thesis
      using assms True ignored_save(1,2) rec2 Inr a' f1
      by (cases "is_ok r2") (auto simp: attempt_rollback_def Let_def c a)
  qed
qed

lemma finish_leaves:
  assumes "recoverable js conf exact c1 bytes had (files s)" and "ls_pending state"
    and "ls_had_backup_before_pending state = had"
    and "so_rollback_succeeded outcome = False" and "so_applied outcome = False" and "so_error outcome = None"
    and "finish_install js ops hostname iface conf had (gid, digest, bytes) state outcome s = (outcome', t)"
  shows "leaves js iface conf exact c1 u1 state0 (Inr (gid, digest, bytes)) outcome' (files t) (up t)"
proof -
  obtain r s1 where w: "write_file_atomic ops conf bytes s = (r, s1)" by fastforce
  note w' = write_ok [OF w, simplified]
  have rec1: "recoverable js conf exact c1 bytes had (files s1)"
    using w' assms(1) by (auto elim!: recoverable_other split: if_splits)
  show ?thesis
  proof (cases r)
    case (Inl e)
    obtain st o2 s2 where b: "attempt_rollback js ops iface conf had state
        (outcome\<lparr>so_error := Some (InstallFailed e)\<rparr>) s1 = ((st, o2), s2)" by (metis prod.exhaust)
    have "outcome' = o2" "t = s2" using assms(7) by (simp_all add: finish_install_def w Inl b)
    with rollback_leaves [OF rec1 assms(2,3) _ b] assms(4-6) show ?thesis
      by (auto simp: leaves_def interrupts_def)
  next
    case (Inr u)
    obtain r2 s2 where a: "apply_interface ops iface conf s1 = (r2, s2)" by fastforce
    note a' = apply_ok [OF a, simplified]
    show ?thesis
    proof (cases r2)
      case (Inl e)
      have rec2: "recoverable js conf exact c1 bytes had (files s2)" using rec1 a' by simp
      obtain st o2 s3 where b: "attempt_rollback js ops iface conf had state
          (outcome\<lparr>so_error := Some (ApplyFailed e)\<rparr>) s2 = ((st, o2), s3)" by (metis prod.exhaust)
      have "outcome' = o2" "t = s3"
        using assms(7) \<open>r = Inr u\<close> by (simp_all add: finish_install_def w a Inl b)
      with rollback_leaves [OF rec2 assms(2,3) _ b] assms(4-6) show ?thesis
        by (auto simp: leaves_def interrupts_def)
    next
      case (Inr u2)
      with \<open>r = Inr u\<close> w' a' assms show ?thesis
        by (auto simp: finish_install_def w a Let_def leaves_def ignored_save)
    qed
  qed
qed

lemma teardown_leaves:
  assumes "recoverable js conf exact c1 bytes had (files s)" and "ls_pending state"
    and "ls_had_backup_before_pending state = had"
    and "so_rollback_succeeded outcome = False" and "so_applied outcome = False" and "so_error outcome = None"
    and "teardown_and_install js ops hostname iface conf had (gid, digest, bytes) state outcome s = (outcome', t)"
  shows "leaves js iface conf exact c1 u1 state0 (Inr (gid, digest, bytes)) outcome' (files t) (up t)"
proof -
  obtain b s1 where i: "interface_exists ops iface s = (b, s1)" by fastforce
  have rec1: "recoverable js conf exact c1 bytes had (files s1)" using iface_sound [OF i] assms(1) by simp
  note finish = finish_leaves [OF _ assms(2-6)]
  show ?thesis
  proof (cases b)
    case False
    then show ?thesis using finish [OF rec1] assms(7) by (simp add: teardown_and_install_def i)
  next
    case True
    obtain r s2 where d: "teardown_interface ops iface s1 = (r, s2)" by fastforce
    have rec2: "recoverable js conf exact c1 bytes had (files s2)" using teardown_ok [OF d] rec1 by simp
    show ?thesis
    proof (cases r)
      case (Inl e)
      then show ?thesis using assms rec2 True
        by (auto simp: teardown_and_install_def i d leaves_def interrupts_def)
    next
      case (Inr u)
      then show ?thesis using finish [OF rec2] assms(7) True by (simp add: teardown_and_install_def i d)
    qed
  qed
qed

lemma install_leaves:
  assumes "so_rollback_succeeded outcome = False" and "so_applied outcome = False" and "so_error outcome = None"
    and "files s conf = c1" and "up s = u1"
    and "install js ops hostname iface conf (gid, digest, bytes) state outcome s = (outcome', t)"
  shows "leaves js iface conf exact c1 u1 state0 (Inr (gid, digest, bytes)) outcome' (files t) (up t)"
proof -
  obtain had s1 where x: "file_exists ops conf s = (had, s1)" by fastforce
  note x' = exists_sound [OF x, simplified]
  obtain r s2 where c: "(if had then copy_file ops conf (backup_path_for conf) s1 else (Inr (), s1)) = (r, s2)"
    by fastforce
  have had: "(had \<longrightarrow> c1 \<noteq> None) \<and> (\<not> had \<longrightarrow> exact \<longrightarrow> c1 = None)" using x' assms(4) by auto
  have c': "up s2 = u1 \<and> files s2 conf = c1 \<and> (is_ok r \<longrightarrow> had \<longrightarrow> files s2 (backup_path_for conf) = c1)"
    using c x' assms(4,5) had by (auto split: if_splits dest!: copy_ok)
  let ?st = "state\<lparr>ls_pending := True, ls_had_backup_before_pending := had\<rparr>"
  show ?thesis
  proof (cases r)
    case (Inl e)
    then show ?thesis using assms x c c' by (auto simp: install_def leaves_def interrupts_def)
  next
    case (Inr u)
    obtain r2 s3 where sv: "save_state js ops (state_path_for conf) ?st s2 = (r2, s3)" by fastforce
    note sv' = save_result [OF sv]
    show ?thesis
    proof (cases r2)
      case (Inl e)
      then show ?thesis using assms x c c' Inr sv sv'
        by (auto simp: install_def leaves_def interrupts_def Let_def)
    next
      case (Inr u2)
      have "recoverable js conf exact c1 bytes had (files s3)"
        using sv' Inr c' had \<open>r = Inr u\<close> by (auto simp: recoverable_def pending_on_disk_def intro!: exI [of _ ?st])
      moreover have "teardown_and_install js ops hostname iface conf had (gid, digest, bytes) ?st outcome s3
          = (outcome', t)"
        using assms(6) \<open>r = Inr u\<close> by (simp add: install_def x c sv Inr Let_def)
      ultimately show ?thesis
        by (intro teardown_leaves [of js c1 bytes had s3 ?st outcome hostname iface]) (simp_all add: assms(1-3))
    qed
  qed
qed

lemma apply_phase_leaves:
  assumes "so_rollback_succeeded outcome = False" and "so_applied outcome = False" and "so_error outcome = None"
    and "files s conf = c1" and "up s = u1"
    and "apply_phase cr js ops hostname iface conf force ep f state outcome s = (outcome', t)"
  shows "leaves js iface conf exact c1 u1 state (Inr f) outcome' (files t) (up t)"
proof -
  obtain gid digest bytes where f: "f = (gid, digest, bytes)" by (cases f) auto
  show ?thesis
  proof (cases "parse_wg_quick cr (from_utf8_lossy bytes)")
    case (Inl e)
    then show ?thesis using assms by (auto simp: apply_phase_def f leaves_def interrupts_def)
  next
    case (Inr cfg)
    obtain same s1 where q: "(if \<not> force \<and> ls_applied_digest state = Some digest
        then interface_exists ops iface s else (False, s)) = (same, s1)" by fastforce
    have q': "files s1 = files s \<and> up s1 = up s \<and>
        (same \<longrightarrow> iface \<in> up s \<and> ls_applied_digest state = Some digest)"
      using q by (auto split: if_splits dest!: iface_sound)
    obtain r s2 where p: "preflight ops cfg ep iface s1 = (r, s2)" by fastforce
    have p': "files s2 conf = c1" "up s2 = u1" using preflight_ok [OF p] q' assms(4,5) by auto
    consider (same) same | (refused) e where "\<not> same" "r = Inl e" | (go) "\<not> same" "r = Inr ()"
      by (cases same; cases r) auto
    then show ?thesis
    proof cases
      case same
      then have "outcome' = outcome\<lparr>so_no_op := True\<rparr>" "t = s1"
        using assms(6) by (simp_all add: apply_phase_def f Inr q)
      then show ?thesis using assms(1-5) q' same by (simp add: f leaves_def)
    next
      case refused
      then have "outcome' = outcome\<lparr>so_error := Some (PreflightFailed e)\<rparr>" "t = s2"
        using assms(6) by (simp_all add: apply_phase_def f Inr q p)
      then show ?thesis using p' assms(2) by (simp add: leaves_def interrupts_def)
    next
      case go
      then have "install js ops hostname iface conf (gid, digest, bytes) state outcome s2 = (outcome', t)"
        using assms(6) by (simp add: apply_phase_def f Inr q p)
      then show ?thesis unfolding f by (rule install_leaves [OF assms(1-3) p'])
    qed
  qed
qed

lemma local_phase_outcome:
  assumes "local_phase cr js ops iface conf s = ((state, outcome), t)"
  shows "so_rollback_succeeded outcome = False \<and> so_applied outcome = False \<and> so_error outcome = None"
  using assms
  by (auto simp: local_phase_def recover_pending_def restore_local_if_valid_def sync_outcome_default_def
      Let_def split: prod.splits bool.splits option.splits sum.splits if_splits)

lemma run_once_leaves:
  assumes l: "local_phase cr js ops iface conf s = ((state, outcome), s1)"
    and r: "run_once cr js st ops hostname iface conf force ep (bucket, s) = (outcome', bucket', t)"
    and e: "\<And>e. fst (discover_and_download cr js st hostname bucket) = Inl e \<Longrightarrow> \<not> interrupts e"
  shows "leaves js iface conf exact (files s1 conf) (up s1) state
    (fst (discover_and_download cr js st hostname bucket)) outcome' (files t) (up t)"
proof -
  note o = local_phase_outcome [OF l]
  obtain found b1 where d: "discover_and_download cr js st hostname bucket = (found, b1)" by fastforce
  show ?thesis
  proof (cases found)
    case (Inl err)
    then show ?thesis using r l d o e [of err] by (auto simp: run_once_def leaves_def)
  next
    case (Inr f)
    obtain o2 s2 where a: "apply_phase cr js ops hostname iface conf force ep f state outcome s1 = (o2, s2)"
      by fastforce
    have "outcome' = o2" "t = s2" using r l d a Inr by (simp_all add: run_once_def)
    moreover have "leaves js iface conf exact (files s1 conf) (up s1) state (Inr f) o2 (files s2) (up s2)"
      using o by (intro apply_phase_leaves [OF _ _ _ refl refl a]) simp_all
    ultimately show ?thesis using d Inr by simp
  qed
qed

end

text \<open>Discovery never reports an error of the transaction.\<close>

lemma discover_rounds_error:
  "triple (\<lambda>_. True) (discover_rounds cr js st hostname n) (\<lambda>_ _. True) (\<lambda>e _. \<not> interrupts e)"
proof (induction n)
  case 0
  then show ?case by (simp add: triple_def interrupts_def)
next
  case (Suc n)
  have read: "triple (\<lambda>_. True) (io_map_err StorageFailed (st k)) (\<lambda>_ _. True) (\<lambda>e _. \<not> interrupts e)" for k
    by (auto simp: triple_def io_map_err_def map_err_def interrupts_def split: prod.splits sum.splits)
  show ?case
    unfolding discover_rounds.simps
    by (rule triple_then [OF read] triple_rules Suc.IH
        | force simp: interrupts_def ok_or_def map_err_def split: option.splits sum.splits)+
qed

lemma discovery_error_harmless:
  "fst (discover_and_download cr js st hostname bucket) = Inl e \<Longrightarrow> \<not> interrupts e"
  using tripleD(2) [OF discover_rounds_error [of cr js st hostname MAX_DISCOVERY_ROUNDS], of bucket e]
  by (simp add: discover_and_download_def prod_eq_iff)

text \<open>What a pass leaves on the in-memory host of the repository's tests.\<close>

theorem sync_transaction:
  "case local_phase cr js (mock_sys cr) iface conf host of ((state, _), host1) \<Rightarrow>
   (case run_once cr js st (mock_sys cr) hostname iface conf force ep (bucket, host) of
     (outcome, _, host') \<Rightarrow>
       leaves js iface conf True (mock_files host1 conf) (mock_up host1) state
         (fst (discover_and_download cr js st hostname bucket)) outcome (mock_files host') (mock_up host'))"
  by (auto split: prod.splits intro!: mock_sys.run_once_leaves dest: discovery_error_harmless)

section \<open>Recovery and local restore\<close>

lemma mock_exists:
  "file_exists (mock_sys cr) p h = (mock_files h p \<noteq> None, h)"
  by (simp add: mock_sys_defs mock_files_keys)

lemma mock_restored:
  assumes "mock_files h (backup_path_for conf) = Some c"
  shows "mock_files (ignore_result (copy_file (mock_sys cr) (backup_path_for conf) conf) h) conf = Some c"
    and "mock_up (ignore_result (copy_file (mock_sys cr) (backup_path_for conf) conf) h) = mock_up h"
    and "my_fail_next_apply (ignore_result (copy_file (mock_sys cr) (backup_path_for conf) conf) h) = my_fail_next_apply h"
  using assms by (auto simp: ignore_result_def mock_sys_defs mock_files_get mock_up_def bt_get_insert_fun)

lemma mock_interface: "interface_exists (mock_sys cr) i h = (i \<in> mock_up h, h)"
  by (simp add: mock_sys_defs mock_up_def)

lemma mock_restore:
  assumes "restore_local_if_valid cr (mock_sys cr) iface conf o1 h = (o2, h2)"
  shows "mock_files h2 = mock_files h \<and> so_recovered_pending o2 = so_recovered_pending o1 \<and>
    (iface \<in> mock_up h2 \<longleftrightarrow> iface \<in> mock_up h \<or>
      my_fail_next_apply h = 0 \<and> (\<exists>c. mock_files h conf = Some c \<and> is_ok (parse_wg_quick cr (from_utf8_lossy c))))"
proof (cases "mock_files h conf")
  case None
  then show ?thesis using assms by (auto simp: restore_local_if_valid_def mock_sys_defs mock_files_get)
next
  case (Some c)
  then show ?thesis
    using assms
    by (cases "parse_wg_quick cr (from_utf8_lossy c)"; cases "my_fail_next_apply h > 0")
      (auto simp: restore_local_if_valid_def mock_sys_defs mock_files_get mock_up_def Let_def)
qed

lemma local_phase_repairs:
  "case local_phase cr js (mock_sys cr) iface conf host of ((state, outcome), host1) \<Rightarrow>
    let st0 = fst (load_state js (mock_sys cr) (state_path_for conf) host);
        base = (if ls_pending st0 \<and> ls_had_backup_before_pending st0 \<and> mock_files host (backup_path_for conf) \<noteq> None
          then mock_files host (backup_path_for conf) else mock_files host conf)
    in mock_files host1 conf = base \<and> ls_pending state = False \<and>
      so_recovered_pending outcome = ls_pending st0 \<and>
      (iface \<in> mock_up host1) = (iface \<in> mock_up host \<or>
        my_fail_next_apply host = 0 \<and> (\<exists>c. base = Some c \<and> is_ok (parse_wg_quick cr (from_utf8_lossy c))))"
proof -
  define st0 where "st0 = fst (load_state js (mock_sys cr) (state_path_for conf) host)"
  define base where "base = (if ls_pending st0 \<and> ls_had_backup_before_pending st0 \<and>
      mock_files host (backup_path_for conf) \<noteq> None
    then mock_files host (backup_path_for conf) else mock_files host conf)"
  have load: "load_state js (mock_sys cr) (state_path_for conf) host = (st0, host)"
    by (simp add: st0_def load_state_def mock_sys_defs)
  obtain state o1 h1 where rec: "recover_pending js (mock_sys cr) conf st0 sync_outcome_default host = ((state, o1), h1)"
    by (metis prod.exhaust)
  have saved: "mock_files (ignore_result (save_state js (mock_sys cr) (state_path_for conf) s) h) conf = mock_files h conf \<and>
      mock_up (ignore_result (save_state js (mock_sys cr) (state_path_for conf) s) h) = mock_up h \<and>
      my_fail_next_apply (ignore_result (save_state js (mock_sys cr) (state_path_for conf) s) h) = my_fail_next_apply h"
    for s h
    by (cases "cs_state_to js s")
      (auto simp: ignore_result_def save_state_def mock_sys_defs mock_files_def get_file_def mock_up_def bt_get_insert)
  have h1: "mock_files h1 conf = base \<and> mock_up h1 = mock_up host \<and> my_fail_next_apply h1 = my_fail_next_apply host \<and>
      ls_pending state = False \<and> so_recovered_pending o1 = ls_pending st0"
    using rec unfolding base_def
    by (cases "ls_pending st0"; cases "ls_had_backup_before_pending st0";
        cases "mock_files host (backup_path_for conf)")
      (auto simp: recover_pending_def Let_def saved sync_outcome_default_def mock_exists mock_restored)
  obtain o2 h2 where r: "(if iface \<in> mock_up h1 then (o1, h1)
      else restore_local_if_valid cr (mock_sys cr) iface conf o1 h1) = (o2, h2)" by fastforce
  have l: "local_phase cr js (mock_sys cr) iface conf host = ((state, o2), h2)"
    using r by (cases "iface \<in> mock_up h1") (simp_all add: local_phase_def load rec mock_interface)
  have "mock_files h2 conf = base \<and> so_recovered_pending o2 = ls_pending st0 \<and>
      (iface \<in> mock_up h2) = (iface \<in> mock_up host \<or>
        my_fail_next_apply host = 0 \<and> (\<exists>c. base = Some c \<and> is_ok (parse_wg_quick cr (from_utf8_lossy c))))"
  proof (cases "iface \<in> mock_up h1")
    case True
    then show ?thesis using r h1 by simp
  next
    case False
    then have "restore_local_if_valid cr (mock_sys cr) iface conf o1 h1 = (o2, h2)" using r by simp
    from mock_restore [OF this] h1 False show ?thesis by simp
  qed
  with h1 show ?thesis unfolding l st0_def [symmetric] base_def [symmetric] Let_def prod.case by simp
qed

text \<open>
  C21. Before a pass talks to the bucket it repairs the host from local files alone: the file is
  the backup if a transaction was pending that had one and the backup exists, and otherwise as
  it was; no transaction is pending any more; and the interface is up exactly if it already
  was, or the file is a valid configuration and configuring it succeeds.
\<close>
theorem local_recovery:
  "case local_phase cr js (mock_sys cr) iface conf host of ((state, outcome), host1) \<Rightarrow>
    let st0 = fst (load_state js (mock_sys cr) (state_path_for conf) host);
        base = (if ls_pending st0 \<and> ls_had_backup_before_pending st0 \<and> mock_files host (backup_path_for conf) \<noteq> None
          then mock_files host (backup_path_for conf) else mock_files host conf)
    in mock_files host1 conf = base \<and> ls_pending state = False \<and>
      so_recovered_pending outcome = ls_pending st0 \<and>
      (iface \<in> mock_up host1) = (iface \<in> mock_up host \<or>
        my_fail_next_apply host = 0 \<and> (\<exists>c. base = Some c \<and> is_ok (parse_wg_quick cr (from_utf8_lossy c))))"
  by (rule local_phase_repairs)

text \<open>A host on which copying fails, for instance because its disk is full; else it works.\<close>

definition full_disk :: "'o system_ops \<Rightarrow> 'o system_ops" where
  "full_disk ops = ops\<lparr>copy_file := (\<lambda>_ _ s. (Inl ''no space left on device'', s))\<rparr>"

text \<open>
  C40. Recovery does not look at the result of restoring the backup: when the copy fails, the
  file of the interrupted transaction stays in place, and the transaction is still reported as
  recovered and no longer pending, so no later pass restores the backup either.
\<close>
theorem recovery_ignores_failed_restore:
  "case recover_pending js (full_disk (mock_sys cr)) conf
      (state\<lparr>ls_pending := True, ls_had_backup_before_pending := True\<rparr>) outcome host of
     ((state', outcome'), host') \<Rightarrow>
       ls_pending state' = False \<and> so_recovered_pending outcome' = True \<and>
       mock_files host' conf = mock_files host conf"
proof -
  have w: "save_state js (full_disk ops) = save_state js ops" "file_exists (full_disk ops) = file_exists ops"
    for ops :: "mock_system system_ops"
    by (simp_all add: save_state_def full_disk_def fun_eq_iff)
  have c: "ignore_result (copy_file (full_disk ops) p q) h = h" for ops :: "mock_system system_ops" and p q h
    by (simp add: full_disk_def ignore_result_def)
  show ?thesis
    by (simp add: recover_pending_def Let_def w c mock_exists mock_sys.ignored_save(2))
qed

end
