(* ===== verification/Working_Host.thy ===== *)
theory Working_Host
  imports Sync_Transaction
begin

text \<open>
  A host on which nothing fails: a pass that found a verified file there succeeds.  The contract
  \<open>working_host\<close> extends \<open>system_contract\<close>; the in-memory host without injected failures satisfies it.
\<close>

locale working_host = system_contract +
  fixes healthy :: "'a \<Rightarrow> bool"
  assumes read_healthy: "\<And>p s r s'. read_file ops p s = (r, s') \<Longrightarrow> healthy s \<Longrightarrow> healthy s'"
    and exists_healthy: "\<And>p s r s'. file_exists ops p s = (r, s') \<Longrightarrow> healthy s \<Longrightarrow> healthy s'"
    and iface_healthy: "\<And>i s r s'. interface_exists ops i s = (r, s') \<Longrightarrow> healthy s \<Longrightarrow> healthy s'"
    and write_healthy: "\<And>p b s r s'. write_file_atomic ops p b s = (r, s') \<Longrightarrow> healthy s \<Longrightarrow> is_ok r \<and> healthy s'"
    and copy_healthy: "\<And>f t s r s'. copy_file ops f t s = (r, s') \<Longrightarrow> healthy s \<Longrightarrow>
      healthy s' \<and> (files s f \<noteq> None \<longrightarrow> is_ok r)"
    and apply_healthy: "\<And>i p s r s'. apply_interface ops i p s = (r, s') \<Longrightarrow> healthy s \<Longrightarrow>
      healthy s' \<and> (\<forall>b. files s p = Some b \<longrightarrow> is_ok (parse_wg_quick cr (from_utf8_lossy b)) \<longrightarrow> is_ok r)"
    and teardown_healthy: "\<And>i s r s'. teardown_interface ops i s = (r, s') \<Longrightarrow> healthy s \<Longrightarrow> is_ok r \<and> healthy s'"
    and preflight_healthy: "\<And>c h i s r s'. preflight ops c h i s = (r, s') \<Longrightarrow> healthy s \<Longrightarrow> is_ok r \<and> healthy s'"

text \<open>The local state can always be serialised.\<close>

definition state_serializes :: "client_serde \<Rightarrow> bool" where
  "state_serializes js \<longleftrightarrow> (\<forall>st. is_ok (cs_state_to js st))"

context working_host
begin

lemma save_healthy:
  "yields healthy (save_state js ops p st) (\<lambda>r t. healthy t \<and> (state_serializes js \<longrightarrow> is_ok r))"
proof (rule yieldsI)
  fix s r t
  assume "healthy s" and sv: "save_state js ops p st s = (r, t)"
  then show "healthy t \<and> (state_serializes js \<longrightarrow> is_ok r)"
    by (cases "cs_state_to js st")
      (auto simp: save_state_def state_serializes_def dest: write_healthy dest!: spec [of _ st])
qed

lemma ignore_healthy: "healthy s \<Longrightarrow> healthy (ignore_result (save_state js ops p st) s)"
  using yieldsD [OF save_healthy, of s js p st] by (cases "save_state js ops p st s") (auto simp: ignore_result_def)

lemma local_phase_healthy:
  assumes "healthy s" and "local_phase cr js ops iface conf s = (x, t)"
  shows "healthy t"
proof -
  have copy: "healthy (ignore_result (copy_file ops f p) u)" if "healthy u" for f p u
    using that copy_healthy by (cases "copy_file ops f p u") (auto simp: ignore_result_def)
  show ?thesis
    using assms
    by (auto simp: local_phase_def load_state_def recover_pending_def restore_local_if_valid_def Let_def
        split: prod.splits bool.splits option.splits sum.splits if_splits
        intro: ignore_healthy copy dest!: read_healthy exists_healthy iface_healthy apply_healthy)
qed

text \<open>The transaction goes through, on a file the strict parser accepts.\<close>

lemma finish_succeeds:
  assumes "healthy s" and ok: "is_ok (parse_wg_quick cr (from_utf8_lossy bytes))"
    and r: "finish_install js ops hostname iface conf had (gid, digest, bytes) st outcome s = (outcome', t)"
  shows "so_error outcome' = so_error outcome \<and> so_applied outcome'"
proof -
  obtain r1 s1 where w: "write_file_atomic ops conf bytes s = (r1, s1)" by fastforce
  with write_healthy assms(1) obtain u1 where r1: "r1 = Inr u1" and h1: "healthy s1" by (metis is_ok_iff)
  have f1: "files s1 conf = Some bytes" using write_ok [OF w] r1 by simp
  obtain r2 s2 where a: "apply_interface ops iface conf s1 = (r2, s2)" by fastforce
  with apply_healthy [OF a h1] f1 ok obtain u2 where "r2 = Inr u2" by (auto simp: is_ok_iff)
  then show ?thesis using r w r1 a by (auto simp: finish_install_def Let_def)
qed

text \<open>On a healthy host every way through the transaction leads to \<open>finish_install\<close>.\<close>

lemma teardown_reaches_finish:
  assumes "healthy s"
  shows "\<exists>s'. healthy s' \<and> teardown_and_install js ops hostname iface conf had found st outcome s =
    finish_install js ops hostname iface conf had found st outcome s'"
proof -
  obtain b s1 where i: "interface_exists ops iface s = (b, s1)" by fastforce
  note h1 = iface_healthy [OF i assms]
  show ?thesis
  proof (cases b)
    case True
    obtain r2 s2 where d: "teardown_interface ops iface s1 = (r2, s2)" by fastforce
    with teardown_healthy h1 obtain u where "r2 = Inr u" "healthy s2" by (metis is_ok_iff)
    with i d True show ?thesis by (auto simp: teardown_and_install_def)
  next
    case False
    with h1 i show ?thesis by (auto simp: teardown_and_install_def)
  qed
qed

lemma install_reaches_finish:
  assumes "healthy s" and js: "state_serializes js"
  shows "\<exists>had st' s'. healthy s' \<and> install js ops hostname iface conf found st outcome s =
    finish_install js ops hostname iface conf had found st' outcome s'"
proof -
  obtain had s1 where x: "file_exists ops conf s = (had, s1)" by fastforce
  note h1 = exists_healthy [OF x assms(1)] and x' = exists_ok [OF x, simplified]
  obtain r2 s2 where c: "(if had then copy_file ops conf (backup_path_for conf) s1 else (Inr (), s1)) = (r2, s2)"
    by fastforce
  have "is_ok r2 \<and> healthy s2" using c h1 x' by (auto split: if_splits dest!: copy_healthy)
  then obtain u where r2: "r2 = Inr u" and h2: "healthy s2" by (auto simp: is_ok_iff)
  let ?st = "st\<lparr>ls_pending := True, ls_had_backup_before_pending := had\<rparr>"
  obtain r3 s3 where sv: "save_state js ops (state_path_for conf) ?st s2 = (r3, s3)" by fastforce
  have "is_ok r3 \<and> healthy s3" using yieldsD [OF save_healthy h2 sv] js by simp
  then obtain u3 where "r3 = Inr u3" and h3: "healthy s3" by (auto simp: is_ok_iff)
  then have "install js ops hostname iface conf found st outcome s =
      teardown_and_install js ops hostname iface conf had found ?st outcome s3"
    using x c r2 sv by (simp add: install_def Let_def)
  with teardown_reaches_finish [OF h3] show ?thesis by metis
qed

lemma apply_phase_reaches:
  assumes "healthy s" and ok: "is_ok (parse_wg_quick cr (from_utf8_lossy bytes))" and js: "state_serializes js"
  obtains (unchanged) s' where "\<not> force" "ls_applied_digest st = Some digest" "interface_exists ops iface s = (True, s')"
      "apply_phase cr js ops hostname iface conf force ep (gid, digest, bytes) st outcome s = (outcome\<lparr>so_no_op := True\<rparr>, s')"
  | (finish) had st' s' where "healthy s'"
      "apply_phase cr js ops hostname iface conf force ep (gid, digest, bytes) st outcome s =
        finish_install js ops hostname iface conf had (gid, digest, bytes) st' outcome s'"
proof -
  from ok obtain cfg where cfg: "parse_wg_quick cr (from_utf8_lossy bytes) = Inr cfg" by (auto simp: is_ok_iff)
  obtain b s1 where q: "(if \<not> force \<and> ls_applied_digest st = Some digest then interface_exists ops iface s
      else (False, s)) = (b, s1)" by fastforce
  have h1: "healthy s1" using q assms(1) by (auto split: if_splits dest: iface_healthy)
  show thesis
  proof (cases b)
    case True
    with q have "\<not> force" "ls_applied_digest st = Some digest" "interface_exists ops iface s = (True, s1)"
      by (auto split: if_splits)
    with cfg show thesis by (intro unchanged) (simp_all add: apply_phase_def)
  next
    case False
    obtain r2 s2 where p: "preflight ops cfg ep iface s1 = (r2, s2)" by fastforce
    with preflight_healthy h1 obtain u where r2: "r2 = Inr u" and h2: "healthy s2" by (metis is_ok_iff)
    have "apply_phase cr js ops hostname iface conf force ep (gid, digest, bytes) st outcome s =
        install js ops hostname iface conf (gid, digest, bytes) st outcome s2"
      using cfg q p False r2 by (simp add: apply_phase_def)
    with install_reaches_finish [OF h2 js] finish show thesis by metis
  qed
qed

lemma apply_phase_succeeds:
  assumes "healthy s" and ok: "is_ok (parse_wg_quick cr (from_utf8_lossy bytes))" and js: "state_serializes js"
    and r: "apply_phase cr js ops hostname iface conf force ep (gid, digest, bytes) st outcome s = (outcome', t)"
  shows "so_error outcome' = so_error outcome \<and>
    (so_applied outcome' \<or> \<not> force \<and> so_no_op outcome' \<and> ls_applied_digest st = Some digest)"
proof (rule apply_phase_reaches [OF assms(1) ok js, of force st digest iface hostname ep gid outcome])
  fix had st' s'
  assume "healthy s'" "apply_phase cr js ops hostname iface conf force ep (gid, digest, bytes) st outcome s =
      finish_install js ops hostname iface conf had (gid, digest, bytes) st' outcome s'"
  with finish_succeeds [OF _ ok] r show ?thesis by simp
qed (use r in auto)

lemma run_once_succeeds:
  assumes "healthy s" and js: "state_serializes js"
    and d: "discover_and_download cr js st hostname bucket = (Inr (gid, digest, bytes), bucket')"
    and ok: "is_ok (parse_wg_quick cr (from_utf8_lossy bytes))"
    and r: "run_once cr js st ops hostname iface conf force ep (bucket, s) = (outcome, b, t)"
  shows "so_error outcome = None \<and> b = bucket' \<and> iface \<in> up t \<and>
    (files t conf = Some bytes \<or>
      \<not> force \<and> so_no_op outcome \<and> ls_applied_digest (fst (fst (local_phase cr js ops iface conf s))) = Some digest)"
proof -
  obtain state o1 s1 where l: "local_phase cr js ops iface conf s = ((state, o1), s1)" by (metis prod.exhaust)
  note h1 = local_phase_healthy [OF assms(1) l] and o1 = local_phase_outcome [OF l]
  obtain o2 s2 where a: "apply_phase cr js ops hostname iface conf force ep (gid, digest, bytes) state o1 s1 = (o2, s2)"
    by fastforce
  have res: "outcome = o2" "t = s2" "b = bucket'" using r l d a by (simp_all add: run_once_def)
  note succ = apply_phase_succeeds [OF h1 ok js a]
  have "leaves js iface conf True (files s1 conf) (up s1) state (Inr (gid, digest, bytes)) outcome (files t) (up t)"
    using run_once_leaves [OF l r] d by simp
  with succ o1 res show ?thesis by (auto simp: leaves_def l split: if_splits)
qed

end

section \<open>The in-memory host without injected failures\<close>

definition no_injected_failures :: "mock_system \<Rightarrow> bool" where
  "no_injected_failures m \<longleftrightarrow> my_fail_next_apply m = 0 \<and> my_fail_next_teardown m = 0 \<and>
     my_fail_next_write m = 0 \<and> my_fail_next_preflight m = 0"

interpretation mock_works: working_host cr "mock_sys cr" mock_files mock_up conf no_injected_failures for cr conf
  by (intro working_host.intro working_host_axioms.intro mock_sys.system_contract_axioms)
    (auto simp: mock_sys_defs mock_files_get no_injected_failures_def is_ok_iff Let_def
      split: option.splits if_splits sum.splits)

end
