(* ===== verification/Pointer_Text.thy ===== *)
theory Pointer_Text
  imports Discovery Utf8
begin

text \<open>
  The text of a discovery pointer: the JSON document \<open>serde_json\<close> writes for \<open>CurrentJson\<close>, whose
  fields stand in the order of the struct.  It has no duplicate keys, so the pre-pass of \<open>parse\<close>
  lets it through.
\<close>

definition lits :: "string \<Rightarrow> json_char list" where
  "lits s = map (\<lambda>c. Lit [c]) s"

definition atom :: "string \<Rightarrow> json" where
  "atom s = JAtom (map (\<lambda>c. [c]) s)"

definition entry_json :: "generation_entry \<Rightarrow> json" where
  "entry_json g = JObject
     [(lits ''id'', JString (lits (ge_id g))),
      (lits ''nodes'', JObject (map (\<lambda>(h, d). (lits h, JString (lits d))) (ge_nodes g)))]"

definition option_json :: "generation_entry option \<Rightarrow> json" where
  "option_json x = (case x of None \<Rightarrow> atom ''null'' | Some g \<Rightarrow> entry_json g)"

definition pointer_json :: "current_json \<Rightarrow> json" where
  "pointer_json p = JObject
     [(lits ''schema_version'', atom (show_nat (unat (schema_version p)))),
      (lits ''revision'', JString (lits (revision p))),
      (lits ''current'', option_json (cur p)),
      (lits ''previous'', option_json (prev p))]"

definition pointer_text :: "current_json \<Rightarrow> string" where
  "pointer_text p = concat (render_json (pointer_json p))"

text \<open>
  A pointer as the server writes it: the tables are sorted (\<open>BTreeMap\<close>), and ids and digests are ASCII,
  so that they need no escapes.
\<close>

definition plain_generation :: "generation_entry \<Rightarrow> bool" where
  "plain_generation g \<longleftrightarrow> bt_wf (ge_nodes g) \<and> ascii (ge_id g) \<and> (\<forall>(h, d)\<in>set (ge_nodes g). ascii d)"

definition plain_pointer :: "current_json \<Rightarrow> bool" where
  "plain_pointer p \<longleftrightarrow> ascii (revision p) \<and> (\<forall>g. cur p = Some g \<or> prev p = Some g \<longrightarrow> plain_generation g)"

section \<open>The texts in it\<close>

definition json_safe :: "string \<Rightarrow> bool" where
  "json_safe s \<longleftrightarrow> list_all (\<lambda>c. byte c < 128 \<and> c \<noteq> CHR 0x22 \<and> c \<noteq> CHR 0x5C) s"

lemma view_lits [simp]: "view (lits s) = s"
  by (simp add: view_def lits_def o_def)

lemma lits_wf [simp]: "json_safe s \<Longrightarrow> list_all wf_char (lits s)"
  by (auto simp: json_safe_def lits_def wf_char_def list_all_iff)

lemma alphabet_safe: "c \<in> set ALPHABET \<Longrightarrow> byte c < 128 \<and> c \<noteq> CHR 0x22 \<and> c \<noteq> CHR 0x5C"
  by (auto simp: ALPHABET_def byte_def)

lemma canonical_safe: "ascii s \<Longrightarrow> is_canonical s \<Longrightarrow> json_safe s"
  using alphabet_safe by (auto simp: is_canonical_ascii canonical_text_def json_safe_def list_all_iff split: list.splits)

lemma hostname_safe: "hostname_regex h \<Longrightarrow> json_safe h"
  using hostname_chars [of h]
  by (auto simp: hostname_validate_regex json_safe_def list_all_iff hostname_char_def is_alnum_lower_def
      is_ascii_lowercase_def is_ascii_digit_def byte_def)

text \<open>What a well-formed pointer is made of.\<close>

definition safe_generation :: "generation_entry \<Rightarrow> bool" where
  "safe_generation g \<longleftrightarrow> json_safe (ge_id g) \<and> bt_wf (ge_nodes g) \<and>
     (\<forall>(h, d)\<in>set (ge_nodes g). json_safe h \<and> json_safe d)"

lemma safe_generationI: "generation_ok g \<Longrightarrow> plain_generation g \<Longrightarrow> safe_generation g"
  using canonical_safe hostname_safe by (fastforce simp: generation_ok_def plain_generation_def safe_generation_def)

definition safe_pointer :: "current_json \<Rightarrow> bool" where
  "safe_pointer p \<longleftrightarrow> json_safe (revision p) \<and> (\<forall>g. cur p = Some g \<or> prev p = Some g \<longrightarrow> safe_generation g)"

lemma safe_pointerI: "discovery_ok p \<Longrightarrow> plain_pointer p \<Longrightarrow> safe_pointer p"
  using canonical_safe safe_generationI
  by (auto simp: discovery_ok_def plain_pointer_def safe_pointer_def split: option.splits)

section \<open>No duplicate keys\<close>

lemma atom_wf: "list_all (\<lambda>c. \<not> structural [c]) s \<Longrightarrow> wf_json (atom s) \<and> no_dup (atom s)"
  by (simp add: atom_def list_all_iff)

lemma digits_atom: "wf_json (atom (show_nat n)) \<and> no_dup (atom (show_nat n))"
  using show_nat_digits [of n]
  by (intro atom_wf) (auto simp: list_all_iff structural_def is_ascii_digit_def byte_def)

lemma entry_json_wf:
  assumes "safe_generation g"
  shows "wf_json (entry_json g)" and "no_dup (entry_json g)"
proof -
  have "json_safe ''id''" "json_safe ''nodes''" by code_simp+
  moreover have "wf_json (JObject (map (\<lambda>(h, d). (lits h, JString (lits d))) (ge_nodes g)))"
    using assms lits_wf by (fastforce simp: safe_generation_def list_all_iff [of _ "map _ _"])
  ultimately show "wf_json (entry_json g)"
    using assms by (simp add: entry_json_def safe_generation_def)
  have "distinct (bt_keys (ge_nodes g))"
    using assms by (simp add: safe_generation_def bt_wf_keys bs_wf_sorted_distinct)
  then show "no_dup (entry_json g)"
    by (auto simp: entry_json_def bt_keys_def o_def split_beta list_all_iff)
qed

lemma option_json_wf:
  assumes "\<And>g. x = Some g \<Longrightarrow> safe_generation g"
  shows "wf_json (option_json x) \<and> no_dup (option_json x)"
proof (cases x)
  case None
  have "list_all (\<lambda>c. \<not> structural [c]) ''null''" by code_simp
  then show ?thesis using atom_wf None by (simp add: option_json_def)
next
  case (Some g)
  then show ?thesis using entry_json_wf assms by (simp add: option_json_def)
qed

lemma pointer_json_wf:
  assumes "safe_pointer p"
  shows "wf_json (pointer_json p)" and "no_dup (pointer_json p)"
proof -
  have keys: "json_safe ''schema_version''" "json_safe ''revision''" "json_safe ''current''" "json_safe ''previous''"
    by code_simp+
  have o: "wf_json (option_json (cur p)) \<and> no_dup (option_json (cur p))"
    "wf_json (option_json (prev p)) \<and> no_dup (option_json (prev p))"
    using assms by (intro option_json_wf; simp add: safe_pointer_def)+
  show "wf_json (pointer_json p)" "no_dup (pointer_json p)"
    using keys o digits_atom assms by (simp_all add: pointer_json_def safe_pointer_def)
qed

section \<open>Its characters\<close>

definition singles :: "string list \<Rightarrow> bool" where
  "singles cs \<longleftrightarrow> (\<forall>c\<in>set cs. \<exists>x. c = [x] \<and> byte x < 128)"

lemma singles_simps [simp]:
  "singles []" "singles (c # cs) \<longleftrightarrow> (\<exists>x. c = [x] \<and> byte x < 128) \<and> singles cs"
  "singles (cs @ ds) \<longleftrightarrow> singles cs \<and> singles ds"
  by (auto simp: singles_def)

lemma singles_ascii: "singles cs \<Longrightarrow> ascii (concat cs)"
  by (induction cs) auto

lemma singles_chunks:
  assumes "singles cs"
  shows "utf8_chunks (concat cs) = cs"
proof -
  have "map (\<lambda>c. [c]) (concat cs) = cs" using assms by (induction cs) auto
  then show ?thesis by (simp add: utf8_chunks_ascii [OF singles_ascii [OF assms]])
qed

lemma singles_map: "ascii s \<Longrightarrow> singles (map (\<lambda>c. [c]) s)"
  by (auto simp: singles_def ascii_def list_all_iff)

lemma singles_separated: "\<forall>cs\<in>set css. singles cs \<Longrightarrow> singles (separated css)"
  by (induction css rule: separated.induct) (simp_all add: byte_def)

lemma singles_quote:
  assumes "json_safe s"
  shows "singles (quote (lits s))"
proof -
  have "concat (map render_char (lits s)) = map (\<lambda>c. [c]) s" by (induction s) (simp_all add: lits_def)
  moreover have "ascii s" using assms by (simp add: json_safe_def ascii_def list_all_iff)
  ultimately show ?thesis by (simp add: quote_def singles_map byte_def)
qed

lemma singles_text: "json_safe s \<Longrightarrow> singles (render_json (JString (lits s)))"
  by (simp add: singles_quote)

lemma singles_atom: "ascii s \<Longrightarrow> singles (render_json (atom s))"
  by (simp add: atom_def singles_map)

lemma singles_object:
  assumes "\<forall>(k, v)\<in>set ms. singles (quote k) \<and> singles (render_json v)"
  shows "singles (render_json (JObject ms))"
proof -
  have "singles (separated (map (\<lambda>(k, v). quote k @ '':'' # render_json v) ms))"
    using assms by (intro singles_separated) (auto simp: byte_def)
  then show ?thesis by (simp add: byte_def)
qed

lemma entry_json_singles:
  assumes "safe_generation g"
  shows "singles (render_json (entry_json g))"
proof -
  have keys: "json_safe ''id''" "json_safe ''nodes''" by code_simp+
  have "singles (render_json (JObject (map (\<lambda>(h, d). (lits h, JString (lits d))) (ge_nodes g))))"
    using assms by (intro singles_object) (auto simp: safe_generation_def singles_quote)
  then show ?thesis
    unfolding entry_json_def using keys assms
    by (intro singles_object) (auto simp: safe_generation_def singles_quote simp del: render_json.simps(4))
qed

lemma option_json_singles:
  assumes "\<And>g. x = Some g \<Longrightarrow> safe_generation g"
  shows "singles (render_json (option_json x))"
proof (cases x)
  case None
  have "ascii ''null''" by code_simp
  then show ?thesis using None by (simp add: option_json_def singles_atom)
next
  case (Some g)
  then show ?thesis using assms entry_json_singles by (simp add: option_json_def)
qed

lemma pointer_json_singles:
  assumes "safe_pointer p"
  shows "singles (render_json (pointer_json p))"
proof -
  have keys: "json_safe ''schema_version''" "json_safe ''revision''" "json_safe ''current''" "json_safe ''previous''"
    by code_simp+
  have o: "singles (render_json (option_json (cur p)))" "singles (render_json (option_json (prev p)))"
    using assms by (intro option_json_singles; simp add: safe_pointer_def)+
  have "singles (render_json (atom (show_nat (unat (schema_version p)))))"
    by (rule singles_atom [OF plain_ascii [OF show_nat_plain]])
  then show ?thesis
    unfolding pointer_json_def using keys o assms
    by (intro singles_object) (auto simp: safe_pointer_def singles_quote simp del: render_json.simps(4))
qed

text \<open>The text is ASCII, and the pre-pass for duplicate keys accepts it.\<close>

lemma pointer_text_accepted:
  assumes "discovery_ok p" and "plain_pointer p"
  shows "ascii (pointer_text p)" and "check_no_duplicate_keys (pointer_text p) = Inr ()"
proof -
  have s: "safe_pointer p" using assms by (rule safe_pointerI)
  note one = pointer_json_singles [OF s]
  show "ascii (pointer_text p)" unfolding pointer_text_def by (rule singles_ascii [OF one])
  show "check_no_duplicate_keys (pointer_text p) = Inr ()"
    using scan_document [OF pointer_json_wf(1) [OF s]] pointer_json_wf(2) [OF s]
    by (simp add: check_no_duplicate_keys_def pointer_text_def singles_chunks [OF one])
qed

end
