(* ===== verification/Deployment.thy ===== *)
theory Deployment
  imports Publish_Valid Working_Host Pointer_Text
begin

text \<open>
  The two programs together: a topology is applied to a bucket, and then a node syncs from that
  bucket.  What the server wrote is what the client accepts.
\<close>

section \<open>Rendered files are UTF-8\<close>

text \<open>Endpoints are the only texts of a topology that are copied and may not be ASCII.\<close>

definition config_utf8 :: "topology_config \<Rightarrow> bool" where
  "config_utf8 cfg \<longleftrightarrow> (\<forall>c\<in>set (tc_nodes cfg). \<forall>ep. wg_endpoint (nc_wg_config c) = Some ep \<longrightarrow> utf8_valid ep)"

lemma validated_endpoint_utf8:
  assumes "topology_validate cr cfg = Inr (t, ws)" and "config_utf8 cfg" and "node t h = Some n"
    and "vn_endpoint n = Some ep"
  shows "utf8_valid ep"
proof -
  obtain ns where ns: "list_all2 (node_matches cr) (tc_nodes cfg) ns" "mset (vt_nodes t) = mset ns"
    using topology_validate_ok(2) [OF assms(1)] by (auto simp: topology_matches_def)
  have "n \<in> set (vt_nodes t)" using assms(3) by (auto simp: node_def find_Some_iff)
  then have "n \<in> set ns" using mset_eq_setD [OF ns(2)] by simp
  then obtain i where "i < length ns" "ns ! i = n" by (metis in_set_conv_nth)
  with ns(1) have "tc_nodes cfg ! i \<in> set (tc_nodes cfg)" "node_matches cr (tc_nodes cfg ! i) n"
    by (auto simp: list_all2_conv_all_nth)
  with assms(2,4) show ?thesis by (auto simp: config_utf8_def node_matches_def)
qed

lemma utf8_text_of: "list_all utf8_valid ls \<Longrightarrow> utf8_valid (text_of ls)"
  by (induction ls) (simp_all add: ln_def utf8_valid_append byte_def)

definition kvs_utf8 :: "(string \<times> string) list \<Rightarrow> bool" where
  "kvs_utf8 kvs \<longleftrightarrow> list_all (\<lambda>(k, v). ascii k \<and> utf8_valid v) kvs"

lemma field_lines_utf8: "kvs_utf8 kvs \<Longrightarrow> list_all utf8_valid (field_lines kvs)"
proof (induction kvs)
  case (Cons kv kvs)
  obtain k v where kv: "kv = (k, v)" by fastforce
  with Cons.prems have "utf8_valid k" "utf8_valid (CHR '' '' # CHR ''='' # CHR '' '' # v)"
    by (simp_all add: kvs_utf8_def utf8_valid_ascii byte_def)
  with Cons kv show ?case by (simp add: kvs_utf8_def utf8_valid_append)
qed simp

lemma plain_utf8: "plain s \<Longrightarrow> utf8_valid s"
  by (rule utf8_valid_ascii [OF plain_ascii])

lemma comment_utf8: "comment_ok h \<Longrightarrow> utf8_valid (''# '' @ h) \<and> utf8_valid (''# Hostname: '' @ h)"
  by (simp add: comment_ok_def byte_def plain_utf8)

lemma config_lines_utf8:
  assumes "comment_ok h" and "kvs_utf8 ikvs" and "list_all (\<lambda>(p, kvs). comment_ok p \<and> kvs_utf8 kvs) pkvs"
  shows "utf8_valid (text_of (config_lines h ikvs pkvs))"
proof -
  have const: "utf8_valid ''# Managed by wg-server -- do not edit manually.''" "utf8_valid ''[Interface]''"
    "utf8_valid ''[Peer]''" "utf8_valid []"
    by (rule utf8_valid_ascii; code_simp)+
  have "list_all utf8_valid (concat (map (\<lambda>(p, kvs). peer_lines p kvs) pkvs))"
    using assms(3) const comment_utf8 field_lines_utf8
    by (induction pkvs) (auto simp: peer_lines_def)
  then show ?thesis
    using const comment_utf8 [OF assms(1)] field_lines_utf8 [OF assms(2)]
    by (intro utf8_text_of) (simp add: config_lines_def)
qed

lemma interface_kvs_utf8:
  assumes "node_text n" and "key_text priv"
  shows "kvs_utf8 (interface_kvs n priv)"
proof -
  have "plain (show_ip_addr d)" if "ip_ok d" for d using ip_codec.show_plain [OF that] .
  then show ?thesis
    using assms plain_utf8 show_ipv4_slash
    by (auto simp: kvs_utf8_def interface_kvs_def opt_field_def node_text_def key_text_def byte_def split: option.splits)
qed

lemma join_utf8: "list_all plain ss \<Longrightarrow> utf8_valid (join '', '' ss)"
proof (induction ss rule: induct_list012)
  case (3 x y zs)
  have "utf8_valid '', ''" by (rule utf8_valid_ascii) code_simp
  moreover have "utf8_valid x" "utf8_valid (join '', '' (y # zs))" using 3 plain_utf8 by simp_all
  ultimately show ?case unfolding join.simps(3) by (intro utf8_valid_append)
qed (simp_all add: plain_utf8 utf8_valid_ascii)

lemma peer_kvs_utf8:
  assumes "ipnet_text cr" and "node_text peer" and "key_text pub" and "key_text psk"
    and "\<And>ep. vn_endpoint peer = Some ep \<Longrightarrow> utf8_valid ep"
  shows "kvs_utf8 (peer_kvs cr peer pub psk ka)"
proof -
  have "list_all plain (sorted_allowed_ips cr peer)"
    using allowed_nets_wf [OF assms(2), of cr] net_show_plain [OF assms(1)]
    by (auto simp: sorted_allowed_ips_nets [OF assms(1)] list_all_iff)
  from join_utf8 [OF this] show ?thesis
    using assms(3-5) plain_utf8
    by (auto simp: kvs_utf8_def peer_kvs_def opt_field_def key_text_def byte_def split: option.splits)
qed

lemma rendered_utf8:
  assumes v: "topology_validate cr cfg = Inr (t, ws)" and cr: "ipnet_text cr" "ipnet_parses_wf cr"
    and k: "keys_text keys" and u: "config_utf8 cfg" and r: "render_node_config cr t keys h = Inr out"
  shows "utf8_valid out"
proof -
  from r obtain n priv pub pkvs c where n: "node t h = Some n" and key: "bt_get (node_keys keys) h = Some (priv, pub)"
    and out: "out = text_of (config_lines h (interface_kvs n priv) pkvs)"
    and ps: "list_all2 (\<lambda>p (q, kvs). q = p \<and> (\<exists>peer pub psk. peer_data t keys h p peer pub psk \<and>
      kvs = peer_kvs cr peer pub psk (resolve_local_keepalive n))) (peers_of h (edges t)) pkvs"
    by (rule render_node_lines)
  note nt = validated_nodes_text [OF v cr(2)]
  have peer: "comment_ok p \<and> kvs_utf8 (peer_kvs cr peer pub psk ka)"
    if "peer_data t keys h p peer pub psk" for p peer pub psk ka
  proof -
    have p: "node t p = Some peer" "key_text pub" "key_text psk"
      using that k unfolding peer_data_def keys_text_def by blast+
    show ?thesis
      using nt [OF p(1)] peer_kvs_utf8 [OF cr(1) _ p(2,3)] validated_endpoint_utf8 [OF v u p(1)] by blast
  qed
  have "list_all (\<lambda>(p, kvs). comment_ok p \<and> kvs_utf8 kvs) pkvs"
    using ps peer by (fastforce simp: list_all_iff list_all2_conv_all_nth in_set_conv_nth)
  moreover have "key_text priv" using k key by (auto simp: keys_text_def)
  ultimately show ?thesis
    unfolding out using nt [OF n] by (intro config_lines_utf8 interface_kvs_utf8)
qed

section \<open>What the bucket holds after an apply\<close>

text \<open>
  \<open>serde_json\<close> writes the pointer's text and reads it back, on either side; a pointer found in the
  bucket was written by the server, and this run draws no id it names.
\<close>

definition serde_pointer :: "serde \<Rightarrow> client_serde \<Rightarrow> bool" where
  "serde_pointer js cjs \<longleftrightarrow> (\<forall>p. discovery_ok p \<and> plain_pointer p \<longrightarrow>
     to_vec js p = pointer_text p \<and> cs_current cjs (pointer_text p) = Inr p)"

definition earlier_pointer :: "crates \<Rightarrow> current_json \<Rightarrow> bool" where
  "earlier_pointer cr p \<longleftrightarrow> plain_pointer p \<and> (\<forall>g k. cur p = Some g \<longrightarrow> ge_id g \<noteq> encode (csprng cr k))"

text \<open>The documented behaviour of the crates.\<close>

definition crates_documented :: "crates \<Rightarrow> bool" where
  "crates_documented cr \<longleftrightarrow> ipnet_text cr \<and> ipnet_parses_wf cr \<and> b64_roundtrip cr \<and> b64_canonical cr \<and>
     random_32 cr \<and> sha256_32 cr \<and> random_keys cr \<and> x25519_keys cr"

lemma encoded_id:
  "length bs = 32 \<Longrightarrow> is_canonical (encode bs) \<and> ascii (encode bs)"
  using is_canonical_ascii [OF encode_ascii] encode_canonical_text encode_ascii by simp

lemma described_generation:
  assumes v: "topology_validate cr cfg = Inr (t, ws)" and cr: "random_32 cr" "sha256_32 cr"
    and ds: "described cr t keys ds"
  shows "generation_ok \<lparr>ge_id = encode (csprng cr k), ge_nodes = ds\<rparr>"
    and "plain_generation \<lparr>ge_id = encode (csprng cr k), ge_nodes = ds\<rparr>"
proof -
  note t = topology_validate_ok [OF v]
  have id: "is_canonical (encode (csprng cr k)) \<and> ascii (encode (csprng cr k))"
    using cr(1) by (intro encoded_id) (simp add: random_32_def)
  have hosts: "map fst ds = map vn_hostname (vt_nodes t)" using ds by (simp add: described_def bt_keys_def)
  then have len: "length ds = length (vt_nodes t)" by (metis length_map)
  have wf: "bt_wf ds" using ds by (simp add: described_def)
  have entry: "hostname_regex h \<and> is_canonical d \<and> ascii d" if hd: "(h, d) \<in> set ds" for h d
  proof -
    have h: "h \<in> set (bt_keys ds)" using hd by (force simp: bt_keys_def)
    have "hostname_regex h" using h t(1) ds by (auto simp: described_def topology_ok_def)
    moreover have "bt_get ds h = Some d" using hd bt_wf_get [OF wf] by simp
    then obtain b where "d = digest_of cr b" using ds h by (force simp: described_def)
    then have "is_canonical d \<and> ascii d" using cr(2) by (simp add: digest_of_def sha256_32_def encoded_id)
    ultimately show ?thesis by simp
  qed
  have "ds \<noteq> []" "length ds \<le> MAX_NODES" using len t(2) by (auto simp: topology_matches_def)
  then show "generation_ok \<lparr>ge_id = encode (csprng cr k), ge_nodes = ds\<rparr>"
    using id entry by (auto simp: generation_ok_def)
  show "plain_generation \<lparr>ge_id = encode (csprng cr k), ge_nodes = ds\<rparr>"
    using id entry wf by (auto simp: plain_generation_def)
qed

lemma starting_current:
  assumes "starting cr js (earlier_pointer cr) p" and "cur p = Some g"
  shows "discovery_ok p" and "plain_pointer p" and "ge_id g \<noteq> encode (csprng cr k)"
  using assms by (auto simp: starting_def earlier_pointer_def current_json_empty_def)

lemma refreshed_pointer_ok:
  assumes "discovery_ok p" and "plain_pointer p" and "random_32 cr"
  shows "discovery_ok (refreshed_pointer cr p k) \<and> plain_pointer (refreshed_pointer cr p k)"
proof -
  have "is_canonical (encode (csprng cr k)) \<and> ascii (encode (csprng cr k))"
    using assms(3) by (intro encoded_id) (simp add: random_32_def)
  then show ?thesis
    using assms(1,2) by (auto simp: discovery_ok_def plain_pointer_def refreshed_pointer_def)
qed

lemma refreshed_ok:
  assumes "starting cr js (earlier_pointer cr) p" and "cur p = Some g" and "random_32 cr"
  shows "discovery_ok (refreshed_pointer cr p k) \<and> plain_pointer (refreshed_pointer cr p k)"
  using refreshed_pointer_ok starting_current(1,2) [OF assms(1,2)] assms(3) by blast

lemma next_ok:
  assumes v: "topology_validate cr cfg = Inr (t, ws)" and cr: "random_32 cr" "sha256_32 cr"
    and p: "starting cr js (earlier_pointer cr) p" and ds: "described cr t keys ds"
  shows "discovery_ok (next_pointer cr p ds j k) \<and> plain_pointer (next_pointer cr p ds j k)"
proof -
  have id: "is_canonical (encode (csprng cr k)) \<and> ascii (encode (csprng cr k))"
    using cr(1) by (intro encoded_id) (simp add: random_32_def)
  note new = described_generation [OF v cr ds, of j]
  show ?thesis
  proof (cases "cur p")
    case None
    then show ?thesis using id new by (auto simp: next_pointer_def discovery_ok_def plain_pointer_def)
  next
    case (Some g)
    note old = starting_current [OF p Some]
    have "generation_ok g" using old(1) Some by (auto simp: discovery_ok_def split: option.splits)
    moreover have "plain_generation g" using old(2) Some by (auto simp: plain_pointer_def)
    ultimately show ?thesis
      using id new old(3) [of j] Some by (auto simp: next_pointer_def discovery_ok_def plain_pointer_def)
  qed
qed

text \<open>The keys, the files and the pointer an apply leaves in the in-memory bucket.\<close>

abbreviation valid_bytes :: "crates \<Rightarrow> string \<Rightarrow> bool" where
  "valid_bytes cr b \<equiv> is_ok (parse_wg_quick cr (from_utf8_lossy b))"

definition well_served :: "crates \<Rightarrow> serde \<Rightarrow> (string \<Rightarrow> (string \<times> string) option) \<Rightarrow> validated_topology \<Rightarrow> bool" where
  "well_served cr js c t \<longleftrightarrow>
     serving cr js (keys_typed cr t) (valid_bytes cr) (\<lambda>p. discovery_ok p \<and> plain_pointer p) c t"

lemma apply_serves_well:
  assumes cr: "crates_documented cr" and u: "config_utf8 config"
    and w: "pointer_entry js (earlier_pointer cr) (mock_objs (w_store w))"
    and r: "apply_topology cr js mock now config (opts\<lparr>ao_dry_run := False\<rparr>) w = (Inr report, w')"
  shows "\<exists>t ws. topology_validate cr config = Inr (t, ws) \<and> well_served cr js (mock_objs (w_store w')) t"
proof -
  note cr' = cr [unfolded crates_documented_def]
  have "triple (\<lambda>w. pointer_entry js (earlier_pointer cr) (mock.contents w))
      (apply_topology cr js mock now config (opts\<lparr>ao_dry_run := False\<rparr>))
      (\<lambda>_ w. \<exists>t ws. topology_validate cr config = Inr (t, ws) \<and>
        serving cr js (keys_typed cr t) (valid_bytes cr) (\<lambda>p. discovery_ok p \<and> plain_pointer p) (mock.contents w) t)
      (\<lambda>_ _. True)"
  proof (rule mock.apply_serves)
    fix t ws old n kr n'
    assume "topology_validate cr config = Inr (t, ws)" "published_configs cr old"
      "resolve_keys cr t old (ao_rotate (opts\<lparr>ao_dry_run := False\<rparr>)) n = (Inr kr, n')"
    then show "keys_typed cr t (kr_resolved kr)"
      using tripleD(1) [OF resolve_keys_types [OF topology_validate_ok(1)]] cr' by blast
  next
    fix t ws keys h b
    assume v: "topology_validate cr config = Inr (t, ws)" and k: "keys_typed cr t keys"
      and rn: "render_node_config cr t keys h = Inr b"
    have "keys_text keys" using k by (simp add: keys_typed_def)
    with rendered_utf8 [OF v _ _ _ u rn] cr' have "from_utf8_lossy b = b" by (simp add: from_utf8_lossy_valid)
    then show "valid_bytes cr b" using render_node_valid [OF rn] by simp
  next
    fix t ws p g keys k
    assume "starting cr js (earlier_pointer cr) p" "cur p = Some g"
    then show "discovery_ok (refreshed_pointer cr p k) \<and> plain_pointer (refreshed_pointer cr p k)"
      using refreshed_ok cr' by blast
  next
    fix t ws p ds keys j k
    assume "topology_validate cr config = Inr (t, ws)" "starting cr js (earlier_pointer cr) p" "described cr t keys ds"
    then show "discovery_ok (next_pointer cr p ds j k) \<and> plain_pointer (next_pointer cr p ds j k)"
      using next_ok cr' by blast
  qed simp_all
  from tripleD(1) [OF this _ r] w show ?thesis by (simp add: mock.contents_def well_served_def)
qed

section \<open>What a client finds there\<close>

text \<open>The client's view of the bucket the server wrote to.\<close>

definition bucket_reader :: "mock_storage read_storage" where
  "bucket_reader key m = (Inr (map_option fst (mock_objs m key)), m)"

lemma client_key_node: "client_key h g = node_object_key h g"
  by (simp add: client_key_def node_object_key_def NODES_PREFIX_def)

lemma discover_at:
  assumes js: "serde_pointer js cjs" and p: "mock_objs m CURRENT_JSON_KEY = Some (to_vec js p, e)" "discovery_ok p"
      "plain_pointer p" "cur p = Some g"
    and d: "bt_get (ge_nodes g) h = Some (digest_of cr b)" and b: "mock_objs m (node_object_key h (ge_id g)) = Some (b, e')"
  shows "discover_and_download cr cjs bucket_reader h m = (Inr (ge_id g, digest_of cr b, b), m)"
proof -
  have tx: "to_vec js p = pointer_text p" "cs_current cjs (pointer_text p) = Inr p"
    using js p(2,3) by (simp_all add: serde_pointer_def)
  note acc = pointer_text_accepted [OF p(2,3)]
  have "from_utf8_lossy (pointer_text p) = pointer_text p"
    by (rule from_utf8_lossy_valid [OF utf8_valid_ascii [OF acc(1)]])
  then have parse: "discovery_parse (cs_current cjs) (from_utf8_lossy (to_vec js p)) = Inr p"
    using acc(2) tx by (simp add: discovery_parse_def)
  have first: "bucket_reader ''current.json'' m = (Inr (Some (to_vec js p)), m)"
    using p(1) by (simp add: bucket_reader_def CURRENT_JSON_KEY_def)
  have second: "bucket_reader (client_key h (ge_id g)) m = (Inr (Some b), m)"
    using b by (simp add: bucket_reader_def client_key_node)
  have v: "discovery_validate p = Inr ()" using p(2) by (simp add: discovery_validate_iff)
  show ?thesis
    using first second parse v p(4) d
    by (simp add: discover_and_download_def MAX_DISCOVERY_ROUNDS_def numeral_3_eq_3 io_map_err_def
        client_digest_of_def digest_of_def)
qed

lemma discover_served:
  assumes js: "serde_pointer js cjs" and s: "well_served cr js (mock_objs m) t"
    and h: "h \<in> vn_hostname ` set (vt_nodes t)"
  obtains keys gid b bytes where "keys_typed cr t keys" "render_node_config cr t keys h = Inr bytes"
    "digest_of cr b = digest_of cr bytes" "valid_bytes cr b"
    "discover_and_download cr cjs bucket_reader h m = (Inr (gid, digest_of cr b, b), m)"
proof -
  from s obtain p g e keys where p: "mock_objs m CURRENT_JSON_KEY = Some (to_vec js p, e)" "discovery_ok p"
      "plain_pointer p" "cur p = Some g"
    and k: "keys_typed cr t keys" and ds: "described cr t keys (ge_nodes g)"
    and pub: "published cr (valid_bytes cr) (mock_objs m) g"
    by (auto simp: well_served_def serving_def)
  have h': "h \<in> set (bt_keys (ge_nodes g))" using h ds by (auto simp: described_def)
  with ds obtain bytes where rn: "render_node_config cr t keys h = Inr bytes"
    and d: "bt_get (ge_nodes g) h = Some (digest_of cr bytes)" unfolding described_def by blast
  have "bt_wf (ge_nodes g)" using ds by (simp add: described_def)
  from bt_wf_get [OF this] d have "(h, digest_of cr bytes) \<in> set (ge_nodes g)" by simp
  with pub obtain b e' where b: "mock_objs m (node_object_key h (ge_id g)) = Some (b, e')"
    "digest_of cr b = digest_of cr bytes" "valid_bytes cr b" by (force simp: published_def)
  from discover_at [OF js p _ b(1)] d b(2) that [OF k rn b(2,3)] show thesis by simp
qed

section \<open>Property\<close>

text \<open>
  C3. The whole way from a topology to a node's interface.  After an apply that succeeded on a
  bucket nobody else writes, a sync of any of the topology's nodes on a host where nothing fails
  reads the pointer, accepts it, downloads a file the strict parser accepts, and ends without
  an error with the interface up: the file is installed, or the node already had applied it.
  Its digest is that of the file rendered for this node from the topology, with the keys of the
  apply, and that file means this node (its address, its port, a peer for every edge).
\<close>
theorem apply_then_sync:
  assumes "crates_documented cr" and "serde_pointer js cjs" and "config_utf8 config"
    and "pointer_entry js (earlier_pointer cr) (mock_objs (w_store w))"
    and "apply_topology cr js mock now config (opts\<lparr>ao_dry_run := False\<rparr>) w = (Inr report, w')"
    and "hostname \<in> nc_hostname ` set (tc_nodes config)"
    and "no_injected_failures host" and "state_serializes cjs"
  shows "\<exists>t ws keys n priv rendered. topology_validate cr config = Inr (t, ws) \<and> keys_typed cr t keys \<and>
    render_node_config cr t keys hostname = Inr rendered \<and> node t hostname = Some n \<and>
    parse_wg_quick cr rendered = Inr (rendered_for cr t keys hostname n priv) \<and>
    (case run_once cr cjs bucket_reader (mock_sys cr) hostname iface conf force ep (w_store w', host) of
      (outcome, bucket, host') \<Rightarrow>
        so_error outcome = None \<and> bucket = w_store w' \<and> iface \<in> mock_up host' \<and>
        ((\<exists>b. mock_files host' conf = Some b \<and> digest_of cr b = digest_of cr rendered \<and> valid_bytes cr b) \<or>
         \<not> force \<and> so_no_op outcome \<and>
           ls_applied_digest (fst (fst (local_phase cr cjs (mock_sys cr) iface conf host))) =
             Some (digest_of cr rendered)))"
proof -
  from apply_serves_well [OF assms(1,3,4,5)] obtain t ws where v: "topology_validate cr config = Inr (t, ws)"
    and s: "well_served cr js (mock_objs (w_store w')) t" by blast
  obtain ns where ns: "list_all2 (node_matches cr) (tc_nodes config) ns" "mset (vt_nodes t) = mset ns"
    using topology_validate_ok(2) [OF v] by (auto simp: topology_matches_def)
  have h: "hostname \<in> vn_hostname ` set (vt_nodes t)"
    using assms(6) arg_cong [OF matches_hostnames [OF ns(1)], of set] mset_eq_setD [OF ns(2)] by simp
  obtain keys gid b rendered where k: "keys_typed cr t keys"
    and rn: "render_node_config cr t keys hostname = Inr rendered"
    and b: "digest_of cr b = digest_of cr rendered" "valid_bytes cr b"
    and d: "discover_and_download cr cjs bucket_reader hostname (w_store w') = (Inr (gid, digest_of cr b, b), w_store w')"
    by (rule discover_served [OF assms(2) s h])
  have "keys_text keys" using k by (simp add: keys_typed_def)
  with render_parses_back [OF v _ _ _ rn] assms(1) obtain n priv where n: "node t hostname = Some n"
    "parse_wg_quick cr rendered = Inr (rendered_for cr t keys hostname n priv)"
    by (auto simp: crates_documented_def)
  obtain outcome bucket host' where r: "run_once cr cjs bucket_reader (mock_sys cr) hostname iface conf force ep
      (w_store w', host) = (outcome, bucket, host')" by (metis prod.exhaust)
  have "so_error outcome = None \<and> bucket = w_store w' \<and> iface \<in> mock_up host' \<and>
      ((\<exists>b. mock_files host' conf = Some b \<and> digest_of cr b = digest_of cr rendered \<and> valid_bytes cr b) \<or>
       \<not> force \<and> so_no_op outcome \<and>
         ls_applied_digest (fst (fst (local_phase cr cjs (mock_sys cr) iface conf host))) = Some (digest_of cr rendered))"
    using mock_works.run_once_succeeds [OF assms(7,8) d b(2) r] b by (simp only:) blast
  with v k rn n show ?thesis unfolding r prod.case by (elim conjE, intro exI conjI) assumption+
qed

end
