(* ===== verification/First_Apply.thy ===== *)
theory First_Apply
  imports Deployment
begin

text \<open>
  The first apply, on an empty bucket where no write fails: it goes through to the end and
  publishes, unless a rendered file is too large.
\<close>

section \<open>Writes to the in-memory bucket\<close>

definition writable :: "mock_storage \<Rightarrow> bool" where
  "writable m \<longleftrightarrow> ms_fail_next_puts m = 0"

lemma write_result:
  obtains e m' where "mock_write k b m = (Inr (Written e), m')" "writable m' = writable m"
    "mock_objs m' = (mock_objs m)(k \<mapsto> (b, e))"
proof -
  let ?e = "''etag-'' @ show_nat (unat (ms_next_etag m + 1))"
  have w: "mock_write k b m = (Inr (Written ?e), snd (mock_write k b m))"
    using mock_write_Inr [of k b m] by (metis prod.collapse)
  have "writable (snd (mock_write k b m)) = writable m"
    by (simp add: mock_write_def fresh_etag_def Let_def writable_def)
  then show thesis using that [OF w _ mock_write_objs [OF w]] by blast
qed

lemma put_absent_writes:
  assumes "writable m" and "mock_objs m k = None"
  obtains e m' where "mock_put_if_absent k b ct m = (Inr (Written e), m')" "writable m'"
    "mock_objs m' = (mock_objs m)(k \<mapsto> (b, e))"
proof -
  have "bt_get (ms_objects m) k = None" using assms(2) by (simp add: mock_objs_def)
  with assms(1) have "mock_put_if_absent k b ct m = mock_write k b m"
    by (simp add: mock_put_if_absent_def mock_may_fail_def writable_def)
  then show thesis using that assms(1) by (metis write_result [of k b m])
qed

lemma put_match_writes:
  assumes "writable m" and "mock_objs m k = Some (b0, et)"
  obtains e m' where "mock_put_if_match k b ct et m = (Inr (Written e), m')" "writable m'"
    "mock_objs m' = (mock_objs m)(k \<mapsto> (b, e))"
proof -
  obtain x where "bt_get (ms_objects m) k = Some x" "e_etag x = et" using assms(2) by (auto simp: mock_objs_def)
  with assms(1) have "mock_put_if_match k b ct et m = mock_write k b m"
    by (simp add: mock_put_if_match_def mock_may_fail_def writable_def)
  then show thesis using that assms(1) by (metis write_result [of k b m])
qed

lemma mock_sel [simp]:
  "put_if_absent mock = mock_put_if_absent" "put_if_match mock = mock_put_if_match"
  "get_object mock = mock_get_object" "list_all_keys mock = mock_list_all"
  by (simp_all add: mock_def)

section \<open>Uploads and commit\<close>

text \<open>The keys of a generation's objects, and what is stored under them.\<close>

definition node_objects :: "string list \<Rightarrow> string \<Rightarrow> string set" where
  "node_objects hs gid = (\<lambda>h. node_object_key h gid) ` set hs"

definition stores_files :: "(string, string) btree_map \<Rightarrow> string \<Rightarrow> (string \<Rightarrow> (string \<times> string) option) \<Rightarrow> string list \<Rightarrow> bool" where
  "stores_files rendered gid c hs \<longleftrightarrow> (\<forall>h\<in>set hs. \<exists>b e. bt_get rendered h = Some b \<and> c (node_object_key h gid) = Some (b, e))"

lemma uploads_succeed:
  assumes "distinct hs" and "\<forall>h\<in>set hs. CHR ''/'' \<notin> set h \<and> bt_get rendered h \<noteq> None \<and>
      mock_objs (w_store w) (node_object_key h gid) = None" and "writable (w_store w)"
  shows "\<exists>up' w'. io_fold (upload_node mock rendered gid) hs up w = (Inr up', w') \<and> writable (w_store w') \<and>
    stores_files rendered gid (mock_objs (w_store w')) hs \<and>
    (\<forall>k. k \<notin> node_objects hs gid \<longrightarrow> mock_objs (w_store w') k = mock_objs (w_store w) k)"
  using assms
proof (induction hs arbitrary: up w)
  case (Cons h hs)
  obtain body where b: "bt_get rendered h = Some body" using Cons.prems(2) by auto
  have "mock_objs (w_store w) (node_object_key h gid) = None" using Cons.prems(2) by simp
  from put_absent_writes [OF Cons.prems(3) this] obtain e m where
    m: "mock_put_if_absent (node_object_key h gid) body ''text/plain; charset=utf-8'' (w_store w) = (Inr (Written e), m)"
    "writable m" "mock_objs m = (mock_objs (w_store w))(node_object_key h gid \<mapsto> (body, e))" by blast
  have up: "upload_node mock rendered gid h up w = (Inr (up @ [h]), w\<lparr>w_store := m\<rparr>)"
    by (simp add: upload_node_def Let_def b m(1) on_store_def io_then_def)
  have other: "node_object_key h' gid \<noteq> node_object_key h gid" if "h' \<in> set hs" for h'
    using that Cons.prems(1,2) node_key_injective [of h' gid h gid] by auto
  then have "\<exists>up' w'. io_fold (upload_node mock rendered gid) hs (up @ [h]) (w\<lparr>w_store := m\<rparr>) = (Inr up', w') \<and>
      writable (w_store w') \<and> stores_files rendered gid (mock_objs (w_store w')) hs \<and>
      (\<forall>k. k \<notin> node_objects hs gid \<longrightarrow> mock_objs (w_store w') k = mock_objs (w_store (w\<lparr>w_store := m\<rparr>)) k)"
    by (intro Cons.IH) (use Cons.prems m(2,3) in auto)
  then obtain up' w' where w': "io_fold (upload_node mock rendered gid) hs (up @ [h]) (w\<lparr>w_store := m\<rparr>) = (Inr up', w')"
      "writable (w_store w')" "stores_files rendered gid (mock_objs (w_store w')) hs"
      "\<And>k. k \<notin> node_objects hs gid \<Longrightarrow> mock_objs (w_store w') k = mock_objs m k" by auto
  have "node_object_key h gid \<notin> node_objects hs gid" by (metis imageE node_objects_def other)
  then have "mock_objs (w_store w') (node_object_key h gid) = Some (body, e)" using w'(4) m(3) by simp
  with w'(3) b have "stores_files rendered gid (mock_objs (w_store w')) (h # hs)" by (simp add: stores_files_def)
  moreover have "mock_objs (w_store w') k = mock_objs (w_store w) k" if "k \<notin> node_objects (h # hs) gid" for k
    using that w'(4) [of k] m(3) by (simp add: node_objects_def)
  ultimately show ?case using up w'(1,2) by (simp add: io_then_def)
qed (simp add: stores_files_def)

lemma commit_succeeds:
  assumes "writable (w_store w)" and "mock_objs (w_store w) CURRENT_JSON_KEY = Some (b0, et)"
  shows "\<exists>m e. commit_pointer js mock base et p w = (Inr (), w\<lparr>w_store := m\<rparr>) \<and> writable m \<and>
    mock_objs m = (mock_objs (w_store w))(CURRENT_JSON_KEY \<mapsto> (to_vec js p, e))"
proof -
  from put_match_writes [OF assms] obtain e m where m:
    "mock_put_if_match CURRENT_JSON_KEY (to_vec js p) ''application/json'' et (w_store w) = (Inr (Written e), m)"
    "writable m" "mock_objs m = (mock_objs (w_store w))(CURRENT_JSON_KEY \<mapsto> (to_vec js p, e))" by blast
  then have step: "commit_loop js mock (revision base) (to_vec js p) (Suc n) et w = (Inr (), w\<lparr>w_store := m\<rparr>)" for n
    by (simp add: on_store_def io_then_def)
  from step [of 4] have "commit_loop js mock (revision base) (to_vec js p) MAX_POINTER_RETRIES et w
      = (Inr (), w\<lparr>w_store := m\<rparr>)" unfolding MAX_POINTER_RETRIES_def by (simp only: eval_nat_numeral BitM.simps)
  with m(2,3) show ?thesis unfolding commit_pointer_def by blast
qed

lemma draw_id_eq: "draw_id cr w = (Inr (encode (csprng cr (w_draws w))), w\<lparr>w_draws := Suc (w_draws w)\<rparr>)"
  by (simp add: draw_id_def on_draws_def random_id_def)

lemma publish_succeeds:
  assumes "distinct hs" and "\<forall>h\<in>set hs. CHR ''/'' \<notin> set h \<and> bt_get rendered h \<noteq> None"
    and "\<forall>k. k \<noteq> CURRENT_JSON_KEY \<longrightarrow> mock_objs (w_store w) k = None" and "writable (w_store w)"
    and "mock_objs (w_store w) CURRENT_JSON_KEY = Some (b0, et)"
  shows "\<exists>p report' w' e. publish cr js mock False pointer et hs (rendered, digests) report w = (Inr (p, report'), w') \<and>
    ar_published report' \<and> p = next_pointer cr pointer digests (w_draws w) (Suc (w_draws w)) \<and> writable (w_store w') \<and>
    mock_objs (w_store w') CURRENT_JSON_KEY = Some (to_vec js p, e) \<and>
    stores_files rendered (encode (csprng cr (w_draws w))) (mock_objs (w_store w')) hs"
proof -
  let ?w = "w\<lparr>w_draws := Suc (Suc (w_draws w))\<rparr>" and ?id = "encode (csprng cr (w_draws w))"
  let ?p = "next_pointer cr pointer digests (w_draws w) (Suc (w_draws w))"
  have cur: "CURRENT_JSON_KEY \<notin> node_objects hs ?id" by (metis image_iff node_object_key_not_current node_objects_def)
  obtain up w1 where u: "io_fold (upload_node mock rendered ?id) hs [] ?w = (Inr up, w1)" "writable (w_store w1)"
    "stores_files rendered ?id (mock_objs (w_store w1)) hs"
    "mock_objs (w_store w1) CURRENT_JSON_KEY = Some (b0, et)"
    using uploads_succeed [of hs rendered ?w ?id "[]"] assms cur node_object_key_not_current by auto
  from commit_succeeds [OF u(2,4)] obtain m e where c: "commit_pointer js mock pointer et ?p w1 = (Inr (), w1\<lparr>w_store := m\<rparr>)"
    "writable m" "mock_objs m = (mock_objs (w_store w1))(CURRENT_JSON_KEY \<mapsto> (to_vec js ?p, e))" by blast
  have "stores_files rendered ?id (mock_objs m) hs"
    using u(3) c(3) node_object_key_not_current by (simp add: stores_files_def)
  with u(1) c show ?thesis by (simp add: publish_def Let_def io_then_def draw_id_eq next_pointer_def)
qed

section \<open>The keys of a first apply\<close>

lemma resolve_edge_fresh:
  assumes "bt_get (ka_is_fresh acc) (fst e) = Some True" and "bt_get (ka_is_fresh acc) (snd e) \<noteq> None"
  shows "\<exists>psks' n'. resolve_edge cr old acc e psks n = (Inr psks', n')"
  using assms by (cases e) (auto simp: resolve_edge_def io_then_def fresh_psk_def generate_preshared_key_def)

lemma resolve_edges_fresh:
  assumes "\<forall>e\<in>set es. bt_get (ka_is_fresh acc) (fst e) = Some True \<and> bt_get (ka_is_fresh acc) (snd e) \<noteq> None"
  shows "\<exists>psks' n'. io_fold (resolve_edge cr old acc) es psks n = (Inr psks', n')"
  using assms
proof (induction es arbitrary: psks n)
  case (Cons e es)
  with resolve_edge_fresh [of acc e cr old psks n] show ?case by (fastforce simp: io_then_def)
qed simp

lemma resolve_nodes_fresh:
  "\<exists>acc' n'. io_fold (resolve_node cr [] sel) ns acc n = (Inr acc', n')"
proof (induction ns arbitrary: acc n)
  case (Cons x ns)
  have "resolve_node cr [] sel x acc n
      = (Inr (add_node_key cr (vn_hostname x) True \<lparr>secret = csprng cr n\<rparr> acc), Suc n)"
    by (simp add: resolve_node_def Let_def bt_get_def keypair_generate_def)
  with Cons show ?case by (simp add: io_then_def)
qed simp

lemma resolve_keys_first:
  assumes t: "topology_ok cr0 t"
  shows "\<exists>kr n'. resolve_keys cr t [] sel n = (Inr kr, n') \<and> keys_spec cr t [] sel n n' kr"
proof -
  let ?hs = "map vn_hostname (vt_nodes t)"
  note d = topology_ok_distinct [OF t]
  obtain acc m where f: "io_fold (resolve_node cr [] sel) (vt_nodes t) key_acc_init n = (Inr acc, m)"
    using resolve_nodes_fresh by blast
  have fresh: "fresh_host [] sel h" for h by (simp add: fresh_host_def bt_get_def)
  have "node_loop_inv cr [] sel n ?hs acc m" by (rule tripleD(1) [OF resolve_nodes_inv [OF d] refl f])
  then have "\<forall>h\<in>set ?hs. bt_get (ka_is_fresh acc) h = Some True" by (simp add: node_loop_inv_def fresh)
  moreover have "\<forall>(x, y)\<in>set (edges t). x \<in> set ?hs \<and> y \<in> set ?hs"
    using compute_edges_iff [OF d] by (auto simp: edges_def)
  ultimately have "\<forall>e\<in>set (edges t). bt_get (ka_is_fresh acc) (fst e) = Some True \<and>
      bt_get (ka_is_fresh acc) (snd e) \<noteq> None" by fastforce
  from resolve_edges_fresh [OF this] obtain psks n' where
    "io_fold (resolve_edge cr [] acc) (edges t) [] m = (Inr psks, n')" by blast
  with f have r: "resolve_keys cr t [] sel n = (Inr \<lparr>kr_resolved = \<lparr>node_keys = ka_node_keys acc, edge_psks = psks\<rparr>,
      kr_reused = ka_reused acc, kr_freshly_keyed = ka_freshly_keyed acc\<rparr>, n')"
    by (simp add: resolve_keys_def io_then_def)
  with tripleD(1) [OF resolve_keys_triple [OF t] refl r] show ?thesis by blast
qed

text \<open>New keys are distinct when the generator's draws give distinct public keys.\<close>

definition distinct_draws :: "crates \<Rightarrow> nat \<Rightarrow> nat \<Rightarrow> bool" where
  "distinct_draws cr n k \<longleftrightarrow> inj_on (\<lambda>i. x25519_public cr (csprng cr i)) {n..<n + k}"

lemma first_keys_distinct:
  assumes b64: "b64_roundtrip cr" and spec: "keys_spec cr t [] sel n n' kr"
    and d: "distinct_draws cr n (length (vt_nodes t))"
  shows "keys_distinct (kr_resolved kr)"
proof -
  let ?hs = "map vn_hostname (vt_nodes t)" and ?nk = "node_keys (kr_resolved kr)"
  have fresh: "filter (fresh_host [] sel) ?hs = ?hs" by (simp add: fresh_host_def bt_get_def)
  have ns: "set (bt_keys ?nk) = set ?hs"
    "\<forall>i<length ?hs. bt_get ?nk (?hs ! i) = Some (key_pair_text cr \<lparr>secret = csprng cr (n + i)\<rparr>)"
    using spec by (simp_all add: keys_spec_def nodes_spec_def Let_def fresh)
  have at: "\<exists>i<length ?hs. ?hs ! i = h \<and> k = key_pair_text cr \<lparr>secret = csprng cr (n + i)\<rparr>"
    if "bt_get ?nk h = Some k" for h k
  proof -
    have "h \<in> set ?hs" using bt_get_Some_keys [OF that] ns(1) by simp
    then obtain i where "i < length ?hs" "?hs ! i = h" by (metis in_set_conv_nth)
    with ns(2) that show ?thesis by auto
  qed
  have inj: "encode_key cr a = encode_key cr b \<Longrightarrow> a = b" for a b
    using b64 unfolding b64_roundtrip_def encode_key_def by (metis sum.inject(2))
  show ?thesis
    unfolding keys_distinct_def
  proof (intro allI impI)
    fix g h k l
    assume "bt_get ?nk g = Some k" "bt_get ?nk h = Some l" and eq: "snd k = snd l"
    then obtain i j where i: "i < length ?hs" "?hs ! i = g" "k = key_pair_text cr \<lparr>secret = csprng cr (n + i)\<rparr>"
      and j: "j < length ?hs" "?hs ! j = h" "l = key_pair_text cr \<lparr>secret = csprng cr (n + j)\<rparr>"
      using at by metis
    then have "x25519_public cr (csprng cr (n + i)) = x25519_public cr (csprng cr (n + j))"
      using eq inj by (simp add: key_pair_text_def public_key_base64_def public_key_bytes_def)
    with d i(1) j(1) have "n + i = n + j" by (auto simp: distinct_draws_def dest: inj_onD)
    with i j show "g = h" by simp
  qed
qed

section \<open>The empty bucket\<close>

definition empty_bucket :: "mock_storage \<Rightarrow> bool" where
  "empty_bucket m \<longleftrightarrow> mock_objs m = (\<lambda>_. None) \<and> writable m"

lemma fetch_first:
  assumes "empty_bucket (w_store w)"
  obtains e m' where "fetch_current_pointer cr js mock False w =
      (Inr (current_json_empty (encode (csprng cr (w_draws w))), e), w\<lparr>w_store := m', w_draws := Suc (w_draws w)\<rparr>)"
    "writable m'" "mock_objs m' = [CURRENT_JSON_KEY \<mapsto> (to_vec js (current_json_empty (encode (csprng cr (w_draws w)))), e)]"
proof -
  let ?m = "w_store w" and ?b = "to_vec js (current_json_empty (encode (csprng cr (w_draws w))))"
  have empty: "mock_objs ?m = (\<lambda>_. None)" and wr: "writable ?m" using assms by (simp_all add: empty_bucket_def)
  have "bt_keys (ms_objects ?m) = []" using mock_objs_keys [of ?m] empty by simp
  then have l: "mock_list_all NODES_PREFIX ?m = (Inr [], ?m)" by (simp add: mock_list_all_def)
  have g: "mock_get_object CURRENT_JSON_KEY ?m = (Inr None, ?m)"
    using empty by (simp add: mock_get_object_def mock_objs_def fun_eq_iff)
  from put_absent_writes [OF wr, of CURRENT_JSON_KEY] empty obtain e m' where
    m': "mock_put_if_absent CURRENT_JSON_KEY ?b ''application/json'' ?m = (Inr (Written e), m')" "writable m'"
      "mock_objs m' = [CURRENT_JSON_KEY \<mapsto> (?b, e)]" by metis
  show thesis
    by (rule that [OF _ m'(2,3)])
      (simp add: fetch_current_pointer_def on_store_def io_then_def l g draw_id_eq Let_def m'(1))
qed

lemma fetch_reusable_first: "fetch_reusable_configs cr st None hs w = (Inr [], w)"
  by (simp add: fetch_reusable_configs_def)

section \<open>A generation in place\<close>

text \<open>
  The pointer names a generation, its digests are those of the files rendered with \<open>keys\<close>, and the
  objects are exactly these files.
\<close>

definition holds_files ::
  "crates \<Rightarrow> validated_topology \<Rightarrow> resolved_keys \<Rightarrow> (string \<Rightarrow> (string \<times> string) option) \<Rightarrow> string \<Rightarrow> bool" where
  "holds_files cr t keys c gid \<longleftrightarrow> (\<forall>h\<in>vn_hostname ` set (vt_nodes t). \<exists>b e.
     render_node_config cr t keys h = Inr b \<and> c (node_object_key h gid) = Some (b, e))"

definition in_place ::
  "crates \<Rightarrow> serde \<Rightarrow> validated_topology \<Rightarrow> resolved_keys \<Rightarrow> (string \<Rightarrow> (string \<times> string) option) \<Rightarrow> bool" where
  "in_place cr js t keys c \<longleftrightarrow> (\<exists>p g e. c CURRENT_JSON_KEY = Some (to_vec js p, e) \<and> discovery_ok p \<and>
     plain_pointer p \<and> cur p = Some g \<and> described cr t keys (ge_nodes g) \<and> holds_files cr t keys c (ge_id g))"

lemma rendered_described:
  assumes r: "fold_res (render_all cr t keys) (map vn_hostname (vt_nodes t)) ([], []) = Inr (rendered, digests)"
    and t: "topology_ok cr0 t"
  shows "described cr t keys digests"
    and "stores_files rendered gid c (map vn_hostname (vt_nodes t)) \<Longrightarrow> holds_files cr t keys c gid"
proof -
  let ?hs = "map vn_hostname (vt_nodes t)"
  have ok: "rendered_ok cr ?hs (rendered, digests)" by (rule render_all_ok [OF r])
  note hs = mock.topology_hostnames(1) [OF t]
  have keys: "bt_keys digests = ?hs" using mock.rendered_keys [of cr ?hs rendered digests] ok by (simp add: hs)
  show "described cr t keys digests"
    using render_all_files [OF r] ok keys by (simp add: described_def rendered_ok_def)
  show "holds_files cr t keys c gid" if "stores_files rendered gid c ?hs"
    using that render_all_files [OF r] by (force simp: stores_files_def holds_files_def)
qed

text \<open>The cleanup at the end leaves it there; it never fails the apply.\<close>

lemma cleanup_pass_mock:
  assumes p: "cur p = Some g" and t: "topology_ok cr0 t" and w: "holds_files cr t keys (mock_objs (w_store w)) (ge_id g)"
    "writable (w_store w)" "mock_objs (w_store w) CURRENT_JSON_KEY = v"
  shows "\<exists>report' w'. cleanup_pass mock now p grace dry report w = (Inr report', w') \<and>
    ar_published report' = ar_published report \<and> ar_reused_hostnames report' = ar_reused_hostnames report \<and>
    ar_freshly_keyed_hostnames report' = ar_freshly_keyed_hostnames report \<and>
    ar_uploaded_hostnames report' = ar_uploaded_hostnames report \<and>
    holds_files cr t keys (mock_objs (w_store w')) (ge_id g) \<and> writable (w_store w') \<and>
    mock_objs (w_store w') CURRENT_JSON_KEY = v"
proof -
  let ?I = "\<lambda>s. holds_files cr t keys (mock_objs s) (ge_id g) \<and> writable s \<and> mock_objs s CURRENT_JSON_KEY = v"
  note hs = mock.topology_hostnames [OF t]
  have k: "keeps ?I (cleanup mock now p grace dry)"
  proof (rule mock.cleanup_invariant)
    fix key u
    assume m: "may_delete p now grace key u"
    then have "key \<noteq> CURRENT_JSON_KEY" using node_object_key_not_current by (auto simp: may_delete_def)
    moreover have "node_object_key h (ge_id g) \<noteq> key" if "h \<in> vn_hostname ` set (vt_nodes t)" for h
      using that hs by (intro may_delete_other [OF m p]) auto
    ultimately show "keeps ?I (delete_object mock key)"
      by (intro keepsI)
        (force simp: mock_def mock_delete_object_def mock_objs_def bt_get_filter holds_files_def writable_def)
  next
    show "keeps ?I (list_all_with_last_modified mock NODES_PREFIX)"
      by (intro keepsI) (simp add: mock_def mock_list_all_with_last_modified_def)
  qed
  obtain r s where r: "cleanup mock now p grace dry (w_store w) = (r, s)" by fastforce
  from keepsD [OF k _ r] w show ?thesis by (cases r) (simp_all add: cleanup_pass_def r)
qed

section \<open>The whole apply\<close>

lemma first_apply_outcome:
  assumes cr: "crates_documented cr" and v: "topology_validate cr config = Inr (t, ws)"
    and rot: "check_rotate (map vn_hostname (vt_nodes t)) (ao_rotate opts) = Inr ()"
    and w: "empty_bucket (w_store w)"
    and kr: "resolve_keys cr t [] (ao_rotate opts) (Suc (w_draws w)) = (Inr kr, n')"
  shows "case fold_res (render_all cr t (kr_resolved kr)) (map vn_hostname (vt_nodes t)) ([], []) of
      Inl e \<Rightarrow> fst (apply_topology cr js mock now config (opts\<lparr>ao_dry_run := False\<rparr>) w) = Inl e
    | Inr _ \<Rightarrow> \<exists>report w'. apply_topology cr js mock now config (opts\<lparr>ao_dry_run := False\<rparr>) w = (Inr report, w') \<and>
        ar_published report \<and> writable (w_store w') \<and> in_place cr js t (kr_resolved kr) (mock_objs (w_store w'))"
proof -
  let ?hs = "map vn_hostname (vt_nodes t)" and ?rid = "encode (csprng cr (w_draws w))"
  note t = topology_validate_ok [OF v]
  note hs = mock.topology_hostnames [OF t(1)]
  from fetch_first [OF w, of cr js] obtain e m' where f: "fetch_current_pointer cr js mock False w =
      (Inr (current_json_empty ?rid, e), w\<lparr>w_store := m', w_draws := Suc (w_draws w)\<rparr>)" and m': "writable m'"
      "mock_objs m' = [CURRENT_JSON_KEY \<mapsto> (to_vec js (current_json_empty ?rid), e)]" by blast
  let ?w = "w\<lparr>w_store := m', w_draws := n'\<rparr>"
  have k: "on_draws (resolve_keys cr t [] (ao_rotate opts)) (w\<lparr>w_store := m', w_draws := Suc (w_draws w)\<rparr>)
      = (Inr kr, ?w)" using kr by (simp add: on_draws_def)
  have c0: "cur (current_json_empty ?rid) = None" by (simp add: current_json_empty_def)
  show ?thesis
  proof (cases "fold_res (render_all cr t (kr_resolved kr)) ?hs ([], [])")
    case (Inl err)
    then show ?thesis
      using v rot f k c0 by (simp add: apply_topology_def io_then_def Let_def hs(1) fetch_reusable_first)
  next
    case (Inr rd)
    obtain rendered digests where rd: "rd = (rendered, digests)" by fastforce
    note rd' = rendered_described [OF Inr [unfolded rd] t(1)]
    let ?report = "\<lparr>ar_warnings = ws, ar_reused_hostnames = kr_reused kr,
      ar_freshly_keyed_hostnames = kr_freshly_keyed kr, ar_published = False, ar_new_generation_id = None,
      ar_uploaded_hostnames = [], ar_cleanup_deleted = [], ar_cleanup_skipped_within_grace = [],
      ar_cleanup_error = None\<rparr>" and ?p = "next_pointer cr (current_json_empty ?rid) digests n' (Suc n')"
    have "distinct ?hs" by (rule topology_ok_distinct [OF t(1)])
    moreover have "\<forall>h\<in>set ?hs. CHR ''/'' \<notin> set h \<and> bt_get rendered h \<noteq> None"
      using hs render_all_ok [OF Inr [unfolded rd]] by (auto simp: rendered_ok_def)
    ultimately obtain report' w2 e2 where pub: "publish cr js mock False (current_json_empty ?rid) e ?hs
        (rendered, digests) ?report ?w = (Inr (?p, report'), w2)" "ar_published report'" "writable (w_store w2)"
        "mock_objs (w_store w2) CURRENT_JSON_KEY = Some (to_vec js ?p, e2)"
        "stores_files rendered (encode (csprng cr n')) (mock_objs (w_store w2)) ?hs"
      using publish_succeeds [of ?hs rendered ?w "to_vec js (current_json_empty ?rid)" e cr js "current_json_empty ?rid" digests ?report] m'
      by auto
    have cur: "cur ?p = Some \<lparr>ge_id = encode (csprng cr n'), ge_nodes = digests\<rparr>" by (simp add: next_pointer_def)
    from cleanup_pass_mock [OF cur t(1), of cr "kr_resolved kr" w2] rd'(2) pub(3-5) obtain report2 w3 where
      clean: "cleanup_pass mock now ?p (ao_grace_period opts) False report' w2 = (Inr report2, w3)"
        "ar_published report2 = ar_published report'" "writable (w_store w3)"
        "holds_files cr t (kr_resolved kr) (mock_objs (w_store w3)) (encode (csprng cr n'))"
        "mock_objs (w_store w3) CURRENT_JSON_KEY = Some (to_vec js ?p, e2)" by (metis generation_entry.select_convs(1))
    have "discovery_ok ?p \<and> plain_pointer ?p"
      using cr by (intro next_ok [OF v _ _ _ rd'(1)]) (auto simp: crates_documented_def starting_def)
    with cur clean rd'(1) have "in_place cr js t (kr_resolved kr) (mock_objs (w_store w3))"
      unfolding in_place_def by fastforce
    with pub(1,2) clean v rot f k c0 Inr rd show ?thesis
      by (simp add: apply_topology_def io_then_def Let_def hs(1) fetch_reusable_first)
  qed
qed

section \<open>Property\<close>

text \<open>
  C27. The first apply of a valid topology, with rotation names it knows, on an empty bucket where
  no write fails, publishes the new generation, or reports that a node's file exceeds the size
  limit: when the generator's draws give distinct public keys, no other step of the apply, from
  the empty pointer to the cleanup, can fail.
\<close>
theorem first_apply_succeeds:
  assumes "crates_documented cr" and "ipnet_ranges cr" and "topology_validate cr config = Inr (t, ws)"
    and "check_rotate (map vn_hostname (vt_nodes t)) (ao_rotate opts) = Inr ()"
    and "empty_bucket (w_store w)" and "distinct_draws cr (Suc (w_draws w)) (length (vt_nodes t))"
  shows "case apply_topology cr js mock now config (opts\<lparr>ao_dry_run := False\<rparr>) w of
      (Inr report, w') \<Rightarrow> ar_published report
    | (Inl e, w') \<Rightarrow> \<exists>h len. e = RenderErr (RenderTooLarge h len) \<and> len > MAX_RENDERED_CONFIG_BYTES"
proof -
  note cr = assms(1) [unfolded crates_documented_def] and t = topology_validate_ok [OF assms(3)]
  from resolve_keys_first [OF t(1)] obtain kr n' where
    kr: "resolve_keys cr t [] (ao_rotate opts) (Suc (w_draws w)) = (Inr kr, n')"
      "keys_spec cr t [] (ao_rotate opts) (Suc (w_draws w)) n' kr" by blast
  have "published_configs cr []" by (simp add: published_configs_def bt_get_def)
  with keys_spec_typed kr(2) cr have typed: "keys_typed cr t (kr_resolved kr)" by blast
  moreover have "keys_distinct (kr_resolved kr)" using first_keys_distinct kr(2) assms(6) cr by blast
  ultimately have valid: "keys_valid cr t (kr_resolved kr)" by (simp add: keys_valid_iff)
  have big: "\<exists>len. e = RenderErr (RenderTooLarge h len) \<and> len > MAX_RENDERED_CONFIG_BYTES"
    if "render_all cr t (kr_resolved kr) h acc = Inl e" "h \<in> vn_hostname ` set (vt_nodes t)" for h acc e
  proof -
    from that(2) obtain n where n: "node t h = Some n"
      using find_hostname [OF topology_ok_distinct [OF t(1)]] by (auto simp: node_def)
    then have "n \<in> set (vt_nodes t)" "vn_hostname n = h" by (auto simp: node_def find_Some_iff)
    with typed obtain priv pub where "bt_get (node_keys (kr_resolved kr)) h = Some (priv, pub)"
      by (fastforce simp: keys_typed_def)
    from render_node_total [OF assms(3) _ _ assms(2) valid n this] cr that(1) show ?thesis
      by (cases acc) (auto simp: render_all_def and_then_Inl_iff map_err_Inl_iff Let_def split: if_splits)
  qed
  note out = first_apply_outcome [OF assms(1,3,4,5) kr(1), of js now]
  show ?thesis
  proof (cases "fold_res (render_all cr t (kr_resolved kr)) (map vn_hostname (vt_nodes t)) ([], [])")
    case (Inl e)
    then obtain h acc where "h \<in> set (map vn_hostname (vt_nodes t))" "render_all cr t (kr_resolved kr) h acc = Inl e"
      using fold_res_error by metis
    then obtain len where "e = RenderErr (RenderTooLarge h len) \<and> len > MAX_RENDERED_CONFIG_BYTES"
      using big by (metis list.set_map)
    moreover have "fst (apply_topology cr js mock now config (opts\<lparr>ao_dry_run := False\<rparr>) w) = Inl e"
      using out Inl by simp
    ultimately show ?thesis
      by (cases "apply_topology cr js mock now config (opts\<lparr>ao_dry_run := False\<rparr>) w") simp
  next
    case (Inr rd)
    with out show ?thesis by auto
  qed
qed

end
