(* ===== verification/Key_Reuse.thy ===== *)
theory Key_Reuse
  imports Key_Types
begin

text \<open>
  Keys survive a round through the bucket: given the parsed files that were rendered with some
  keys, \<open>resolve_keys\<close> without rotation returns those keys and draws nothing.
\<close>

section \<open>Files that record keys\<close>

text \<open>The tables hold exactly the nodes and the edges.\<close>

definition keys_complete :: "validated_topology \<Rightarrow> resolved_keys \<Rightarrow> bool" where
  "keys_complete t keys \<longleftrightarrow>
     bt_wf (node_keys keys) \<and> set (bt_keys (node_keys keys)) = vn_hostname ` set (vt_nodes t) \<and>
     bt_wf (edge_psks keys) \<and> set (bt_keys (edge_psks keys)) = set (edges t)"

lemma keys_spec_complete: "keys_spec cr t old sel n n' kr \<Longrightarrow> keys_complete t (kr_resolved kr)"
  by (simp add: keys_spec_def nodes_spec_def edges_spec_def keys_complete_def Let_def)

definition records_keys :: "validated_topology \<Rightarrow> resolved_keys \<Rightarrow> old_configs \<Rightarrow> bool" where
  "records_keys t keys old \<longleftrightarrow>
     (\<forall>h\<in>vn_hostname ` set (vt_nodes t). \<exists>c pub. bt_get old h = Some c \<and>
        bt_get (node_keys keys) h = Some (pi_private_key (pc_interface c), pub)) \<and>
     (\<forall>(a, b)\<in>set (edges t). \<exists>psk. bt_get (edge_psks keys) (a, b) = Some psk \<and>
        recorded_psk old a (pub_of (node_keys keys) b) = Some psk \<and>
        recorded_psk old b (pub_of (node_keys keys) a) = Some psk)"

section \<open>The loops\<close>

lemma resolve_nodes_reuse:
  assumes "\<forall>x\<in>set ns. \<exists>c kp. bt_get old (vn_hostname x) = Some c \<and>
    from_private_key_base64 cr (pi_private_key (pc_interface c)) = Inr kp"
  shows "\<exists>acc'. io_fold (resolve_node cr old RotateNone) ns acc d = (Inr acc', d)"
  using assms
proof (induction ns arbitrary: acc)
  case (Cons x ns)
  then obtain c kp where "bt_get old (vn_hostname x) = Some c"
    "from_private_key_base64 cr (pi_private_key (pc_interface c)) = Inr kp" by auto
  then have "resolve_node cr old RotateNone x acc d = (Inr (add_node_key cr (vn_hostname x) False kp acc), d)"
    by (simp add: resolve_node_def Let_def is_rotated_def io_then_def)
  with Cons show ?case by (simp add: io_then_def)
qed simp

lemma resolve_edges_reuse:
  assumes "\<And>a b. (a, b) \<in> set es \<Longrightarrow> bt_get (ka_is_fresh acc) a = Some False \<and> bt_get (ka_is_fresh acc) b = Some False \<and>
    bt_get (ka_node_keys acc) a \<noteq> None \<and> bt_get (ka_node_keys acc) b \<noteq> None \<and>
    (\<exists>psk. recorded_psk old a (pub_of (ka_node_keys acc) b) = Some psk \<and>
       recorded_psk old b (pub_of (ka_node_keys acc) a) = Some psk)"
  shows "\<exists>psks'. io_fold (resolve_edge cr old acc) es psks d = (Inr psks', d)"
  using assms
proof (induction es arbitrary: psks)
  case (Cons e es)
  obtain a b where e: "e = (a, b)" by fastforce
  with Cons.prems [of a b] obtain ka kb psk where k: "bt_get (ka_node_keys acc) a = Some ka" "bt_get (ka_node_keys acc) b = Some kb"
    "recorded_psk old a (snd kb) = Some psk" "recorded_psk old b (snd ka) = Some psk"
    by (auto simp: pub_of_def)
  have "resolve_edge cr old acc (a, b) psks d = (Inr (bt_insert (a, b) psk psks), d)"
    using Cons.prems [of a b] e k by (cases ka; cases kb) (simp add: resolve_edge_def io_then_def)
  moreover from Cons.IH [OF Cons.prems] obtain psks' where
    "io_fold (resolve_edge cr old acc) es (bt_insert (a, b) psk psks) d = (Inr psks', d)" by fastforce
  ultimately show ?case by (simp add: e io_then_def)
qed simp

section \<open>The keys come back\<close>

lemma key_text_trim: "key_text s \<Longrightarrow> trim_end s = s"
  by (simp add: key_text_def trim_end_plain)

lemma typed_pair:
  assumes "b64_canonical cr" and "keys_typed cr t keys" and "bt_get (node_keys keys) h = Some (priv, pub)"
    and "h \<in> vn_hostname ` set (vt_nodes t)"
  shows "\<exists>kp. from_private_key_base64 cr priv = Inr kp \<and> key_pair_text cr kp = (priv, pub)"
proof -
  from assms(2-4) have v: "node_key_valid cr (priv, pub)" and tx: "key_text priv"
    by (fastforce simp: keys_typed_def, fastforce simp: keys_typed_def keys_text_def)
  then obtain bs where bs: "decode_key_bytes cr priv = Inr bs" "pub = encode_key cr (x25519_public cr bs)"
    by (auto simp: node_key_valid_def public_key_from_private_Inr)
  have "encode_key cr bs = priv"
    using encode_decode_key [OF assms(1) bs(1)] key_text_trim [OF tx] by simp
  with bs show ?thesis
    by (intro exI [of _ "\<lparr>secret = bs\<rparr>"])
      (simp add: from_private_key_base64_def key_pair_text_def private_key_base64_def public_key_base64_def
        public_key_bytes_def)
qed

lemma recorded_host:
  assumes "b64_canonical cr" and "keys_typed cr t keys" and "records_keys t keys old"
    and "h \<in> set (map vn_hostname (vt_nodes t))"
  obtains c kp where "bt_get old h = Some c" "from_private_key_base64 cr (pi_private_key (pc_interface c)) = Inr kp"
    "bt_get (node_keys keys) h = Some (key_pair_text cr kp)"
proof -
  have h: "h \<in> vn_hostname ` set (vt_nodes t)" using assms(4) by simp
  with assms(3) obtain c pub where c: "bt_get old h = Some c"
    "bt_get (node_keys keys) h = Some (pi_private_key (pc_interface c), pub)" unfolding records_keys_def by blast
  from typed_pair [OF assms(1,2) c(2) h] c that show thesis by metis
qed

lemma nodes_come_back:
  assumes host: "\<And>h. h \<in> set hs \<Longrightarrow> \<exists>c kp. bt_get old h = Some c \<and>
      from_private_key_base64 cr (pi_private_key (pc_interface c)) = Inr kp \<and> bt_get nk h = Some (key_pair_text cr kp)"
    and spec: "nodes_spec cr old RotateNone n hs nk'" and nk: "bt_wf nk" "set (bt_keys nk) = set hs"
  shows "nk' = nk"
proof (rule bt_wf_eqI)
  show "bt_wf nk'" using spec by (simp add: nodes_spec_def Let_def)
  have keys: "set (bt_keys nk') = set hs" using spec by (simp add: nodes_spec_def Let_def)
  fix h
  show "bt_get nk' h = bt_get nk h"
  proof (cases "h \<in> set hs")
    case True
    from host [OF this] obtain c kp where c: "bt_get old h = Some c"
      "from_private_key_base64 cr (pi_private_key (pc_interface c)) = Inr kp" "bt_get nk h = Some (key_pair_text cr kp)"
      by blast
    then have "\<not> fresh_host old RotateNone h" by (simp add: fresh_host_def is_rotated_def)
    with spec True c show ?thesis unfolding nodes_spec_def Let_def by fastforce
  next
    case False
    then have "bt_get nk' h = None" "bt_get nk h = None" by (simp_all add: bt_get_None_keys keys nk(2))
    then show ?thesis by simp
  qed
qed (rule nk)

lemma psks_come_back:
  assumes edge: "\<And>a b. (a, b) \<in> set es \<Longrightarrow> \<not> fresh_edge old RotateNone nk (a, b) \<and> (\<exists>psk.
      bt_get psks (a, b) = Some psk \<and> recorded_psk old a (pub_of nk b) = Some psk)"
    and spec: "edges_spec cr old RotateNone n nk es psks'" and psks: "bt_wf psks" "set (bt_keys psks) = set es"
  shows "psks' = psks"
proof (rule bt_wf_eqI)
  show "bt_wf psks'" using spec by (simp add: edges_spec_def Let_def)
  have keys: "set (bt_keys psks') = set es" using spec by (simp add: edges_spec_def Let_def)
  fix e :: "string \<times> string"
  obtain a b where e: "e = (a, b)" by fastforce
  show "bt_get psks' e = bt_get psks e"
  proof (cases "e \<in> set es")
    case True
    with edge e obtain psk where "\<not> fresh_edge old RotateNone nk e" "bt_get psks e = Some psk"
      "recorded_psk old a (pub_of nk b) = Some psk" by blast
    with spec True e show ?thesis unfolding edges_spec_def Let_def by fastforce
  next
    case False
    then have "bt_get psks' e = None" "bt_get psks e = None" by (simp_all add: bt_get_None_keys keys psks(2))
    then show ?thesis by simp
  qed
qed (rule psks)

lemma resolve_keys_reuse:
  assumes t: "topology_ok cr0 t" and cr: "b64_canonical cr" and k: "keys_typed cr t keys" and c: "keys_complete t keys"
    and old: "records_keys t keys old"
  shows "resolve_keys cr t old RotateNone n =
    (Inr \<lparr>kr_resolved = keys, kr_reused = map vn_hostname (vt_nodes t), kr_freshly_keyed = []\<rparr>, n)"
proof -
  let ?hs = "map vn_hostname (vt_nodes t)"
  note d = topology_ok_distinct [OF t] and host = recorded_host [OF cr k old]
  have host': "\<exists>c kp. bt_get old h = Some c \<and> from_private_key_base64 cr (pi_private_key (pc_interface c)) = Inr kp \<and>
      bt_get (node_keys keys) h = Some (key_pair_text cr kp)" if "h \<in> set ?hs" for h
    using host [OF that] by metis
  have fresh: "\<not> fresh_host old RotateNone h" if "h \<in> set ?hs" for h
    using host [OF that] by (metis fresh_host_def is_rotated_def option.distinct(1) rotate_selection.simps(8))
  have ends: "a \<in> set ?hs \<and> b \<in> set ?hs" if "(a, b) \<in> set (edges t)" for a b
    using that compute_edges_iff [OF d] by (auto simp: edges_def)
  have edge: "\<exists>psk. bt_get (edge_psks keys) (a, b) = Some psk \<and> recorded_psk old a (pub_of (node_keys keys) b) = Some psk \<and>
      recorded_psk old b (pub_of (node_keys keys) a) = Some psk" if "(a, b) \<in> set (edges t)" for a b
    using that old unfolding records_keys_def by blast
  have "\<exists>c kp. bt_get old (vn_hostname x) = Some c \<and> from_private_key_base64 cr (pi_private_key (pc_interface c)) = Inr kp"
    if "x \<in> set (vt_nodes t)" for x
    using host' [of "vn_hostname x"] that by auto
  then have "\<forall>x\<in>set (vt_nodes t). \<exists>c kp. bt_get old (vn_hostname x) = Some c \<and>
      from_private_key_base64 cr (pi_private_key (pc_interface c)) = Inr kp" by blast
  from resolve_nodes_reuse [OF this] obtain acc where
    f: "io_fold (resolve_node cr old RotateNone) (vt_nodes t) key_acc_init n = (Inr acc, n)" by blast
  have inv: "node_loop_inv cr old RotateNone n ?hs acc n" by (rule tripleD(1) [OF resolve_nodes_inv [OF d] refl f])
  have nk: "ka_node_keys acc = node_keys keys"
    by (rule nodes_come_back [OF host', where hs = ?hs]) (use inv c in \<open>auto simp: node_loop_inv_def keys_complete_def\<close>)
  have "bt_get (ka_is_fresh acc) h = Some False \<and> bt_get (ka_node_keys acc) h \<noteq> None" if "h \<in> set ?hs" for h
    using inv fresh [OF that] host' [OF that] that nk by (auto simp: node_loop_inv_def)
  with edge ends have "bt_get (ka_is_fresh acc) a = Some False \<and>
      bt_get (ka_is_fresh acc) b = Some False \<and> bt_get (ka_node_keys acc) a \<noteq> None \<and>
      bt_get (ka_node_keys acc) b \<noteq> None \<and> (\<exists>psk. recorded_psk old a (pub_of (ka_node_keys acc) b) = Some psk \<and>
        recorded_psk old b (pub_of (ka_node_keys acc) a) = Some psk)" if "(a, b) \<in> set (edges t)" for a b
    using that unfolding nk by blast
  from resolve_edges_reuse [OF this] obtain psks where
    "io_fold (resolve_edge cr old acc) (edges t) [] n = (Inr psks, n)" by blast
  with f have r: "resolve_keys cr t old RotateNone n = (Inr \<lparr>kr_resolved = \<lparr>node_keys = node_keys keys, edge_psks = psks\<rparr>,
      kr_reused = ka_reused acc, kr_freshly_keyed = ka_freshly_keyed acc\<rparr>, n)" (is "_ = (Inr ?kr, n)")
    by (simp add: resolve_keys_def io_then_def nk)
  have spec: "keys_spec cr t old RotateNone n n ?kr"
    by (rule tripleD(1) [OF resolve_keys_triple [OF t] refl r])
  then obtain m where es: "edges_spec cr old RotateNone m (node_keys keys) (edges t) psks"
    unfolding keys_spec_def Let_def by auto
  have "psks = edge_psks keys"
    by (rule psks_come_back [OF _ es]) (use c edge ends fresh in \<open>fastforce simp: keys_complete_def fresh_edge_def\<close>)+
  moreover have "filter (fresh_host old RotateNone) ?hs = []" "filter (\<lambda>h. \<not> fresh_host old RotateNone h) ?hs = ?hs"
    using fresh by (auto simp: filter_empty_conv intro: filter_True)
  ultimately show ?thesis using r spec by (simp add: keys_spec_def Let_def)
qed

end
