(* ===== verification/Reapply.thy ===== *)
theory Reapply
  imports First_Apply Key_Reuse
begin

text \<open>
  Applies after the first: on a bucket whose generation is in place, an apply of the same topology
  without rotation reuses every key, renders the same bytes and publishes nothing.
\<close>

section \<open>The published files record the keys\<close>

lemma find_map_unique:
  "x \<in> set xs \<Longrightarrow> (\<And>y. y \<in> set xs \<Longrightarrow> g (f y) = g (f x) \<Longrightarrow> y = x) \<Longrightarrow>
    List.find (\<lambda>z. g z = g (f x)) (map f xs) = Some (f x)"
  by (induction xs) auto

definition reads_back ::
  "crates \<Rightarrow> validated_topology \<Rightarrow> resolved_keys \<Rightarrow> old_configs \<Rightarrow> bool" where
  "reads_back cr t keys old \<longleftrightarrow> (\<forall>h\<in>vn_hostname ` set (vt_nodes t). \<exists>n priv pub. node t h = Some n \<and>
     bt_get (node_keys keys) h = Some (priv, pub) \<and> bt_get old h = Some (rendered_for cr t keys h n priv))"

lemma edge_ends:
  assumes "topology_ok cr0 t" and "(a, b) \<in> set (edges t)"
  shows "a < b" and "a \<in> vn_hostname ` set (vt_nodes t)" and "b \<in> vn_hostname ` set (vt_nodes t)"
  using assms(2) compute_edges_iff [OF topology_ok_distinct [OF assms(1)]] by (auto simp: edges_def)

lemma peers_of_hosts:
  assumes "topology_ok cr0 t" and "p \<in> set (peers_of h (edges t))"
  shows "p \<in> vn_hostname ` set (vt_nodes t)"
  using assms(2) edge_ends [OF assms(1)] by (auto simp: peers_of_edges)

lemma recorded_psk_back:
  assumes t: "topology_ok cr0 t" and d: "keys_distinct keys" and k: "keys_typed cr t keys"
    and rb: "reads_back cr t keys old" and a: "a \<in> vn_hostname ` set (vt_nodes t)" and b: "b \<in> set (peers_of a (edges t))"
  shows "recorded_psk old a (pub_of (node_keys keys) b) = Some (the (bt_get (edge_psks keys) (canonical_pair a b)))"
proof -
  let ?nk = "node_keys keys"
  from rb a obtain n priv where old: "bt_get old a = Some (rendered_for cr t keys a n priv)"
    by (force simp: reads_back_def)
  have "y = b" if "y \<in> set (peers_of a (edges t))" "pub_of ?nk y = pub_of ?nk b" for y
  proof -
    have "\<exists>k. bt_get ?nk h = Some k" if "h \<in> set (peers_of a (edges t))" for h
      using peers_of_hosts [OF t that] k by (auto simp: keys_typed_def)
    with that(1) b obtain ky kb where "bt_get ?nk y = Some ky" "bt_get ?nk b = Some kb" by blast
    moreover from this that(2) have "snd ky = snd kb" by (simp add: pub_of_def)
    ultimately show ?thesis using d unfolding keys_distinct_def by blast
  qed
  note unique = this
  have "\<exists>f. pc_peers (rendered_for cr t keys a n priv) = map f (peers_of a (edges t)) \<and>
      (\<forall>p. pp_public_key (f p) = pub_of ?nk p \<and>
        pp_preshared_key (f p) = the (bt_get (edge_psks keys) (canonical_pair a p)))"
    unfolding rendered_for_def parsed_config.select_convs by (rule exI, rule conjI, rule refl) (simp add: Let_def pub_of_def)
  then obtain f where f: "pc_peers (rendered_for cr t keys a n priv) = map f (peers_of a (edges t))"
    "\<And>p. pp_public_key (f p) = pub_of ?nk p"
    "\<And>p. pp_preshared_key (f p) = the (bt_get (edge_psks keys) (canonical_pair a p))" by blast
  have "List.find (\<lambda>p. pp_public_key p = pp_public_key (f b)) (map f (peers_of a (edges t))) = Some (f b)"
    by (rule find_map_unique [OF b]) (simp add: f(2) unique)
  then show ?thesis by (simp add: recorded_psk_def old f)
qed

lemma reads_back_records:
  assumes t: "topology_ok cr0 t" and d: "keys_distinct keys" and k: "keys_typed cr t keys"
    and rb: "reads_back cr t keys old"
  shows "records_keys t keys old"
  unfolding records_keys_def
proof (intro conjI ballI)
  fix h
  assume "h \<in> vn_hostname ` set (vt_nodes t)"
  with rb show "\<exists>c pub. bt_get old h = Some c \<and> bt_get (node_keys keys) h = Some (pi_private_key (pc_interface c), pub)"
    by (force simp: reads_back_def rendered_interface_simps)
next
  fix e
  assume e: "e \<in> set (edges t)"
  obtain a b where ab: "e = (a, b)" by fastforce
  note ends = edge_ends [OF t e [unfolded ab]]
  from k e obtain psk where psk: "bt_get (edge_psks keys) e = Some psk" by (auto simp: keys_typed_def)
  have "b \<in> set (peers_of a (edges t))" "a \<in> set (peers_of b (edges t))" using e ab by (simp_all add: peers_of_edges)
  moreover have "canonical_pair a b = e" "canonical_pair b a = e" using ends(1) ab by (auto simp: canonical_pair_less)
  ultimately have "recorded_psk old a (pub_of (node_keys keys) b) = Some psk \<and>
      recorded_psk old b (pub_of (node_keys keys) a) = Some psk"
    using recorded_psk_back [OF t d k rb] ends(2,3) psk by simp
  with psk ab show "case e of (a, b) \<Rightarrow> \<exists>psk. bt_get (edge_psks keys) (a, b) = Some psk \<and>
      recorded_psk old a (pub_of (node_keys keys) b) = Some psk \<and> recorded_psk old b (pub_of (node_keys keys) a) = Some psk"
    by simp
qed

section \<open>Reading them\<close>

lemma mock_get_objs:
  assumes "mock_objs m k = Some (b, e)"
  shows "mock_get_object k m = (Inr (Some \<lparr>fo_bytes = b, fo_etag = e\<rparr>), m)"
  using assms by (auto simp: mock_objs_def mock_get_object_def)

lemma fetch_configs_back:
  assumes "\<forall>h\<in>set hs. \<exists>b e c. bt_get (ge_nodes g) h = Some (digest_of cr b) \<and>
    mock_objs (w_store w) (node_object_key h (ge_id g)) = Some (b, e) \<and>
    parse_wg_quick cr (from_utf8_lossy b) = Inr c \<and> P h c"
  shows "\<exists>old. io_fold (fetch_config cr mock g) hs out w = (Inr old, w) \<and>
    (\<forall>h. bt_get old h = bt_get out h \<and> h \<notin> set hs \<or> h \<in> set hs \<and> (\<exists>c. bt_get old h = Some c \<and> P h c))"
  using assms
proof (induction hs arbitrary: out)
  case (Cons h hs)
  then obtain b e c where h: "bt_get (ge_nodes g) h = Some (digest_of cr b)"
    "mock_objs (w_store w) (node_object_key h (ge_id g)) = Some (b, e)" "parse_wg_quick cr (from_utf8_lossy b) = Inr c" "P h c"
    by auto
  have "fetch_config cr mock g h out w = (Inr (bt_insert h c out), w)"
    by (simp add: fetch_config_def h on_store_def io_then_def mock_get_objs [OF h(2)])
  moreover from Cons obtain old where old: "io_fold (fetch_config cr mock g) hs (bt_insert h c out) w = (Inr old, w)"
    "\<forall>h'. bt_get old h' = bt_get (bt_insert h c out) h' \<and> h' \<notin> set hs \<or> h' \<in> set hs \<and> (\<exists>c. bt_get old h' = Some c \<and> P h' c)"
    by fastforce
  moreover have "\<forall>h'. bt_get old h' = bt_get out h' \<and> h' \<notin> set (h # hs) \<or>
      h' \<in> set (h # hs) \<and> (\<exists>c. bt_get old h' = Some c \<and> P h' c)"
    using old(2) h(4) by (simp split: if_splits) metis
  ultimately show ?case by (auto simp: io_then_def)
qed simp

section \<open>One more apply\<close>

text \<open>\<open>serde_json\<close> reads back the pointers it wrote.\<close>

definition serde_rereads :: "serde \<Rightarrow> bool" where
  "serde_rereads js \<longleftrightarrow> (\<forall>p. discovery_ok p \<and> plain_pointer p \<longrightarrow>
     to_vec js p = pointer_text p \<and> from_str js (pointer_text p) = Inr p)"

lemma fetch_pointer_back:
  assumes js: "serde_rereads js" and p: "discovery_ok p" "plain_pointer p"
    and c: "mock_objs (w_store w) CURRENT_JSON_KEY = Some (to_vec js p, e)"
  shows "fetch_current_pointer cr js mock dry w = (Inr (p, e), w)"
proof -
  have tx: "to_vec js p = pointer_text p" "from_str js (pointer_text p) = Inr p"
    using js p by (simp_all add: serde_rereads_def)
  note acc = pointer_text_accepted [OF p]
  have "from_utf8_or_default (pointer_text p) = pointer_text p"
    using utf8_valid_ascii [OF acc(1)] by (simp add: from_utf8_or_default_def)
  then have "parse_pointer js (to_vec js p) = Inr p"
    using acc(2) tx by (simp add: parse_pointer_def discovery_parse_def)
  moreover have "discovery_validate p = Inr ()" using p(1) by (simp add: discovery_validate_iff)
  ultimately show ?thesis
    by (simp add: fetch_current_pointer_def on_store_def io_then_def mock_get_objs [OF c] read_pointer_def)
qed

lemma described_unique: "described cr t keys ds \<Longrightarrow> described cr t keys ds' \<Longrightarrow> ds = ds'"
proof (rule bt_wf_eqI)
  assume d: "described cr t keys ds" "described cr t keys ds'"
  show "bt_wf ds" "bt_wf ds'" using d by (simp_all add: described_def)
  fix h
  have keys: "bt_keys ds = bt_keys ds'" using d by (simp add: described_def)
  show "bt_get ds h = bt_get ds' h"
  proof (cases "h \<in> set (bt_keys ds)")
    case True
    moreover have "h \<in> set (bt_keys ds')" using True keys by simp
    ultimately obtain b b' where "render_node_config cr t keys h = Inr b" "bt_get ds h = Some (digest_of cr b)"
      "render_node_config cr t keys h = Inr b'" "bt_get ds' h = Some (digest_of cr b')"
      using d unfolding described_def by blast
    then show ?thesis by simp
  next
    case False
    then have "bt_get ds h = None" "bt_get ds' h = None" using keys by (simp_all add: bt_get_None_keys)
    then show ?thesis by simp
  qed
qed

lemma fetch_old_back:
  assumes v: "topology_validate cr config = Inr (t, ws)" and cr: "crates_documented cr" and u: "config_utf8 config"
    and k: "keys_typed cr t keys" and ds: "described cr t keys (ge_nodes g)"
    and f: "holds_files cr t keys (mock_objs (w_store w)) (ge_id g)"
  obtains old where "io_fold (fetch_config cr mock g) (map vn_hostname (vt_nodes t)) [] w = (Inr old, w)"
    "reads_back cr t keys old"
proof -
  let ?hs = "map vn_hostname (vt_nodes t)"
  let ?P = "\<lambda>h c. \<exists>n priv pub. node t h = Some n \<and> bt_get (node_keys keys) h = Some (priv, pub) \<and>
    c = rendered_for cr t keys h n priv"
  note cr' = cr [unfolded crates_documented_def]
  have tx: "keys_text keys" using k by (simp add: keys_typed_def)
  have "\<exists>b e c. bt_get (ge_nodes g) h = Some (digest_of cr b) \<and>
      mock_objs (w_store w) (node_object_key h (ge_id g)) = Some (b, e) \<and>
      parse_wg_quick cr (from_utf8_lossy b) = Inr c \<and> ?P h c" if h: "h \<in> set ?hs" for h
  proof -
    from f h obtain b e where b: "render_node_config cr t keys h = Inr b"
      "mock_objs (w_store w) (node_object_key h (ge_id g)) = Some (b, e)" by (auto simp: holds_files_def)
    have "h \<in> set (bt_keys (ge_nodes g))" using ds h by (simp add: described_def)
    with ds obtain b' where "render_node_config cr t keys h = Inr b'" "bt_get (ge_nodes g) h = Some (digest_of cr b')"
      unfolding described_def by blast
    with b(1) have "bt_get (ge_nodes g) h = Some (digest_of cr b)" by simp
    moreover from rendered_utf8 [OF v _ _ tx u b(1)] cr' have "from_utf8_lossy b = b"
      by (simp add: from_utf8_lossy_valid)
    ultimately show ?thesis using render_parses_back [OF v _ _ tx b(1)] cr' b(2) by fastforce
  qed
  then have "\<forall>h\<in>set ?hs. \<exists>b e c. bt_get (ge_nodes g) h = Some (digest_of cr b) \<and>
      mock_objs (w_store w) (node_object_key h (ge_id g)) = Some (b, e) \<and>
      parse_wg_quick cr (from_utf8_lossy b) = Inr c \<and> ?P h c" by blast
  from fetch_configs_back [OF this, of "[]"] obtain old where "io_fold (fetch_config cr mock g) ?hs [] w = (Inr old, w)"
    "\<forall>h\<in>set ?hs. \<exists>c. bt_get old h = Some c \<and> ?P h c" by blast
  with that show thesis unfolding reads_back_def by fastforce
qed

definition nothing_new :: "validated_topology \<Rightarrow> apply_report \<Rightarrow> bool" where
  "nothing_new t report \<longleftrightarrow> \<not> ar_published report \<and> ar_uploaded_hostnames report = [] \<and>
     ar_freshly_keyed_hostnames report = [] \<and> ar_reused_hostnames report = map vn_hostname (vt_nodes t)"

definition generation_settled :: "crates \<Rightarrow> serde \<Rightarrow> validated_topology \<Rightarrow> resolved_keys \<Rightarrow> mock_storage \<Rightarrow> bool" where
  "generation_settled cr js t keys m \<longleftrightarrow> in_place cr js t keys (mock_objs m) \<and> writable m \<and>
     keys_typed cr t keys \<and> keys_distinct keys \<and> keys_complete t keys"

lemma refresh_mock:
  assumes "writable (w_store w)" and "mock_objs (w_store w) CURRENT_JSON_KEY = Some (b, e)"
  obtains m e' where "refresh cr js mock False p e report w =
      (Inr (refreshed_pointer cr p (w_draws w), report), w\<lparr>w_draws := Suc (w_draws w), w_store := m\<rparr>)"
    "writable m" "mock_objs m = (mock_objs (w_store w))(CURRENT_JSON_KEY \<mapsto> (to_vec js (refreshed_pointer cr p (w_draws w)), e'))"
proof -
  let ?w = "w\<lparr>w_draws := Suc (w_draws w)\<rparr>" and ?p = "refreshed_pointer cr p (w_draws w)"
  from commit_succeeds [of ?w b e js p ?p] assms obtain m e' where
    "commit_pointer js mock p e ?p ?w = (Inr (), ?w\<lparr>w_store := m\<rparr>)" "writable m"
    "mock_objs m = (mock_objs (w_store w))(CURRENT_JSON_KEY \<mapsto> (to_vec js ?p, e'))" by auto
  with that show thesis
    by (simp add: refresh_def io_then_def draw_id_eq Let_def refreshed_pointer_def)
qed

lemma render_again:
  assumes ds: "described cr t keys ds" and t: "topology_ok cr0 t"
  obtains rendered where "fold_res (render_all cr t keys) (map vn_hostname (vt_nodes t)) ([], []) = Inr (rendered, ds)"
proof -
  have "is_ok (fold_res (render_all cr t keys) (map vn_hostname (vt_nodes t)) ([], []))"
  proof (rule fold_res_total)
    fix h acc
    assume "h \<in> set (map vn_hostname (vt_nodes t))"
    then have "h \<in> set (bt_keys ds)" using ds by (simp add: described_def)
    then obtain b where "render_node_config cr t keys h = Inr b" using ds unfolding described_def by blast
    then show "is_ok (render_all cr t keys h acc)" by (cases acc) (simp add: render_all_def is_ok_iff)
  qed
  then obtain rendered digests where
    r: "fold_res (render_all cr t keys) (map vn_hostname (vt_nodes t)) ([], []) = Inr (rendered, digests)"
    by (auto simp: is_ok_iff)
  with described_unique [OF ds rendered_described(1) [OF r t]] that show thesis by simp
qed

lemma reapply_step:
  assumes cr: "crates_documented cr" and v: "topology_validate cr config = Inr (t, ws)" and u: "config_utf8 config"
    and js: "serde_rereads js" and s: "generation_settled cr js t keys (w_store w)"
  shows "\<exists>report w'. apply_topology cr js mock now config
      \<lparr>ao_dry_run = False, ao_rotate = RotateNone, ao_grace_period = grace\<rparr> w = (Inr report, w') \<and>
    nothing_new t report \<and> generation_settled cr js t keys (w_store w')"
proof -
  let ?hs = "map vn_hostname (vt_nodes t)" and ?c = "mock_objs (w_store w)"
  note t = topology_validate_ok [OF v] and cr' = cr [unfolded crates_documented_def]
  note hs = mock.topology_hostnames(1) [OF t(1)]
  from s obtain p g e where c: "?c CURRENT_JSON_KEY = Some (to_vec js p, e)" "discovery_ok p" "plain_pointer p"
      "cur p = Some g" and ds: "described cr t keys (ge_nodes g)" and f: "holds_files cr t keys ?c (ge_id g)"
      and k: "keys_typed cr t keys" "keys_distinct keys" "keys_complete t keys" and w: "writable (w_store w)"
    unfolding generation_settled_def in_place_def by blast
  note fp = fetch_pointer_back [OF js c(2,3,1), of cr False]
  obtain old where old: "io_fold (fetch_config cr mock g) ?hs [] w = (Inr old, w)" "reads_back cr t keys old"
    by (rule fetch_old_back [OF v cr u k(1) ds f])
  have "records_keys t keys old" by (rule reads_back_records [OF t(1) k(2,1) old(2)])
  with cr' have kr: "resolve_keys cr t old RotateNone n =
      (Inr \<lparr>kr_resolved = keys, kr_reused = ?hs, kr_freshly_keyed = []\<rparr>, n)" for n
    by (intro resolve_keys_reuse [OF t(1) _ k(1,3)]) simp_all
  obtain rendered where rd: "fold_res (render_all cr t keys) ?hs ([], []) = Inr (rendered, ge_nodes g)"
    by (rule render_again [OF ds t(1)])
  have keys: "bt_keys (ge_nodes g) = ?hs" using ds by (simp add: described_def)
  let ?report = "\<lparr>ar_warnings = ws, ar_reused_hostnames = ?hs, ar_freshly_keyed_hostnames = [],
    ar_published = False, ar_new_generation_id = None, ar_uploaded_hostnames = [], ar_cleanup_deleted = [],
    ar_cleanup_skipped_within_grace = [], ar_cleanup_error = None\<rparr>" and ?p = "refreshed_pointer cr p (w_draws w)"
  obtain m e' where rf: "refresh cr js mock False p e ?report w = (Inr (?p, ?report), w\<lparr>w_draws := Suc (w_draws w), w_store := m\<rparr>)"
      (is "_ = (_, ?w2)") and m: "writable m" "mock_objs m = ?c(CURRENT_JSON_KEY \<mapsto> (to_vec js ?p, e'))"
    by (rule refresh_mock [OF w c(1)])
  have "holds_files cr t keys (mock_objs m) (ge_id g)"
    using f m(2) node_object_key_not_current by (simp add: holds_files_def)
  moreover have cur: "cur ?p = Some g" using c(4) by (simp add: refreshed_pointer_def)
  ultimately obtain report w3 where clean: "cleanup_pass mock now ?p grace False ?report ?w2 = (Inr report, w3)"
      "nothing_new t report" "holds_files cr t keys (mock_objs (w_store w3)) (ge_id g)" "writable (w_store w3)"
      "mock_objs (w_store w3) CURRENT_JSON_KEY = Some (to_vec js ?p, e')"
    using cleanup_pass_mock [OF _ t(1), of ?p g cr keys ?w2 _ now grace False ?report] m
    by (auto simp: nothing_new_def)
  have "discovery_ok ?p \<and> plain_pointer ?p" using refreshed_pointer_ok [OF c(2,3)] cr' by blast
  with cur clean ds k have "generation_settled cr js t keys (w_store w3)" unfolding generation_settled_def in_place_def by blast
  moreover have "apply_topology cr js mock now config
      \<lparr>ao_dry_run = False, ao_rotate = RotateNone, ao_grace_period = grace\<rparr> w = (Inr report, w3)"
    using v fp old(1) kr rd keys rf clean(1) c(4)
    by (simp add: apply_topology_def io_then_def Let_def hs check_rotate_def fetch_reusable_configs_def on_draws_def)
  ultimately show ?thesis using clean(2) by blast
qed

section \<open>Property\<close>

text \<open>A sequence of routine applies, each with its time and its grace period.\<close>

fun routine_applies ::
  "crates \<Rightarrow> serde \<Rightarrow> topology_config \<Rightarrow> (nat \<times> nat) list \<Rightarrow> mock_storage world
    \<Rightarrow> (apply_error + apply_report) list \<times> mock_storage world" where
  "routine_applies cr js config [] w = ([], w)"
| "routine_applies cr js config ((now, grace) # runs) w =
     (case apply_topology cr js mock now config
         \<lparr>ao_dry_run = False, ao_rotate = RotateNone, ao_grace_period = grace\<rparr> w of
        (r, w') \<Rightarrow> (case routine_applies cr js config runs w' of (rs, w'') \<Rightarrow> (r # rs, w'')))"

lemma routine_applies_settled:
  assumes "crates_documented cr" and "topology_validate cr config = Inr (t, ws)" and "config_utf8 config"
    and "serde_rereads js" and "generation_settled cr js t keys (w_store w)"
  shows "(\<forall>r\<in>set (fst (routine_applies cr js config runs w)). \<exists>report. r = Inr report \<and> nothing_new t report) \<and>
    generation_settled cr js t keys (w_store (snd (routine_applies cr js config runs w)))"
  using assms(5)
proof (induction runs arbitrary: w)
  case (Cons run runs)
  obtain now grace where run: "run = (now, grace)" by fastforce
  from reapply_step [OF assms(1-4) Cons.prems, of now grace] obtain report w' where
    w': "apply_topology cr js mock now config \<lparr>ao_dry_run = False, ao_rotate = RotateNone, ao_grace_period = grace\<rparr> w
      = (Inr report, w')" "nothing_new t report" "generation_settled cr js t keys (w_store w')" by blast
  with Cons.IH [OF w'(3)] show ?case
    by (cases "routine_applies cr js config runs w'") (simp add: run)
qed simp

lemma first_apply_settles:
  assumes cr: "crates_documented cr" and v: "topology_validate cr config = Inr (t, ws)"
    and rot: "check_rotate (map vn_hostname (vt_nodes t)) (ao_rotate opts) = Inr ()"
    and w: "empty_bucket (w_store w)" and d: "distinct_draws cr (Suc (w_draws w)) (length (vt_nodes t))"
    and r: "apply_topology cr js mock now config (opts\<lparr>ao_dry_run := False\<rparr>) w = (Inr report, w')"
  shows "\<exists>keys. generation_settled cr js t keys (w_store w')"
proof -
  note cr' = cr [unfolded crates_documented_def] and t = topology_validate_ok [OF v]
  from resolve_keys_first [OF t(1)] obtain kr n' where
    kr: "resolve_keys cr t [] (ao_rotate opts) (Suc (w_draws w)) = (Inr kr, n')"
      "keys_spec cr t [] (ao_rotate opts) (Suc (w_draws w)) n' kr" by blast
  have "published_configs cr []" by (simp add: published_configs_def bt_get_def)
  with keys_spec_typed kr(2) cr' have "keys_typed cr t (kr_resolved kr)" by blast
  moreover have "keys_distinct (kr_resolved kr)" using first_keys_distinct kr(2) d cr' by blast
  moreover have "keys_complete t (kr_resolved kr)" by (rule keys_spec_complete [OF kr(2)])
  moreover have "in_place cr js t (kr_resolved kr) (mock_objs (w_store w')) \<and> writable (w_store w')"
    using first_apply_outcome [OF cr v rot w kr(1), of js now] r
    by (cases "fold_res (render_all cr t (kr_resolved kr)) (map vn_hostname (vt_nodes t)) ([], [])") simp_all
  ultimately show ?thesis unfolding generation_settled_def by blast
qed

text \<open>
  C2. Applying is idempotent.  After a first apply that succeeded, every further apply of the same
  topology without rotation, however many and whenever they run, succeeds and publishes nothing:
  it uploads no file and makes no key, and it reuses the keys of every node.
\<close>
theorem reapply_publishes_nothing:
  assumes "crates_documented cr" and "topology_validate cr config = Inr (t, ws)" and "config_utf8 config"
    and "serde_rereads js" and "check_rotate (map vn_hostname (vt_nodes t)) (ao_rotate opts) = Inr ()"
    and "empty_bucket (w_store w)" and "distinct_draws cr (Suc (w_draws w)) (length (vt_nodes t))"
    and "apply_topology cr js mock now config (opts\<lparr>ao_dry_run := False\<rparr>) w = (Inr report, w')"
  shows "list_all (\<lambda>r. \<exists>later. r = Inr later \<and> \<not> ar_published later \<and> ar_uploaded_hostnames later = [] \<and>
    ar_freshly_keyed_hostnames later = [] \<and> ar_reused_hostnames later = map vn_hostname (vt_nodes t))
    (fst (routine_applies cr js config runs w'))"
  using first_apply_settles [OF assms(1,2,5-8)] routine_applies_settled [OF assms(1-4)]
  unfolding nothing_new_def list_all_iff by metis

end
