(* ===== verification/Crash_Recovery.thy ===== *)
theory Crash_Recovery
  imports Sync_Transaction
begin

text \<open>
  A crash at any point of a sync pass, and the recovery of the next one.  \<open>halting\<close> is a host that
  stops after a number of calls: from then on nothing changes any more, so its state is the one
  a crash leaves.  The invariant is what the next pass would make of the files
  (\<open>recovered\<close>): at every point it is the configuration the pass started from or the
  verified new one.
\<close>

section \<open>A host that stops\<close>

definition halt_call :: "('o, string, unit) io \<Rightarrow> ('o \<times> nat, string, unit) io" where
  "halt_call m = (\<lambda>(s, n). if n = 0 then (Inl ''halted'', (s, 0))
     else case m s of (r, s') \<Rightarrow> (r, (s', n - 1)))"

definition halt_query :: "('o, 'a) query \<Rightarrow> ('o \<times> nat, 'a) query" where
  "halt_query q = (\<lambda>(s, n). case q s of (x, s') \<Rightarrow> (x, (s', n)))"

definition halting :: "'o system_ops \<Rightarrow> ('o \<times> nat) system_ops" where
  "halting ops = \<lparr>
     read_file = (\<lambda>p. halt_query (read_file ops p)),
     write_file_atomic = (\<lambda>p b. halt_call (write_file_atomic ops p b)),
     copy_file = (\<lambda>f t. halt_call (copy_file ops f t)),
     file_exists = (\<lambda>p. halt_query (file_exists ops p)),
     interface_exists = (\<lambda>i. halt_query (interface_exists ops i)),
     apply_interface = (\<lambda>i p. halt_call (apply_interface ops i p)),
     teardown_interface = (\<lambda>i. halt_call (teardown_interface ops i)),
     preflight = (\<lambda>c h i. halt_call (preflight ops c h i))\<rparr>"

text \<open>
  A host that may stop: when it has, every call fails and changes nothing, and a copy of an
  existing file fails only because of that.
\<close>

locale crash_host = system_contract +
  fixes halted :: "'a \<Rightarrow> bool"
  assumes copy_halts: "\<And>f t s e s'. copy_file ops f t s = (Inl e, s') \<Longrightarrow> f \<in> managed conf \<Longrightarrow> t \<in> managed conf \<Longrightarrow>
      files s f \<noteq> None \<Longrightarrow> halted s' \<and> files s' = files s"
    and halted_read: "\<And>p s r s'. read_file ops p s = (r, s') \<Longrightarrow> halted s' = halted s"
    and halted_exists: "\<And>p s r s'. file_exists ops p s = (r, s') \<Longrightarrow> halted s' = halted s"
    and halted_iface: "\<And>i s r s'. interface_exists ops i s = (r, s') \<Longrightarrow> halted s' = halted s"
    and halted_write: "\<And>p b s r s'. write_file_atomic ops p b s = (r, s') \<Longrightarrow> halted s \<Longrightarrow> halted s' \<and> \<not> is_ok r"
    and halted_copy: "\<And>f t s r s'. copy_file ops f t s = (r, s') \<Longrightarrow> f \<in> managed conf \<Longrightarrow> t \<in> managed conf \<Longrightarrow>
      halted s \<Longrightarrow> halted s' \<and> \<not> is_ok r \<and> files s' = files s"
    and halted_apply: "\<And>i p s r s'. apply_interface ops i p s = (r, s') \<Longrightarrow> halted s \<Longrightarrow> halted s' \<and> \<not> is_ok r"
    and halted_teardown: "\<And>i s r s'. teardown_interface ops i s = (r, s') \<Longrightarrow> halted s \<Longrightarrow> halted s' \<and> \<not> is_ok r"
    and halted_preflight: "\<And>c h i s r s'. preflight ops c h i s = (r, s') \<Longrightarrow> halted s \<Longrightarrow> halted s' \<and> \<not> is_ok r"

lemma halting_sel:
  "read_file (halting ops) p = halt_query (read_file ops p)"
  "file_exists (halting ops) p = halt_query (file_exists ops p)"
  "interface_exists (halting ops) i = halt_query (interface_exists ops i)"
  "write_file_atomic (halting ops) p b = halt_call (write_file_atomic ops p b)"
  "copy_file (halting ops) p q = halt_call (copy_file ops p q)"
  "apply_interface (halting ops) i p = halt_call (apply_interface ops i p)"
  "teardown_interface (halting ops) i = halt_call (teardown_interface ops i)"
  "preflight (halting ops) c h i = halt_call (preflight ops c h i)"
  by (simp_all add: halting_def)

lemma halt_call_cases:
  assumes "halt_call m s = (r, s')"
  obtains "snd s = 0" "r = Inl ''halted''" "s' = s"
  | "snd s \<noteq> 0" "m (fst s) = (r, fst s')" "snd s' = snd s - 1"
  using assms by (cases s) (auto simp: halt_call_def split: if_splits prod.splits)

lemma halt_query_eq: "halt_query q s = (x, s') \<longleftrightarrow> q (fst s) = (x, fst s') \<and> snd s' = snd s"
  by (cases s; cases s') (auto simp: halt_query_def split: prod.splits)

section \<open>What the next pass makes of the files\<close>

definition state_roundtrip :: "client_serde \<Rightarrow> bool" where
  "state_roundtrip js \<longleftrightarrow> (\<forall>st b. cs_state_to js st = Inr b \<longrightarrow> cs_state_from js b = Some st)"

definition disk_state :: "client_serde \<Rightarrow> path \<Rightarrow> (path \<Rightarrow> string option) \<Rightarrow> local_state" where
  "disk_state js conf fs =
     (case Option.bind (fs (state_path_for conf)) (cs_state_from js) of Some st \<Rightarrow> st | None \<Rightarrow> local_state_default)"

definition recovered :: "client_serde \<Rightarrow> path \<Rightarrow> (path \<Rightarrow> string option) \<Rightarrow> string option" where
  "recovered js conf fs =
     (let st = disk_state js conf fs in
      if ls_pending st \<and> ls_had_backup_before_pending st \<and> fs (backup_path_for conf) \<noteq> None
      then fs (backup_path_for conf) else fs conf)"

text \<open>
  No transaction is under way: the file is the good one.  A transaction is under way: the mark is
  on disk, the backup is the good file, if there was one, and the file is the good or the new one.
\<close>

definition settled :: "client_serde \<Rightarrow> path \<Rightarrow> string option \<Rightarrow> (path \<Rightarrow> string option) \<Rightarrow> bool" where
  "settled js conf base fs \<longleftrightarrow> fs conf = base \<and> recovered js conf fs = base"

definition secured :: "client_serde \<Rightarrow> path \<Rightarrow> string option \<Rightarrow> string \<Rightarrow> (path \<Rightarrow> string option) \<Rightarrow> bool" where
  "secured js conf base new fs \<longleftrightarrow>
     ls_pending (disk_state js conf fs) \<and> ls_had_backup_before_pending (disk_state js conf fs) = (base \<noteq> None) \<and>
     (base \<noteq> None \<longrightarrow> fs (backup_path_for conf) = base) \<and> (fs conf = base \<or> fs conf = Some new)"

definition safe :: "client_serde \<Rightarrow> path \<Rightarrow> string option \<Rightarrow> string \<Rightarrow> (path \<Rightarrow> string option) \<Rightarrow> bool" where
  "safe js conf base new fs \<longleftrightarrow> recovered js conf fs = base \<or> recovered js conf fs = Some new"

lemma settled_safe: "settled js conf base fs \<Longrightarrow> safe js conf base new fs"
  by (simp add: settled_def safe_def)

lemma secured_safe: "secured js conf base new fs \<Longrightarrow> safe js conf base new fs"
  by (cases base) (auto simp: secured_def safe_def recovered_def Let_def)

lemma disk_state_saved:
  "state_roundtrip js \<Longrightarrow> cs_state_to js st = Inr b \<Longrightarrow> disk_state js conf (fs(state_path_for conf \<mapsto> b)) = st"
  by (simp add: disk_state_def state_roundtrip_def)

lemma disk_state_other [simp]:
  "disk_state js conf (fs(conf := x)) = disk_state js conf fs"
  "disk_state js conf (fs(backup_path_for conf := x)) = disk_state js conf fs"
  by (simp_all add: disk_state_def)

lemma settled_saved:
  "state_roundtrip js \<Longrightarrow> cs_state_to js st = Inr b \<Longrightarrow> \<not> ls_pending st \<Longrightarrow> fs conf = base \<Longrightarrow>
    settled js conf base (fs(state_path_for conf \<mapsto> b))"
  by (simp add: settled_def recovered_def disk_state_saved Let_def)

lemma settled_backup:
  "settled js conf base fs \<Longrightarrow> base \<noteq> None \<Longrightarrow>
    settled js conf base (fs(backup_path_for conf := fs conf)) \<and>
    (fs(backup_path_for conf := fs conf)) (backup_path_for conf) = base"
  by (auto simp: settled_def recovered_def Let_def split: if_splits)

lemma marked_secured:
  "state_roundtrip js \<Longrightarrow> cs_state_to js st = Inr b \<Longrightarrow> ls_pending st \<Longrightarrow>
    ls_had_backup_before_pending st = (base \<noteq> None) \<Longrightarrow> (base \<noteq> None \<longrightarrow> fs (backup_path_for conf) = base) \<Longrightarrow>
    fs conf = base \<or> fs conf = Some new \<Longrightarrow> secured js conf base new (fs(state_path_for conf \<mapsto> b))"
  by (simp add: secured_def disk_state_saved)

lemma resecured:
  "state_roundtrip js \<Longrightarrow> cs_state_to js st = Inr b \<Longrightarrow> ls_pending st \<Longrightarrow>
    ls_had_backup_before_pending st = (base \<noteq> None) \<Longrightarrow> secured js conf base new fs \<Longrightarrow>
    secured js conf base new (fs(state_path_for conf \<mapsto> b))"
  by (auto simp: secured_def disk_state_saved)

lemma finished_safe:
  "state_roundtrip js \<Longrightarrow> cs_state_to js st = Inr b \<Longrightarrow> \<not> ls_pending st \<Longrightarrow> secured js conf base new fs \<Longrightarrow>
    safe js conf base new (fs(state_path_for conf \<mapsto> b))"
  by (auto simp: safe_def secured_def recovered_def disk_state_saved Let_def)

lemma recovering_settled:
  assumes "recovered js conf fs = base" and "st = disk_state js conf fs"
  shows "ls_pending st \<Longrightarrow> ls_had_backup_before_pending st \<Longrightarrow> fs (backup_path_for conf) \<noteq> None \<Longrightarrow>
      settled js conf base (fs(conf := fs (backup_path_for conf)))"
    and "\<not> (ls_pending st \<and> ls_had_backup_before_pending st \<and> fs (backup_path_for conf) \<noteq> None) \<Longrightarrow>
      settled js conf base fs"
  using assms by (auto simp: settled_def recovered_def Let_def split: if_splits)

text \<open>What the next pass would make of the files is safe; and the host has stopped, or is at a known point.\<close>

definition at_phase ::
  "('o \<Rightarrow> path \<Rightarrow> string option) \<Rightarrow> ('o \<Rightarrow> bool) \<Rightarrow> client_serde \<Rightarrow> path \<Rightarrow> string option \<Rightarrow> string
    \<Rightarrow> ((path \<Rightarrow> string option) \<Rightarrow> bool) \<Rightarrow> 'o \<Rightarrow> bool" where
  "at_phase files halted js conf base new A s \<longleftrightarrow>
     safe js conf base new (files s) \<and> (halted s \<or> A (files s))"

context crash_host
begin

abbreviation phase :: "client_serde \<Rightarrow> string option \<Rightarrow> string \<Rightarrow> ((path \<Rightarrow> string option) \<Rightarrow> bool) \<Rightarrow> 'a \<Rightarrow> bool" where
  "phase js base new \<equiv> at_phase files halted js conf base new"

lemma phase_mono: "phase js base new A s \<Longrightarrow> (\<And>fs. A fs \<Longrightarrow> B fs) \<Longrightarrow> phase js base new B s"
  by (auto simp: at_phase_def)

lemma phase_exists:
  assumes "p \<in> managed conf"
  shows "yields (phase js base new A) (file_exists ops p) (\<lambda>r. phase js base new (\<lambda>fs. A fs \<and> r = (fs p \<noteq> None)))"
  by (rule yieldsI) (use assms in \<open>auto simp: at_phase_def dest: exists_ok halted_exists\<close>)

lemma phase_iface: "yields (phase js base new A) (interface_exists ops i) (\<lambda>_. phase js base new A)"
  by (rule yieldsI) (auto simp: at_phase_def dest: iface_ok halted_iface)

lemma phase_read:
  assumes "p \<in> managed conf"
  shows "yields (phase js base new A) (read_file ops p) (\<lambda>_. phase js base new A)"
  by (rule yieldsI) (use assms in \<open>auto simp: at_phase_def dest: read_ok halted_read\<close>)

lemma phase_apply: "yields (phase js base new A) (apply_interface ops i conf) (\<lambda>_. phase js base new A)"
  by (rule yieldsI) (auto simp: at_phase_def dest: apply_ok halted_apply)

lemma phase_teardown: "yields (phase js base new A) (teardown_interface ops i) (\<lambda>_. phase js base new A)"
  by (rule yieldsI) (auto simp: at_phase_def dest: teardown_ok halted_teardown)

lemma phase_preflight: "yields (phase js base new A) (preflight ops c h i) (\<lambda>_. phase js base new A)"
  by (rule yieldsI) (auto simp: at_phase_def dest: preflight_ok halted_preflight)

lemma phase_write:
  assumes "p \<in> managed conf" and "\<And>fs. A fs \<Longrightarrow> safe js conf base new (fs(p \<mapsto> b)) \<and> B (fs(p \<mapsto> b))"
  shows "yields (phase js base new A) (write_file_atomic ops p b)
    (\<lambda>r. phase js base new (if is_ok r then B else A))"
proof (rule yieldsI)
  fix s r t
  assume s: "phase js base new A s" and w: "write_file_atomic ops p b s = (r, t)"
  note f = write_ok [OF w assms(1)]
  show "phase js base new (if is_ok r then B else A) t"
  proof (cases "halted s")
    case True
    with halted_write [OF w] f s show ?thesis by (auto simp: at_phase_def)
  next
    case False
    with s f assms(2) [of "files s"] show ?thesis by (auto simp: at_phase_def)
  qed
qed

lemma phase_copy:
  assumes "p \<in> managed conf" and "q \<in> managed conf"
    and "\<And>fs. A fs \<Longrightarrow> fs p \<noteq> None \<and> safe js conf base new (fs(q := fs p)) \<and> B (fs(q := fs p))"
  shows "yields (phase js base new A) (copy_file ops p q)
    (\<lambda>r. phase js base new (\<lambda>fs. is_ok r \<and> B fs))"
proof (rule yieldsI)
  fix s r t
  assume s: "phase js base new A s" and c: "copy_file ops p q s = (r, t)"
  note f = copy_ok [OF c assms(1,2)]
  show "phase js base new (\<lambda>fs. is_ok r \<and> B fs) t"
  proof (cases "halted s")
    case True
    with halted_copy [OF c assms(1,2)] s show ?thesis by (auto simp: at_phase_def)
  next
    case False
    with s have A: "A (files s)" by (simp add: at_phase_def)
    with copy_halts [of p q s _ t] c assms f s show ?thesis by (cases r) (auto simp: at_phase_def)
  qed
qed

lemma phase_save:
  assumes "\<And>fs b. A fs \<Longrightarrow> cs_state_to js st = Inr b \<Longrightarrow>
      safe js conf base new (fs(state_path_for conf \<mapsto> b)) \<and> B (fs(state_path_for conf \<mapsto> b))"
  shows "yields (phase js base new A) (save_state js ops (state_path_for conf) st)
    (\<lambda>r. phase js base new (if is_ok r then B else A))"
proof (cases "cs_state_to js st")
  case (Inl e)
  then show ?thesis by (auto simp: save_state_def yields_def)
next
  case (Inr b)
  then have "save_state js ops (state_path_for conf) st = write_file_atomic ops (state_path_for conf) b"
    by (simp add: save_state_def fun_eq_iff)
  with phase_write [of "state_path_for conf" A js base new b B] assms Inr show ?thesis by simp
qed

lemma phase_save_ignored:
  assumes "\<And>fs b. A fs \<Longrightarrow> cs_state_to js st = Inr b \<Longrightarrow> safe js conf base new (fs(state_path_for conf \<mapsto> b))"
  shows "yields (phase js base new A) (\<lambda>s. (x, ignore_result (save_state js ops (state_path_for conf) st) s))
    (\<lambda>_. phase js base new (\<lambda>_. True))"
  by (rule yields_ignore, rule yields_weaken [OF phase_save [where A = A and B = "\<lambda>_. True"]])
    (use assms in \<open>auto elim: phase_mono\<close>)


section \<open>The phases of a pass\<close>

lemma yields_drop: "yields P q (\<lambda>_. phase js base new A) \<Longrightarrow> yields P q (\<lambda>_. phase js base new (\<lambda>_. True))"
  by (erule yields_weaken) (auto elim: phase_mono)

lemma yields_from: "yields (phase js base new B) q Q \<Longrightarrow> (\<And>fs. A fs \<Longrightarrow> B fs) \<Longrightarrow> yields (phase js base new A) q Q"
  by (erule yields_weaken) (auto elim: phase_mono)

lemma phase_done: "yields (phase js base new A) (\<lambda>s. (x, s)) (\<lambda>_. phase js base new (\<lambda>_. True))"
  by (rule yields_return) (auto elim: phase_mono)

text \<open>A transaction is under way, and \<open>had\<close> says whether there is a good file.\<close>

abbreviation armed :: "client_serde \<Rightarrow> string option \<Rightarrow> string \<Rightarrow> bool \<Rightarrow> (path \<Rightarrow> string option) \<Rightarrow> bool" where
  "armed js base new had fs \<equiv> had = (base \<noteq> None) \<and> secured js conf base new fs"

lemma rollback_phase:
  assumes js: "state_roundtrip js" and st: "ls_pending st" "ls_had_backup_before_pending st = had"
  shows "yields (phase js base new (armed js base new had))
    (attempt_rollback js ops iface conf had st outcome) (\<lambda>_. phase js base new (\<lambda>_. True))"
proof -
  let ?ok = "phase js base new (\<lambda>_. True)"
  have again: "yields (phase js base new A) (\<lambda>s. (x, ignore_result (save_state js ops (state_path_for conf) st) s)) (\<lambda>_. ?ok)"
    if "\<And>fs. A fs \<Longrightarrow> armed js base new had fs" for A and x :: "local_state \<times> sync_outcome"
    using that st by (intro phase_save_ignored secured_safe resecured [OF js]) auto
  have over: "yields (phase js base new A)
      (\<lambda>s. (x, ignore_result (save_state js ops (state_path_for conf) (st\<lparr>ls_pending := False\<rparr>)) s)) (\<lambda>_. ?ok)"
    if "\<And>fs. A fs \<Longrightarrow> armed js base new had fs" for A and x :: "local_state \<times> sync_outcome"
    using that by (intro phase_save_ignored finished_safe [OF js]) auto
  let ?A = "armed js base new had"
  have copy: "yields (phase js base new ?A) (copy_file ops (backup_path_for conf) conf)
      (\<lambda>r. phase js base new (\<lambda>fs. is_ok r \<and> ?A fs))" if had
    by (rule phase_copy) (use that in \<open>auto intro!: secured_safe simp: secured_def\<close>)
  have rest: "yields (phase js base new (\<lambda>fs. is_ok r \<and> ?A fs))
      (\<lambda>host. case apply_interface ops iface conf host of (ra, host) \<Rightarrow>
        (x ra, ignore_result (save_state js ops (state_path_for conf)
          (if is_ok ra then st\<lparr>ls_pending := False\<rparr> else st)) host))
      (\<lambda>_. ?ok)" for r :: "string + unit" and x :: "string + unit \<Rightarrow> local_state \<times> sync_outcome"
  proof (rule yields_case [OF phase_apply])
    fix ra :: "string + unit"
    show "yields (phase js base new (\<lambda>fs. is_ok r \<and> ?A fs))
      (\<lambda>host. (x ra, ignore_result (save_state js ops (state_path_for conf)
          (if is_ok ra then st\<lparr>ls_pending := False\<rparr> else st)) host))
      (\<lambda>_. ?ok)"
      by (cases "is_ok ra") (simp_all only: if_True if_False, (rule over again; blast)+)
  qed
  show ?thesis
    unfolding attempt_rollback_def [abs_def] Let_def
    by (rule yields_if again yields_case [OF copy] yields_sum rest | assumption | blast)+
qed

lemma finish_phase:
  assumes js: "state_roundtrip js" and st: "ls_pending st" "ls_had_backup_before_pending st = had"
  shows "yields (phase js base new (armed js base new had))
    (finish_install js ops hostname iface conf had (gid, digest, new) st outcome) (\<lambda>_. phase js base new (\<lambda>_. True))"
proof -
  let ?A = "armed js base new had"
  have put: "yields (phase js base new ?A) (write_file_atomic ops conf new) (\<lambda>_. phase js base new ?A)"
  proof -
    have "secured js conf base new (fs(conf \<mapsto> new))" if "secured js conf base new fs" for fs
      using that by (simp add: secured_def)
    then show ?thesis
      using phase_write [where A = ?A and B = ?A and p = conf and b = new and js = js and base = base and new = new]
      by (auto intro: secured_safe)
  qed
  have final: "yields (phase js base new ?A)
      (\<lambda>s. (x, ignore_result (save_state js ops (state_path_for conf)
        (st\<lparr>ls_pending := False, ls_applied_generation_id := g, ls_applied_digest := d, ls_hostname := h\<rparr>)) s))
      (\<lambda>_. phase js base new (\<lambda>_. True))" for x :: sync_outcome and g d h
  proof (rule phase_save_ignored, elim conjE)
    fix fs b
    have np: "\<not> ls_pending (st\<lparr>ls_pending := False, ls_applied_generation_id := g, ls_applied_digest := d, ls_hostname := h\<rparr>)"
      by simp
    assume "secured js conf base new fs" and "cs_state_to js
        (st\<lparr>ls_pending := False, ls_applied_generation_id := g, ls_applied_digest := d, ls_hostname := h\<rparr>) = Inr b"
    then show "safe js conf base new (fs(state_path_for conf \<mapsto> b))"
      using finished_safe [OF js _ np] by blast
  qed
  note undo = rollback_phase [OF js st]
  show ?thesis
    unfolding finish_install_def [abs_def] prod.case Let_def
    by (rule yields_rules put phase_apply final undo phase_done | erule phase_mono | simp)+
qed

lemma teardown_phase:
  assumes js: "state_roundtrip js" and st: "ls_pending st" "ls_had_backup_before_pending st = had"
  shows "yields (phase js base new (armed js base new had))
    (teardown_and_install js ops hostname iface conf had (gid, digest, new) st outcome)
    (\<lambda>_. phase js base new (\<lambda>_. True))"
  unfolding teardown_and_install_def [abs_def]
  by (rule yields_case yields_bool yields_sum phase_iface phase_teardown finish_phase [OF assms] phase_done)+

lemma install_phase:
  assumes js: "state_roundtrip js"
  shows "yields (phase js base new (settled js conf base))
    (install js ops hostname iface conf (gid, digest, new) st outcome) (\<lambda>_. phase js base new (\<lambda>_. True))"
proof -
  let ?there = "\<lambda>had fs. settled js conf base fs \<and> had = (base \<noteq> None)"
  let ?ready = "\<lambda>had fs. ?there had fs \<and> (had \<longrightarrow> fs (backup_path_for conf) = base)"
  have exists: "yields (phase js base new (settled js conf base)) (file_exists ops conf) (\<lambda>r. phase js base new (?there r))"
    by (rule yields_weaken [OF phase_exists [where A = "settled js conf base"]])
      (simp_all add: settled_def, erule phase_mono, metis)
  have backup: "yields (phase js base new (?there had))
      (\<lambda>s. if had then copy_file ops conf (backup_path_for conf) s else (Inr (), s))
      (\<lambda>r. phase js base new (\<lambda>fs. is_ok r \<and> ?ready had fs))" for had
  proof (cases had)
    case True
    have "yields (phase js base new (?there had))
        (copy_file ops conf (backup_path_for conf)) (\<lambda>r. phase js base new (\<lambda>fs. is_ok r \<and> ?ready had fs))"
    proof (rule phase_copy)
      fix fs assume A: "?there had fs"
      with True settled_backup [of js conf base fs]
      have "settled js conf base (fs(backup_path_for conf := fs conf))"
        "(fs(backup_path_for conf := fs conf)) (backup_path_for conf) = base" "fs conf \<noteq> None"
        by (auto simp: settled_def)
      with A show "fs conf \<noteq> None \<and> safe js conf base new (fs(backup_path_for conf := fs conf)) \<and>
          ?ready had (fs(backup_path_for conf := fs conf))"
        using settled_safe by blast
    qed simp_all
    then show ?thesis using True by simp
  next
    case False
    then show ?thesis by (auto intro!: yields_return elim!: phase_mono)
  qed
  have mark: "yields (phase js base new (\<lambda>fs. is_ok r1 \<and> ?ready had fs))
      (save_state js ops (state_path_for conf) (st\<lparr>ls_pending := True, ls_had_backup_before_pending := had\<rparr>))
      (\<lambda>r. phase js base new (\<lambda>fs. is_ok r \<longrightarrow> armed js base new had fs))"
    for had and r1 :: "string + unit"
  proof (rule yields_weaken [OF phase_save])
    fix fs b
    assume A: "is_ok r1 \<and> ?ready had fs"
      and b: "cs_state_to js (st\<lparr>ls_pending := True, ls_had_backup_before_pending := had\<rparr>) = Inr b"
    have "secured js conf base new (fs(state_path_for conf \<mapsto> b))"
      by (rule marked_secured [OF js b]) (use A in \<open>auto simp: settled_def\<close>)
    then show "safe js conf base new (fs(state_path_for conf \<mapsto> b)) \<and> armed js base new had (fs(state_path_for conf \<mapsto> b))"
      using A by (auto intro: secured_safe)
  qed (auto elim!: phase_mono split: if_splits)
  have rest: "yields (phase js base new (\<lambda>fs. is_ok r \<longrightarrow> armed js base new had fs))
      (teardown_and_install js ops hostname iface conf had (gid, digest, new)
        (st\<lparr>ls_pending := True, ls_had_backup_before_pending := had\<rparr>) outcome)
      (\<lambda>_. phase js base new (\<lambda>_. True))" if "r = Inr u" for had u and r :: "string + unit"
    by (rule yields_from [OF teardown_phase [OF js, where had = had]]) (simp_all add: that)
  show ?thesis
    unfolding install_def [abs_def] Let_def
    by (rule yields_case [OF exists] yields_case [OF backup] yields_case [OF mark] yields_sum phase_done rest | assumption)+
qed

lemma apply_phase_phase:
  assumes js: "state_roundtrip js" and "base' = base"
  shows "yields (phase js base new (settled js conf base'))
    (apply_phase cr js ops hostname iface conf force ep (gid, digest, new) st outcome) (\<lambda>_. phase js base new (\<lambda>_. True))"
  unfolding apply_phase_def [abs_def] fst_conv snd_conv assms(2)
  by (rule yields_sum phase_done yields_case [OF yields_if [OF phase_iface yields_return]]
      yields_bool yields_case [OF phase_preflight] install_phase [OF js] | assumption)+

section \<open>The local phase\<close>

abbreviation loaded :: "client_serde \<Rightarrow> string option \<Rightarrow> local_state \<Rightarrow> (path \<Rightarrow> string option) \<Rightarrow> bool" where
  "loaded js base st fs \<equiv> recovered js conf fs = base \<and> st = disk_state js conf fs"

lemma load_phase:
  "yields (\<lambda>s. recovered js conf (files s) = base) (load_state js ops (state_path_for conf))
    (\<lambda>st. phase js base new (loaded js base st))"
  by (rule yieldsI)
    (auto simp: load_state_def at_phase_def safe_def disk_state_def dest!: read_ok split: prod.splits)

lemma restore_phase:
  assumes "ls_pending st"
  shows "yields (phase js base new (loaded js base st))
    (\<lambda>s. ((), if ls_had_backup_before_pending st
       then (case file_exists ops (backup_path_for conf) s of (ex, s) \<Rightarrow>
         if ex then ignore_result (copy_file ops (backup_path_for conf) conf) s else s)
       else s))
    (\<lambda>_. phase js base new (settled js conf base))"
proof (cases "ls_had_backup_before_pending st")
  case False
  then show ?thesis by (auto intro!: yields_return recovering_settled(2) elim!: phase_mono)
next
  case True
  have "yields (phase js base new (\<lambda>fs. loaded js base st fs \<and> ex = (fs (backup_path_for conf) \<noteq> None)))
      (\<lambda>s. ((), if ex then ignore_result (copy_file ops (backup_path_for conf) conf) s else s))
      (\<lambda>_. phase js base new (settled js conf base))" for ex
  proof (cases ex)
    case False
    then show ?thesis by (auto intro!: yields_return recovering_settled(2) elim!: phase_mono)
  next
    case True
    have "yields (phase js base new (\<lambda>fs. loaded js base st fs \<and> ex = (fs (backup_path_for conf) \<noteq> None)))
        (copy_file ops (backup_path_for conf) conf) (\<lambda>r. phase js base new (\<lambda>fs. is_ok r \<and> settled js conf base fs))"
    proof (rule phase_copy)
      fix fs
      assume fs: "loaded js base st fs \<and> ex = (fs (backup_path_for conf) \<noteq> None)"
      then have "settled js conf base (fs(conf := fs (backup_path_for conf)))"
        using recovering_settled(1) [of js conf fs base st] assms \<open>ls_had_backup_before_pending st\<close> True by blast
      with fs True show "fs (backup_path_for conf) \<noteq> None \<and>
          safe js conf base new (fs(conf := fs (backup_path_for conf))) \<and>
          settled js conf base (fs(conf := fs (backup_path_for conf)))"
        using settled_safe by blast
    qed simp_all
    then show ?thesis
      using True by (auto intro!: yields_ignore elim!: yields_weaken phase_mono)
  qed
  from yields_case [OF phase_exists [where p = "backup_path_for conf" and A = "loaded js base st"] this]
  show ?thesis using True by (simp add: case_prod_unfold)
qed

lemma recover_phase:
  assumes js: "state_roundtrip js"
  shows "yields (phase js base new (loaded js base st)) (recover_pending js ops conf st outcome)
    (\<lambda>_. phase js base new (settled js conf base))"
proof (cases "ls_pending st")
  case False
  then show ?thesis
    by (auto simp: recover_pending_def [abs_def] intro!: yields_return recovering_settled(2) elim!: phase_mono)
next
  case True
  have save: "yields (phase js base new (settled js conf base))
      (\<lambda>s. (x, ignore_result (save_state js ops (state_path_for conf) (st\<lparr>ls_pending := False\<rparr>)) s))
      (\<lambda>_. phase js base new (settled js conf base))" for x :: "local_state \<times> sync_outcome"
  proof (rule yields_ignore, rule yields_weaken [OF phase_save])
    fix fs b
    assume "settled js conf base fs" and b: "cs_state_to js (st\<lparr>ls_pending := False\<rparr>) = Inr b"
    then have "settled js conf base (fs(state_path_for conf \<mapsto> b))"
      by (intro settled_saved [OF js b]) (simp_all add: settled_def)
    then show "safe js conf base new (fs(state_path_for conf \<mapsto> b)) \<and> settled js conf base (fs(state_path_for conf \<mapsto> b))"
      using settled_safe by blast
  qed (auto split: if_splits)
  from yields_case [OF restore_phase [OF True] save]
  show ?thesis using True by (simp add: recover_pending_def [abs_def] Let_def)
qed

lemma restore_local_phase:
  "yields (phase js base new A) (restore_local_if_valid cr ops iface conf outcome) (\<lambda>_. phase js base new A)"
  unfolding restore_local_if_valid_def [abs_def]
  by (rule yields_case [OF phase_read] yields_case [OF phase_apply] yields_option yields_if yields_sum
      yields_return managed_paths | assumption)+

lemma local_phase_phase:
  assumes "state_roundtrip js"
  shows "yields (\<lambda>s. recovered js conf (files s) = base) (local_phase cr js ops iface conf)
    (\<lambda>_. phase js base new (settled js conf base))"
  unfolding local_phase_def [abs_def]
  by (rule yields_case [OF load_phase] yields_case [OF recover_phase [OF assms]] yields_case [OF phase_iface]
      yields_case [OF restore_local_phase] yields_pair yields_bool yields_return | assumption)+

lemma run_once_safe:
  assumes js: "state_roundtrip js"
    and r: "run_once cr js st ops hostname iface conf force ep (bucket, s) = (outcome, bucket', t)"
  shows "recovered js conf (files t) = recovered js conf (files s) \<or>
    (\<exists>gid digest bytes. fst (discover_and_download cr js st hostname bucket) = Inr (gid, digest, bytes) \<and>
      is_ok (parse_wg_quick cr (from_utf8_lossy bytes)) \<and> recovered js conf (files t) = Some bytes)"
proof -
  let ?base = "recovered js conf (files s)"
  obtain state o1 s1 where l: "local_phase cr js ops iface conf s = ((state, o1), s1)" by (metis prod.exhaust)
  obtain found b1 where d: "discover_and_download cr js st hostname bucket = (found, b1)" by fastforce
  have s1: "phase js ?base new (settled js conf ?base) s1" for new
    using yieldsD [OF local_phase_phase [OF js] refl l] .
  have same: "recovered js conf (files s1) = ?base"
    using s1 [of "[]"] s1 [of "''x''"] by (auto simp: at_phase_def safe_def)
  show ?thesis
  proof (cases found)
    case (Inl e)
    with r l d same show ?thesis by (auto simp: run_once_def)
  next
    case (Inr f)
    obtain gid digest bytes where f: "f = (gid, digest, bytes)" by (cases f) auto
    obtain o2 s2 where a: "apply_phase cr js ops hostname iface conf force ep f state o1 s1 = (o2, s2)" by fastforce
    have t: "t = s2" using r l d a Inr by (simp add: run_once_def)
    show ?thesis
    proof (cases "parse_wg_quick cr (from_utf8_lossy bytes)")
      case (Inl e)
      then have "s2 = s1" using a by (simp add: apply_phase_def f)
      with t same show ?thesis by simp
    next
      case (Inr cfg)
      have "safe js conf ?base bytes (files s2)"
        using yieldsD [OF apply_phase_phase [OF js refl] s1 a [unfolded f]] by (simp add: at_phase_def)
      then show ?thesis using t d f Inr \<open>found = Inr f\<close> by (auto simp: safe_def)
    qed
  qed
qed

end

section \<open>The in-memory host that stops\<close>

context system_contract
begin

lemma halting_contract: "system_contract cr (halting ops) (files \<circ> fst) (up \<circ> fst) conf"
proof
  note simps = halting_sel halt_query_eq
  fix p q b i c h s s'
  show "read_file (halting ops) p s = (r, s') \<Longrightarrow> p \<in> managed conf \<Longrightarrow>
      (r = (files \<circ> fst) s p \<or> \<not> True \<and> r = None) \<and> (files \<circ> fst) s' = (files \<circ> fst) s \<and> (up \<circ> fst) s' = (up \<circ> fst) s" for r
    by (auto simp: simps dest: read_ok)
  show "file_exists (halting ops) p s = (r, s') \<Longrightarrow> p \<in> managed conf \<Longrightarrow>
      (r = ((files \<circ> fst) s p \<noteq> None) \<or> \<not> True \<and> \<not> r) \<and> (files \<circ> fst) s' = (files \<circ> fst) s \<and> (up \<circ> fst) s' = (up \<circ> fst) s" for r
    by (auto simp: simps dest: exists_ok)
  show "interface_exists (halting ops) i s = (r, s') \<Longrightarrow>
      (r \<longrightarrow> i \<in> (up \<circ> fst) s) \<and> (files \<circ> fst) s' = (files \<circ> fst) s \<and> (up \<circ> fst) s' = (up \<circ> fst) s" for r
    by (auto simp: simps dest: iface_ok)
  show "interface_exists (halting ops) i s = (False, s') \<Longrightarrow> i \<notin> (up \<circ> fst) s"
    by (auto simp: simps dest: iface_ok)
  show "write_file_atomic (halting ops) p b s = (r, s') \<Longrightarrow> p \<in> managed conf \<Longrightarrow> (up \<circ> fst) s' = (up \<circ> fst) s \<and>
      (files \<circ> fst) s' = (if is_ok r then ((files \<circ> fst) s)(p \<mapsto> b) else (files \<circ> fst) s)" for r
    by (auto simp: simps elim!: halt_call_cases dest: write_ok)
  show "copy_file (halting ops) p q s = (r, s') \<Longrightarrow> p \<in> managed conf \<Longrightarrow> q \<in> managed conf \<Longrightarrow>
      (up \<circ> fst) s' = (up \<circ> fst) s \<and>
      (if is_ok r then (files \<circ> fst) s p \<noteq> None \<and> (files \<circ> fst) s' = ((files \<circ> fst) s)(q := (files \<circ> fst) s p)
       else (\<forall>x. x \<noteq> q \<longrightarrow> (files \<circ> fst) s' x = (files \<circ> fst) s x))" for r
    by (auto simp: simps elim!: halt_call_cases dest: copy_ok)
  show "apply_interface (halting ops) i p s = (r, s') \<Longrightarrow> p \<in> managed conf \<Longrightarrow> (files \<circ> fst) s' = (files \<circ> fst) s \<and>
      (is_ok r \<longrightarrow> i \<in> (up \<circ> fst) s' \<and>
        (\<exists>b. (files \<circ> fst) s p = Some b \<and> is_ok (parse_wg_quick cr (from_utf8_lossy b))))" for r
    by (auto simp: simps elim!: halt_call_cases dest: apply_ok)
  show "teardown_interface (halting ops) i s = (r, s') \<Longrightarrow> (files \<circ> fst) s' = (files \<circ> fst) s \<and>
      (is_ok r \<longrightarrow> (up \<circ> fst) s' = (up \<circ> fst) s - {i})" for r
    by (auto simp: simps elim!: halt_call_cases dest: teardown_ok)
  show "preflight (halting ops) c h i s = (r, s') \<Longrightarrow>
      (files \<circ> fst) s' = (files \<circ> fst) s \<and> (up \<circ> fst) s' = (up \<circ> fst) s" for r
    by (auto simp: simps elim!: halt_call_cases dest: preflight_ok)
qed

end

interpretation halting_mock:
  crash_host cr "halting (mock_sys cr)" "mock_files \<circ> fst" "mock_up \<circ> fst" conf "\<lambda>s. snd s = 0" for cr conf
proof (intro crash_host.intro crash_host_axioms.intro mock_sys.halting_contract)
qed (auto simp: halting_sel halt_query_eq mock_sys_defs mock_files_get elim!: halt_call_cases
    split: option.splits)

section \<open>Crash and reboot\<close>

text \<open>A reboot keeps the files and forgets the interfaces.\<close>

definition rebooted :: "mock_system \<Rightarrow> mock_system" where
  "rebooted m = m\<lparr>my_up_interfaces := []\<rparr>"

lemma mock_load: "load_state js (mock_sys cr) (state_path_for conf) h = (disk_state js conf (mock_files h), h)"
  by (simp add: load_state_def disk_state_def mock_sys_defs mock_files_get)

lemma local_phase_recovers:
  assumes "local_phase cr js (mock_sys cr) iface conf host = ((state, outcome), host1)"
  shows "mock_files host1 conf = recovered js conf (mock_files host) \<and> ls_pending state = False \<and>
    (iface \<in> mock_up host1) = (iface \<in> mock_up host \<or> my_fail_next_apply host = 0 \<and>
      (\<exists>c. recovered js conf (mock_files host) = Some c \<and> is_ok (parse_wg_quick cr (from_utf8_lossy c))))"
  using local_phase_repairs [where js = js and cr = cr and iface = iface and conf = conf and host = host]
  unfolding assms prod.case Let_def mock_load fst_conv recovered_def by blast

text \<open>
  C7. A host may stop after any number \<open>n\<close> of the changes a sync pass makes (crash, power
  failure); the disk then keeps what was written.  After the reboot the local phase of the next
  pass, which does not use the network, puts a good configuration in place: the one the pass
  started from or the verified and valid download, and never a missing or mixed one.
  No transaction is pending, and the interface is up exactly if that configuration is valid
  and configuring it works.
\<close>
theorem crash_recovery:
  assumes "state_roundtrip js"
  shows "case run_once cr js st (halting (mock_sys cr)) hostname iface conf force ep (bucket, (host, n)) of
    (_, _, (crashed, _)) \<Rightarrow>
      (case local_phase cr js (mock_sys cr) iface conf (rebooted crashed) of ((state, _), host1) \<Rightarrow>
        ls_pending state = False \<and>
        (mock_files host1 conf = recovered js conf (mock_files host) \<or>
          (\<exists>gid digest bytes. fst (discover_and_download cr js st hostname bucket) = Inr (gid, digest, bytes) \<and>
            is_ok (parse_wg_quick cr (from_utf8_lossy bytes)) \<and> mock_files host1 conf = Some bytes)) \<and>
        (iface \<in> mock_up host1) = (my_fail_next_apply crashed = 0 \<and>
          (\<exists>c. mock_files host1 conf = Some c \<and> is_ok (parse_wg_quick cr (from_utf8_lossy c)))))"
proof -
  obtain o1 b1 crashed m where r: "run_once cr js st (halting (mock_sys cr)) hostname iface conf force ep
      (bucket, (host, n)) = (o1, b1, (crashed, m))" by (metis prod.exhaust)
  obtain state o2 host1 where l: "local_phase cr js (mock_sys cr) iface conf (rebooted crashed) = ((state, o2), host1)"
    by (metis prod.exhaust)
  have "mock_files (rebooted crashed) = mock_files crashed" "mock_up (rebooted crashed) = {}"
    "my_fail_next_apply (rebooted crashed) = my_fail_next_apply crashed"
    by (simp_all add: rebooted_def mock_up_def)
  with local_phase_recovers [OF l] halting_mock.run_once_safe [OF assms r]
  show ?thesis unfolding r l prod.case by simp
qed

end
