(* ===== verification/Sync_Twice.thy ===== *)
theory Sync_Twice
  imports Working_Host Crash_Recovery
begin

text \<open>
  Two passes in a row on a host where nothing fails: what the first one records on disk makes the
  second one find nothing to do.
\<close>

definition digest_recorded :: "client_serde \<Rightarrow> path \<Rightarrow> string \<Rightarrow> (path \<Rightarrow> string option) \<Rightarrow> bool" where
  "digest_recorded js conf digest fs \<longleftrightarrow> \<not> ls_pending (disk_state js conf fs) \<and>
     ls_applied_digest (disk_state js conf fs) = Some digest"

context working_host
begin

lemma save_on_disk:
  assumes "healthy s" and js: "state_serializes js" "state_roundtrip js"
  shows "disk_state js conf (files (ignore_result (save_state js ops (state_path_for conf) st) s)) = st"
proof -
  obtain r t where sv: "save_state js ops (state_path_for conf) st s = (r, t)" by fastforce
  have "is_ok r" using yieldsD [OF save_healthy assms(1) sv] js(1) by simp
  with save_result [OF sv] obtain b where "cs_state_to js st = Inr b" "files t = (files s)(state_path_for conf \<mapsto> b)"
    by auto
  with sv show ?thesis by (simp add: ignore_result_def disk_state_saved [OF js(2)])
qed

lemma load_disk:
  assumes "load_state js ops (state_path_for conf) s = (state, t)"
  shows "state = disk_state js conf (files s)" and "files t = files s" and "up t = up s"
  using assms by (auto simp: load_state_def disk_state_def split: prod.splits dest!: read_ok)

lemma recover_disk:
  assumes "healthy s" and js: "state_serializes js" "state_roundtrip js" and st: "disk_state js conf (files s) = st"
    and r: "recover_pending js ops conf st outcome s = ((state, outcome'), t)"
  shows "disk_state js conf (files t) = state" and "\<not> ls_pending state"
proof -
  have copy: "healthy (ignore_result (copy_file ops f p) u)" if "healthy u" for f p u
    using that copy_healthy by (cases "copy_file ops f p u") (auto simp: ignore_result_def)
  show "disk_state js conf (files t) = state" "\<not> ls_pending state"
    using r st assms(1)
    by (auto simp: recover_pending_def Let_def split: if_splits prod.splits
        intro!: save_on_disk [OF _ js] copy dest!: exists_healthy)
qed

lemma restore_files:
  assumes "restore_local_if_valid cr ops iface conf outcome s = (outcome', t)"
  shows "files t = files s"
proof -
  obtain c s1 where rd: "read_file ops conf s = (c, s1)" by fastforce
  obtain r s2 where a: "apply_interface ops iface conf s1 = (r, s2)" by fastforce
  have "t = s1 \<or> t = s2"
    using assms rd a by (auto simp: restore_local_if_valid_def split: option.splits if_splits sum.splits)
  then show ?thesis using read_ok [OF rd] apply_ok [OF a] by auto
qed

lemma local_phase_disk:
  assumes "healthy s" and js: "state_serializes js" "state_roundtrip js"
    and l: "local_phase cr js ops iface conf s = ((state, outcome), t)"
  shows "disk_state js conf (files t) = state" and "\<not> ls_pending state"
proof -
  obtain st0 s0 where ld: "load_state js ops (state_path_for conf) s = (st0, s0)" by fastforce
  note ld' = load_disk [OF ld]
  have h0: "healthy s0" using ld assms(1) by (auto simp: load_state_def split: prod.splits dest: read_healthy)
  obtain st1 o1 s1 where rc: "recover_pending js ops conf st0 sync_outcome_default s0 = ((st1, o1), s1)"
    by (metis prod.exhaust)
  note rc' = recover_disk [OF h0 js _ rc]
  obtain b s2 where i: "interface_exists ops iface s1 = (b, s2)" by fastforce
  obtain o3 s3 where re: "restore_local_if_valid cr ops iface conf o1 s2 = (o3, s3)" by fastforce
  have "state = st1 \<and> (t = s2 \<or> t = s3)"
    using l by (cases b) (simp_all add: local_phase_def ld rc i re)
  then have "state = st1 \<and> files t = files s1" using iface_ok [OF i] restore_files [OF re] by auto
  with rc' ld'(1,2) show "disk_state js conf (files t) = state" "\<not> ls_pending state" by simp_all
qed

lemma finish_records:
  assumes "healthy s" and ok: "is_ok (parse_wg_quick cr (from_utf8_lossy bytes))"
    and js: "state_serializes js" "state_roundtrip js"
    and r: "finish_install js ops hostname iface conf had (gid, digest, bytes) st outcome s = (outcome', t)"
  shows "digest_recorded js conf digest (files t)"
proof -
  obtain r1 s1 where w: "write_file_atomic ops conf bytes s = (r1, s1)" by fastforce
  with write_healthy assms(1) obtain u1 where r1: "r1 = Inr u1" and h1: "healthy s1" by (metis is_ok_iff)
  have f1: "files s1 conf = Some bytes" using write_ok [OF w] r1 by simp
  obtain r2 s2 where a: "apply_interface ops iface conf s1 = (r2, s2)" by fastforce
  with apply_healthy [OF a h1] f1 ok obtain u2 where r2: "r2 = Inr u2" and h2: "healthy s2" by (auto simp: is_ok_iff)
  show ?thesis using r w r1 a r2 save_on_disk [OF h2 js] by (auto simp: finish_install_def Let_def digest_recorded_def)
qed

text \<open>A pass that found a verified file records it, or it was recorded before.\<close>

lemma first_pass_records:
  assumes "healthy s" and js: "state_serializes js" "state_roundtrip js"
    and d: "discover_and_download cr js st hostname bucket = (Inr (gid, digest, bytes), bucket')"
    and ok: "is_ok (parse_wg_quick cr (from_utf8_lossy bytes))"
    and r: "run_once cr js st ops hostname iface conf force ep (bucket, s) = (outcome, b, t)"
  shows "digest_recorded js conf digest (files t)"
proof -
  obtain state o1 s1 where l: "local_phase cr js ops iface conf s = ((state, o1), s1)" by (metis prod.exhaust)
  note h1 = local_phase_healthy [OF assms(1) l] and disk = local_phase_disk [OF assms(1) js l]
  obtain o2 s2 where a: "apply_phase cr js ops hostname iface conf force ep (gid, digest, bytes) state o1 s1 = (o2, s2)"
    by fastforce
  have t: "t = s2" using r l d a by (simp add: run_once_def)
  show ?thesis
  proof (rule apply_phase_reaches [OF h1 ok js(1), of force state digest iface hostname ep gid o1])
    fix s'
    assume s': "ls_applied_digest state = Some digest" "interface_exists ops iface s1 = (True, s')"
      "apply_phase cr js ops hostname iface conf force ep (gid, digest, bytes) state o1 s1 = (o1\<lparr>so_no_op := True\<rparr>, s')"
    with a t iface_ok [OF s'(2)] disk show ?thesis by (simp add: digest_recorded_def)
  next
    fix had st' s'
    assume "healthy s'" "apply_phase cr js ops hostname iface conf force ep (gid, digest, bytes) state o1 s1 =
        finish_install js ops hostname iface conf had (gid, digest, bytes) st' o1 s'"
    with finish_records [OF _ ok js] a t show ?thesis by metis
  qed
qed

text \<open>The next pass then does nothing.\<close>

lemma second_pass_idle:
  assumes rec: "digest_recorded js conf digest (files s)" and up: "iface \<in> up s"
    and d: "discover_and_download cr js st hostname bucket = (Inr (gid, digest, bytes), bucket')"
    and ok: "is_ok (parse_wg_quick cr (from_utf8_lossy bytes))"
  shows "\<exists>t. run_once cr js st ops hostname iface conf False ep (bucket, s) =
      (sync_outcome_default\<lparr>so_no_op := True\<rparr>, bucket', t) \<and> files t = files s \<and> up t = up s"
proof -
  obtain st0 s0 where ld: "load_state js ops (state_path_for conf) s = (st0, s0)" by fastforce
  note ld' = load_disk [OF ld]
  have st0: "\<not> ls_pending st0" "ls_applied_digest st0 = Some digest" using rec ld'(1) by (simp_all add: digest_recorded_def)
  obtain b s1 where i: "interface_exists ops iface s0 = (b, s1)" by fastforce
  note i' = iface_ok [OF i]
  have b: "b" using i' ld'(3) up by simp
  have l: "local_phase cr js ops iface conf s = ((st0, sync_outcome_default), s1)"
    using ld st0 i b by (simp add: local_phase_def recover_pending_def)
  obtain c s2 where i2: "interface_exists ops iface s1 = (c, s2)" by fastforce
  note i2' = iface_ok [OF i2]
  have "c" using i2' i' ld'(3) up by simp
  then have "apply_phase cr js ops hostname iface conf False ep (gid, digest, bytes) st0 sync_outcome_default s1 =
      (sync_outcome_default\<lparr>so_no_op := True\<rparr>, s2)"
    using ok st0(2) i2 by (auto simp: apply_phase_def is_ok_iff)
  with l d have "run_once cr js st ops hostname iface conf False ep (bucket, s) =
      (sync_outcome_default\<lparr>so_no_op := True\<rparr>, bucket', s2)" by (simp add: run_once_def)
  with i' i2' ld' show ?thesis by metis
qed

end

section \<open>Property\<close>

text \<open>
  C8. Syncing is idempotent.  On a host where nothing fails, a pass that found a verified file
  ends without an error; and a second pass that finds the same file, whatever the first one
  did, reports that there is nothing to do and changes no file and no interface.
\<close>
theorem sync_idempotent:
  assumes "no_injected_failures host" and "state_serializes cjs" and "state_roundtrip cjs"
    and "discover_and_download cr cjs st hostname bucket = (Inr (gid, digest, bytes), bucket)"
    and "is_ok (parse_wg_quick cr (from_utf8_lossy bytes))"
  shows "case run_once cr cjs st (mock_sys cr) hostname iface conf force ep (bucket, host) of
    (outcome, bucket1, host1) \<Rightarrow> so_error outcome = None \<and>
      (case run_once cr cjs st (mock_sys cr) hostname iface conf False ep (bucket1, host1) of
        (outcome2, bucket2, host2) \<Rightarrow> outcome2 = sync_outcome_default\<lparr>so_no_op := True\<rparr> \<and> bucket2 = bucket \<and>
          mock_files host2 = mock_files host1 \<and> mock_up host2 = mock_up host1)"
proof -
  obtain outcome b1 host1 where r: "run_once cr cjs st (mock_sys cr) hostname iface conf force ep (bucket, host) =
      (outcome, b1, host1)" by (metis prod.exhaust)
  note first = mock_works.run_once_succeeds [OF assms(1,2,4,5) r]
  have "digest_recorded cjs conf digest (mock_files host1)" by (rule mock_works.first_pass_records [OF assms(1-5) r])
  from mock_works.second_pass_idle [OF this _ assms(4,5)] first obtain host2 where
    "run_once cr cjs st (mock_sys cr) hostname iface conf False ep (b1, host1) =
      (sync_outcome_default\<lparr>so_no_op := True\<rparr>, bucket, host2)" "mock_files host2 = mock_files host1"
    "mock_up host2 = mock_up host1" by metis
  with first show ?thesis by (simp add: r)
qed

end
