(* ===== verification/Network.thy ===== *)
theory Network
  imports Reapply Sync_Twice
begin

text \<open>
  The fleet: a first apply and any number of routine ones, and then the nodes sync, each on its own
  fresh host.  The files they install fit together.
\<close>

definition fresh_machine :: "mock_system \<Rightarrow> bool" where
  "fresh_machine m \<longleftrightarrow> no_injected_failures m \<and> mock_files m = (\<lambda>_. None)"

lemma fresh_local_phase:
  assumes "fresh_machine m"
  shows "ls_applied_digest (fst (fst (local_phase cr js (mock_sys cr) iface conf m))) = None"
proof -
  obtain st0 s0 where ld: "load_state js (mock_sys cr) (state_path_for conf) m = (st0, s0)" by fastforce
  have "st0 = disk_state js conf (mock_files m)" by (rule mock_works.load_disk [OF ld])
  then have "st0 = local_state_default" using assms by (simp add: fresh_machine_def disk_state_def)
  with ld show ?thesis
    by (auto simp: local_phase_def recover_pending_def local_state_default_def split: prod.splits bool.splits)
qed

lemma discover_settled:
  assumes js: "serde_pointer js cjs" and s: "generation_settled cr js t keys m"
    and h: "h \<in> vn_hostname ` set (vt_nodes t)"
  obtains gid bytes where "render_node_config cr t keys h = Inr bytes"
    "discover_and_download cr cjs bucket_reader h m = (Inr (gid, digest_of cr bytes, bytes), m)"
proof -
  from s obtain p g e where p: "mock_objs m CURRENT_JSON_KEY = Some (to_vec js p, e)" "discovery_ok p" "plain_pointer p"
      "cur p = Some g" and ds: "described cr t keys (ge_nodes g)" and f: "holds_files cr t keys (mock_objs m) (ge_id g)"
    unfolding generation_settled_def in_place_def by blast
  from f h obtain b e' where b: "render_node_config cr t keys h = Inr b"
    "mock_objs m (node_object_key h (ge_id g)) = Some (b, e')" unfolding holds_files_def by blast
  have "h \<in> set (bt_keys (ge_nodes g))" using ds h by (simp add: described_def)
  with ds obtain b' where "render_node_config cr t keys h = Inr b'" "bt_get (ge_nodes g) h = Some (digest_of cr b')"
    unfolding described_def by blast
  with b(1) have "bt_get (ge_nodes g) h = Some (digest_of cr b)" by simp
  from that [OF b(1) discover_at [OF js p this b(2)]] show thesis .
qed

text \<open>A fresh node that syncs installs exactly the file rendered for it.\<close>

lemma fresh_sync:
  assumes cr: "crates_documented cr" and v: "topology_validate cr config = Inr (t, ws)" and u: "config_utf8 config"
    and js: "serde_pointer js cjs" "state_serializes cjs" and s: "generation_settled cr js t keys m"
    and h: "h \<in> vn_hostname ` set (vt_nodes t)" and host: "fresh_machine host"
    and r: "run_once cr cjs bucket_reader (mock_sys cr) h iface conf force ep (m, host) = (outcome, bucket, host')"
  shows "so_error outcome = None \<and> bucket = m \<and> iface \<in> mock_up host' \<and>
    (\<exists>b. render_node_config cr t keys h = Inr b \<and> mock_files host' conf = Some b)"
proof -
  note cr' = cr [unfolded crates_documented_def]
  obtain gid b where b: "render_node_config cr t keys h = Inr b"
    "discover_and_download cr cjs bucket_reader h m = (Inr (gid, digest_of cr b, b), m)"
    by (rule discover_settled [OF js(1) s h])
  have "keys_text keys" using s by (simp add: generation_settled_def keys_typed_def)
  with rendered_utf8 [OF v _ _ _ u b(1)] cr' have "from_utf8_lossy b = b" by (simp add: from_utf8_lossy_valid)
  then have ok: "is_ok (parse_wg_quick cr (from_utf8_lossy b))" using render_node_valid [OF b(1)] by simp
  have "no_injected_failures host" using host by (simp add: fresh_machine_def)
  from mock_works.run_once_succeeds [OF this js(2) b(2) ok r] fresh_local_phase [OF host, of cr cjs iface conf] b(1)
  show ?thesis by auto
qed

text \<open>
  What fitting together means, in terms of the two files and the topology alone.  A peer entry is
  for node \<open>h\<close> with file \<open>c\<close> when its public key is the one that belongs to the private key in
  \<open>c\<close>, its routes are the address \<open>c\<close> gives to the interface and the node's extra routes, and its
  endpoint is the node's.
\<close>

definition entry_for :: "crates \<Rightarrow> validated_topology \<Rightarrow> string \<Rightarrow> parsed_config \<Rightarrow> parsed_peer \<Rightarrow> bool" where
  "entry_for cr t h c p \<longleftrightarrow>
     (\<exists>n. node t h = Some n \<and>
        public_key_from_private_base64 cr (pi_private_key (pc_interface c)) = Inr (pp_public_key p) \<and>
        pi_address (pc_interface c) = vn_tunnel_address n \<and>
        pp_allowed_ips p = allowed_nets cr n \<and> hd (pp_allowed_ips p) = Ipv4Net (pi_address (pc_interface c)) 32 \<and>
        pp_endpoint p = vn_endpoint n)"

definition joined ::
  "crates \<Rightarrow> validated_topology \<Rightarrow> string \<Rightarrow> string \<Rightarrow> parsed_config \<Rightarrow> parsed_config \<Rightarrow> bool" where
  "joined cr t a b ca cb \<longleftrightarrow>
     distinct (map pp_public_key (pc_peers ca)) \<and> distinct (map pp_public_key (pc_peers cb)) \<and>
     (\<exists>pa\<in>set (pc_peers ca). \<exists>pb\<in>set (pc_peers cb).
        entry_for cr t b cb pa \<and> entry_for cr t a ca pb \<and>
        pp_preshared_key pa = pp_preshared_key pb \<and> (pp_endpoint pa \<noteq> None \<or> pp_endpoint pb \<noteq> None))"

lemma rendered_entry:
  assumes "node t h = Some n" and "bt_get (node_keys keys) h = Some (priv, pub)" and "node_key_valid cr (priv, pub)"
    and "h \<in> set (peers_of g (edges t))"
  obtains p where "p \<in> set (pc_peers (rendered_for cr t keys g n' priv'))"
    "entry_for cr t h (rendered_for cr t keys h n priv) p"
    "pp_preshared_key p = the (bt_get (edge_psks keys) (canonical_pair g h))" "pp_endpoint p = vn_endpoint n"
proof -
  let ?p = "\<lparr>pp_public_key = pub, pp_preshared_key = the (bt_get (edge_psks keys) (canonical_pair g h)),
    pp_allowed_ips = allowed_nets cr n, pp_endpoint = vn_endpoint n,
    pp_persistent_keepalive = resolve_local_keepalive n'\<rparr>"
  have "?p \<in> set (pc_peers (rendered_for cr t keys g n' priv'))"
    using assms(1,2,4) by (auto simp: rendered_for_def Let_def intro!: image_eqI [of _ _ h])
  moreover have "entry_for cr t h (rendered_for cr t keys h n priv) ?p"
    using assms(1,3) by (simp add: entry_for_def rendered_interface_simps node_key_valid_def allowed_nets_def)
  ultimately show thesis using that by simp
qed

lemma edge_configs_joined:
  assumes "topology_validate cr cfg = Inr (t, ws)" and "ipnet_text cr" and "ipnet_parses_wf cr"
    and "keys_text keys" and "keys_typed cr t keys" and "(a, b) \<in> set (edges t)"
    and "render_node_config cr t keys a = Inr out_a" and "render_node_config cr t keys b = Inr out_b"
  shows "\<exists>ca cb. parse_wg_quick cr out_a = Inr ca \<and> parse_wg_quick cr out_b = Inr cb \<and> joined cr t a b ca cb"
proof -
  note t = topology_validate_ok(1) [OF assms(1)] and rb = render_parses_back [OF assms(1-4)]
  from rb [OF assms(7)] rb [OF assms(8)] obtain n priv pub m priv' pub' where
    a: "node t a = Some n" "bt_get (node_keys keys) a = Some (priv, pub)"
      "parse_wg_quick cr out_a = Inr (rendered_for cr t keys a n priv)" and
    b: "node t b = Some m" "bt_get (node_keys keys) b = Some (priv', pub')"
      "parse_wg_quick cr out_b = Inr (rendered_for cr t keys b m priv')" by blast
  note ends = edge_ends(2,3) [OF t assms(6)]
  have k: "node_key_valid cr (priv, pub)" "node_key_valid cr (priv', pub')"
    using assms(5) ends a(2) b(2) by (fastforce simp: keys_typed_def)+
  have "b \<in> set (peers_of a (edges t))" "a \<in> set (peers_of b (edges t))"
    using assms(6) by (simp_all add: peers_of_edges)
  note entries = rendered_entry [OF b(1,2) k(2) this(1)] rendered_entry [OF a(1,2) k(1) this(2)]
  obtain pa where pa: "pa \<in> set (pc_peers (rendered_for cr t keys a n priv))"
    "entry_for cr t b (rendered_for cr t keys b m priv') pa"
    "pp_preshared_key pa = the (bt_get (edge_psks keys) (canonical_pair a b))" "pp_endpoint pa = vn_endpoint m"
    by (rule entries(1))
  obtain pb where pb: "pb \<in> set (pc_peers (rendered_for cr t keys b m priv'))"
    "entry_for cr t a (rendered_for cr t keys a n priv) pb"
    "pp_preshared_key pb = the (bt_get (edge_psks keys) (canonical_pair b a))" "pp_endpoint pb = vn_endpoint n"
    by (rule entries(2))
  have "canonical_pair a b = canonical_pair b a" by (auto simp: canonical_pair_def)
  moreover have "vn_endpoint n \<noteq> None \<or> vn_endpoint m \<noteq> None"
    using edge_endpoint t assms(6) a(1) b(1) by blast
  moreover have "distinct (map pp_public_key (pc_peers (rendered_for cr t keys a n priv)))"
    "distinct (map pp_public_key (pc_peers (rendered_for cr t keys b m priv')))"
    using parse_wg_quick_ok [OF a(3)] parse_wg_quick_ok [OF b(3)] by (simp_all add: config_ok_def)
  ultimately have "joined cr t a b (rendered_for cr t keys a n priv) (rendered_for cr t keys b m priv')"
    unfolding joined_def using pa pb
    by - (rule conjI, assumption, rule conjI, assumption, rule bexI [of _ pa], rule bexI [of _ pb], auto)
  with a(3) b(3) show ?thesis by blast
qed

section \<open>Property\<close>

text \<open>
  C1. The network comes up.  After a first apply and any number of routine ones, let the two ends
  of an edge of the topology sync, each on its own fresh host.  Both passes end without an error
  and with the interface up, and the two installed files, as the strict parser reads them, fit
  together: in each there is one entry whose public key is the one that belongs to the private key
  in the other file, with the other interface's address, as the topology gives it, and the other
  node's extra routes as its routes and the other node's endpoint; the two entries hold the same
  preshared key, and at least one has an endpoint to dial.
\<close>
theorem network_comes_up:
  assumes "crates_documented cr" and "topology_validate cr config = Inr (t, ws)" and "config_utf8 config"
    and "serde_rereads js" and "serde_pointer js cjs" and "state_serializes cjs"
    and "check_rotate (map vn_hostname (vt_nodes t)) (ao_rotate opts) = Inr ()"
    and "empty_bucket (w_store w)" and "distinct_draws cr (Suc (w_draws w)) (length (vt_nodes t))"
    and "apply_topology cr js mock now config (opts\<lparr>ao_dry_run := False\<rparr>) w = (Inr report, w')"
    and "(a, b) \<in> set (edges t)" and "fresh_machine host_a" and "fresh_machine host_b"
  shows "case run_once cr cjs bucket_reader (mock_sys cr) a iface_a conf_a force_a ep
      (w_store (snd (routine_applies cr js config runs w')), host_a) of (outcome_a, bucket_a, host_a') \<Rightarrow>
    (case run_once cr cjs bucket_reader (mock_sys cr) b iface_b conf_b force_b ep (bucket_a, host_b) of
      (outcome_b, bucket_b, host_b') \<Rightarrow>
        so_error outcome_a = None \<and> iface_a \<in> mock_up host_a' \<and> so_error outcome_b = None \<and> iface_b \<in> mock_up host_b' \<and>
        (\<exists>fa fb ca cb. mock_files host_a' conf_a = Some fa \<and> mock_files host_b' conf_b = Some fb \<and>
          parse_wg_quick cr fa = Inr ca \<and> parse_wg_quick cr fb = Inr cb \<and>
          joined cr t a b ca cb))"
proof -
  note cr = assms(1) [unfolded crates_documented_def] and t = topology_validate_ok [OF assms(2)]
  from first_apply_settles [OF assms(1,2,7-10)] obtain keys where "generation_settled cr js t keys (w_store w')" by blast
  from routine_applies_settled [OF assms(1-4) this, of runs]
  have s: "generation_settled cr js t keys (w_store (snd (routine_applies cr js config runs w')))"
    (is "generation_settled _ _ _ _ ?m") by blast
  note ends = edge_ends(2,3) [OF t(1) assms(11)]
  obtain oa ma ha where ra: "run_once cr cjs bucket_reader (mock_sys cr) a iface_a conf_a force_a ep (?m, host_a) = (oa, ma, ha)"
    by (metis prod.exhaust)
  from fresh_sync [OF assms(1-3,5,6) s ends(1) assms(12) ra] obtain fa where
    a: "so_error oa = None" "ma = ?m" "iface_a \<in> mock_up ha" "render_node_config cr t keys a = Inr fa"
      "mock_files ha conf_a = Some fa" by blast
  obtain ob mb hb where rb: "run_once cr cjs bucket_reader (mock_sys cr) b iface_b conf_b force_b ep (?m, host_b) = (ob, mb, hb)"
    by (metis prod.exhaust)
  from fresh_sync [OF assms(1-3,5,6) s ends(2) assms(13) rb] obtain fb where
    b: "so_error ob = None" "iface_b \<in> mock_up hb" "render_node_config cr t keys b = Inr fb"
      "mock_files hb conf_b = Some fb" by blast
  have k: "keys_text keys" "keys_typed cr t keys" using s by (simp_all add: generation_settled_def keys_typed_def)
  from edge_configs_joined [OF assms(2) _ _ k assms(11) a(4) b(3)] cr obtain ca cb where
    "parse_wg_quick cr fa = Inr ca" "parse_wg_quick cr fb = Inr cb" "joined cr t a b ca cb" by blast
  with a b show ?thesis by (auto simp: ra rb)
qed

end
