(* ===== verification/Server_Main.thy ===== *)
theory Server_Main
  imports Apply
begin

text \<open>
  \<open>wg-server/src/main.rs\<close>: the \<open>--rotate\<close> argument, the grace period it and \<open>--prune\<close> imply, and
  the \<open>validate\<close> and \<open>apply\<close> commands up to their exit status.
\<close>

datatype rotate_error = MixedRotate

definition parse_rotate :: "string list \<Rightarrow> rotate_error + rotate_selection" where
  "parse_rotate raw =
     (if raw = [] then Inr RotateNone
      else
        let bare_count = length (filter (\<lambda>s. s = []) raw) in
        if bare_count > 0 then
          guard_err (bare_count < length raw) MixedRotate (Inr RotateAll)
        else Inr (RotateNamed (bs_of_list raw)))"

definition resolve_grace_period :: "bool \<Rightarrow> rotate_selection \<Rightarrow> nat" where
  "resolve_grace_period prune sel =
     (if prune \<or> sel \<noteq> RotateNone then 0 else ao_grace_period apply_options_default)"

text \<open>\<open>--config\<close>, else the environment variable.\<close>

definition resolve_config_path :: "string option \<Rightarrow> string option \<Rightarrow> string option" where
  "resolve_config_path cli_value env_value =
     (case cli_value of Some p \<Rightarrow> Some p | None \<Rightarrow> env_value)"

datatype main_error =
    NoConfigPath
  | ConfigUnreadable string
  | ConfigInvalid validation_error
  | RotateInvalid rotate_error
  | ApplyFailed apply_error
  | CleanupIncomplete apply_error

definition read_config ::
  "(string \<Rightarrow> string + string) \<Rightarrow> (string \<Rightarrow> string + topology_config) \<Rightarrow> string \<Rightarrow> main_error + topology_config" where
  "read_config read_to_string topo_from_str p =
     and_then (map_err ConfigUnreadable (read_to_string p)) (\<lambda>s.
     map_err ConfigInvalid (topology_parse topo_from_str s))"

text \<open>\<open>wg-server validate\<close>: the node and edge counts and the warnings it prints.\<close>

definition main_validate ::
  "crates \<Rightarrow> (string \<Rightarrow> string + string) \<Rightarrow> (string \<Rightarrow> string + topology_config) \<Rightarrow> string option
    \<Rightarrow> string option \<Rightarrow> main_error + (nat \<times> nat) \<times> string list" where
  "main_validate cr read_to_string topo_from_str cli_path env_path =
     and_then (ok_or NoConfigPath (resolve_config_path cli_path env_path)) (\<lambda>p.
     and_then (read_config read_to_string topo_from_str p) (\<lambda>cfg.
     and_then (map_err ConfigInvalid (topology_validate cr cfg)) (\<lambda>(topo, warnings).
     Inr ((length (vt_nodes topo), length (edges topo)), warnings))))"

text \<open>\<open>wg-server apply\<close>, up to the report.\<close>

definition main_apply ::
  "crates \<Rightarrow> serde \<Rightarrow> (topology_config \<Rightarrow> 's storage) \<Rightarrow> nat \<Rightarrow> (string \<Rightarrow> string + string)
    \<Rightarrow> (string \<Rightarrow> string + topology_config) \<Rightarrow> string option \<Rightarrow> string option \<Rightarrow> bool \<Rightarrow> string list
    \<Rightarrow> bool \<Rightarrow> ('s world, main_error, apply_report) io" where
  "main_apply cr js client now read_to_string topo_from_str cli_path env_path dry_run raw_rotate prune =
     io_then (io_lift (ok_or NoConfigPath (resolve_config_path cli_path env_path))) (\<lambda>p.
     io_then (io_lift (read_config read_to_string topo_from_str p)) (\<lambda>cfg.
     io_then (io_lift (map_err RotateInvalid (parse_rotate raw_rotate))) (\<lambda>sel.
     io_map_err ApplyFailed (apply_topology cr js (client cfg) now cfg
       \<lparr>ao_dry_run = dry_run, ao_rotate = sel, ao_grace_period = resolve_grace_period prune sel\<rparr>))))"

section \<open>The command line\<close>

datatype server_command =
    CommandApply "string option" bool "string list" bool
  | CommandValidate "string option"

record server_cli =
  cli_command :: server_command
  cli_verbose :: "8 word"

text \<open>\<open>RUST_LOG\<close> wins over \<open>-v\<close>; parsing a filter is the library's.\<close>

definition server_env_filter :: "'f option \<Rightarrow> (string \<Rightarrow> 'f) \<Rightarrow> 8 word \<Rightarrow> 'f" where
  "server_env_filter default_env new_filter verbose =
     (case default_env of
        Some f \<Rightarrow> f
      | None \<Rightarrow> new_filter
          (if verbose = 0 then ''warn'' else if verbose = 1 then ''info''
           else if verbose = 2 then ''debug'' else ''trace''))"

datatype exit_code = EXIT_SUCCESS | EXIT_FAILURE

text \<open>
  What the command prints and logs: standard output as text, an error as the value whose text is
  printed, and the log lines with the values they show.
\<close>

datatype server_output =
    Printed string
  | Complained main_error
  | LogWarning string
  | LogValidated nat nat
  | LogKeys nat nat
  | LogPublished "string option" nat
  | LogNoChange
  | LogCleanup "string list" nat

definition show_bool :: "bool \<Rightarrow> string" where
  "show_bool b = (if b then ''true'' else ''false'')"

text \<open>\<open>{:?}\<close> of an optional id; the alphabet of ids has no character that is escaped.\<close>

definition show_id :: "string option \<Rightarrow> string" where
  "show_id x = (case x of None \<Rightarrow> ''None''
     | Some i \<Rightarrow> ''Some('' @ [CHR 0x22] @ i @ [CHR 0x22] @ '')'')"

definition apply_summary :: "apply_report \<Rightarrow> string" where
  "apply_summary r =
     ''reused='' @ show_nat (length (ar_reused_hostnames r))
     @ '' freshly_keyed='' @ show_nat (length (ar_freshly_keyed_hostnames r))
     @ '' published='' @ show_bool (ar_published r)
     @ '' generation='' @ show_id (ar_new_generation_id r)
     @ '' uploaded='' @ show_nat (length (ar_uploaded_hostnames r))
     @ '' cleanup_deleted='' @ show_nat (length (ar_cleanup_deleted r))
     @ '' cleanup_skipped_within_grace='' @ show_nat (length (ar_cleanup_skipped_within_grace r))"

definition report_apply :: "apply_report \<Rightarrow> server_output list \<times> exit_code" where
  "report_apply r =
     (let out = map LogWarning (ar_warnings r)
        @ [LogKeys (length (ar_reused_hostnames r)) (length (ar_freshly_keyed_hostnames r))]
        @ [if ar_published r
           then LogPublished (ar_new_generation_id r) (length (ar_uploaded_hostnames r)) else LogNoChange]
        @ (if ar_cleanup_deleted r \<noteq> [] \<or> ar_cleanup_skipped_within_grace r \<noteq> []
           then [LogCleanup (ar_cleanup_deleted r) (length (ar_cleanup_skipped_within_grace r))] else [])
        @ [Printed (apply_summary r)]
      in case ar_cleanup_error r of
           Some e \<Rightarrow> (out @ [Complained (CleanupIncomplete e)], EXIT_FAILURE)
         | None \<Rightarrow> (out, EXIT_SUCCESS))"

definition report_validate :: "nat \<times> nat \<Rightarrow> string list \<Rightarrow> server_output list \<times> exit_code" where
  "report_validate counts warnings =
     ([LogValidated (fst counts) (snd counts)] @ map LogWarning warnings
      @ [Printed (''OK: '' @ show_nat (fst counts) @ '' nodes, '' @ show_nat (snd counts) @ '' edges'')],
      EXIT_SUCCESS)"

definition server_main ::
  "crates \<Rightarrow> serde \<Rightarrow> (topology_config \<Rightarrow> 's storage) \<Rightarrow> nat \<Rightarrow> (string \<Rightarrow> string + string)
    \<Rightarrow> (string \<Rightarrow> string + topology_config) \<Rightarrow> string option \<Rightarrow> server_command
    \<Rightarrow> 's world \<Rightarrow> (server_output list \<times> exit_code) \<times> 's world" where
  "server_main cr js client now read_to_string topo_from_str env_path command w =
     (case command of
        CommandValidate path \<Rightarrow>
          (case main_validate cr read_to_string topo_from_str path env_path of
             Inr (counts, warnings) \<Rightarrow> (report_validate counts warnings, w)
           | Inl e \<Rightarrow> (([Complained e], EXIT_FAILURE), w))
      | CommandApply path dry_run raw_rotate prune \<Rightarrow>
          (case main_apply cr js client now read_to_string topo_from_str path env_path dry_run raw_rotate prune w of
             (Inr report, w') \<Rightarrow> (report_apply report, w')
           | (Inl e, w') \<Rightarrow> (([Complained e], EXIT_FAILURE), w')))"

text \<open>Validating touches nothing, and neither does an apply with arguments or a file it refuses.\<close>

lemma server_main_untouched:
  assumes "server_main cr js client now rd tf env command w = ((out, code), w')"
    and "case command of CommandValidate _ \<Rightarrow> True
      | CommandApply path _ raw _ \<Rightarrow>
          \<not> is_ok (and_then (ok_or NoConfigPath (resolve_config_path path env)) (read_config rd tf)) \<or>
          \<not> is_ok (parse_rotate raw)"
  shows "w' = w"
  using assms
  by (auto simp: server_main_def main_apply_def io_then_def io_lift_def and_then_def map_err_def is_ok_def
      split: server_command.splits sum.splits prod.splits)

text \<open>Success is reported exactly after a whole apply, its cleanup included.\<close>

lemma server_main_success:
  "snd (fst (server_main cr js client now rd tf env (CommandApply path dry raw prune) w)) = EXIT_SUCCESS \<longleftrightarrow>
   (\<exists>r w'. main_apply cr js client now rd tf path env dry raw prune w = (Inr r, w') \<and>
      ar_cleanup_error r = None)"
  by (auto simp: server_main_def report_apply_def Let_def split: sum.splits prod.splits option.splits)

section \<open>Properties\<close>

text \<open>
  \<open>--rotate\<close>: no argument rotates nothing, only bare ones rotate everything, only named ones
  rotate exactly the named nodes, and mixing the two forms is an error.
\<close>
theorem parse_rotate_exact:
  "parse_rotate raw =
    (if raw = [] then Inr RotateNone
     else if set raw = {[]} then Inr RotateAll
     else if [] \<in> set raw then Inl MixedRotate
     else Inr (RotateNamed (bs_of_list raw))) \<and>
   set (bs_of_list raw) = set raw"
proof -
  have "length (filter (\<lambda>s. s = []) raw) = length raw \<longleftrightarrow> set raw \<subseteq> {[]}"
    by (induction raw) (auto simp: length_filter_le le_imp_less_Suc less_imp_neq dest: Suc_le_lessD)
  moreover have "length (filter (\<lambda>s. s = []) raw) \<le> length raw" by simp
  moreover have "length (filter (\<lambda>s. s = []) raw) = 0 \<longleftrightarrow> [] \<notin> set raw"
    by (auto simp: filter_empty_conv)
  ultimately show ?thesis
    by (cases raw) (auto simp: parse_rotate_def Let_def guard_err_def)
qed

end
