(* ===== verification/Kernel.thy ===== *)
theory Kernel
  imports System_Ops
begin

text \<open>
  \<open>wg-client/src/netlink.rs\<close>, the interface functions of \<open>system.rs\<close> and \<open>preflight.rs\<close>.
  The kernel, the \<open>wireguard-control\<close> crate, the netlink request and the resolver are the
  fields of the record \<open>kernel\<close>; the messages the program builds for them are data.
\<close>

datatype io_kind = NotFound | AlreadyExists | OtherKind

record io_error =
  io_kind :: io_kind
  io_text :: string

datatype route_attribute = Destination "32 word" | Oif "32 word" | OtherAttribute

record route_message =
  rm_inet :: bool
  rm_main_table :: bool
  rm_unicast :: bool
  rm_destination_prefix_length :: nat
  rm_attributes :: "route_attribute list"

text \<open>The requests: the dump, link up with an MTU, an address, a route.\<close>

datatype rtnl_request =
    GetRoute
  | SetLinkUp "32 word" "32 word"
  | NewAddress "32 word" "32 word" nat
  | NewRoute route_message

datatype rtnl_response = RouteResponse route_message | OtherResponse

record peer_update =
  pu_public_key :: "8 word list"
  pu_preshared_key :: "8 word list"
  pu_allowed_ips :: "(32 word \<times> nat) list"
  pu_keepalive :: "16 word option"
  pu_endpoint :: "(ip_addr \<times> 16 word) option"

record device_update =
  du_private_key :: "8 word list"
  du_listen_port :: "16 word"
  du_replace_peers :: bool
  du_peers :: "peer_update list"

record 'k kernel =
  k_interface_name :: "string \<Rightarrow> string + string"
  k_key :: "string \<Rightarrow> 8 word list option"
  k_if_index :: "string \<Rightarrow> ('k, 32 word) query"
  k_if_name :: "32 word \<Rightarrow> ('k, string option) query"
  k_rtnl :: "rtnl_request \<Rightarrow> ('k, io_error, rtnl_response list) io"
  k_apply_device :: "string \<Rightarrow> device_update \<Rightarrow> ('k, string, unit) io"
  k_get_device :: "string \<Rightarrow> ('k, io_error, unit) io"
  k_delete_device :: "string \<Rightarrow> ('k, string, unit) io"
  k_lookup :: "string \<Rightarrow> ('k, string, (ip_addr \<times> 16 word) list) io"
  k_lookup_ip :: "string \<Rightarrow> ('k, string, ip_addr list) io"
  k_list_devices :: "('k, string, string list) io"
  k_timed_out :: "('k, bool) query"

section \<open>Netlink\<close>

definition if_index :: "'k kernel \<Rightarrow> string \<Rightarrow> ('k, io_error, 32 word) io" where
  "if_index k name s =
     (case k_if_index k name s of (index, s') \<Rightarrow>
        if index = 0
        then (Inl \<lparr>io_kind = NotFound, io_text = ''interface '' @ name @ '' not found''\<rparr>, s')
        else (Inr index, s'))"

definition interface_index :: "'k kernel \<Rightarrow> string \<Rightarrow> ('k, 32 word option) query" where
  "interface_index k name s =
     (case k_interface_name k name of
        Inl _ \<Rightarrow> (None, s)
      | Inr n \<Rightarrow> (case if_index k n s of (Inl _, s') \<Rightarrow> (None, s') | (Inr i, s') \<Rightarrow> (Some i, s')))"

definition route_of_response :: "rtnl_response \<Rightarrow> (ipv4net \<times> 32 word) option" where
  "route_of_response response =
     (case response of
        OtherResponse \<Rightarrow> None
      | RouteResponse msg \<Rightarrow>
          if \<not> rm_inet msg \<or> \<not> rm_main_table msg \<or> \<not> rm_unicast msg then None
          else
            let (dest, oif) = fold (\<lambda>attr (dest, oif). case attr of
                  Destination addr \<Rightarrow> (addr, oif)
                | Oif index \<Rightarrow> (dest, Some index)
                | OtherAttribute \<Rightarrow> (dest, oif)) (rm_attributes msg) (0, None)
            in case oif of
                 Some index \<Rightarrow>
                   if rm_destination_prefix_length msg \<le> 32
                   then Some (Ipv4Net dest (rm_destination_prefix_length msg), index) else None
               | None \<Rightarrow> None)"

definition list_ipv4_routes :: "'k kernel \<Rightarrow> ('k, io_error, (ipv4net \<times> 32 word) list) io" where
  "list_ipv4_routes k =
     io_then (k_rtnl k GetRoute) (\<lambda>responses. io_return (List.map_filter route_of_response responses))"

definition set_up :: "'k kernel \<Rightarrow> string \<Rightarrow> 32 word \<Rightarrow> ('k, io_error, unit) io" where
  "set_up k name mtu =
     io_then (if_index k name) (\<lambda>index.
     io_then (k_rtnl k (SetLinkUp index mtu)) (\<lambda>_. io_return ()))"

definition set_addr :: "'k kernel \<Rightarrow> string \<Rightarrow> 32 word \<Rightarrow> nat \<Rightarrow> ('k, io_error, unit) io" where
  "set_addr k name a prefix_len =
     io_then (if_index k name) (\<lambda>index.
     io_then (k_rtnl k (NewAddress index a prefix_len)) (\<lambda>_. io_return ()))"

definition add_route :: "crates \<Rightarrow> 'k kernel \<Rightarrow> string \<Rightarrow> ipv4net \<Rightarrow> ('k, io_error, bool) io" where
  "add_route cr k name net =
     io_then (if_index k name) (\<lambda>index s.
       case k_rtnl k (NewRoute \<lparr>rm_inet = True, rm_main_table = True, rm_unicast = True,
           rm_destination_prefix_length = net_prefix_len net,
           rm_attributes = [Destination (net_network cr net), Oif index]\<rparr>) s of
         (Inr _, s') \<Rightarrow> (Inr True, s')
       | (Inl e, s') \<Rightarrow> if io_kind e = AlreadyExists then (Inr False, s') else (Inl e, s'))"

section \<open>Configuring an interface\<close>

datatype host_error =
    BadInterfaceName string
  | BadPrivateKey
  | BadPeerPublicKey
  | BadPeerPresharedKey
  | DeviceConfig string
  | SettingAddress io_error
  | BringingUp io_error
  | AddingRoute ipv4net io_error
  | ResolvingEndpoint string string
  | NoAddresses string
  | DeletingInterface string
  | LookingUpInterface io_error
  | ReadingConfig
  | ParsingConfig parse_error

definition peer_update_of ::
  "crates \<Rightarrow> 'k kernel \<Rightarrow> parsed_peer \<times> (ip_addr \<times> 16 word) option \<Rightarrow> host_error + peer_update" where
  "peer_update_of cr k = (\<lambda>(peer, endpoint).
     and_then (ok_or BadPeerPublicKey (k_key k (pp_public_key peer))) (\<lambda>public_key.
     and_then (ok_or BadPeerPresharedKey (k_key k (pp_preshared_key peer))) (\<lambda>preshared_key.
     Inr \<lparr>pu_public_key = public_key, pu_preshared_key = preshared_key,
       pu_allowed_ips = map (\<lambda>net. (net_network cr net, net_prefix_len net)) (pp_allowed_ips peer),
       pu_keepalive = pp_persistent_keepalive peer, pu_endpoint = endpoint\<rparr>)))"

definition apply_interface_blocking ::
  "crates \<Rightarrow> 'k kernel \<Rightarrow> string \<Rightarrow> parsed_config \<Rightarrow> (ip_addr \<times> 16 word) option list \<Rightarrow> ('k, host_error, unit) io" where
  "apply_interface_blocking cr k iface cfg endpoints =
     io_then (io_lift (map_err BadInterfaceName (k_interface_name k iface))) (\<lambda>name.
     io_then (io_lift (ok_or BadPrivateKey (k_key k (pi_private_key (pc_interface cfg))))) (\<lambda>private_key.
     io_then (io_lift (map_res (peer_update_of cr k) (zip (pc_peers cfg) endpoints))) (\<lambda>peers.
     io_then (io_map_err DeviceConfig (k_apply_device k name
       \<lparr>du_private_key = private_key, du_listen_port = pi_listen_port (pc_interface cfg),
        du_replace_peers = True, du_peers = peers\<rparr>)) (\<lambda>_.
     io_then (io_map_err SettingAddress (set_addr k name (pi_address (pc_interface cfg)) 32)) (\<lambda>_.
     io_then (io_map_err BringingUp (set_up k name
       (ucast (case pi_mtu (pc_interface cfg) of Some m \<Rightarrow> m | None \<Rightarrow> 1420)))) (\<lambda>_.
     io_fold (\<lambda>net _. io_then (io_map_err (AddingRoute net) (add_route cr k name net)) (\<lambda>_. io_return ()))
       (concat (map pp_allowed_ips (pc_peers cfg))) ()))))))"

definition teardown_interface_blocking :: "'k kernel \<Rightarrow> string \<Rightarrow> ('k, host_error, unit) io" where
  "teardown_interface_blocking k iface =
     io_then (io_lift (map_err BadInterfaceName (k_interface_name k iface))) (\<lambda>name s.
       case k_get_device k name s of
         (Inr _, s') \<Rightarrow> io_map_err DeletingInterface (k_delete_device k name) s'
       | (Inl e, s') \<Rightarrow> if io_kind e = NotFound then (Inr (), s') else (Inl (LookingUpInterface e), s'))"

definition resolve_endpoint :: "'k kernel \<Rightarrow> string \<Rightarrow> ('k, host_error, ip_addr \<times> 16 word) io" where
  "resolve_endpoint k endpoint =
     io_then (io_map_err (ResolvingEndpoint endpoint) (k_lookup k endpoint)) (\<lambda>addrs.
     case addrs of a # _ \<Rightarrow> io_return a | [] \<Rightarrow> io_throw (NoAddresses endpoint))"

text \<open>\<open>RealSystemOps::apply_interface\<close>, from the bytes read.\<close>

definition apply_interface_real ::
  "crates \<Rightarrow> 'k kernel \<Rightarrow> string \<Rightarrow> string option \<Rightarrow> ('k, host_error, unit) io" where
  "apply_interface_real cr k iface contents =
     io_then (io_lift (ok_or ReadingConfig contents)) (\<lambda>bytes.
     io_then (io_lift (map_err ParsingConfig (parse_wg_quick cr (from_utf8_lossy bytes)))) (\<lambda>cfg.
     io_then (io_fold (\<lambda>peer endpoints.
         case pp_endpoint peer of
           Some endpoint \<Rightarrow> io_then (resolve_endpoint k endpoint) (\<lambda>a. io_return (endpoints @ [Some a]))
         | None \<Rightarrow> io_return (endpoints @ [None])) (pc_peers cfg) []) (\<lambda>endpoints.
     apply_interface_blocking cr k iface cfg endpoints)))"

section \<open>Route preflight\<close>

datatype protected_role = StorageEndpoint | DnsResolver | PeerEndpoint string

datatype preflight_error =
    Resolving string
  | WouldCapture ipv4net protected_role "32 word"
  | ListingRoutes io_error
  | OverlapsRoute ipv4net ipv4net "string option" "32 word"
  | TimedOut

definition nets_overlap :: "crates \<Rightarrow> ipv4net \<Rightarrow> ipv4net \<Rightarrow> bool" where
  "nets_overlap cr a b \<longleftrightarrow>
     net_network cr a \<le> net_broadcast cr b \<and> net_network cr b \<le> net_broadcast cr a"

definition host_part :: "string \<Rightarrow> string option" where
  "host_part endpoint =
     (if starts_with ''['' endpoint then None else map_option fst (rsplit_once CHR '':'' endpoint))"

definition resolve_ipv4 :: "'k kernel \<Rightarrow> string \<Rightarrow> ('k, preflight_error, 32 word list) io" where
  "resolve_ipv4 k host =
     io_then (io_map_err Resolving (k_lookup_ip k host)) (\<lambda>addrs.
     io_return (List.map_filter (\<lambda>a. case a of V4 v4 \<Rightarrow> Some v4 | V6 _ \<Rightarrow> None) addrs))"

definition protect_peer ::
  "'k kernel \<Rightarrow> parsed_peer \<Rightarrow> (32 word \<times> protected_role) list
    \<Rightarrow> ('k, preflight_error, (32 word \<times> protected_role) list) io" where
  "protect_peer k peer protected =
     (case Option.bind (pp_endpoint peer) host_part of
        None \<Rightarrow> io_return protected
      | Some host \<Rightarrow>
          io_then (resolve_ipv4 k host) (\<lambda>ips.
          io_return (protected @ map (\<lambda>ip. (ip, PeerEndpoint (take 8 (pp_public_key peer)))) ips)))"

definition check_captures ::
  "crates \<Rightarrow> (32 word \<times> protected_role) list \<Rightarrow> ipv4net \<Rightarrow> preflight_error + unit" where
  "check_captures cr protected route =
     for_each (\<lambda>(a, what). guard_err (net_contains cr route a) (WouldCapture route what a) (Inr ())) protected"

definition check_existing ::
  "crates \<Rightarrow> 'k kernel \<Rightarrow> 32 word option \<Rightarrow> ipv4net list \<Rightarrow> ipv4net \<times> 32 word \<Rightarrow> unit
    \<Rightarrow> ('k, preflight_error, unit) io" where
  "check_existing cr k managed_index candidate_routes = (\<lambda>(existing_net, oif) _.
     if net_prefix_len existing_net = 0 then io_return ()
     else if managed_index = Some oif then io_return ()
     else case List.find (\<lambda>route. nets_overlap cr route existing_net) candidate_routes of
       None \<Rightarrow> io_return ()
     | Some route \<Rightarrow> (\<lambda>s. case k_if_name k oif s of
         (other, s') \<Rightarrow> (Inl (OverlapsRoute route existing_net other oif), s')))"

definition check_inner ::
  "crates \<Rightarrow> 'k kernel \<Rightarrow> parsed_config \<Rightarrow> string \<Rightarrow> string \<Rightarrow> ('k, preflight_error, unit) io" where
  "check_inner cr k cfg storage_endpoint_host managed_iface =
     io_then (resolve_ipv4 k storage_endpoint_host) (\<lambda>ips.
     let protected0 = map (\<lambda>ip. (ip, StorageEndpoint)) ips
         @ (case pi_dns (pc_interface cfg) of Some (V4 dns) \<Rightarrow> [(dns, DnsResolver)] | _ \<Rightarrow> []) in
     io_then (io_fold (protect_peer k) (pc_peers cfg) protected0) (\<lambda>protected.
     let candidate_routes = concat (map pp_allowed_ips (pc_peers cfg)) in
     io_then (io_lift (for_each (check_captures cr protected) candidate_routes)) (\<lambda>_.
     io_then (io_map_err ListingRoutes (list_ipv4_routes k)) (\<lambda>existing_routes s.
       case interface_index k managed_iface s of
         (managed_index, s') \<Rightarrow> io_fold (check_existing cr k managed_index candidate_routes) existing_routes () s'))))"

text \<open>
  \<open>check\<close> bounds the checks by a deadline; \<open>k_timed_out\<close> says whether it passed first.  The checks
  only look, so cutting them short differs from dropping their result in no way.
\<close>

definition check ::
  "crates \<Rightarrow> 'k kernel \<Rightarrow> parsed_config \<Rightarrow> string \<Rightarrow> string \<Rightarrow> ('k, preflight_error, unit) io" where
  "check cr k cfg storage_endpoint_host managed_iface s =
     (case check_inner cr k cfg storage_endpoint_host managed_iface s of (r, s') \<Rightarrow>
     (case k_timed_out k s' of (late, s'') \<Rightarrow> (if late then Inl TimedOut else r, s'')))"

end
