(* ===== verification/Atomic_Write.thy ===== *)
theory Atomic_Write
  imports System_Ops
begin

text \<open>
  A file system whose writes reach the disk late, and \<open>RealSystemOps::write_file_atomic\<close>
  (\<open>wg-client/src/system.rs\<close>) as a step relation over it, one step per system call, each of which
  may fail.  Every reachable state is a possible point of a power loss, so the invariant
  says what a loss of power can leave behind.
\<close>

section \<open>Files and what a power loss leaves of them\<close>

text \<open>
  \<open>fs_view\<close> is what the running system reads.  \<open>fs_synced\<close> says whether the data of the file of
  that name has reached the disk, and \<open>fs_remains\<close> what a reader may find under the name if the
  power fails now: data that was not synced may have been written in part, in any order, or not
  at all, and a changed directory entry may or may not have been written.
\<close>

datatype remains = Anything | OneOf "string option list"

record file_system =
  fs_view :: "path \<Rightarrow> string option"
  fs_synced :: "path \<Rightarrow> bool"
  fs_remains :: "path \<Rightarrow> remains"

definition may_remain :: "file_system \<Rightarrow> path \<Rightarrow> string option \<Rightarrow> bool" where
  "may_remain fs p c = (case fs_remains fs p of Anything \<Rightarrow> True | OneOf cs \<Rightarrow> c \<in> set cs)"

fun or_else :: "remains \<Rightarrow> remains \<Rightarrow> remains" where
  "or_else (OneOf cs) (OneOf ds) = OneOf (cs @ ds)"
| "or_else _ _ = Anything"

text \<open>Files that are on disk as they are seen.\<close>

definition on_disk :: "(path \<Rightarrow> string option) \<Rightarrow> file_system" where
  "on_disk files = \<lparr>fs_view = files, fs_synced = (\<lambda>_. True), fs_remains = (\<lambda>p. OneOf [files p])\<rparr>"

text \<open>
  Writing data (\<open>open\<close> with truncation, \<open>write\<close>), \<open>fsync\<close> of a file, \<open>rename\<close>, and \<open>fsync\<close> of the
  directory of a path.
\<close>

definition fs_put :: "path \<Rightarrow> string \<Rightarrow> file_system \<Rightarrow> file_system" where
  "fs_put p c fs = fs\<lparr>fs_view := (fs_view fs)(p \<mapsto> c), fs_synced := (fs_synced fs)(p := False),
     fs_remains := (fs_remains fs)(p := Anything)\<rparr>"

definition fs_sync :: "path \<Rightarrow> file_system \<Rightarrow> file_system" where
  "fs_sync p fs = fs\<lparr>fs_synced := (fs_synced fs)(p := True)\<rparr>"

definition fs_rename :: "path \<Rightarrow> path \<Rightarrow> file_system \<Rightarrow> file_system" where
  "fs_rename p q fs =
     (let moved = (if fs_synced fs p then OneOf [fs_view fs p] else Anything) in
      \<lparr>fs_view = (fs_view fs)(q := fs_view fs p, p := None),
       fs_synced = (fs_synced fs)(q := fs_synced fs p, p := True),
       fs_remains = (fs_remains fs)(q := or_else (fs_remains fs q) moved,
         p := or_else (fs_remains fs p) (OneOf [None]))\<rparr>)"

definition dir_of :: "path \<Rightarrow> path option" where
  "dir_of p = map_option fst (rsplit_once CHR ''/'' p)"

definition fs_sync_dir :: "path \<Rightarrow> file_system \<Rightarrow> file_system" where
  "fs_sync_dir p fs = fs\<lparr>fs_remains := (\<lambda>q. if dir_of q = dir_of p \<and> fs_synced fs q
     then OneOf [fs_view fs q] else fs_remains fs q)\<rparr>"

lemma tmp_path_differs [simp]: "tmp_path_for p \<noteq> p" "p \<noteq> tmp_path_for p"
  by (simp_all add: tmp_path_for_def)

lemma may_remain_or_else:
  "(case or_else r (OneOf cs) of Anything \<Rightarrow> True | OneOf ds \<Rightarrow> c \<in> set ds) \<longleftrightarrow>
    (case r of Anything \<Rightarrow> True | OneOf ds \<Rightarrow> c \<in> set ds) \<or> c \<in> set cs"
  by (cases r) auto

lemma fs_view_simps [simp]:
  "fs_view (fs_put p c fs) = (fs_view fs)(p \<mapsto> c)"
  "fs_view (fs_sync p fs) = fs_view fs"
  "fs_view (fs_rename p q fs) = (fs_view fs)(q := fs_view fs p, p := None)"
  "fs_view (fs_sync_dir p fs) = fs_view fs"
  "fs_view (on_disk files) = files"
  by (simp_all add: fs_put_def fs_sync_def fs_rename_def fs_sync_dir_def on_disk_def Let_def)

lemma fs_synced_simps [simp]:
  "fs_synced (fs_put p c fs) = (fs_synced fs)(p := False)"
  "fs_synced (fs_sync p fs) = (fs_synced fs)(p := True)"
  "fs_synced (fs_rename p q fs) = (fs_synced fs)(q := fs_synced fs p, p := True)"
  "fs_synced (fs_sync_dir p fs) = fs_synced fs"
  by (simp_all add: fs_put_def fs_sync_def fs_rename_def fs_sync_dir_def Let_def)

lemma may_remain_simps [simp]:
  "may_remain (fs_put p c fs) q d \<longleftrightarrow> q = p \<or> may_remain fs q d"
  "may_remain (fs_sync p fs) q d \<longleftrightarrow> may_remain fs q d"
  "may_remain (fs_sync_dir p fs) q d \<longleftrightarrow>
    (if dir_of q = dir_of p \<and> fs_synced fs q then d = fs_view fs q else may_remain fs q d)"
  "may_remain (on_disk files) q d \<longleftrightarrow> d = files q"
  by (simp_all add: may_remain_def fs_put_def fs_sync_def fs_sync_dir_def on_disk_def)

lemma may_remain_rename:
  "fs_synced fs p \<Longrightarrow> q \<noteq> p \<Longrightarrow> may_remain (fs_rename p q fs) q d \<longleftrightarrow> may_remain fs q d \<or> d = fs_view fs p"
  "r \<noteq> p \<Longrightarrow> r \<noteq> q \<Longrightarrow> may_remain (fs_rename p q fs) r d \<longleftrightarrow> may_remain fs r d"
  by (simp_all add: may_remain_def fs_rename_def may_remain_or_else)

section \<open>The steps\<close>

text \<open>\<open>Writing n\<close>: the first \<open>n\<close> bytes are written.  \<open>Finished b\<close>: the directory was synced (\<open>b\<close>) or that failed.\<close>

datatype stage = Opening | Writing nat | Syncing | Renaming | SyncingDir | Finished bool | FailedAt string

inductive wstep :: "path \<Rightarrow> string \<Rightarrow> stage \<times> file_system \<Rightarrow> stage \<times> file_system \<Rightarrow> bool"
  for p contents where
  open_ok: "wstep p contents (Opening, fs) (Writing 0, fs_put (tmp_path_for p) [] fs)"
| open_err: "wstep p contents (Opening, fs) (FailedAt ''open'', fs)"
| write_some: "m \<le> n \<Longrightarrow> n \<le> length contents \<Longrightarrow>
    wstep p contents (Writing m, fs) (Writing n, fs_put (tmp_path_for p) (take n contents) fs)"
| write_all: "wstep p contents (Writing (length contents), fs) (Syncing, fs)"
| write_err: "wstep p contents (Writing n, fs) (FailedAt ''write'', fs)"
| sync_ok: "wstep p contents (Syncing, fs) (Renaming, fs_sync (tmp_path_for p) fs)"
| sync_err: "wstep p contents (Syncing, fs) (FailedAt ''fsync'', fs)"
| rename_ok: "wstep p contents (Renaming, fs) (SyncingDir, fs_rename (tmp_path_for p) p fs)"
| rename_err: "wstep p contents (Renaming, fs) (FailedAt ''rename'', fs)"
| sync_dir: "dir_of p \<noteq> None \<Longrightarrow> wstep p contents (SyncingDir, fs) (Finished True, fs_sync_dir p fs)"
| sync_dir_err: "wstep p contents (SyncingDir, fs) (Finished False, fs)"

inductive_cases wstep_Finished: "wstep p contents s (Finished b, fs)"
inductive_simps wstep_from_Finished: "wstep p contents (Finished b, fs) s"

definition reachable :: "path \<Rightarrow> string \<Rightarrow> file_system \<Rightarrow> stage \<times> file_system \<Rightarrow> bool" where
  "reachable p contents fs0 s = (wstep p contents)\<^sup>*\<^sup>* (Opening, fs0) s"

text \<open>
  Before the rename the target is untouched, also on disk; the data is synced before the
  rename, so that from then on a power loss leaves the old contents or the whole new ones.
\<close>

definition installed :: "stage \<Rightarrow> bool" where
  "installed st \<longleftrightarrow> st = SyncingDir \<or> (\<exists>b. st = Finished b)"

definition write_invariant :: "path \<Rightarrow> string \<Rightarrow> file_system \<Rightarrow> stage \<times> file_system \<Rightarrow> bool" where
  "write_invariant p contents fs0 = (\<lambda>(st, fs).
     (\<forall>q. q \<noteq> p \<longrightarrow> q \<noteq> tmp_path_for p \<longrightarrow> fs_view fs q = fs_view fs0 q \<and>
        (\<forall>c. may_remain fs q c \<longrightarrow> may_remain fs0 q c \<or> c = fs_view fs0 q)) \<and>
     fs_view fs p = (if installed st then Some contents else fs_view fs0 p) \<and>
     (installed st \<longrightarrow> fs_synced fs p) \<and>
     (\<forall>c. may_remain fs p c \<longrightarrow> may_remain fs0 p c \<or> installed st \<and> c = Some contents) \<and>
     (st = Finished True \<longrightarrow> (\<forall>c. may_remain fs p c \<longleftrightarrow> c = Some contents)) \<and>
     (\<forall>n. st = Writing n \<longrightarrow> fs_view fs (tmp_path_for p) = Some (take n contents)) \<and>
     (st = Syncing \<or> st = Renaming \<longrightarrow> fs_view fs (tmp_path_for p) = Some contents) \<and>
     (st = Renaming \<longrightarrow> fs_synced fs (tmp_path_for p)))"

lemma installed_simps [simp]:
  "\<not> installed Opening" "\<not> installed (Writing n)" "\<not> installed Syncing" "\<not> installed Renaming"
  "installed SyncingDir" "installed (Finished b)" "\<not> installed (FailedAt e)"
  by (simp_all add: installed_def)

lemma wstep_keeps_invariant:
  "wstep p contents s t \<Longrightarrow> write_invariant p contents fs0 s \<Longrightarrow> write_invariant p contents fs0 t"
  by (induction rule: wstep.induct) (auto simp: write_invariant_def may_remain_rename)

lemma reachable_invariant: "reachable p contents fs0 s \<Longrightarrow> write_invariant p contents fs0 s"
  unfolding reachable_def
  by (induction rule: rtranclp_induct) (auto simp: wstep_keeps_invariant, simp add: write_invariant_def)

text \<open>Some run without a failing call finishes.\<close>

lemma write_can_finish:
  assumes "dir_of p \<noteq> None"
  shows "\<exists>fs. reachable p contents fs0 (Finished True, fs)"
proof -
  let ?w = "wstep p contents" and ?t = "tmp_path_for p"
  let ?f1 = "fs_put ?t [] fs0"
  let ?f2 = "fs_put ?t (take (length contents) contents) ?f1"
  let ?f3 = "fs_rename ?t p (fs_sync ?t ?f2)"
  have "?w (Opening, fs0) (Writing 0, ?f1)" by (rule open_ok)
  moreover have "?w (Writing 0, ?f1) (Writing (length contents), ?f2)" by (rule write_some) simp_all
  moreover have "?w (Writing (length contents), ?f2) (Syncing, ?f2)" by (rule write_all)
  moreover have "?w (Syncing, ?f2) (Renaming, fs_sync ?t ?f2)" by (rule sync_ok)
  moreover have "?w (Renaming, fs_sync ?t ?f2) (SyncingDir, ?f3)" by (rule rename_ok)
  moreover have "?w (SyncingDir, ?f3) (Finished True, fs_sync_dir p ?f3)" by (rule sync_dir [OF assms])
  ultimately have "?w\<^sup>*\<^sup>* (Opening, fs0) (Finished True, fs_sync_dir p ?f3)"
    by (meson converse_rtranclp_into_rtranclp rtranclp.rtrancl_refl)
  then show ?thesis unfolding reachable_def by blast
qed

text \<open>
  C25. At every point of an atomic write the target holds what it held before or the whole new
  contents, and a loss of power at that point leaves under its name something it could have
  left before the write or the whole new contents, never a part.  No file but the temporary
  one is affected.  A write that finished has installed the contents, and once the directory
  is synced no loss of power takes them away.
\<close>
theorem atomic_write_crash_safe:
  assumes "reachable p contents fs0 (st, fs)"
  shows "(fs_view fs p = fs_view fs0 p \<or> fs_view fs p = Some contents) \<and>
    (\<forall>c. may_remain fs p c \<longrightarrow> may_remain fs0 p c \<or> c = Some contents) \<and>
    (\<forall>q c. q \<noteq> p \<longrightarrow> q \<noteq> tmp_path_for p \<longrightarrow> fs_view fs q = fs_view fs0 q \<and>
      (may_remain fs q c \<longrightarrow> may_remain fs0 q c \<or> c = fs_view fs0 q)) \<and>
    (\<forall>b. st = Finished b \<longrightarrow> fs_view fs p = Some contents \<and>
      (b \<longrightarrow> (\<forall>c. may_remain fs p c \<longleftrightarrow> c = Some contents)))"
  using reachable_invariant [OF assms] by (auto simp: write_invariant_def split: if_splits)

lemma atomic_write_crash_safe_witness:
  "\<exists>fs. fs_view fs ''/etc/wg0.conf'' = Some ''new'' \<and> (\<forall>c. may_remain fs ''/etc/wg0.conf'' c \<longleftrightarrow> c = Some ''new'')"
proof -
  have "dir_of ''/etc/wg0.conf'' \<noteq> None" by code_simp
  then obtain fs where "reachable ''/etc/wg0.conf'' ''new'' (on_disk [''/etc/wg0.conf'' \<mapsto> ''old'']) (Finished True, fs)"
    using write_can_finish by blast
  from atomic_write_crash_safe [OF this, THEN conjunct2, THEN conjunct2, THEN conjunct2] show ?thesis by blast
qed

end
