(* ===== verification/Real_Host.thy ===== *)
theory Real_Host
  imports Kernel Atomic_Write Sync_Transaction
begin

text \<open>
  \<open>RealSystemOps\<close> of \<open>wg-client/src/system.rs\<close>: the operations of a sync pass over a file system any
  call of which can fail, reading calls included, and a kernel.  The atomic write is a run of
  the step relation of \<open>Atomic_Write\<close>, and the whole satisfies the contract of a pass, so what a
  pass leaves holds of the real host too.
\<close>

section \<open>The machine\<close>

text \<open>
  The files, the kernel and the number of file calls made so far.  \<open>faults\<close> gives the fate of every
  call by its number: for one that writes the bytes that still got through and the error, for
  one that reads or asks for a file the error.
\<close>

record 'k machine =
  mc_files :: file_system
  mc_kernel :: 'k
  mc_calls :: nat

record faults =
  fl_write :: "nat \<Rightarrow> (nat \<times> string) option"
  fl_read :: "nat \<Rightarrow> string option"

definition file_call ::
  "faults \<Rightarrow> (file_system \<Rightarrow> file_system) \<Rightarrow> (nat \<Rightarrow> file_system \<Rightarrow> file_system) \<Rightarrow> ('k machine, string, unit) io" where
  "file_call flt complete partial m0 =
     (let m = m0\<lparr>mc_calls := Suc (mc_calls m0)\<rparr> in
      case fl_write flt (mc_calls m0) of
        None \<Rightarrow> (Inr (), m\<lparr>mc_files := complete (mc_files m)\<rparr>)
      | Some (n, e) \<Rightarrow> (Inl e, m\<lparr>mc_files := partial n (mc_files m)\<rparr>))"

definition read_call :: "faults \<Rightarrow> ('k machine, string, unit) io" where
  "read_call flt m =
     ((case fl_read flt (mc_calls m) of None \<Rightarrow> Inr () | Some e \<Rightarrow> Inl e), m\<lparr>mc_calls := Suc (mc_calls m)\<rparr>)"

text \<open>An operation of the kernel.\<close>

definition on_kernel :: "('k, 'a) query \<Rightarrow> ('k machine, 'a) query" where
  "on_kernel q m = (case q (mc_kernel m) of (r, k) \<Rightarrow> (r, m\<lparr>mc_kernel := k\<rparr>))"

section \<open>The operations\<close>

text \<open>\<open>std::fs::read(path).ok()\<close> and \<open>path.exists()\<close>: any error reads as absence.\<close>

definition real_read_file :: "faults \<Rightarrow> path \<Rightarrow> ('k machine, string option) query" where
  "real_read_file flt p m =
     (case read_call flt m of (Inl _, m) \<Rightarrow> (None, m) | (Inr _, m) \<Rightarrow> (fs_view (mc_files m) p, m))"

definition real_file_exists :: "faults \<Rightarrow> path \<Rightarrow> ('k machine, bool) query" where
  "real_file_exists flt p m =
     (case read_call flt m of (Inl _, m) \<Rightarrow> (False, m) | (Inr _, m) \<Rightarrow> (fs_view (mc_files m) p \<noteq> None, m))"

text \<open>
  Open the temporary file, write, sync, rename.  The directory is synced if there is one; the
  result is not looked at.
\<close>

definition real_write_file_atomic :: "faults \<Rightarrow> path \<Rightarrow> string \<Rightarrow> ('k machine, string, unit) io" where
  "real_write_file_atomic flt p contents =
     (let tmp = tmp_path_for p; same = (\<lambda>_ fs. fs) in
      io_then (file_call flt (fs_put tmp []) same) (\<lambda>_.
      io_then (file_call flt (fs_put tmp contents) (\<lambda>n. fs_put tmp (take n contents))) (\<lambda>_.
      io_then (file_call flt (fs_sync tmp) same) (\<lambda>_.
      io_then (file_call flt (fs_rename tmp p) same) (\<lambda>_ m.
      (Inr (), if dir_of p = None then m else snd (file_call flt (fs_sync_dir p) same m)))))))"

text \<open>
  \<open>std::fs::copy\<close>: open the source, open and truncate the target, copy.  A copy that is cut short
  leaves the target truncated, and nothing is synced.
\<close>

definition real_copy_file :: "faults \<Rightarrow> path \<Rightarrow> path \<Rightarrow> ('k machine, string, unit) io" where
  "real_copy_file flt f t =
     io_then (read_call flt) (\<lambda>_ m.
     case fs_view (mc_files m) f of
        None \<Rightarrow> (Inl (f @ '' does not exist''), m)
      | Some contents \<Rightarrow>
          io_then (file_call flt (fs_put t []) (\<lambda>_ fs. fs)) (\<lambda>_.
          file_call flt (fs_put t contents) (\<lambda>n. fs_put t (take n contents))) m)"

definition real_interface_exists :: "'k kernel \<Rightarrow> string \<Rightarrow> ('k machine, bool) query" where
  "real_interface_exists k iface =
     on_kernel (\<lambda>s. case k_interface_name k iface of
         Inl _ \<Rightarrow> (False, s)
       | Inr name \<Rightarrow> (case k_list_devices k s of
           (Inr ifaces, s') \<Rightarrow> (name \<in> set ifaces, s')
         | (Inl _, s') \<Rightarrow> (False, s')))"

text \<open>The errors are strings; \<open>says\<close> and \<open>warns\<close> are their texts.\<close>

definition real_apply_interface ::
  "crates \<Rightarrow> 'k kernel \<Rightarrow> faults \<Rightarrow> (host_error \<Rightarrow> string) \<Rightarrow> string \<Rightarrow> path \<Rightarrow> ('k machine, string, unit) io" where
  "real_apply_interface cr k flt says iface conf_path m =
     (case real_read_file flt conf_path m of (contents, m) \<Rightarrow>
        on_kernel (io_map_err says (apply_interface_real cr k iface contents)) m)"

definition real_teardown_interface ::
  "'k kernel \<Rightarrow> (host_error \<Rightarrow> string) \<Rightarrow> string \<Rightarrow> ('k machine, string, unit) io" where
  "real_teardown_interface k says iface = on_kernel (io_map_err says (teardown_interface_blocking k iface))"

definition real_preflight ::
  "crates \<Rightarrow> 'k kernel \<Rightarrow> (preflight_error \<Rightarrow> string) \<Rightarrow> parsed_config \<Rightarrow> string \<Rightarrow> string
    \<Rightarrow> ('k machine, string, unit) io" where
  "real_preflight cr k warns cfg storage_endpoint_host managed_iface =
     on_kernel (io_map_err warns (check cr k cfg storage_endpoint_host managed_iface))"

definition real_sys ::
  "crates \<Rightarrow> 'k kernel \<Rightarrow> faults \<Rightarrow> (host_error \<Rightarrow> string) \<Rightarrow> (preflight_error \<Rightarrow> string) \<Rightarrow> 'k machine system_ops" where
  "real_sys cr k flt says warns = \<lparr>read_file = real_read_file flt, write_file_atomic = real_write_file_atomic flt,
     copy_file = real_copy_file flt, file_exists = real_file_exists flt,
     interface_exists = real_interface_exists k, apply_interface = real_apply_interface cr k flt says,
     teardown_interface = real_teardown_interface k says, preflight = real_preflight cr k warns\<rparr>"

section \<open>The atomic write is a run of its steps\<close>

text \<open>
  What the write returns and leaves is what the step relation reaches: finished if it succeeds,
  stopped at a failed call if not.
\<close>

lemma file_call_cases:
  assumes "file_call flt complete partial m = (r, m')"
  obtains "r = Inr ()" "mc_files m' = complete (mc_files m)" "mc_kernel m' = mc_kernel m"
  | n e where "r = Inl e" "mc_files m' = partial n (mc_files m)" "mc_kernel m' = mc_kernel m"
    "fl_write flt (mc_calls m) = Some (n, e)"
  using assms by (auto simp: file_call_def Let_def split: option.splits)

lemma read_call_same:
  "read_call flt m = (r, m') \<Longrightarrow> mc_files m' = mc_files m \<and> mc_kernel m' = mc_kernel m \<and>
    (\<not> is_ok r \<longrightarrow> (\<exists>n. fl_read flt n \<noteq> None))"
  by (auto simp: read_call_def split: option.splits)

lemma reachable_step: "reachable p b fs0 s \<Longrightarrow> wstep p b s t \<Longrightarrow> reachable p b fs0 t"
  unfolding reachable_def by (rule rtranclp.rtrancl_into_rtrancl)

lemma reachable_start: "reachable p b fs (Opening, fs)"
  by (simp add: reachable_def)

text \<open>The kernel is \<open>k0\<close>, and the files are those the write reaches from \<open>fs0\<close> at this stage.\<close>

definition writing_at :: "'k \<Rightarrow> path \<Rightarrow> string \<Rightarrow> file_system \<Rightarrow> stage \<Rightarrow> 'k machine \<Rightarrow> bool" where
  "writing_at k0 p b fs0 st m \<longleftrightarrow> mc_kernel m = k0 \<and> reachable p b fs0 (st, mc_files m)"

lemma file_call_step:
  assumes "\<And>fs. reachable p b fs0 (st, fs) \<Longrightarrow> reachable p b fs0 (st', complete fs)"
    and "\<And>n fs. reachable p b fs0 (st, fs) \<Longrightarrow> reachable p b fs0 (FailedAt call, partial n fs)"
  shows "triple (writing_at k0 p b fs0 st) (file_call flt complete partial) (\<lambda>_. writing_at k0 p b fs0 st')
    (\<lambda>_ m. \<exists>call. writing_at k0 p b fs0 (FailedAt call) m)"
  by (rule tripleI; elim file_call_cases) (auto simp: writing_at_def intro: assms)

lemma write_call_reachable:
  assumes "reachable p b fs0 (Writing 0, fs)"
  shows "reachable p b fs0 (Syncing, fs_put (tmp_path_for p) b fs)"
    and "reachable p b fs0 (FailedAt ''write'', fs_put (tmp_path_for p) (take n b) fs)"
proof -
  have w: "reachable p b fs0 (Writing (min n (length b)), fs_put (tmp_path_for p) (take (min n (length b)) b) fs)" for n
    by (rule reachable_step [OF assms write_some]) simp_all
  from reachable_step [OF w [of "length b", simplified] write_all]
  show "reachable p b fs0 (Syncing, fs_put (tmp_path_for p) b fs)" .
  from reachable_step [OF w write_err, of n]
  show "reachable p b fs0 (FailedAt ''write'', fs_put (tmp_path_for p) (take n b) fs)"
    by (simp add: min_def split: if_splits)
qed

lemma real_write_triple:
  "triple (writing_at k0 p b fs0 Opening) (real_write_file_atomic flt p b) (\<lambda>_ m. \<exists>d. writing_at k0 p b fs0 (Finished d) m)
    (\<lambda>_ m. \<exists>call. writing_at k0 p b fs0 (FailedAt call) m)"
proof -
  have last: "triple (writing_at k0 p b fs0 SyncingDir)
      (\<lambda>m. (Inr (), if dir_of p = None then m else snd (file_call flt (fs_sync_dir p) (\<lambda>_ fs. fs) m)))
      (\<lambda>_ m. \<exists>d. writing_at k0 p b fs0 (Finished d) m) E" for E :: "string \<Rightarrow> 'a machine \<Rightarrow> bool"
  proof (rule tripleI)
    fix m t :: "'a machine" and x :: unit
    assume w: "writing_at k0 p b fs0 SyncingDir m"
      "(Inr (), if dir_of p = None then m else snd (file_call flt (fs_sync_dir p) (\<lambda>_ fs. fs) m)) = (Inr x, t)"
    show "\<exists>d. writing_at k0 p b fs0 (Finished d) t"
    proof (cases "dir_of p = None")
      case True
      then show ?thesis using w by (auto simp: writing_at_def intro: reachable_step sync_dir_err)
    next
      case False
      obtain r t' where c: "file_call flt (fs_sync_dir p) (\<lambda>_ fs. fs) m = (r, t')" by (rule prod.exhaust)
      with w(2) False have "t = t'" by simp
      from w(1) have at: "mc_kernel m = k0" "reachable p b fs0 (SyncingDir, mc_files m)" by (simp_all add: writing_at_def)
      from c show ?thesis
      proof (cases rule: file_call_cases)
        case 1
        then show ?thesis using reachable_step [OF at(2) sync_dir [OF False]] at(1) \<open>t = t'\<close> by (auto simp: writing_at_def)
      next
        case 2
        then show ?thesis using reachable_step [OF at(2) sync_dir_err] at(1) \<open>t = t'\<close> by (auto simp: writing_at_def)
      qed
    qed
  qed simp
  show ?thesis
    unfolding real_write_file_atomic_def Let_def
    by (rule triple_then file_call_step last write_call_reachable | assumption
      | erule reachable_step [OF _ open_ok] reachable_step [OF _ open_err] reachable_step [OF _ sync_ok]
          reachable_step [OF _ sync_err] reachable_step [OF _ rename_ok] reachable_step [OF _ rename_err])+
qed

lemma real_write_reachable:
  assumes "real_write_file_atomic flt p b m = (r, m')"
  shows "mc_kernel m' = mc_kernel m \<and> (\<exists>st. reachable p b (mc_files m) (st, mc_files m') \<and>
    (if is_ok r then \<exists>d. st = Finished d else \<exists>call. st = FailedAt call))"
proof -
  have "writing_at (mc_kernel m) p b (mc_files m) Opening m" by (simp add: writing_at_def reachable_start)
  from triple_result [OF real_write_triple [where flt = flt] this] assms show ?thesis
    by (cases r) (auto simp: writing_at_def)
qed

section \<open>The real host keeps the contract\<close>

text \<open>
  What the kernel and the \<open>wireguard-control\<close> crate are relied on for: an interface name is its
  text; a listing that succeeds gives the interfaces there are; only configuring a device creates one and
  only deleting it removes it; asking for a device reports \<open>NotFound\<close> only if it is absent.
\<close>

definition names_law :: "'k kernel \<Rightarrow> ('k \<Rightarrow> string set) \<Rightarrow> bool" where
  "names_law k devices \<longleftrightarrow>
     (\<forall>i n. k_interface_name k i = Inr n \<longrightarrow> n = i) \<and>
     (\<forall>s. \<forall>i\<in>devices s. k_interface_name k i = Inr i)"

definition listing_law :: "'k kernel \<Rightarrow> ('k \<Rightarrow> string set) \<Rightarrow> bool" where
  "listing_law k devices \<longleftrightarrow>
     (\<forall>s. case k_list_devices k s of (r, s') \<Rightarrow> devices s' = devices s \<and> (\<forall>l. r = Inr l \<longrightarrow> set l = devices s))"

definition queries_law :: "'k kernel \<Rightarrow> ('k \<Rightarrow> string set) \<Rightarrow> bool" where
  "queries_law k devices \<longleftrightarrow>
     (\<forall>n i q s. devices (snd (k_if_index k n s)) = devices s \<and>
        devices (snd (k_if_name k i s)) = devices s \<and>
        devices (snd (k_rtnl k q s)) = devices s \<and>
        devices (snd (k_lookup k n s)) = devices s \<and>
        devices (snd (k_lookup_ip k n s)) = devices s \<and>
        devices (snd (k_timed_out k s)) = devices s)"

definition changes_law :: "'k kernel \<Rightarrow> ('k \<Rightarrow> string set) \<Rightarrow> bool" where
  "changes_law k devices \<longleftrightarrow>
     (\<forall>n s. case k_get_device k n s of (g, t) \<Rightarrow> devices t = devices s \<and>
        (\<forall>e. g = Inl e \<longrightarrow> io_kind e = NotFound \<longrightarrow> n \<notin> devices s)) \<and>
     (\<forall>n u s. case k_apply_device k n u s of (r, t) \<Rightarrow> r = Inr () \<longrightarrow> devices t = insert n (devices s)) \<and>
     (\<forall>n s. case k_delete_device k n s of (r, t) \<Rightarrow> r = Inr () \<longrightarrow> devices t = devices s - {n})"

definition device_laws :: "'k kernel \<Rightarrow> ('k \<Rightarrow> string set) \<Rightarrow> bool" where
  "device_laws k devices \<longleftrightarrow>
     names_law k devices \<and> listing_law k devices \<and> queries_law k devices \<and> changes_law k devices"

definition real_files :: "path \<Rightarrow> 'k machine \<Rightarrow> path \<Rightarrow> string option" where
  "real_files conf m p = (if p \<in> managed conf then fs_view (mc_files m) p else None)"

definition real_up :: "('k \<Rightarrow> string set) \<Rightarrow> 'k machine \<Rightarrow> string set" where
  "real_up devices m = devices (mc_kernel m)"

lemma tmp_not_managed [simp]: "p \<in> managed conf \<Longrightarrow> tmp_path_for p \<notin> managed conf"
  by (auto simp: managed_def tmp_path_for_def backup_path_for_def state_path_for_def append_suffix_def)

lemma device_lawsD:
  assumes "device_laws k devices"
  shows "k_interface_name k i = Inr n \<Longrightarrow> n = i"
    and "i \<in> devices s \<Longrightarrow> k_interface_name k i = Inr i"
    and "k_list_devices k s = (r, t) \<Longrightarrow> devices t = devices s \<and> (\<forall>l. r = Inr l \<longrightarrow> set l = devices s)"
    and "k_get_device k n s = (g, t) \<Longrightarrow> devices t = devices s \<and>
      (\<forall>e. g = Inl e \<longrightarrow> io_kind e = NotFound \<longrightarrow> n \<notin> devices s)"
    and "k_apply_device k n u s = (Inr (), t) \<Longrightarrow> devices t = insert n (devices s)"
    and "k_delete_device k n s = (Inr (), t) \<Longrightarrow> devices t = devices s - {n}"
proof -
  have laws: "names_law k devices" "listing_law k devices" "changes_law k devices"
    using assms by (simp_all add: device_laws_def)
  show "k_interface_name k i = Inr n \<Longrightarrow> n = i" using laws(1) unfolding names_law_def by blast
  show "i \<in> devices s \<Longrightarrow> k_interface_name k i = Inr i" using laws(1) unfolding names_law_def by blast
  show "k_list_devices k s = (r, t) \<Longrightarrow> devices t = devices s \<and> (\<forall>l. r = Inr l \<longrightarrow> set l = devices s)"
    using laws(2) [unfolded listing_law_def, THEN spec [of _ s]] by simp
  note ch = laws(3) [unfolded changes_law_def]
  show "k_get_device k n s = (g, t) \<Longrightarrow> devices t = devices s \<and>
      (\<forall>e. g = Inl e \<longrightarrow> io_kind e = NotFound \<longrightarrow> n \<notin> devices s)"
    using ch [THEN conjunct1, THEN spec [of _ n], THEN spec [of _ s]] by simp
  show "k_apply_device k n u s = (Inr (), t) \<Longrightarrow> devices t = insert n (devices s)"
    using ch [THEN conjunct2, THEN conjunct1, THEN spec [of _ n], THEN spec [of _ u], THEN spec [of _ s]] by simp
  show "k_delete_device k n s = (Inr (), t) \<Longrightarrow> devices t = devices s - {n}"
    using ch [THEN conjunct2, THEN conjunct2, THEN spec [of _ n], THEN spec [of _ s]] by simp
qed

lemma devices_unchanged:
  assumes "device_laws k devices"
  shows "k_if_index k n s = (x1, t) \<Longrightarrow> devices t = devices s"
    and "k_if_name k i s = (x2, t) \<Longrightarrow> devices t = devices s"
    and "k_rtnl k q s = (x3, t) \<Longrightarrow> devices t = devices s"
    and "k_lookup k n s = (x4, t) \<Longrightarrow> devices t = devices s"
    and "k_lookup_ip k n s = (x5, t) \<Longrightarrow> devices t = devices s"
    and "k_timed_out k s = (x6, t) \<Longrightarrow> devices t = devices s"
proof -
  have "queries_law k devices" using assms by (simp add: device_laws_def)
  note law = this [unfolded queries_law_def, THEN spec [of _ n], THEN spec [of _ i], THEN spec [of _ q], THEN spec [of _ s]]
  show "k_if_index k n s = (x1, t) \<Longrightarrow> devices t = devices s" "k_if_name k i s = (x2, t) \<Longrightarrow> devices t = devices s"
    "k_rtnl k q s = (x3, t) \<Longrightarrow> devices t = devices s" "k_lookup k n s = (x4, t) \<Longrightarrow> devices t = devices s"
    "k_lookup_ip k n s = (x5, t) \<Longrightarrow> devices t = devices s" "k_timed_out k s = (x6, t) \<Longrightarrow> devices t = devices s"
    using law by simp_all
qed

text \<open>Keeping the interfaces, for what the program does with the kernel.\<close>

lemma kept_queries:
  assumes "device_laws k devices"
  shows "keeps (\<lambda>s. P (devices s)) (k_rtnl k q)" "keeps (\<lambda>s. P (devices s)) (k_lookup k h)"
    "keeps (\<lambda>s. P (devices s)) (k_lookup_ip k h)" "keeps (\<lambda>s. P (devices s)) (if_index k n)"
  by (rule keepsI; auto simp: if_index_def dest!: devices_unchanged [OF assms] split: prod.splits if_splits)+

lemma kept_set_addr: "device_laws k devices \<Longrightarrow> keeps (\<lambda>s. P (devices s)) (set_addr k n a l)"
  and kept_set_up: "device_laws k devices \<Longrightarrow> keeps (\<lambda>s. P (devices s)) (set_up k n mtu)"
  and kept_routes: "device_laws k devices \<Longrightarrow> keeps (\<lambda>s. P (devices s)) (list_ipv4_routes k)"
  unfolding set_addr_def set_up_def list_ipv4_routes_def
  by (rule keeps_rules kept_queries | assumption)+

lemma kept_add_route:
  assumes "device_laws k devices"
  shows "keeps (\<lambda>s. P (devices s)) (add_route cr k n net)"
proof -
  have "keeps (\<lambda>s. P (devices s)) (\<lambda>s. case k_rtnl k q s of (Inr _, s') \<Rightarrow> (Inr True, s')
      | (Inl e, s') \<Rightarrow> if io_kind e = AlreadyExists then (Inr False, s') else (Inl e, s'))" for q
    by (auto intro!: keepsI dest!: devices_unchanged [OF assms] split: prod.splits sum.splits if_splits)
  then show ?thesis
    unfolding add_route_def by (rule keeps_then [OF kept_queries(4) [OF assms]])
qed

lemma kept_case_option:
  "(\<And>y. keeps I (\<lambda>s. f y s)) \<Longrightarrow> keeps I g \<Longrightarrow> keeps I (case x of None \<Rightarrow> g | Some y \<Rightarrow> f y)"
  by (cases x) auto

lemma kept_check:
  assumes "device_laws k devices"
  shows "keeps (\<lambda>s. P (devices s)) (check cr k cfg ep iface)"
proof -
  have index: "devices t = devices s" if "interface_index k n s = (r, t)" for n s r t
    using that keepsD [OF kept_queries(4) [OF assms, of "\<lambda>D. D = devices s"], of s]
    by (auto simp: interface_index_def split: sum.splits prod.splits)
  have resolve: "keeps (\<lambda>s. P (devices s)) (resolve_ipv4 k h)" for h
    unfolding resolve_ipv4_def by (rule keeps_rules kept_queries assms)+
  have peer: "keeps (\<lambda>s. P (devices s)) (protect_peer k p acc)" for p acc
    unfolding protect_peer_def by (rule keeps_rules resolve)+
  have overlap: "keeps (\<lambda>s. P (devices s)) (\<lambda>s. case k_if_name k oif s of
      (other, s') \<Rightarrow> (Inl (OverlapsRoute a b other oif), s'))" for a b oif
    by (rule keepsI) (auto dest!: devices_unchanged [OF assms] split: prod.splits)
  have existing: "keeps (\<lambda>s. P (devices s)) (check_existing cr k mi routes e u)" for mi routes e u
    by (cases e, simp only: check_existing_def prod.case) (rule keeps_rules overlap)+
  have folded: "keeps (\<lambda>s. P (devices s)) (\<lambda>s. case interface_index k iface s of
      (mi, s') \<Rightarrow> io_fold (check_existing cr k mi routes) es () s')" for routes es
  proof (rule keepsI)
    fix s r t
    assume I: "P (devices s)" and c: "(case interface_index k iface s of
        (mi, s') \<Rightarrow> io_fold (check_existing cr k mi routes) es () s') = (r, t)"
    obtain mi s' where i: "interface_index k iface s = (mi, s')" by (rule prod.exhaust)
    have fold: "keeps (\<lambda>s. P (devices s)) (io_fold (check_existing cr k mi routes) es ())"
      by (rule keeps_fold) (rule existing)
    have "P (devices s')" "io_fold (check_existing cr k mi routes) es () s' = (r, t)"
      using I i index [OF i] c by simp_all
    then show "P (devices t)" by (rule keepsD [OF fold])
  qed
  have inner: "keeps (\<lambda>s. P (devices s)) (check_inner cr k cfg ep iface)"
    unfolding check_inner_def Let_def
    by (rule keeps_rules resolve peer kept_routes assms folded)+
  show ?thesis
  proof (rule keepsI)
    fix s r t
    assume I: "P (devices s)" and c: "check cr k cfg ep iface s = (r, t)"
    obtain r1 s1 where 1: "check_inner cr k cfg ep iface s = (r1, s1)" by (rule prod.exhaust)
    obtain l s2 where 2: "k_timed_out k s1 = (l, s2)" by (rule prod.exhaust)
    from keepsD [OF inner I 1] devices_unchanged [OF assms] c 1 2 show "P (devices t)" by (simp add: check_def)
  qed
qed

lemma triple_keeps: "keeps I m \<Longrightarrow> triple I m (\<lambda>_. I) (\<lambda>_ _. True)"
  unfolding keeps_def by (erule triple_weaken) simp_all

lemma triple_any: "triple P m (\<lambda>_ _. True) (\<lambda>_ _. True)"
  by (simp add: triple_def split: prod.split sum.split)

lemma applied_device_exists:
  assumes "device_laws k devices"
  shows "triple (\<lambda>_. True) (apply_interface_blocking cr k i cfg endpoints) (\<lambda>_ s. i \<in> devices s) (\<lambda>_ _. True)"
proof -
  let ?I = "\<lambda>s. i \<in> devices s"
  have create: "triple (\<lambda>_. True) (io_map_err g (k_apply_device k n u)) (\<lambda>_. ?I) (\<lambda>_ _. True)"
    if "k_interface_name k i = Inr n" for g n u
  proof (rule triple_map_err, rule tripleI)
    fix s t x assume a: "k_apply_device k n u s = (Inr x, t)"
    then show "i \<in> devices t"
      using device_lawsD(1) [OF assms that] device_lawsD(5) [OF assms, of n u s t] by simp
  qed simp
  have rest: "keeps ?I (io_map_err SettingAddress (set_addr k n a l))"
    "keeps ?I (io_map_err BringingUp (set_up k n mtu))"
    "keeps ?I (io_fold (\<lambda>net _. io_then (io_map_err (AddingRoute net) (add_route cr k n net)) (\<lambda>_. io_return ())) nets ())"
    for n a l mtu nets
    using kept_set_addr [OF assms] kept_set_up [OF assms] kept_add_route [OF assms]
    by (intro keeps_rules; blast)+
  show ?thesis
    unfolding apply_interface_blocking_def
    by (rule triple_then_lift triple_then create rest [THEN triple_keeps] | simp)+
qed

lemma torn_down_gone:
  assumes "device_laws k devices" and "teardown_interface_blocking k i s = (Inr (), t)"
  shows "devices t = devices s - {i}"
proof -
  note law = device_lawsD [OF assms(1)]
  obtain n where n: "k_interface_name k i = Inr n"
    using assms(2) by (auto simp: teardown_interface_blocking_def io_then_Inr)
  then have n: "k_interface_name k i = Inr i" using law(1) by simp
  obtain g s1 where g: "k_get_device k i s = (g, s1)" by (rule prod.exhaust)
  show ?thesis
    using assms(2) n g law(4) [OF g] law(6) [of i s1 t]
    by (cases g) (auto simp: teardown_interface_blocking_def io_then_def io_map_err_def split: prod.splits if_splits)
qed

lemma applied_real_exists:
  assumes "device_laws k devices" and "apply_interface_real cr k i c s = (Inr (), t)"
  shows "i \<in> devices t \<and> (\<exists>b. c = Some b \<and> is_ok (parse_wg_quick cr (from_utf8_lossy b)))"
proof -
  from assms(2) obtain b cfg endpoints s1 where "c = Some b" "parse_wg_quick cr (from_utf8_lossy b) = Inr cfg"
    and a: "apply_interface_blocking cr k i cfg endpoints s1 = (Inr (), t)"
    by (auto simp: apply_interface_real_def io_then_Inr)
  moreover have "i \<in> devices t" using tripleD(1) [OF applied_device_exists [OF assms(1)] _ a] by simp
  ultimately show ?thesis by simp
qed

lemma on_kernel_eq: "on_kernel q m = (r, m') \<longleftrightarrow> (\<exists>k. q (mc_kernel m) = (r, k) \<and> m' = m\<lparr>mc_kernel := k\<rparr>)"
  by (auto simp: on_kernel_def split: prod.splits)

lemma real_files_kernel [simp]: "real_files conf (m\<lparr>mc_kernel := k\<rparr>) = real_files conf m"
  by (simp add: real_files_def fun_eq_iff)

lemma real_files_view: "fs_view (mc_files m') = fs_view (mc_files m) \<Longrightarrow> real_files conf m' = real_files conf m"
  by (simp add: real_files_def fun_eq_iff)

lemma real_read_sound:
  assumes "real_read_file flt p m = (r, m')"
  shows "mc_files m' = mc_files m \<and> mc_kernel m' = mc_kernel m \<and>
    (r = fs_view (mc_files m) p \<or> \<not> (\<forall>n. fl_read flt n = None) \<and> r = None)"
proof -
  obtain q m1 where c: "read_call flt m = (q, m1)" by (rule prod.exhaust)
  from read_call_same [OF c] assms show ?thesis by (cases q) (auto simp: real_read_file_def c)
qed

lemma real_exists_sound:
  assumes "real_file_exists flt p m = (r, m')"
  shows "mc_files m' = mc_files m \<and> mc_kernel m' = mc_kernel m \<and>
    (r = (fs_view (mc_files m) p \<noteq> None) \<or> \<not> (\<forall>n. fl_read flt n = None) \<and> \<not> r)"
proof -
  obtain q m1 where c: "read_call flt m = (q, m1)" by (rule prod.exhaust)
  from read_call_same [OF c] assms show ?thesis by (cases q) (auto simp: real_file_exists_def c)
qed

lemma real_write_ok:
  assumes "real_write_file_atomic flt p b m = (r, m')" and "p \<in> managed conf"
  shows "real_up devices m' = real_up devices m \<and>
    real_files conf m' = (if is_ok r then (real_files conf m)(p \<mapsto> b) else real_files conf m)"
proof -
  from real_write_reachable [OF assms(1)] obtain st where k: "mc_kernel m' = mc_kernel m"
    and st: "reachable p b (mc_files m) (st, mc_files m')"
      "if is_ok r then \<exists>d. st = Finished d else \<exists>call. st = FailedAt call"
    by blast
  note inv = reachable_invariant [OF st(1)]
  have other: "fs_view (mc_files m') q = fs_view (mc_files m) q" if "q \<in> managed conf" "q \<noteq> p" for q
    using inv that tmp_not_managed [OF assms(2)] by (auto simp: write_invariant_def)
  have target: "fs_view (mc_files m') p = (if is_ok r then Some b else fs_view (mc_files m) p)"
    using inv st(2) by (auto simp: write_invariant_def split: if_splits)
  have "fs_view (mc_files m') q = (if q = p \<and> is_ok r then Some b else fs_view (mc_files m) q)" if "q \<in> managed conf" for q
    using other [OF that] target by (cases "q = p") auto
  with k assms(2) show ?thesis by (auto simp: real_up_def real_files_def fun_eq_iff)
qed

text \<open>What a copy does: nothing, the whole, or a part when a writing call fails.\<close>

lemma real_copy_cases:
  assumes "real_copy_file flt f t m = (r, m')"
  obtains (none) e where "r = Inl e" "mc_files m' = mc_files m" "mc_kernel m' = mc_kernel m"
  | (cut) e c n where "r = Inl e" "fs_view (mc_files m) f = Some c" "mc_kernel m' = mc_kernel m"
      "fs_view (mc_files m') = (fs_view (mc_files m))(t \<mapsto> take n c)" "\<exists>i. fl_write flt i \<noteq> None"
  | (all) c where "r = Inr ()" "fs_view (mc_files m) f = Some c" "mc_kernel m' = mc_kernel m"
      "fs_view (mc_files m') = (fs_view (mc_files m))(t \<mapsto> c)"
proof -
  obtain q m0 where 0: "read_call flt m = (q, m0)" by (rule prod.exhaust)
  note same = read_call_same [OF 0]
  show thesis
  proof (cases "is_ok q \<and> fs_view (mc_files m0) f \<noteq> None")
    case False
    then show thesis using assms 0 same none by (cases q) (auto simp: real_copy_file_def io_then_def)
  next
    case True
    then obtain c where c: "fs_view (mc_files m0) f = Some c" "q = Inr ()" by (cases q) auto
    let ?open = "file_call flt (fs_put t []) (\<lambda>_ fs. fs)"
    let ?copy = "file_call flt (fs_put t c) (\<lambda>n. fs_put t (take n c))"
    obtain r1 m1 where 1: "?open m0 = (r1, m1)" by (rule prod.exhaust)
    obtain r2 m2 where 2: "?copy m1 = (r2, m2)" by (rule prod.exhaust)
    show thesis
    proof (cases r1)
      case (Inl e)
      with 1 have "mc_files m1 = mc_files m0" "mc_kernel m1 = mc_kernel m0" by (auto elim: file_call_cases)
      then show thesis using assms c 0 1 Inl same none by (auto simp: real_copy_file_def io_then_def)
    next
      case (Inr u)
      with 1 have m1: "mc_files m1 = fs_put t [] (mc_files m0)" "mc_kernel m1 = mc_kernel m0"
        by (auto elim: file_call_cases)
      have r: "r = r2" "m' = m2" using assms c 0 1 2 Inr by (simp_all add: real_copy_file_def io_then_def)
      from 2 show thesis
      proof (cases rule: file_call_cases)
        case 1
        then show thesis using m1 r c same by (intro all [of c]) auto
      next
        case (2 n e)
        then show thesis using m1 r c same by (intro cut [of e c n]) auto
      qed
    qed
  qed
qed

lemma real_copy_ok:
  assumes "real_copy_file flt f t m = (r, m')" and "f \<in> managed conf" and "t \<in> managed conf"
  shows "real_up devices m' = real_up devices m \<and>
    (if is_ok r then real_files conf m f \<noteq> None \<and> real_files conf m' = (real_files conf m)(t := real_files conf m f)
     else (\<forall>p. p \<noteq> t \<longrightarrow> real_files conf m' p = real_files conf m p))"
  by (rule real_copy_cases [OF assms(1)]) (use assms(2,3) in \<open>auto simp: real_up_def real_files_def fun_eq_iff\<close>)

lemma real_apply_sound:
  assumes "device_laws k devices" and "real_apply_interface cr k flt says i p s = (r, s')"
  shows "mc_files s' = mc_files s \<and>
    (is_ok r \<longrightarrow> i \<in> real_up devices s' \<and>
      (\<exists>b. fs_view (mc_files s) p = Some b \<and> is_ok (parse_wg_quick cr (from_utf8_lossy b))))"
proof -
  obtain c m1 where rd: "real_read_file flt p s = (c, m1)" by (rule prod.exhaust)
  note rd' = real_read_sound [OF rd]
  from assms(2) show ?thesis
    using applied_real_exists [OF assms(1), of cr i c "mc_kernel m1"] rd'
    by (cases r; cases c) (auto simp: real_apply_interface_def rd on_kernel_eq io_map_err_def real_up_def split: prod.splits)
qed

lemma real_contract:
  assumes "device_laws k devices"
  shows "host_contract cr (real_sys cr k flt says warns) (real_files conf) (real_up devices) conf
    (\<forall>n. fl_read flt n = None)"
proof
  note law = device_lawsD [OF assms]
  fix p q b i c h s s'
  show "read_file (real_sys cr k flt says warns) p s = (r, s') \<Longrightarrow> p \<in> managed conf \<Longrightarrow>
      (r = real_files conf s p \<or> \<not> (\<forall>n. fl_read flt n = None) \<and> r = None) \<and>
      real_files conf s' = real_files conf s \<and> real_up devices s' = real_up devices s" for r
    using real_read_sound [of flt p s r s'] by (auto simp: real_sys_def real_files_def real_up_def)
  show "file_exists (real_sys cr k flt says warns) p s = (r, s') \<Longrightarrow> p \<in> managed conf \<Longrightarrow>
      (r = (real_files conf s p \<noteq> None) \<or> \<not> (\<forall>n. fl_read flt n = None) \<and> \<not> r) \<and>
      real_files conf s' = real_files conf s \<and> real_up devices s' = real_up devices s" for r
    using real_exists_sound [of flt p s r s'] by (auto simp: real_sys_def real_files_def real_up_def)
  show "write_file_atomic (real_sys cr k flt says warns) p b s = (r, s') \<Longrightarrow> p \<in> managed conf \<Longrightarrow>
      real_up devices s' = real_up devices s \<and>
      real_files conf s' = (if is_ok r then (real_files conf s)(p \<mapsto> b) else real_files conf s)" for r
    by (simp only: real_sys_def system_ops.simps) (rule real_write_ok)
  show "copy_file (real_sys cr k flt says warns) p q s = (r, s') \<Longrightarrow> p \<in> managed conf \<Longrightarrow> q \<in> managed conf \<Longrightarrow>
      real_up devices s' = real_up devices s \<and>
      (if is_ok r then real_files conf s p \<noteq> None \<and> real_files conf s' = (real_files conf s)(q := real_files conf s p)
       else (\<forall>x. x \<noteq> q \<longrightarrow> real_files conf s' x = real_files conf s x))" for r
    by (simp only: real_sys_def system_ops.simps) (rule real_copy_ok)
  show "interface_exists (real_sys cr k flt says warns) i s = (r, s') \<Longrightarrow>
      (r \<longrightarrow> i \<in> real_up devices s) \<and> real_files conf s' = real_files conf s \<and> real_up devices s' = real_up devices s" for r
    using law(1) [of i] law(3) [of "mc_kernel s"]
    by (fastforce simp: real_sys_def real_interface_exists_def on_kernel_eq real_up_def split: sum.splits prod.splits)
  show "apply_interface (real_sys cr k flt says warns) i p s = (r, s') \<Longrightarrow> p \<in> managed conf \<Longrightarrow>
      real_files conf s' = real_files conf s \<and>
      (is_ok r \<longrightarrow> i \<in> real_up devices s' \<and>
        (\<exists>b. real_files conf s p = Some b \<and> is_ok (parse_wg_quick cr (from_utf8_lossy b))))" for r
    using real_apply_sound [OF assms, of cr flt says i p s r s'] by (auto simp: real_sys_def real_files_def)
  show "teardown_interface (real_sys cr k flt says warns) i s = (r, s') \<Longrightarrow> real_files conf s' = real_files conf s \<and>
      (is_ok r \<longrightarrow> real_up devices s' = real_up devices s - {i})" for r
    using torn_down_gone [OF assms, of i "mc_kernel s"]
    by (cases r) (auto simp: real_sys_def real_teardown_interface_def on_kernel_eq io_map_err_def real_up_def
        split: prod.splits)
  show "preflight (real_sys cr k flt says warns) c h i s = (r, s') \<Longrightarrow>
      real_files conf s' = real_files conf s \<and> real_up devices s' = real_up devices s" for r
    using keepsD [OF keeps_map_err [OF kept_check [OF assms, where P = "\<lambda>D. D = devices (mc_kernel s)"], where g = warns],
        of "mc_kernel s"]
    by (auto simp: real_sys_def real_preflight_def on_kernel_eq real_up_def)
qed

section \<open>Properties\<close>

text \<open>
  C26. What the write of a file leaves on the real host, for every fate of its calls.  Success: the
  file has the new contents, a loss of power leaves the new ones or something it could have
  left before, and only the new ones if the directory could be synced.  Failure: the file is as
  it was, also for a loss of power.  Either way no other file but the temporary one changes, and
  the kernel is not touched.
\<close>
theorem real_write_durable:
  "case real_write_file_atomic flt p b m of (r, m') \<Rightarrow>
    mc_kernel m' = mc_kernel m \<and>
    (\<forall>q. q \<noteq> p \<longrightarrow> q \<noteq> tmp_path_for p \<longrightarrow> fs_view (mc_files m') q = fs_view (mc_files m) q) \<and>
    (if is_ok r
     then fs_view (mc_files m') p = Some b \<and>
       (\<forall>c. may_remain (mc_files m') p c \<longrightarrow> c = Some b \<or> may_remain (mc_files m) p c) \<and>
       (dir_of p \<noteq> None \<and> fl_write flt (mc_calls m + 4) = None \<longrightarrow>
          (\<forall>c. may_remain (mc_files m') p c \<longleftrightarrow> c = Some b))
     else fs_view (mc_files m') p = fs_view (mc_files m) p \<and>
       (\<forall>c. may_remain (mc_files m') p c \<longleftrightarrow> may_remain (mc_files m) p c))"
  by (auto simp: real_write_file_atomic_def Let_def io_then_def file_call_def may_remain_rename eval_nat_numeral
      split: prod.splits option.splits sum.splits)


text \<open>
  A backup is not durable: after a copy that succeeded, a loss of power can leave anything under
  the name of the backup, also nothing of what was copied.
\<close>

lemma backup_not_synced:
  "real_copy_file flt conf (backup_path_for conf) m = (Inr (), m') \<Longrightarrow> may_remain (mc_files m') (backup_path_for conf) c"
  by (auto simp: real_copy_file_def io_then_def read_call_def file_call_def Let_def split: option.splits prod.splits)

text \<open>A file whose state cannot be asked for is not backed up: the installation goes on as if it were the first.\<close>

lemma unreadable_file_not_backed_up:
  assumes "fl_read flt (mc_calls m) = Some e"
  shows "real_file_exists flt conf m = (False, m\<lparr>mc_calls := Suc (mc_calls m)\<rparr>)"
  by (simp add: real_file_exists_def read_call_def assms)

text \<open>A pending mark that cannot be read is forgotten: the pass starts from a state without one.\<close>

lemma unreadable_state_forgotten:
  assumes "fl_read flt (mc_calls m) = Some e"
  shows "fst (load_state js (real_sys cr k flt says warns) p m) = local_state_default"
  by (simp add: load_state_def real_sys_def real_read_file_def read_call_def assms)

text \<open>A kernel whose state is the list of its interfaces.\<close>

definition plain_kernel :: "string list kernel" where
  "plain_kernel = \<lparr>k_interface_name = Inr, k_key = (\<lambda>_. Some []),
     k_if_index = (\<lambda>n s. (if n \<in> set s then 1 else 0, s)), k_if_name = (\<lambda>_ s. (None, s)),
     k_rtnl = (\<lambda>_ s. (Inr [], s)), k_apply_device = (\<lambda>n _ s. (Inr (), n # s)),
     k_get_device = (\<lambda>n s. (if n \<in> set s then Inr () else Inl \<lparr>io_kind = NotFound, io_text = []\<rparr>, s)),
     k_delete_device = (\<lambda>n s. (Inr (), filter (\<lambda>m. m \<noteq> n) s)),
     k_lookup = (\<lambda>_ s. (Inr [(V4 1, 51820)], s)), k_lookup_ip = (\<lambda>_ s. (Inr [V4 1], s)),
     k_list_devices = (\<lambda>s. (Inr s, s)), k_timed_out = (\<lambda>s. (False, s))\<rparr>"

lemma plain_kernel_laws: "device_laws plain_kernel set"
  by (auto simp: device_laws_def names_law_def listing_law_def queries_law_def changes_law_def plain_kernel_def)

end
