(* ===== verification/Discover_Valid.thy ===== *)
theory Discover_Valid
  imports Sync Io_Logic
begin

text \<open>
  What discovery accepts, on any bucket: \<open>reading\<close> records every object read and the answer, so
  the theorem speaks about what the bucket really sent, whatever else happened to it.
\<close>

type_synonym read_log = "(string \<times> (string + string option)) list"

definition reading :: "'s read_storage \<Rightarrow> ('s \<times> read_log) read_storage" where
  "reading st key = (\<lambda>(s, log). case st key s of (r, s') \<Rightarrow> (r, (s', log @ [(key, r)])))"

text \<open>The last two reads were a valid pointer and the file it lists for this node.\<close>

definition verified :: "crates \<Rightarrow> client_serde \<Rightarrow> string \<Rightarrow> string \<times> string \<times> string \<Rightarrow> read_log \<Rightarrow> bool" where
  "verified cr js hostname = (\<lambda>(gid, digest, bytes) answers.
     \<exists>earlier ptr doc e. answers = earlier @
         [(''current.json'', Inr (Some ptr)), (client_key hostname gid, Inr (Some bytes))] \<and>
       discovery_parse (cs_current js) (from_utf8_lossy ptr) = Inr doc \<and> discovery_ok doc \<and>
       cur doc = Some e \<and> ge_id e = gid \<and> bt_get (ge_nodes e) hostname = Some digest \<and>
       client_digest_of cr bytes = digest)"

lemma verified_append: "verified cr js h x answers \<Longrightarrow> verified cr js h x (pre @ answers)"
  unfolding verified_def by (cases x) (force simp: append_assoc [symmetric] simp del: append_assoc)

lemma triple_reading:
  "triple (\<lambda>w. snd w = L) (io_map_err StorageFailed (reading st k))
    (\<lambda>x w. snd w = L @ [(k, Inr x)]) (\<lambda>e w. e \<noteq> RoundsExhausted \<and> (\<exists>r. snd w = L @ [(k, r)]))"
  by (fastforce simp: triple_def reading_def io_map_err_def map_err_def split: prod.splits sum.splits)

text \<open>The reads of the rounds left, as a post-condition for a result and for an error.\<close>

definition rounds_result ::
  "crates \<Rightarrow> client_serde \<Rightarrow> string \<Rightarrow> nat \<Rightarrow> read_log \<Rightarrow> string \<times> string \<times> string \<Rightarrow> 's \<times> read_log \<Rightarrow> bool" where
  "rounds_result cr js h n L x w \<longleftrightarrow> (\<exists>answers. snd w = L @ answers \<and> length answers \<le> 2 * n \<and> verified cr js h x answers)"

definition rounds_error :: "nat \<Rightarrow> read_log \<Rightarrow> sync_error \<Rightarrow> 's \<times> read_log \<Rightarrow> bool" where
  "rounds_error n L e w \<longleftrightarrow> (\<exists>answers. snd w = L @ answers \<and>
     (if e = RoundsExhausted then length answers = 2 * n else length answers \<le> 2 * n))"

lemma rounds_step:
  "rounds_result cr js h n (L @ [a, b]) x w \<Longrightarrow> rounds_result cr js h (Suc n) L x w"
  "rounds_error n (L @ [a, b]) e w \<Longrightarrow> rounds_error (Suc n) L e w"
proof -
  show "rounds_result cr js h n (L @ [a, b]) x w \<Longrightarrow> rounds_result cr js h (Suc n) L x w"
    unfolding rounds_result_def using verified_append [of cr js h x _ "[a, b]"] by fastforce
  show "rounds_error n (L @ [a, b]) e w \<Longrightarrow> rounds_error (Suc n) L e w"
    unfolding rounds_error_def by (fastforce split: if_splits)
qed

lemma discover_rounds_triple:
  "triple (\<lambda>w. snd w = L) (discover_rounds cr js (reading st) h n)
    (rounds_result cr js h n L) (rounds_error n L)"
proof (induction n arbitrary: L)
  case 0
  then show ?case by (auto simp: triple_def rounds_error_def)
next
  case (Suc n)
  have err: "triple (\<lambda>w. snd w = L') (io_map_err StorageFailed (reading st k))
      (\<lambda>x w. snd w = L' @ [(k, Inr x)]) (rounds_error (Suc n) L)" if "L' = L \<or> (\<exists>a. L' = L @ [a])" for L' k
    by (rule triple_weaken [OF triple_reading]) (use that in \<open>auto simp: rounds_error_def\<close>)
  have e1: "rounds_error (Suc n) L e w" if "snd w = L @ [a]" "e \<noteq> RoundsExhausted" for e a w
    using that by (auto simp: rounds_error_def)
  have e2: "rounds_error (Suc n) L e w" if "snd w = L @ [a, b]" "e \<noteq> RoundsExhausted" for e a b w
    using that by (auto simp: rounds_error_def)
  have again: "triple (\<lambda>w. snd w = (L @ [a]) @ [b]) (discover_rounds cr js (reading st) h n)
      (rounds_result cr js h (Suc n) L) (rounds_error (Suc n) L)" for a b
    by (rule triple_weaken [OF Suc.IH [of "L @ [a, b]"]]) (auto intro: rounds_step)
  show ?case
    unfolding discover_rounds.simps
    apply (rule triple_then [OF err], simp)
    apply (rule triple_then_lift, force intro: e1 simp: ok_or_def split: option.splits)
    apply (rule triple_then_lift, force intro: e1 simp: map_err_def split: sum.splits)
    apply (rule triple_then_lift, force intro: e1 simp: map_err_def split: sum.splits)
    apply (rule triple_then_lift, force intro: e1 simp: ok_or_def split: option.splits)
    apply (rule triple_then_lift, force intro: e1 simp: ok_or_def split: option.splits)
    apply (rule triple_then [OF err], simp)
    subgoal for r ptr doc u g d r2
      apply (cases r2)
       apply (use again in simp)
      apply (auto intro!: triple_return triple_throw intro: e2 simp: rounds_result_def verified_def discovery_validate_iff)
      done
    done
qed

text \<open>
  C17. Discovery on any bucket, whatever it answers: it reads at most two objects per round; what
  it returns is the answer of its last read, which is the file that the pointer read just
  before, valid and well formed, lists for this node with a digest, and the file has that
  digest; and the rounds are exhausted only after all of them were used.
\<close>
theorem discover_verified:
  "case discover_and_download cr js (reading st) hostname (b, log) of (r, b', log') \<Rightarrow>
    \<exists>answers. log' = log @ answers \<and>
      (case r of
         Inr x \<Rightarrow> length answers \<le> 2 * MAX_DISCOVERY_ROUNDS \<and> verified cr js hostname x answers
       | Inl e \<Rightarrow> if e = RoundsExhausted then length answers = 2 * MAX_DISCOVERY_ROUNDS
           else length answers \<le> 2 * MAX_DISCOVERY_ROUNDS)"
  using triple_result [OF discover_rounds_triple [of log cr js st hostname MAX_DISCOVERY_ROUNDS], of "(b, log)"]
  by (auto simp: discover_and_download_def rounds_result_def rounds_error_def split: prod.splits sum.splits)

end
