(* ===== verification/Kernel_Valid.thy ===== *)
theory Kernel_Valid
  imports Kernel Io_Logic
begin

text \<open>
  What the client asks of the kernel, for every kernel: \<open>watched\<close> records each request and its
  answer.  The preflight only looks, and what it lets pass neither captures a protected
  address nor overlaps a foreign route; configuring an interface carries out a fixed plan.
\<close>

section \<open>Recording the requests\<close>

datatype kernel_event =
    LookedUp string "string + ip_addr list"
  | LookedUpEndpoint string "string + (ip_addr \<times> 16 word) list"
  | Indexed string "32 word"
  | Requested rtnl_request "io_error + rtnl_response list"
  | AppliedDevice string device_update "string + unit"
  | GotDevice string "io_error + unit"
  | DeletedDevice string "string + unit"

definition watched :: "'k kernel \<Rightarrow> ('k \<times> kernel_event list) kernel" where
  "watched k = \<lparr>
     k_interface_name = k_interface_name k,
     k_key = k_key k,
     k_if_index = (\<lambda>n (s, log). case k_if_index k n s of (i, s') \<Rightarrow> (i, (s', log @ [Indexed n i]))),
     k_if_name = (\<lambda>i. record_query (k_if_name k i)),
     k_rtnl = (\<lambda>q. record_call (Requested q) (k_rtnl k q)),
     k_apply_device = (\<lambda>n d. record_call (AppliedDevice n d) (k_apply_device k n d)),
     k_get_device = (\<lambda>n. record_call (GotDevice n) (k_get_device k n)),
     k_delete_device = (\<lambda>n. record_call (DeletedDevice n) (k_delete_device k n)),
     k_lookup = (\<lambda>h. record_call (LookedUpEndpoint h) (k_lookup k h)),
     k_lookup_ip = (\<lambda>h. record_call (LookedUp h) (k_lookup_ip k h)),
     k_list_devices = record_query (k_list_devices k),
     k_timed_out = record_query (k_timed_out k)\<rparr>"

lemma watched_sel [simp]:
  "k_interface_name (watched k) = k_interface_name k"
  "k_key (watched k) = k_key k"
  "k_if_name (watched k) i = record_query (k_if_name k i)"
  "k_rtnl (watched k) q = record_call (Requested q) (k_rtnl k q)"
  "k_apply_device (watched k) n d = record_call (AppliedDevice n d) (k_apply_device k n d)"
  "k_get_device (watched k) n = record_call (GotDevice n) (k_get_device k n)"
  "k_delete_device (watched k) n = record_call (DeletedDevice n) (k_delete_device k n)"
  "k_lookup (watched k) h = record_call (LookedUpEndpoint h) (k_lookup k h)"
  "k_lookup_ip (watched k) h = record_call (LookedUp h) (k_lookup_ip k h)"
  "k_timed_out (watched k) = record_query (k_timed_out k)"
  by (simp_all add: watched_def)

lemma watched_if_index:
  "k_if_index (watched k) n w = (i, w') \<Longrightarrow> snd w' = snd w @ [Indexed n i]"
  by (auto simp: watched_def split: prod.splits)

text \<open>Only these requests change anything.\<close>

definition changes :: "kernel_event \<Rightarrow> bool" where
  "changes ev = (case ev of
     Requested q _ \<Rightarrow> q \<noteq> GetRoute | AppliedDevice _ _ _ \<Rightarrow> True | DeletedDevice _ _ \<Rightarrow> True | _ \<Rightarrow> False)"

section \<open>The preflight\<close>

definition looking :: "kernel_event list \<Rightarrow> kernel_event \<Rightarrow> bool" where
  "looking evs ev \<longleftrightarrow> \<not> changes ev"

definition candidates :: "parsed_config \<Rightarrow> ipv4net list" where
  "candidates cfg = concat (map pp_allowed_ips (pc_peers cfg))"

text \<open>No candidate route contains an IPv4 address the resolver gave for the host.\<close>

definition uncaptured :: "crates \<Rightarrow> parsed_config \<Rightarrow> string \<Rightarrow> kernel_event list \<Rightarrow> bool" where
  "uncaptured cr cfg host evs \<longleftrightarrow>
     (\<exists>addrs. LookedUp host (Inr addrs) \<in> set evs \<and>
       (\<forall>a. V4 a \<in> set addrs \<longrightarrow> list_all (\<lambda>route. \<not> net_contains cr route a) (candidates cfg)))"

text \<open>No candidate route overlaps a route of the dump, default routes and this interface's own ones apart.\<close>

definition managed :: "'k kernel \<Rightarrow> string \<Rightarrow> 32 word option \<Rightarrow> kernel_event list \<Rightarrow> bool" where
  "managed k iface idx evs \<longleftrightarrow>
     (idx = None \<or> (\<exists>name i. k_interface_name k iface = Inr name \<and> i \<noteq> 0 \<and> idx = Some i \<and> Indexed name i \<in> set evs))"

definition apart :: "crates \<Rightarrow> 32 word option \<Rightarrow> parsed_config \<Rightarrow> ipv4net \<times> 32 word \<Rightarrow> bool" where
  "apart cr idx cfg = (\<lambda>(net, oif). net_prefix_len net = 0 \<or> idx = Some oif \<or>
     list_all (\<lambda>route. \<not> nets_overlap cr route net) (candidates cfg))"

definition foreign_routes_clear :: "crates \<Rightarrow> 'k kernel \<Rightarrow> string \<Rightarrow> parsed_config \<Rightarrow> kernel_event list \<Rightarrow> bool" where
  "foreign_routes_clear cr k iface cfg evs \<longleftrightarrow>
     (\<exists>responses idx. Requested GetRoute (Inr responses) \<in> set evs \<and> managed k iface idx evs \<and>
       list_all (apart cr idx cfg) (List.map_filter route_of_response responses))"

definition preflight_ok :: "crates \<Rightarrow> 'k kernel \<Rightarrow> string \<Rightarrow> string \<Rightarrow> parsed_config \<Rightarrow> kernel_event list \<Rightarrow> bool" where
  "preflight_ok cr k iface ep cfg evs \<longleftrightarrow>
     uncaptured cr cfg ep evs \<and>
     (\<forall>peer\<in>set (pc_peers cfg). \<forall>host. Option.bind (pp_endpoint peer) host_part = Some host \<longrightarrow> uncaptured cr cfg host evs) \<and>
     (\<forall>d. pi_dns (pc_interface cfg) = Some (V4 d) \<longrightarrow> list_all (\<lambda>route. \<not> net_contains cr route d) (candidates cfg)) \<and>
     foreign_routes_clear cr k iface cfg evs"

lemma triple_query:
  "yields P q R \<Longrightarrow> (\<And>x. triple (R x) (m x) Q E) \<Longrightarrow> triple P (\<lambda>s. case q s of (x, t) \<Rightarrow> m x t) Q E"
  by (fastforce simp: yields_def triple_def split: prod.splits)

text \<open>The resolver's IPv4 addresses for the host are among the protected ones.\<close>

definition protects :: "(32 word \<times> protected_role) list \<Rightarrow> string \<Rightarrow> kernel_event list \<Rightarrow> bool" where
  "protects protected host evs \<longleftrightarrow>
     (\<exists>addrs. LookedUp host (Inr addrs) \<in> set evs \<and> (\<forall>a. V4 a \<in> set addrs \<longrightarrow> a \<in> fst ` set protected))"

definition protects_peers :: "(32 word \<times> protected_role) list \<Rightarrow> parsed_peer list \<Rightarrow> kernel_event list \<Rightarrow> bool" where
  "protects_peers protected peers evs \<longleftrightarrow>
     (\<forall>peer\<in>set peers. \<forall>host. Option.bind (pp_endpoint peer) host_part = Some host \<longrightarrow> protects protected host evs)"

lemma lasting_protects [intro]: "lasting (protects p h)" "lasting (protects_peers p peers)"
  by (auto simp: lasting_def protects_def protects_peers_def) blast

lemma protects_mono:
  "protects p h evs \<Longrightarrow> protects (p @ q) h evs" "protects_peers p peers evs \<Longrightarrow> protects_peers (p @ q) peers evs"
  "protects q h evs \<Longrightarrow> protects (p @ q) h evs"
  by (auto simp: protects_def protects_peers_def) blast+

lemma protects_subset: "protects q h evs \<Longrightarrow> fst ` set q \<subseteq> fst ` set p \<Longrightarrow> protects p h evs"
  unfolding protects_def by (meson subsetD)

lemma set_only_v4: "set (List.map_filter (\<lambda>a. case a of V4 v4 \<Rightarrow> Some v4 | V6 _ \<Rightarrow> None) xs) = {a. V4 a \<in> set xs}"
  by (induction xs) (auto simp: List.map_filter_simps split: ip_addr.splits)

lemma resolve_ipv4_trace:
  assumes "lasting R"
  shows "triple (traced looking log R) (resolve_ipv4 (watched k) host)
    (\<lambda>ips. traced looking log (\<lambda>evs. R evs \<and> (\<forall>role. protects (map (\<lambda>ip. (ip, role)) ips) host evs)))
    (\<lambda>_. traced looking log (\<lambda>_. True))"
proof -
  have "triple (traced looking log R) (io_map_err Resolving (k_lookup_ip (watched k) host))
      (\<lambda>addrs. traced looking log (\<lambda>evs. R evs \<and> LookedUp host (Inr addrs) \<in> set evs))
      (\<lambda>_. traced looking log (\<lambda>_. True))"
    unfolding watched_sel by (rule triple_map_err, rule triple_weaken [OF triple_traced [OF assms]])
      (auto simp: looking_def changes_def elim: traced_True)
  then show ?thesis
    unfolding resolve_ipv4_def
    by (rule triple_then, intro triple_return)
      (auto elim!: traced_weaken simp: protects_def image_iff set_only_v4)
qed

lemma protect_peer_trace:
  assumes "lasting R"
  shows "triple (traced looking log (\<lambda>evs. R evs \<and> S \<subseteq> fst ` set protected \<and> protects_peers protected ys evs))
    (protect_peer (watched k) peer protected)
    (\<lambda>p. traced looking log (\<lambda>evs. R evs \<and> S \<subseteq> fst ` set p \<and> protects_peers p (ys @ [peer]) evs))
    (\<lambda>_. traced looking log (\<lambda>_. True))"
proof (cases "Option.bind (pp_endpoint peer) host_part")
  case None
  then show ?thesis
    by (auto simp: protect_peer_def protects_peers_def simp del: io_simps intro!: triple_return elim!: traced_weaken)
next
  case (Some host)
  let ?R = "\<lambda>evs. R evs \<and> S \<subseteq> fst ` set protected \<and> protects_peers protected ys evs"
  have l: "lasting ?R" using assms by (intro lasting_intros lasting_protects)
  show ?thesis
    unfolding protect_peer_def Some option.case
    by (rule triple_then [OF resolve_ipv4_trace [OF l]], intro triple_return)
      (auto elim!: traced_weaken simp: protects_peers_def Some intro: protects_mono)
qed

lemma protect_peers_trace:
  assumes "lasting R"
  shows "triple (traced looking log R) (io_fold (protect_peer (watched k)) peers protected)
    (\<lambda>p. traced looking log (\<lambda>evs. R evs \<and> fst ` set protected \<subseteq> fst ` set p \<and> protects_peers p peers evs))
    (\<lambda>_. traced looking log (\<lambda>_. True))"
proof (rule triple_weaken [OF triple_fold [where I = "\<lambda>ys p. traced looking log
      (\<lambda>evs. R evs \<and> fst ` set protected \<subseteq> fst ` set p \<and> protects_peers p ys evs)"]])
  fix ys x b
  show "triple (traced looking log (\<lambda>evs. R evs \<and> fst ` set protected \<subseteq> fst ` set b \<and> protects_peers b ys evs))
      (protect_peer (watched k) x b)
      (\<lambda>p. traced looking log (\<lambda>evs. R evs \<and> fst ` set protected \<subseteq> fst ` set p \<and> protects_peers p (ys @ [x]) evs))
      (\<lambda>_. traced looking log (\<lambda>_. True))"
    by (rule protect_peer_trace [OF assms])
qed (auto elim!: traced_weaken simp: protects_peers_def)

lemma interface_index_trace:
  assumes "lasting R"
  shows "yields (traced looking log R) (interface_index (watched k) iface)
    (\<lambda>idx. traced looking log (\<lambda>evs. R evs \<and> managed k iface idx evs))"
proof (rule yieldsI)
  fix w idx w'
  assume w: "traced looking log R w" and i: "interface_index (watched k) iface w = (idx, w')"
  show "traced looking log (\<lambda>evs. R evs \<and> managed k iface idx evs) w'"
  proof (cases "k_interface_name k iface")
    case (Inl e)
    then show ?thesis using w i by (auto simp: interface_index_def managed_def)
  next
    case (Inr name)
    obtain x w1 where x: "k_if_index (watched k) name w = (x, w1)" by (rule prod.exhaust)
    then have "w' = w1" "idx = (if x = 0 then None else Some x)"
      using i by (auto simp: interface_index_def if_index_def Inr split: if_splits)
    with traced_snoc [OF w watched_if_index [OF x] assms] show ?thesis
      by (auto simp: looking_def changes_def managed_def Inr elim!: traced_weaken)
  qed
qed

lemma check_existing_trace:
  assumes "lasting R"
  shows "triple (traced looking log (\<lambda>evs. R evs \<and> list_all (apart cr idx cfg) ys))
    (check_existing cr (watched k) idx (candidates cfg) x u)
    (\<lambda>_. traced looking log (\<lambda>evs. R evs \<and> list_all (apart cr idx cfg) (ys @ [x])))
    (\<lambda>_. traced looking log (\<lambda>_. True))"
proof -
  obtain net oif where x: "x = (net, oif)" by fastforce
  have err: "triple P (\<lambda>s. case record_query q s of (other, s') \<Rightarrow> (Inl (f other), s')) Q
      (\<lambda>_. traced looking log (\<lambda>_. True))" if "\<And>s. P s \<Longrightarrow> traced looking log (\<lambda>_. True) s" for P Q q f
    using that by (auto simp: triple_def traced_def dest: record_query_snd split: prod.splits)
  show ?thesis
    unfolding check_existing_def x prod.case watched_sel
    by (intro triple_if triple_return triple_case_option err)
      (auto elim!: traced_weaken simp: apart_def find_None_iff list_all_iff)
qed

lemma check_captures_Inr:
  "check_captures cr protected route = Inr () \<longleftrightarrow> (\<forall>a\<in>fst ` set protected. \<not> net_contains cr route a)"
  by (auto simp: check_captures_def for_each_Inr_iff)

lemma protects_uncaptured:
  assumes "protects protected host evs"
    and "for_each (check_captures cr protected) (candidates cfg) = Inr ()"
  shows "uncaptured cr cfg host evs"
proof -
  have "list_all (\<lambda>route. \<not> net_contains cr route a) (candidates cfg)" if "a \<in> fst ` set protected" for a
    using assms(2) that by (auto simp: for_each_Inr_iff check_captures_Inr list_all_iff)
  with assms(1) show ?thesis unfolding protects_def uncaptured_def by blast
qed

lemma list_routes_trace:
  assumes "lasting R"
  shows "triple (traced looking log R) (io_map_err ListingRoutes (list_ipv4_routes (watched k)))
    (\<lambda>routes. traced looking log (\<lambda>evs. R evs \<and> (\<exists>responses. Requested GetRoute (Inr responses) \<in> set evs \<and>
      routes = List.map_filter route_of_response responses)))
    (\<lambda>_. traced looking log (\<lambda>_. True))"
proof -
  have "triple (traced looking log R) (k_rtnl (watched k) GetRoute)
      (\<lambda>rs. traced looking log (\<lambda>evs. R evs \<and> Requested GetRoute (Inr rs) \<in> set evs))
      (\<lambda>_. traced looking log (\<lambda>_. True))"
    unfolding watched_sel by (rule triple_weaken [OF triple_traced [OF assms]])
      (auto simp: looking_def changes_def elim: traced_True)
  then show ?thesis
    unfolding list_ipv4_routes_def
    by (intro triple_map_err) (rule triple_then, assumption, intro triple_return, auto elim!: traced_weaken)
qed

lemma existing_routes_trace:
  assumes "lasting R"
  shows "triple (traced looking log R) (io_fold (check_existing cr (watched k) idx (candidates cfg)) routes ())
    (\<lambda>_. traced looking log (\<lambda>evs. R evs \<and> list_all (apart cr idx cfg) routes))
    (\<lambda>_. traced looking log (\<lambda>_. True))"
proof (rule triple_weaken [OF triple_fold [where I = "\<lambda>ys _. traced looking log
      (\<lambda>evs. R evs \<and> list_all (apart cr idx cfg) ys)"]])
  fix ys x and u :: unit
  show "triple (traced looking log (\<lambda>evs. R evs \<and> list_all (apart cr idx cfg) ys))
      (check_existing cr (watched k) idx (candidates cfg) x u)
      (\<lambda>_. traced looking log (\<lambda>evs. R evs \<and> list_all (apart cr idx cfg) (ys @ [x])))
      (\<lambda>_. traced looking log (\<lambda>_. True))"
    by (rule check_existing_trace [OF assms])
qed auto

lemma foreign_routes_trace:
  assumes "lasting R"
  shows "triple (traced looking log R)
    (io_then (io_map_err ListingRoutes (list_ipv4_routes (watched k))) (\<lambda>existing_routes s.
       case interface_index (watched k) iface s of
         (idx, s') \<Rightarrow> io_fold (check_existing cr (watched k) idx (candidates cfg)) existing_routes () s'))
    (\<lambda>_. traced looking log (\<lambda>evs. R evs \<and> foreign_routes_clear cr k iface cfg evs))
    (\<lambda>_. traced looking log (\<lambda>_. True))"
proof (rule triple_then [OF list_routes_trace [OF assms]], rule triple_query [OF interface_index_trace])
  fix routes idx
  let ?R = "\<lambda>evs. R evs \<and> (\<exists>responses. Requested GetRoute (Inr responses) \<in> set evs \<and>
      routes = List.map_filter route_of_response responses)"
  show r: "lasting ?R" using assms by (intro lasting_intros)
  have "lasting (managed k iface idx)" by (auto simp: lasting_def managed_def)
  with r have "lasting (\<lambda>evs. ?R evs \<and> managed k iface idx evs)" by (rule lasting_intros(3))
  from existing_routes_trace [OF this] show "triple (traced looking log (\<lambda>evs. ?R evs \<and> managed k iface idx evs))
      (io_fold (check_existing cr (watched k) idx (candidates cfg)) routes ())
      (\<lambda>_. traced looking log (\<lambda>evs. R evs \<and> foreign_routes_clear cr k iface cfg evs))
      (\<lambda>_. traced looking log (\<lambda>_. True))"
    by (rule triple_weaken) (auto simp: foreign_routes_clear_def elim!: traced_weaken)
qed

lemma preflight_okI:
  assumes ips: "\<forall>role. protects (map (\<lambda>ip. (ip, role)) ips) ep evs"
    and dns: "dns = (case pi_dns (pc_interface cfg) of Some (V4 dns) \<Rightarrow> [(dns, DnsResolver)] | _ \<Rightarrow> [])"
    and p: "fst ` set (map (\<lambda>ip. (ip, StorageEndpoint)) ips @ dns) \<subseteq> fst ` set p"
    and peers: "protects_peers p (pc_peers cfg) evs"
    and c: "for_each (check_captures cr p) (candidates cfg) = Inr ()"
    and clear: "foreign_routes_clear cr k iface cfg evs"
  shows "preflight_ok cr k iface ep cfg evs"
proof -
  have "protects (map (\<lambda>ip. (ip, StorageEndpoint)) ips @ dns) ep evs" using ips by (intro protects_mono(1)) blast
  then have "protects p ep evs" using p by (rule protects_subset)
  moreover have "list_all (\<lambda>route. \<not> net_contains cr route d) (candidates cfg)"
    if "pi_dns (pc_interface cfg) = Some (V4 d)" for d
  proof -
    have "d \<in> fst ` set p" using p that by (simp add: dns)
    with c show ?thesis by (auto simp: for_each_Inr_iff check_captures_Inr list_all_iff)
  qed
  ultimately show ?thesis
    using peers clear protects_uncaptured [OF _ c] unfolding preflight_ok_def protects_peers_def by blast
qed

lemma check_inner_trace:
  "triple (traced looking log (\<lambda>_. True)) (check_inner cr (watched k) cfg ep iface)
    (\<lambda>_. traced looking log (preflight_ok cr k iface ep cfg)) (\<lambda>_. traced looking log (\<lambda>_. True))"
proof -
  define dns where "dns = (case pi_dns (pc_interface cfg) of Some (V4 dns) \<Rightarrow> [(dns, DnsResolver)] | _ \<Rightarrow> [])"
  have rest: "triple (traced looking log (\<lambda>evs. True \<and> (\<forall>role. protects (map (\<lambda>ip. (ip, role)) ips) ep evs)))
      (io_then (io_fold (protect_peer (watched k)) (pc_peers cfg) (map (\<lambda>ip. (ip, StorageEndpoint)) ips @ dns))
        (\<lambda>protected. io_then (io_lift (for_each (check_captures cr protected) (candidates cfg))) (\<lambda>_.
          io_then (io_map_err ListingRoutes (list_ipv4_routes (watched k))) (\<lambda>existing_routes s.
            case interface_index (watched k) iface s of
              (idx, s') \<Rightarrow> io_fold (check_existing cr (watched k) idx (candidates cfg)) existing_routes () s'))))
      (\<lambda>_. traced looking log (preflight_ok cr k iface ep cfg)) (\<lambda>_. traced looking log (\<lambda>_. True))" for ips
  proof -
    let ?p0 = "map (\<lambda>ip. (ip, StorageEndpoint)) ips @ dns"
    have l0: "lasting (\<lambda>evs. True \<and> (\<forall>role. protects (map (\<lambda>ip. (ip, role)) ips) ep evs))"
      using lasting_protects(1) by (auto simp: lasting_def)
    show ?thesis
    proof (rule triple_then [OF protect_peers_trace [OF l0]], rule triple_then_lift)
      fix p and u :: unit
      let ?R = "\<lambda>evs. (True \<and> (\<forall>role. protects (map (\<lambda>ip. (ip, role)) ips) ep evs)) \<and>
        fst ` set ?p0 \<subseteq> fst ` set p \<and> protects_peers p (pc_peers cfg) evs"
      assume "for_each (check_captures cr p) (candidates cfg) = Inr u"
      then have c: "for_each (check_captures cr p) (candidates cfg) = Inr ()" by simp
      have l: "lasting ?R"
        by (rule lasting_intros(3) [OF l0 lasting_intros(3)]) (intro lasting_intros lasting_protects)+
      have "preflight_ok cr k iface ep cfg evs" if "?R evs" "foreign_routes_clear cr k iface cfg evs" for evs
        using that c by (intro preflight_okI [of ips ep evs dns cfg p]) (auto simp: dns_def)
      then show "triple (traced looking log ?R)
        (io_then (io_map_err ListingRoutes (list_ipv4_routes (watched k))) (\<lambda>existing_routes s.
          case interface_index (watched k) iface s of
            (idx, s') \<Rightarrow> io_fold (check_existing cr (watched k) idx (candidates cfg)) existing_routes () s'))
        (\<lambda>_. traced looking log (preflight_ok cr k iface ep cfg)) (\<lambda>_. traced looking log (\<lambda>_. True))"
        by (intro triple_weaken [OF foreign_routes_trace [OF l]]) (auto elim!: traced_weaken)
    qed (erule traced_True)
  qed
  show ?thesis
    unfolding check_inner_def Let_def dns_def [symmetric] candidates_def [symmetric]
    by (rule triple_then [OF resolve_ipv4_trace rest]) (rule lasting_intros)
qed

text \<open>
  C16. The route preflight on any kernel, whatever it answers: it only looks addresses, routes and
  indices up and changes nothing; and when it lets a configuration pass, no candidate route
  contains an address the resolver gave for the storage endpoint or for any peer's endpoint,
  nor the configured IPv4 resolver, and none overlaps a non-default route of the dump that
  belongs to another interface.
\<close>
theorem preflight_protects:
  "case check cr (watched k) cfg ep iface (s, log) of (r, s', log') \<Rightarrow>
    \<exists>evs. log' = log @ evs \<and> each_after looking evs \<and>
      (case r of Inl e \<Rightarrow> True | Inr _ \<Rightarrow> preflight_ok cr k iface ep cfg evs)"
proof -
  obtain r s' log' where c: "check_inner cr (watched k) cfg ep iface (s, log) = (r, s', log')" by (rule prod_cases3)
  have "\<exists>evs. log' = log @ evs \<and> each_after looking evs \<and>
      (case r of Inl e \<Rightarrow> True | Inr _ \<Rightarrow> preflight_ok cr k iface ep cfg evs)"
    using triple_result [OF check_inner_trace [of log cr k cfg ep iface], of "(s, log)"] c
    by (auto simp: traced_def split: sum.splits)
  then show ?thesis by (auto simp: check_def c record_query_def split: prod.splits)
qed

section \<open>Configuring an interface\<close>

text \<open>The plan: the device with its peers, the address, the link, a route for every allowed network.\<close>

datatype plan_step =
    Configure string device_update
  | Assign string "32 word"
  | BringUp string "16 word"
  | AddRoute string ipv4net

definition interface_plan ::
  "crates \<Rightarrow> 'k kernel \<Rightarrow> string \<Rightarrow> parsed_config \<Rightarrow> (ip_addr \<times> 16 word) option list \<Rightarrow> host_error + plan_step list" where
  "interface_plan cr k iface cfg endpoints =
     and_then (map_err BadInterfaceName (k_interface_name k iface)) (\<lambda>name.
     and_then (ok_or BadPrivateKey (k_key k (pi_private_key (pc_interface cfg)))) (\<lambda>private_key.
     and_then (map_res (peer_update_of cr k) (zip (pc_peers cfg) endpoints)) (\<lambda>peers.
     Inr (Configure name \<lparr>du_private_key = private_key, du_listen_port = pi_listen_port (pc_interface cfg),
            du_replace_peers = True, du_peers = peers\<rparr>
       # Assign name (pi_address (pc_interface cfg))
       # BringUp name (case pi_mtu (pc_interface cfg) of Some m \<Rightarrow> m | None \<Rightarrow> 1420)
       # map (AddRoute name) (candidates cfg)))))"

text \<open>
  The requests of a step.  All but the first kind ask for the index of the interface and then
  send one message with it.  \<open>answered b\<close>: the events of a step that was done (\<open>b\<close>) or failed,
  because there is no such interface or the request was refused; a route that exists already
  counts as done.
\<close>

definition route_request :: "crates \<Rightarrow> ipv4net \<Rightarrow> 32 word \<Rightarrow> rtnl_request" where
  "route_request cr net index = NewRoute \<lparr>rm_inet = True, rm_main_table = True, rm_unicast = True,
     rm_destination_prefix_length = net_prefix_len net,
     rm_attributes = [Destination (net_network cr net), Oif index]\<rparr>"

definition indexed :: "string \<Rightarrow> (32 word \<Rightarrow> rtnl_request) \<Rightarrow> (io_error \<Rightarrow> bool) \<Rightarrow> bool \<Rightarrow> kernel_event list \<Rightarrow> bool" where
  "indexed name request harmless b evs \<longleftrightarrow>
     \<not> b \<and> evs = [Indexed name 0] \<or>
     (\<exists>i r. i \<noteq> 0 \<and> evs = [Indexed name i, Requested (request i) r] \<and>
        b = (case r of Inr _ \<Rightarrow> True | Inl e \<Rightarrow> harmless e))"

definition answered :: "crates \<Rightarrow> bool \<Rightarrow> plan_step \<Rightarrow> kernel_event list \<Rightarrow> bool" where
  "answered cr b st evs = (case st of
     Configure name d \<Rightarrow> (\<exists>r. evs = [AppliedDevice name d r] \<and> b = is_ok r)
   | Assign name a \<Rightarrow> indexed name (\<lambda>i. NewAddress i a 32) (\<lambda>_. False) b evs
   | BringUp name mtu \<Rightarrow> indexed name (\<lambda>i. SetLinkUp i (ucast mtu)) (\<lambda>_. False) b evs
   | AddRoute name net \<Rightarrow> indexed name (route_request cr net) (\<lambda>e. io_kind e = AlreadyExists) b evs)"

text \<open>All steps done, in order and with nothing else between them; or all before one that failed, and nothing after it.\<close>

definition carried_out :: "crates \<Rightarrow> plan_step list \<Rightarrow> kernel_event list \<Rightarrow> bool" where
  "carried_out cr plan evs \<longleftrightarrow> (\<exists>ess. list_all2 (answered cr True) plan ess \<and> evs = concat ess)"

definition stopped_in :: "crates \<Rightarrow> plan_step list \<Rightarrow> kernel_event list \<Rightarrow> bool" where
  "stopped_in cr plan evs \<longleftrightarrow> (\<exists>pre st rest before evs1. plan = pre @ st # rest \<and> evs = before @ evs1 \<and>
     carried_out cr pre before \<and> answered cr False st evs1)"

definition ran :: "crates \<Rightarrow> kernel_event list \<Rightarrow> plan_step list \<Rightarrow> 'k \<times> kernel_event list \<Rightarrow> bool" where
  "ran cr log plan w \<longleftrightarrow> (\<exists>evs. snd w = log @ evs \<and> carried_out cr plan evs)"

definition stopped :: "crates \<Rightarrow> kernel_event list \<Rightarrow> plan_step list \<Rightarrow> 'k \<times> kernel_event list \<Rightarrow> bool" where
  "stopped cr log plan w \<longleftrightarrow> (\<exists>evs. snd w = log @ evs \<and> stopped_in cr plan evs)"

lemma carried_out_Nil: "carried_out cr [] evs \<longleftrightarrow> evs = []"
  by (simp add: carried_out_def)

lemma carried_out_snoc: "carried_out cr pre evs \<Longrightarrow> answered cr True st evs1 \<Longrightarrow> carried_out cr (pre @ [st]) (evs @ evs1)"
  unfolding carried_out_def by (elim exE conjE) (rule_tac x = "ess @ [evs1]" in exI, simp add: list_all2_appendI)

text \<open>An operation that performs one step, whatever the kernel answers.\<close>

definition performs :: "crates \<Rightarrow> plan_step \<Rightarrow> ('k \<times> kernel_event list, 'e, 'a) io \<Rightarrow> bool" where
  "performs cr st m \<longleftrightarrow> (\<forall>w r w'. m w = (r, w') \<longrightarrow> (\<exists>evs. snd w' = snd w @ evs \<and> answered cr (is_ok r) st evs))"

lemma performsI:
  "(\<And>w r w'. m w = (r, w') \<Longrightarrow> \<exists>evs. snd w' = snd w @ evs \<and> answered cr (is_ok r) st evs) \<Longrightarrow> performs cr st m"
  unfolding performs_def by blast

lemma performsD:
  "performs cr st m \<Longrightarrow> m w = (r, w') \<Longrightarrow> \<exists>evs. snd w' = snd w @ evs \<and> answered cr (is_ok r) st evs"
  unfolding performs_def by blast

lemma performs_step:
  assumes "performs cr st m"
  shows "triple (ran cr log pre) m (\<lambda>_. ran cr log (pre @ [st])) (\<lambda>_. stopped cr log (pre @ st # rest))"
proof (rule tripleI)
  fix w x w' assume w: "ran cr log pre w" and m: "m w = (Inr x, w')"
  from performsD [OF assms m] obtain evs where "snd w' = snd w @ evs" "answered cr True st evs" by auto
  with w show "ran cr log (pre @ [st]) w'" unfolding ran_def by (auto intro: carried_out_snoc)
next
  fix w e w' assume w: "ran cr log pre w" and m: "m w = (Inl e, w')"
  from performsD [OF assms m] obtain evs where e: "snd w' = snd w @ evs" "answered cr False st evs" by auto
  from w obtain evs0 where "snd w = log @ evs0" "carried_out cr pre evs0" unfolding ran_def by blast
  with e have "snd w' = log @ evs0 @ evs" "stopped_in cr (pre @ st # rest) (evs0 @ evs)"
    unfolding stopped_in_def by (simp, blast)
  then show "stopped cr log (pre @ st # rest) w'" unfolding stopped_def by blast
qed

lemma performs_map_err:
  assumes "performs cr st m"
  shows "performs cr st (io_map_err g m)"
proof (rule performsI)
  fix w r w' assume r: "io_map_err g m w = (r, w')"
  obtain q t where q: "m w = (q, t)" by (rule prod.exhaust)
  with r have "t = w'" "is_ok r = is_ok q" by (cases q; auto simp: io_map_err_def)+
  with performsD [OF assms q] show "\<exists>evs. snd w' = snd w @ evs \<and> answered cr (is_ok r) st evs" by simp
qed

lemma performs_then_unit:
  assumes "performs cr st m"
  shows "performs cr st (io_then m (\<lambda>_. io_return x))"
proof (rule performsI)
  fix w r w' assume r: "io_then m (\<lambda>_. io_return x) w = (r, w')"
  obtain q t where q: "m w = (q, t)" by (rule prod.exhaust)
  with r have "t = w'" "is_ok r = is_ok q" by (cases q; auto simp: io_then_def)+
  with performsD [OF assms q] show "\<exists>evs. snd w' = snd w @ evs \<and> answered cr (is_ok r) st evs" by simp
qed

lemma performs_device: "performs cr (Configure name d) (k_apply_device (watched k) name d)"
  unfolding watched_sel by (rule performsI, drule record_call_snd) (simp add: answered_def)

text \<open>One message to an interface found by its name.\<close>

lemma performs_indexed:
  assumes "\<And>i w r w'. m i w = (r, w') \<Longrightarrow> \<exists>a. snd w' = snd w @ [Requested (request i) a] \<and>
      is_ok r = (case a of Inr _ \<Rightarrow> True | Inl e \<Rightarrow> harmless e)"
    and "\<And>b evs. answered cr b st evs \<longleftrightarrow> indexed name request harmless b evs"
  shows "performs cr st (io_then (if_index (watched k) name) m)"
  unfolding performs_def assms(2)
proof (intro allI impI)
  fix w r w'
  assume e: "io_then (if_index (watched k) name) m w = (r, w')"
  obtain i w1 where i: "k_if_index (watched k) name w = (i, w1)" by (rule prod.exhaust)
  note w1 = watched_if_index [OF i]
  show "\<exists>evs. snd w' = snd w @ evs \<and> indexed name request harmless (is_ok r) evs"
  proof (cases "i = 0")
    case True
    with e i w1 have "snd w' = snd w @ [Indexed name 0]" "\<not> is_ok r" by (auto simp: if_index_def io_then_def)
    then show ?thesis by (auto simp: indexed_def)
  next
    case False
    with e i have "m i w1 = (r, w')" by (simp add: if_index_def io_then_def)
    from assms(1) [OF this] w1 False show ?thesis by (auto simp: indexed_def)
  qed
qed

lemma performs_set_addr: "performs cr (Assign name a) (set_addr (watched k) name a 32)"
  unfolding set_addr_def watched_sel
  by (rule performs_indexed [where request = "\<lambda>i. NewAddress i a 32" and harmless = "\<lambda>_. False"])
    (auto simp: answered_def io_then_def dest!: record_call_snd split: prod.splits sum.splits)

lemma performs_set_up: "performs cr (BringUp name mtu) (set_up (watched k) name (ucast mtu))"
  unfolding set_up_def watched_sel
  by (rule performs_indexed [where request = "\<lambda>i. SetLinkUp i (ucast mtu)" and harmless = "\<lambda>_. False"])
    (auto simp: answered_def io_then_def dest!: record_call_snd split: prod.splits sum.splits)

lemma performs_add_route: "performs cr (AddRoute name net) (add_route cr (watched k) name net)"
  unfolding add_route_def watched_sel route_request_def [symmetric]
  by (rule performs_indexed [where request = "route_request cr net" and harmless = "\<lambda>e. io_kind e = AlreadyExists"])
    (auto simp: answered_def dest!: record_call_snd split: prod.splits sum.splits if_splits)

lemma add_routes_step:
  "triple (ran cr log pre)
    (io_fold (\<lambda>net _. io_then (io_map_err (AddingRoute net) (add_route cr (watched k) name net)) (\<lambda>_. io_return ())) nets ())
    (\<lambda>_. ran cr log (pre @ map (AddRoute name) nets)) (\<lambda>_. stopped cr log (pre @ map (AddRoute name) nets))"
proof (rule triple_weaken [OF triple_fold [where I = "\<lambda>done_nets _. ran cr log (pre @ map (AddRoute name) done_nets)"]])
  fix xs net and u :: unit
  assume "\<exists>zs. nets = xs @ net # zs"
  then obtain zs where zs: "nets = xs @ net # zs" by blast
  show "triple (ran cr log (pre @ map (AddRoute name) xs))
      (io_then (io_map_err (AddingRoute net) (add_route cr (watched k) name net)) (\<lambda>_. io_return ()))
      (\<lambda>_. ran cr log (pre @ map (AddRoute name) (xs @ [net]))) (\<lambda>_. stopped cr log (pre @ map (AddRoute name) nets))"
    using performs_step [OF performs_then_unit [OF performs_map_err [OF performs_add_route]],
        of cr log "pre @ map (AddRoute name) xs" "AddingRoute net" k name net "()" "map (AddRoute name) zs"]
    by (simp add: zs)
qed auto

lemma apply_interface_trace:
  "case interface_plan cr k iface cfg endpoints of
     Inl e \<Rightarrow> apply_interface_blocking cr (watched k) iface cfg endpoints w = (Inl e, w)
   | Inr plan \<Rightarrow> triple (ran cr log []) (apply_interface_blocking cr (watched k) iface cfg endpoints)
       (\<lambda>_. ran cr log plan) (\<lambda>_. stopped cr log plan)"
proof (cases "interface_plan cr k iface cfg endpoints")
  case (Inl e)
  have keys: "map_res (peer_update_of cr (watched k)) ps = map_res (peer_update_of cr k) ps" for ps
    by (simp add: peer_update_of_def)
  have "apply_interface_blocking cr (watched k) iface cfg endpoints = (\<lambda>w. (Inl e, w))"
    using Inl unfolding interface_plan_def apply_interface_blocking_def keys watched_sel fun_eq_iff
    by (cases "k_interface_name k iface"; cases "k_key k (pi_private_key (pc_interface cfg))";
        cases "map_res (peer_update_of cr k) (zip (pc_peers cfg) endpoints)") simp_all
  with Inl show ?thesis by simp
next
  case (Inr plan)
  then obtain name private_key peers where p: "k_interface_name k iface = Inr name"
    "k_key k (pi_private_key (pc_interface cfg)) = Some private_key"
    "map_res (peer_update_of cr k) (zip (pc_peers cfg) endpoints) = Inr peers"
    by (auto simp: interface_plan_def and_then_Inr_iff)
  let ?mtu = "case pi_mtu (pc_interface cfg) of Some m \<Rightarrow> m | None \<Rightarrow> (1420 :: 16 word)"
  let ?d = "\<lparr>du_private_key = private_key, du_listen_port = pi_listen_port (pc_interface cfg),
            du_replace_peers = True, du_peers = peers\<rparr>"
  let ?a = "pi_address (pc_interface cfg)" and ?routes = "map (AddRoute name) (candidates cfg)"
  have plan: "plan = [] @ Configure name ?d # [Assign name ?a, BringUp name ?mtu] @ ?routes"
    "plan = [Configure name ?d] @ Assign name ?a # [BringUp name ?mtu] @ ?routes"
    "plan = [Configure name ?d, Assign name ?a] @ BringUp name ?mtu # ?routes"
    "plan = [Configure name ?d, Assign name ?a, BringUp name ?mtu] @ ?routes"
    using Inr p by (simp_all add: interface_plan_def)
  note steps = performs_step [OF performs_map_err [OF performs_device]] performs_step [OF performs_map_err [OF performs_set_addr]]
    performs_step [OF performs_map_err [OF performs_set_up]]
  have start: "apply_interface_blocking cr (watched k) iface cfg endpoints =
      io_then (io_map_err DeviceConfig (k_apply_device (watched k) name ?d)) (\<lambda>_.
      io_then (io_map_err SettingAddress (set_addr (watched k) name ?a 32)) (\<lambda>_.
      io_then (io_map_err BringingUp (set_up (watched k) name (ucast ?mtu))) (\<lambda>_.
      io_fold (\<lambda>net _. io_then (io_map_err (AddingRoute net) (add_route cr (watched k) name net)) (\<lambda>_. io_return ()))
        (candidates cfg) ())))"
    using p by (simp add: apply_interface_blocking_def fun_eq_iff candidates_def io_then_def peer_update_of_def)
  have "triple (ran cr log []) (apply_interface_blocking cr (watched k) iface cfg endpoints)
      (\<lambda>_. ran cr log plan) (\<lambda>_. stopped cr log plan)"
    unfolding start
  proof (intro triple_then)
    show "triple (ran cr log []) (io_map_err DeviceConfig (k_apply_device (watched k) name ?d))
        (\<lambda>_. ran cr log [Configure name ?d]) (\<lambda>_. stopped cr log plan)"
      using steps(1) [where pre = "[]"] unfolding plan(1) by simp
    show "triple (ran cr log [Configure name ?d]) (io_map_err SettingAddress (set_addr (watched k) name ?a 32))
        (\<lambda>_. ran cr log [Configure name ?d, Assign name ?a]) (\<lambda>_. stopped cr log plan)"
      using steps(2) [where pre = "[Configure name ?d]"] unfolding plan(2) by simp
    show "triple (ran cr log [Configure name ?d, Assign name ?a])
        (io_map_err BringingUp (set_up (watched k) name (ucast ?mtu)))
        (\<lambda>_. ran cr log [Configure name ?d, Assign name ?a, BringUp name ?mtu]) (\<lambda>_. stopped cr log plan)"
      using steps(3) [where pre = "[Configure name ?d, Assign name ?a]"] unfolding plan(3) by simp
    show "triple (ran cr log [Configure name ?d, Assign name ?a, BringUp name ?mtu])
        (io_fold (\<lambda>net _. io_then (io_map_err (AddingRoute net) (add_route cr (watched k) name net)) (\<lambda>_. io_return ()))
          (candidates cfg) ()) (\<lambda>_. ran cr log plan) (\<lambda>_. stopped cr log plan)"
      unfolding plan(4) by (rule add_routes_step)
  qed
  with Inr show ?thesis by simp
qed

text \<open>
  C18. Configuring an interface on any kernel carries out one fixed plan: first the device with the
  private key, the listen port and the full peer set, replacing the peers there were, then
  the address, the link with its MTU, and a route for every allowed network in order, each for
  the index the kernel gives for the interface's name just before.  An unusable name or key
  fails before anything is asked.  The run succeeds exactly if every step did, where a route
  that exists already counts as done; otherwise it stops at the first step that failed, and
  nothing is asked of the kernel after it.
\<close>
theorem interface_follows_plan:
  "case apply_interface_blocking cr (watched k) iface cfg endpoints (s, log) of (r, s', log') \<Rightarrow>
    \<exists>evs. log' = log @ evs \<and>
      (case interface_plan cr k iface cfg endpoints of
         Inl e \<Rightarrow> r = Inl e \<and> evs = []
       | Inr plan \<Rightarrow> if is_ok r then carried_out cr plan evs else stopped_in cr plan evs)"
proof -
  have start: "ran cr log [] (s, log)" by (simp add: ran_def carried_out_Nil)
  obtain r s' log' where r: "apply_interface_blocking cr (watched k) iface cfg endpoints (s, log) = (r, s', log')"
    by (rule prod_cases3)
  note t = apply_interface_trace [where k = k and iface = iface and cfg = cfg and endpoints = endpoints
      and cr = cr and log = log and w = "(s, log)"]
  show ?thesis
  proof (cases "interface_plan cr k iface cfg endpoints")
    case (Inl e)
    with t r show ?thesis by simp
  next
    case (Inr plan)
    with triple_result [OF t [unfolded Inr sum.case] start] r show ?thesis
      by (cases r) (auto simp: ran_def stopped_def)
  qed
qed

end
