(* ===== verification/Client_Config.thy ===== *)
theory Client_Config
  imports Topology
begin

text \<open>
  \<open>wg-client/src/config.rs\<close>: the client's configuration and the interface name it derives from
  \<open>conf_path\<close>, with the part of \<open>std::path\<close> that uses: the last normal component of a path and
  its stem and extension.
\<close>

record r2_read_config =
  rr_endpoint :: string
  rr_access_key_id :: string
  rr_secret_access_key :: string
  rr_session_token :: "string option"
  rr_region :: string
  rr_bucket :: string

record client_config =
  cc_r2_config :: r2_read_config
  cc_conf_path :: string

datatype config_error =
    DuplicateJsonKey strict_json_error
  | InvalidJson string
  | InvalidConfPath string string
  | InvalidR2Endpoint string string
  | InvalidR2Credentials string

definition client_config_parse ::
  "crates \<Rightarrow> (string \<Rightarrow> string + client_config) \<Rightarrow> string \<Rightarrow> config_error + client_config" where
  "client_config_parse cr from_str s =
     and_then (map_err DuplicateJsonKey (check_no_duplicate_keys s)) (\<lambda>_.
     and_then (map_err InvalidJson (from_str s)) (\<lambda>cfg.
     let r2 = cc_r2_config cfg in
     and_then (map_err (InvalidR2Endpoint (rr_endpoint r2)) (validate_r2_endpoint cr (rr_endpoint r2))) (\<lambda>_.
     and_then (map_err InvalidR2Credentials (validate_r2_credentials (rr_access_key_id r2)
         (rr_secret_access_key r2) (rr_session_token r2))) (\<lambda>_.
     Inr cfg))))"

section \<open>Paths\<close>

definition is_absolute :: "string \<Rightarrow> bool" where
  "is_absolute p = starts_with ''/'' p"

text \<open>The components after the root: empty ones and \<open>.\<close> are dropped.\<close>

definition components :: "string \<Rightarrow> string list" where
  "components p = filter (\<lambda>c. c \<noteq> [] \<and> c \<noteq> ''.'') (split CHR ''/'' p)"

definition file_name :: "string \<Rightarrow> string option" where
  "file_name p =
     (let cs = components p in
      if cs = [] \<or> last cs = ''..'' then None else Some (last cs))"

text \<open>The file name cut at its last dot, unless that is its first character.\<close>

definition split_at_dot :: "string \<Rightarrow> string \<times> string option" where
  "split_at_dot f =
     (case rsplit_once CHR ''.'' f of
        None \<Rightarrow> (f, None)
      | Some (before, after) \<Rightarrow> if before = [] then (f, None) else (before, Some after))"

definition file_stem :: "string \<Rightarrow> string option" where
  "file_stem p = map_option (\<lambda>f. fst (split_at_dot f)) (file_name p)"

definition extension :: "string \<Rightarrow> string option" where
  "extension p = Option.bind (file_name p) (\<lambda>f. snd (split_at_dot f))"

definition iface_char :: "char \<Rightarrow> bool" where
  "iface_char b \<longleftrightarrow> is_ascii_alphanumeric b \<or> b \<in> set ''_=+.-''"

definition interface_name :: "string \<Rightarrow> config_error + string" where
  "interface_name conf_path =
     guard_err (\<not> is_absolute conf_path) (InvalidConfPath conf_path ''must be an absolute path'') (
     and_then (ok_or (InvalidConfPath conf_path ''no filename'') (file_stem conf_path)) (\<lambda>stem.
     guard_err (extension conf_path \<noteq> Some ''conf'')
       (InvalidConfPath conf_path ''filename must end in .conf'') (
     guard_err (stem = ''.'' \<or> stem = ''..'')
       (InvalidConfPath conf_path ''interface name must not be . or ..'') (
     let valid_len = (stem \<noteq> [] \<and> length stem \<le> 15);
         valid_chars = list_all iface_char stem in
     guard_err (\<not> valid_len \<or> \<not> valid_chars)
       (InvalidConfPath conf_path ''interface name must be 1-15 characters from [a-zA-Z0-9_=+.-]'') (
     Inr stem)))))"

text \<open>The documented shape of an interface name.\<close>

definition iface_ok :: "string \<Rightarrow> bool" where
  "iface_ok s \<longleftrightarrow> 1 \<le> length s \<and> length s \<le> 15 \<and> list_all iface_char s \<and> s \<noteq> ''.'' \<and> s \<noteq> ''..''"

lemma split_at_dot_Some: "split_at_dot f = (stem, Some ext) \<Longrightarrow> f = stem @ ''.'' @ ext"
  by (auto simp: split_at_dot_def split: option.splits if_splits)
    (auto simp: rsplit_once_Some)

lemma file_name_conf:
  assumes "file_stem p = Some stem" and "extension p = Some ext"
  shows "file_name p = Some (stem @ ''.'' @ ext)"
proof -
  obtain f where f: "file_name p = Some f" "fst (split_at_dot f) = stem" "snd (split_at_dot f) = Some ext"
    using assms by (auto simp: file_stem_def extension_def bind_eq_Some_conv)
  then have "split_at_dot f = (stem, Some ext)" by (simp add: prod_eq_iff)
  from split_at_dot_Some [OF this] f(1) show ?thesis by simp
qed

lemma interface_name_Inr:
  "interface_name p = Inr s \<longleftrightarrow>
    is_absolute p \<and> file_stem p = Some s \<and> extension p = Some ''conf'' \<and> iface_ok s"
  by (cases s) (auto simp: interface_name_def and_then_Inr_iff iface_ok_def Let_def)

lemma split_at_dot_conf: "stem \<noteq> [] \<Longrightarrow> split_at_dot (stem @ ''.conf'') = (stem, Some ''conf'')"
  using rsplit_once_Some [of "CHR ''.''" "stem @ ''.conf''" stem "''conf''"] by (simp add: split_at_dot_def)

text \<open>
  The interface name of \<open>conf_path\<close> is \<open>s\<close> exactly if the path is absolute, its last
  component is \<open>s\<close> followed by \<open>.conf\<close>, and \<open>s\<close> has 1 to 15 characters of the allowed class
  and is neither \<open>.\<close> nor \<open>..\<close>.
\<close>
theorem interface_name_exact:
  "interface_name p = Inr s \<longleftrightarrow>
    is_absolute p \<and> file_name p = Some (s @ ''.conf'') \<and> iface_ok s"
proof
  assume "interface_name p = Inr s"
  then show "is_absolute p \<and> file_name p = Some (s @ ''.conf'') \<and> iface_ok s"
    using file_name_conf [of p s "''conf''"] by (simp add: interface_name_Inr)
next
  assume r: "is_absolute p \<and> file_name p = Some (s @ ''.conf'') \<and> iface_ok s"
  moreover from r have "s \<noteq> []" by (auto simp: iface_ok_def)
  ultimately show "interface_name p = Inr s"
    by (simp add: interface_name_Inr file_stem_def extension_def split_at_dot_conf)
qed

end
