(* ===== verification/Client_Main.thy ===== *)
theory Client_Main
  imports Client_Config Sync
begin

text \<open>
  \<open>wg-client/src/main.rs\<close>: durations, hostname resolution, and one pass from the configuration
  file to \<open>run_once\<close>.  What the process reads from its surroundings (files, environment, lock)
  is the record \<open>surroundings\<close>.
\<close>

text \<open>
  \<open>n * mult\<close> is unchecked \<open>u64\<close> multiplication, which wraps in the release build.
\<close>

datatype duration_error = InvalidDuration string | NotPositive

definition split_unit :: "string \<Rightarrow> string \<times> 64 word" where
  "split_unit s =
     (case strip_suffix ''s'' s of Some n \<Rightarrow> (n, 1)
      | None \<Rightarrow> (case strip_suffix ''m'' s of Some n \<Rightarrow> (n, 60)
      | None \<Rightarrow> (case strip_suffix ''h'' s of Some n \<Rightarrow> (n, 3600)
      | None \<Rightarrow> (s, 1))))"

definition parse_duration :: "string \<Rightarrow> duration_error + 64 word" where
  "parse_duration s0 =
     (let s = trim s0; (num_str, mult) = split_unit s in
      and_then (ok_or (InvalidDuration s) (parse_u64 num_str)) (\<lambda>n.
      guard_err (n = 0) NotPositive (
      Inr (n * mult))))"

text \<open>\<open>interval.as_millis() as u64\<close>, and the offset taken from the clock's nanoseconds.\<close>

definition fastrand_jitter_ms :: "64 word \<Rightarrow> 64 word \<Rightarrow> 64 word" where
  "fastrand_jitter_ms interval_secs nanos =
     (let max_jitter_ms = max (of_nat (unat interval_secs * 1000) div 10) 1
      in nanos mod max_jitter_ms)"

datatype hostname_resolution_error =
    EmptyFlag
  | EmptyVariable
  | NoSystemHostname string
  | InvalidResolved string hostname_error

definition resolve_hostname ::
  "string option \<Rightarrow> string option \<Rightarrow> string + string \<Rightarrow> hostname_resolution_error + string" where
  "resolve_hostname cli_hostname env_hostname system_hostname =
     and_then
       (case cli_hostname of
          Some h \<Rightarrow> guard_err (h = []) EmptyFlag (Inr h)
        | None \<Rightarrow>
            (case env_hostname of
               Some h \<Rightarrow> guard_err (h = []) EmptyVariable (Inr h)
             | None \<Rightarrow> map_err NoSystemHostname (map_sum id from_utf8_lossy system_hostname)))
       (\<lambda>raw.
     let lower = to_ascii_lowercase raw in
     and_then (map_err (InvalidResolved lower) (hostname_validate lower)) (\<lambda>_.
     Inr lower))"

definition lock_path_for :: "string \<Rightarrow> string" where
  "lock_path_for iface = ''/run/wg-client/'' @ iface @ ''.lock''"

datatype pass_error =
    ReadingConfigFile string
  | Config config_error
  | Hostname_Resolution hostname_resolution_error
  | LockDirectory string
  | LockFile string
  | LockHeld string
  | AcquiringLock string
  | NoEndpointHost string

text \<open>The errors of \<open>try_write\<close>: \<open>WouldBlock\<close>, and any other.\<close>

datatype lock_error = WouldBlock | LockFailed string

record surroundings =
  su_config_text :: "string + string"
  su_env_hostname :: "string option"
  su_system_hostname :: "string + string"
  su_lock_dir :: "string + unit"
  su_lock_open :: "path \<Rightarrow> string + unit"
  su_try_lock :: "path \<Rightarrow> lock_error + unit"

definition lock_failure :: "string \<Rightarrow> lock_error \<Rightarrow> pass_error" where
  "lock_failure iface e = (case e of WouldBlock \<Rightarrow> LockHeld iface | LockFailed t \<Rightarrow> AcquiringLock t)"

definition run_sync_pass ::
  "crates \<Rightarrow> client_serde \<Rightarrow> (string \<Rightarrow> string + client_config) \<Rightarrow> surroundings
    \<Rightarrow> (client_config \<Rightarrow> 's read_storage) \<Rightarrow> 'o system_ops \<Rightarrow> string option \<Rightarrow> bool
    \<Rightarrow> 's \<times> 'o \<Rightarrow> (pass_error + sync_outcome) \<times> 's \<times> 'o" where
  "run_sync_pass cr js cfg_from_str su st ops hostname_override force w =
     (case
        and_then (map_err ReadingConfigFile (su_config_text su)) (\<lambda>s.
        and_then (map_err Config (client_config_parse cr cfg_from_str s)) (\<lambda>cfg.
        and_then (map_err Config (interface_name (cc_conf_path cfg))) (\<lambda>iface.
        and_then (map_err Hostname_Resolution
          (resolve_hostname hostname_override (su_env_hostname su) (su_system_hostname su))) (\<lambda>hostname.
        and_then (map_err LockDirectory (su_lock_dir su)) (\<lambda>_.
        and_then (map_err LockFile (su_lock_open su (lock_path_for iface))) (\<lambda>_.
        and_then (map_err (lock_failure iface) (su_try_lock su (lock_path_for iface))) (\<lambda>_.
        and_then (ok_or (NoEndpointHost (rr_endpoint (cc_r2_config cfg)))
          (r2_endpoint_host cr (rr_endpoint (cc_r2_config cfg)))) (\<lambda>host.
        Inr (cfg, iface, hostname, host))))))))) of
      Inl e \<Rightarrow> (Inl e, w)
    | Inr (cfg, iface, hostname, host) \<Rightarrow>
        (case run_once cr js (st cfg) ops hostname iface (cc_conf_path cfg) force host w of
           (outcome, w') \<Rightarrow> (Inr outcome, w')))"

text \<open>The exit status of \<open>wg-client sync\<close> without \<open>--daemon\<close>.\<close>

definition sync_exit_ok :: "pass_error + sync_outcome \<Rightarrow> bool" where
  "sync_exit_ok r = (case r of Inl _ \<Rightarrow> False | Inr outcome \<Rightarrow> so_error outcome = None)"

section \<open>Properties\<close>

definition unit_seconds :: "string \<Rightarrow> nat option" where
  "unit_seconds u = map_of [(''s'', 1), (''m'', 60), (''h'', 3600), ([], 1)] u"

lemma strip_suffix_show_nat: "\<not> is_ascii_digit c \<Longrightarrow> strip_suffix [c] (show_nat n) = None"
proof (rule ccontr)
  assume c: "\<not> is_ascii_digit c" and "strip_suffix [c] (show_nat n) \<noteq> None"
  then obtain t where "show_nat n = t @ [c]" by (auto simp: strip_suffix_Some not_None_eq)
  with show_nat_digits [of n] c show False by simp
qed

lemma strip_suffix_unit: "strip_suffix [c] (s @ [d]) = (if c = d then Some s else None)"
  by (auto simp: strip_suffix_def)

lemma split_unit_show:
  assumes "unit_seconds u = Some k"
  shows "split_unit (show_nat n @ u) = (show_nat n, of_nat k)"
proof -
  have nd: "\<not> is_ascii_digit CHR ''s''" "\<not> is_ascii_digit CHR ''m''" "\<not> is_ascii_digit CHR ''h''"
    by (simp_all add: is_ascii_digit_def byte_def)
  show ?thesis
    using assms
    by (auto simp: unit_seconds_def split_unit_def strip_suffix_unit strip_suffix_show_nat nd
        split: if_splits)
qed

lemma trim_duration:
  assumes "unit_seconds u = Some k"
  shows "trim (show_nat n @ u) = show_nat n @ u"
proof -
  have "plain u"
    using assms by (auto simp: unit_seconds_def plain_char_def byte_def split: if_splits)
  then show ?thesis by (intro trim_plain) simp
qed

lemma parse_u64_show: "n < 2 ^ 64 \<Longrightarrow> parse_u64 (show_nat n) = Some (of_nat n)"
  by (simp add: parse_u64_def parse_unsigned_show_nat)

lemma unat_of_nat_64: "n < 2 ^ 64 \<Longrightarrow> unat (of_nat n :: 64 word) = n"
  by (simp add: unat_of_nat)

text \<open>
  A positive number with a unit is read as that many seconds whenever the product fits 64
  bits.
\<close>
theorem parse_duration_units:
  assumes "0 < n" and "unit_seconds u = Some k" and "n * k < 2 ^ 64"
  shows "\<exists>d. parse_duration (show_nat n @ u) = Inr d \<and> unat d = n * k"
proof -
  have "n * 1 \<le> n * k" using assms(2) by (auto simp: unit_seconds_def split: if_splits)
  with assms(3) have b: "n < 2 ^ 64" by linarith
  then have n: "unat (of_nat n :: 64 word) = n" by (rule unat_of_nat_64)
  then have "(of_nat n :: 64 word) \<noteq> 0" using assms(1) by (metis gr_implies_not0 unat_0)
  with b have "parse_duration (show_nat n @ u) = Inr (of_nat n * of_nat k)"
    using assms by (simp add: parse_duration_def trim_duration split_unit_show parse_u64_show)
  moreover have "unat (of_nat n * of_nat k :: 64 word) = n * k"
    using unat_of_nat_64 [OF assms(3)] by (simp only: of_nat_mult)
  ultimately show ?thesis by blast
qed

lemma parse_duration_units_witness:
  "\<exists>d. parse_duration (show_nat 24 @ ''h'') = Inr d \<and> unat d = 24 * 3600"
  by (rule parse_duration_units) (simp_all add: unit_seconds_def)

text \<open>
  C38. The multiplication by the unit is not checked: in the release build a positive number of
  hours whose seconds exceed 64 bits wraps around, here to an interval of zero, which the
  function means to reject.
\<close>
theorem parse_duration_wraps:
  "parse_duration (show_nat (2 ^ 60) @ ''h'') = Inr 0 \<and> parse_duration (show_nat 0 @ ''h'') = Inl NotPositive"
proof -
  have u: "unit_seconds ''h'' = Some 3600" by (simp add: unit_seconds_def)
  have "(of_nat (2 ^ 60) :: 64 word) \<noteq> 0" "(of_nat (2 ^ 60) * of_nat 3600 :: 64 word) = 0" by simp_all
  with u show ?thesis
    by (simp add: parse_duration_def trim_duration split_unit_show parse_u64_show)
qed

lemma jitter_bounds_aux:
  assumes "0 < unat i" and "unat i * 1000 < 2 ^ 64"
  shows "unat (fastrand_jitter_ms i nanos) * 10 < unat i * 1000"
proof -
  define m where "m = max (of_nat (unat i * 1000) div 10) (1 :: 64 word)"
  have "unat (of_nat (unat i * 1000) div 10 :: 64 word) = unat i * 1000 div 10"
    using unat_of_nat_64 [OF assms(2)] by (simp only: unat_div unat_numeral) simp
  then have d: "unat (of_nat (unat i * 1000) div 10 :: 64 word) = unat i * 100" by simp
  then have m: "unat m = unat i * 100" using assms(1)
    by (simp add: m_def max_def word_le_nat_alt)
  have "unat (nanos mod m) < unat m" unfolding unat_mod using m assms(1) by simp
  moreover have "fastrand_jitter_ms i nanos = nanos mod m"
    by (simp only: fastrand_jitter_ms_def m_def Let_def)
  ultimately show ?thesis using m by simp
qed

text \<open>
  The jitter is between zero and ten percent of the interval: the wait is never shorter than
  the interval, although the comment promises plus or minus ten percent.
\<close>
theorem jitter_bounds:
  assumes "0 < unat i" and "unat i * 1000 < 2 ^ 64"
  shows "unat (fastrand_jitter_ms i nanos) * 10 < unat i * 1000"
  using assms by (rule jitter_bounds_aux)

lemma jitter_bounds_witness: "unat (fastrand_jitter_ms 86400 123456789) * 10 < unat (86400 :: 64 word) * 1000"
  by (rule jitter_bounds) simp_all

text \<open>
  A resolved hostname matches the hostname rule and comes from the highest-priority source
  present, in lower case; an empty flag or variable is an error and never falls through.
\<close>
theorem resolve_hostname_sound:
  assumes "resolve_hostname cli env sys = Inr h"
  shows "hostname_regex h \<and>
    (case cli of Some c \<Rightarrow> c \<noteq> [] \<and> h = to_ascii_lowercase c
     | None \<Rightarrow> (case env of Some v \<Rightarrow> v \<noteq> [] \<and> h = to_ascii_lowercase v
       | None \<Rightarrow> (\<exists>n. sys = Inr n \<and> h = to_ascii_lowercase (from_utf8_lossy n))))"
  using assms
  by (cases sys) (auto simp: resolve_hostname_def and_then_Inr_iff hostname_validate_regex Let_def
      split: option.splits)

lemma resolve_hostname_sound_witness:
  "hostname_regex ''master-us'' \<and> ''Master-US'' \<noteq> [] \<and> ''master-us'' = to_ascii_lowercase ''Master-US''"
proof -
  have l: "to_ascii_lowercase ''Master-US'' = ''master-us''" by code_simp
  have "hostname_validate ''master-us'' = Inr ()" by code_simp
  with l have "resolve_hostname (Some ''Master-US'') (Some ''x'') (Inl ''none'') = Inr ''master-us''"
    by (simp only: resolve_hostname_def option.case guard_err_simps list.distinct and_then_simps
        Let_def map_err_simps simp_thms)
  from resolve_hostname_sound [OF this, unfolded option.case] show ?thesis .
qed

text \<open>
  C39. A pass started from the command line touches the bucket and the host only with a valid
  interface name, a valid hostname and the interface's lock taken; every earlier error leaves
  both untouched.
\<close>
theorem run_sync_pass_guarded:
  "case run_sync_pass cr js from_str su st ops override force w of (r, w') \<Rightarrow>
    (\<exists>e. r = Inl e) \<and> w' = w \<or>
    (\<exists>cfg iface hostname host outcome. iface_ok iface \<and> hostname_regex hostname \<and>
      file_name (cc_conf_path cfg) = Some (iface @ ''.conf'') \<and> su_try_lock su (lock_path_for iface) = Inr () \<and>
      run_once cr js (st cfg) ops hostname iface (cc_conf_path cfg) force host w = (outcome, w') \<and>
      r = Inr outcome)"
proof -
  have h: "hostname_regex h" if "resolve_hostname a b c = Inr h" for a b c h
    using that by (auto simp: resolve_hostname_def and_then_Inr_iff hostname_validate_regex Let_def)
  have i: "iface_ok s \<and> file_name p = Some (s @ ''.conf'')" if "interface_name p = Inr s" for p s
    using that file_name_conf [of p s "''conf''"] by (simp add: interface_name_Inr)
  show ?thesis
    by (auto simp: run_sync_pass_def and_then_Inr_iff split: sum.splits prod.splits dest!: h i)
qed

end
