(* ===== verification/Client_Daemon.thy ===== *)
theory Client_Daemon
  imports Client_Main
begin

text \<open>
  \<open>wg-client/src/main.rs\<close>, the command itself: what is logged of a pass, the single pass with its
  exit status, and the daemon, which runs a pass, sleeps for the interval and a jitter, and ends
  on a signal.  What the outside does in one turn of the loop (the surroundings the pass reads,
  an interrupt during it, the clock, what wakes the sleeper, what changes on bucket and host
  meanwhile) is a \<open>turn\<close>; a run is given by the sequence of its turns.
\<close>

section \<open>What is logged\<close>

datatype message =
    RecoveredPending
  | RestoredLocal
  | SyncFailed sync_error
  | RollbackAttempted bool
  | NoChange
  | AppliedNew
  | SyncPassFailed pass_error
  | ReceivedSigterm
  | ReceivedSigint

datatype log_line = Info message | Warn message | Error message

definition report :: "sync_outcome \<Rightarrow> log_line list" where
  "report outcome =
     (if so_recovered_pending outcome then [Warn RecoveredPending] else [])
     @ (if so_restored_local outcome then [Warn RestoredLocal] else [])
     @ (case so_error outcome of
          Some err \<Rightarrow> [Error (SyncFailed err)]
            @ (if so_rollback_attempted outcome
               then [Error (RollbackAttempted (so_rollback_succeeded outcome))] else [])
        | None \<Rightarrow>
            if so_no_op outcome then [Info NoChange]
            else if so_applied outcome then [Info AppliedNew]
            else [])"

text \<open>\<open>RUST_LOG\<close> wins over the flag; parsing a filter is the library's.\<close>

definition build_env_filter :: "'f option \<Rightarrow> (string \<Rightarrow> 'f) \<Rightarrow> 8 word \<Rightarrow> 'f" where
  "build_env_filter default_env new_filter verbose =
     (case default_env of
        Some f \<Rightarrow> f
      | None \<Rightarrow> new_filter
          (if verbose = 0 then ''warn'' else if verbose = 1 then ''info''
           else if verbose = 2 then ''debug'' else ''trace''))"

section \<open>The loop\<close>

text \<open>
  \<open>interval + jitter\<close>: seconds and nanoseconds of a \<open>Duration\<close>, whose addition panics when the
  seconds exceed 64 bits.
\<close>

definition sleep_time :: "64 word \<Rightarrow> 64 word \<Rightarrow> (64 word \<times> 32 word) option" where
  "sleep_time interval jitter_ms =
     (let secs = unat interval + unat jitter_ms div 1000 in
      if secs \<ge> 2 ^ 64 then None
      else Some (of_nat secs, of_nat (unat jitter_ms mod 1000 * 1000000)))"

text \<open>
  Signals.  The handler of \<open>SIGTERM\<close> is installed before the loop and keeps the signal, so one that
  comes during a pass wakes the sleeper after it, like one that comes later.  The handler of
  \<open>SIGINT\<close> is installed when \<open>ctrl_c\<close> is first polled, in the first sleep, and a later call of \<open>ctrl_c\<close>
  only sees signals that come after it.  So an interrupt during the first pass kills the
  process where it is (\<open>tn_interrupt\<close> is the world at that moment), and one during a later pass is
  lost.
\<close>

datatype wake = Slept | Sigterm | Ctrl_C

datatype status = Running | Exited bool | Panicked | Killed

record 'w turn =
  tn_surroundings :: surroundings
  tn_interrupt :: "'w option"
  tn_nanos :: "64 word"
  tn_wake :: wake
  tn_meanwhile :: "'w \<Rightarrow> 'w"

type_synonym 'w pass = "surroundings \<Rightarrow> 'w \<Rightarrow> (pass_error + sync_outcome) \<times> 'w"

text \<open>\<open>listening\<close>: the handler of \<open>SIGINT\<close> is installed.\<close>

definition daemon_turn :: "'w pass \<Rightarrow> 64 word \<Rightarrow> bool \<Rightarrow> 'w turn \<Rightarrow> 'w \<Rightarrow> (log_line list \<times> status) \<times> 'w" where
  "daemon_turn pass interval listening tn w =
     (case (if listening then None else tn_interrupt tn) of
        Some w' \<Rightarrow> (([], Killed), w')
      | None \<Rightarrow>
     (case pass (tn_surroundings tn) w of (res, w) \<Rightarrow>
        let log = (case res of Inr outcome \<Rightarrow> report outcome | Inl e \<Rightarrow> [Error (SyncPassFailed e)]);
            jitter = fastrand_jitter_ms interval (tn_nanos tn)
        in case sleep_time interval jitter of
             None \<Rightarrow> ((log, Panicked), w)
           | Some d \<Rightarrow>
               (case tn_wake tn of
                  Slept \<Rightarrow> ((log, Running), tn_meanwhile tn w)
                | Sigterm \<Rightarrow> ((log @ [Info ReceivedSigterm], Exited True), w)
                | Ctrl_C \<Rightarrow> ((log @ [Info ReceivedSigint], Exited True), w))))"

fun daemon_loop :: "'w pass \<Rightarrow> 64 word \<Rightarrow> bool \<Rightarrow> 'w turn list \<Rightarrow> 'w \<Rightarrow> (log_line list \<times> status) \<times> 'w" where
  "daemon_loop pass interval listening [] w = (([], Running), w)"
| "daemon_loop pass interval listening (tn # tns) w =
     (case daemon_turn pass interval listening tn w of ((log, st), w) \<Rightarrow>
        if st = Running
        then (case daemon_loop pass interval True tns w of ((logs, st), w) \<Rightarrow> ((log @ logs, st), w))
        else ((log, st), w))"

section \<open>The command\<close>

text \<open>\<open>--once\<close> is the default and changes nothing; a bad interval is printed and fails.\<close>

record sync_args =
  sa_config :: string
  sa_hostname :: "string option"
  sa_once :: bool
  sa_daemon :: bool
  sa_interval :: string
  sa_force :: bool

definition main_sync ::
  "'w pass \<Rightarrow> sync_args \<Rightarrow> surroundings \<Rightarrow> 'w turn list \<Rightarrow> 'w \<Rightarrow> (log_line list \<times> status) \<times> 'w" where
  "main_sync pass args su tns w =
     (case parse_duration (sa_interval args) of
        Inl e \<Rightarrow> (([], Exited False), w)
      | Inr interval \<Rightarrow>
          if \<not> sa_daemon args then
            (case pass su w of
               (Inr outcome, w) \<Rightarrow> ((report outcome, Exited (sync_exit_ok (Inr outcome))), w)
             | (Inl e, w) \<Rightarrow> (([], Exited False), w))
          else daemon_loop pass interval False tns w)"

text \<open>
  \<open>main\<close>, with the passes it runs.  The file \<open>--config\<close> names is read anew in every pass: its text
  is part of the surroundings.
\<close>

record client_cli =
  cli_sync :: sync_args
  cli_verbosity :: "8 word"

definition client_main ::
  "crates \<Rightarrow> client_serde \<Rightarrow> (string \<Rightarrow> string + client_config) \<Rightarrow> (client_config \<Rightarrow> 's read_storage)
    \<Rightarrow> 'o system_ops \<Rightarrow> client_cli \<Rightarrow> surroundings \<Rightarrow> ('s \<times> 'o) turn list \<Rightarrow> 's \<times> 'o
    \<Rightarrow> (log_line list \<times> status) \<times> 's \<times> 'o" where
  "client_main cr js cfg_from_str st ops cli =
     (let args = cli_sync cli in
      main_sync (\<lambda>su. run_sync_pass cr js cfg_from_str su st ops (sa_hostname args) (sa_force args)) args)"

section \<open>The daemon goes on\<close>

lemma jitter_small:
  assumes "unat i * 1000 < 2 ^ 64"
  shows "unat (fastrand_jitter_ms i nanos) \<le> unat i * 100"
proof (cases "i = 0")
  case True
  then show ?thesis by (simp add: fastrand_jitter_ms_def)
next
  case False
  then have "0 < unat i" by (simp add: unat_gt_0)
  with jitter_bounds_aux [OF this assms, of nanos] show ?thesis by simp
qed

lemma sleep_time_exists:
  assumes "unat i * 1000 < 2 ^ 64"
  shows "\<exists>d. sleep_time i (fastrand_jitter_ms i nanos) = Some d"
proof -
  have "unat (fastrand_jitter_ms i nanos) div 1000 \<le> unat i"
    using jitter_small [OF assms, of nanos] by linarith
  then have "unat i + unat (fastrand_jitter_ms i nanos) div 1000 < 2 ^ 64" using assms by linarith
  then show ?thesis by (simp add: sleep_time_def Let_def not_le)
qed

lemma daemon_turn_slept:
  assumes "unat i * 1000 < 2 ^ 64" and "listening \<or> tn_interrupt tn = None" and "tn_wake tn = Slept"
  obtains log where "daemon_turn pass i listening tn w =
    ((log, Running), tn_meanwhile tn (snd (pass (tn_surroundings tn) w)))"
  using sleep_time_exists [OF assms(1), of "tn_nanos tn"] assms(2,3)
  by (cases listening) (fastforce simp: daemon_turn_def Let_def split: prod.splits)+

lemma daemon_turn_signal:
  assumes "unat i * 1000 < 2 ^ 64" and "listening \<or> tn_interrupt tn = None" and "tn_wake tn \<noteq> Slept"
  obtains log where "daemon_turn pass i listening tn w = ((log, Exited True), snd (pass (tn_surroundings tn) w))"
  using sleep_time_exists [OF assms(1), of "tn_nanos tn"] assms(2,3)
  by (cases listening; cases "tn_wake tn") (fastforce simp: daemon_turn_def Let_def split: prod.splits)+

text \<open>The world after turns that all end with the interval elapsed: every pass ran.\<close>

definition daemon_world :: "'w pass \<Rightarrow> 'w turn list \<Rightarrow> 'w \<Rightarrow> 'w" where
  "daemon_world pass tns w = fold (\<lambda>tn w. tn_meanwhile tn (snd (pass (tn_surroundings tn) w))) tns w"

lemma daemon_loop_slept:
  assumes "unat i * 1000 < 2 ^ 64" and "\<forall>tn\<in>set tns. tn_wake tn = Slept"
    and "listening \<or> tns = [] \<or> tn_interrupt (hd tns) = None"
  shows "\<exists>log. \<forall>rest. daemon_loop pass i listening (tns @ rest) w =
    (case daemon_loop pass i (listening \<or> tns \<noteq> []) rest (daemon_world pass tns w) of
      ((log', st), w') \<Rightarrow> ((log @ log', st), w'))"
  using assms(2,3)
proof (induction tns arbitrary: w listening)
  case (Cons tn tns)
  let ?w = "tn_meanwhile tn (snd (pass (tn_surroundings tn) w))"
  obtain log1 where t: "daemon_turn pass i listening tn w = ((log1, Running), ?w)"
    using daemon_turn_slept [OF assms(1)] Cons.prems by (metis list.set_intros(1) list.sel(1) list.discI)
  from Cons.IH [of True ?w] Cons.prems obtain log2 where
    "\<forall>rest. daemon_loop pass i True (tns @ rest) ?w =
      (case daemon_loop pass i True rest (daemon_world pass tns ?w) of ((log', st), w') \<Rightarrow> ((log2 @ log', st), w'))"
    by auto
  with t show ?case
    by (intro exI [of _ "log1 @ log2"]) (simp add: daemon_world_def split: prod.splits)
qed (auto simp: daemon_world_def intro!: exI [of _ "[]"] split: prod.splits)

text \<open>
  C22. No pass ends the daemon: whatever a pass returns or does to the host, a configuration error
  as much as a failed transfer, the next one runs after the sleep, for every sequence of turns,
  until a signal wakes it; then the daemon exits with success after the pass it was in.  An
  interrupt during a pass does not end it either, unless it comes in the first pass.  (The
  interval is one whose milliseconds fit 64 bits.)
\<close>
theorem daemon_outlives_failures:
  assumes "unat i * 1000 < 2 ^ 64" and "\<forall>tn\<in>set tns. tn_wake tn = Slept" and "tn_wake tn \<noteq> Slept"
    and "tn_interrupt (hd (tns @ [tn])) = None"
  shows "(\<exists>log. daemon_loop pass i False tns w = ((log, Running), daemon_world pass tns w)) \<and>
    (\<exists>log. daemon_loop pass i False (tns @ tn # rest) w
      = ((log, Exited True), snd (pass (tn_surroundings tn) (daemon_world pass tns w))))"
proof -
  have first: "tns = [] \<or> tn_interrupt (hd tns) = None" "tns \<noteq> [] \<or> tn_interrupt tn = None"
    using assms(4) by (cases tns; simp)+
  obtain log where l: "\<forall>rest. daemon_loop pass i False (tns @ rest) w =
      (case daemon_loop pass i (tns \<noteq> []) rest (daemon_world pass tns w) of
        ((log', st), w') \<Rightarrow> ((log @ log', st), w'))"
    using daemon_loop_slept [OF assms(1,2), where listening = False and pass = pass and w = w] first(1) by auto
  obtain log2 where t: "daemon_turn pass i (tns \<noteq> []) tn (daemon_world pass tns w)
      = ((log2, Exited True), snd (pass (tn_surroundings tn) (daemon_world pass tns w)))"
    by (rule daemon_turn_signal [OF assms(1) first(2) assms(3)])
  from l [rule_format, of "[]"] l [rule_format, of "tn # rest"] t show ?thesis by simp
qed

text \<open>An interrupt during a pass: fatal in the first, without any effect in the others.\<close>

lemma interrupt_during_pass:
  "tn_interrupt tn = Some w' \<Longrightarrow> daemon_loop pass i False (tn # tns) w = (([], Killed), w')"
  "daemon_turn pass i True tn w = daemon_turn pass i True (tn\<lparr>tn_interrupt := None\<rparr>) w"
  by (auto simp: daemon_turn_def Let_def split: prod.split option.split wake.split)

lemma daemon_turn_alive:
  "listening \<or> tn_interrupt tn = None \<Longrightarrow> daemon_turn pass i listening tn w = ((log, stat), w') \<Longrightarrow> stat \<noteq> Killed"
  by (auto simp: daemon_turn_def Let_def split: prod.splits option.splits wake.splits if_splits)

lemma daemon_not_killed:
  assumes "listening \<or> tns = [] \<or> tn_interrupt (hd tns) = None"
    and "daemon_loop pass i listening tns w = ((logs, stat), w')"
  shows "stat \<noteq> Killed"
  using assms
proof (induction tns arbitrary: listening w logs stat w')
  case (Cons tn tns)
  obtain log1 st1 w1 where t: "daemon_turn pass i listening tn w = ((log1, st1), w1)" by (metis prod.exhaust)
  have "st1 \<noteq> Killed" using Cons.prems(1) by (intro daemon_turn_alive [OF _ t]) auto
  moreover obtain log2 st2 w2 where "daemon_loop pass i True tns w1 = ((log2, st2), w2)" by (metis prod.exhaust)
  moreover from Cons.IH [OF _ this] have "st2 \<noteq> Killed" by simp
  ultimately show ?case using Cons.prems(2) t by (auto split: if_splits)
qed simp

definition quiet_night :: "wake \<Rightarrow> unit turn" where
  "quiet_night wk = \<lparr>tn_surroundings = \<lparr>su_config_text = Inl ''no such file'', su_env_hostname = None,
       su_system_hostname = Inr ''a'', su_lock_dir = Inr (), su_lock_open = (\<lambda>_. Inr ()), su_try_lock = (\<lambda>_. Inr ())\<rparr>,
     tn_interrupt = None, tn_nanos = 5, tn_wake = wk, tn_meanwhile = (\<lambda>w. w)\<rparr>"

definition locked_out :: "unit pass" where
  "locked_out _ w = (Inl (LockHeld ''wg0''), w)"

lemma daemon_outlives_failures_witness:
  "(\<exists>log. daemon_loop locked_out 86400 False [quiet_night Slept, quiet_night Slept] ()
      = ((log, Running), daemon_world locked_out [quiet_night Slept, quiet_night Slept] ())) \<and>
    (\<exists>log. daemon_loop locked_out 86400 False ([quiet_night Slept, quiet_night Slept] @ [quiet_night Sigterm]) ()
      = ((log, Exited True), snd (locked_out (tn_surroundings (quiet_night Sigterm))
          (daemon_world locked_out [quiet_night Slept, quiet_night Slept] ()))))"
  by (rule daemon_outlives_failures) (simp_all add: quiet_night_def)

text \<open>The longest intervals the parser accepts do not survive the addition of the jitter.\<close>

lemma longest_interval_panics:
  "parse_duration (show_nat (2 ^ 64 - 1) @ ''s'') = Inr (- 1) \<and> sleep_time (- 1) (fastrand_jitter_ms (- 1) 999999999) = None"
proof -
  have u: "unit_seconds ''s'' = Some 1" by (simp add: unit_seconds_def)
  have "parse_u64 (show_nat (2 ^ 64 - 1)) = Some (of_nat (2 ^ 64 - 1))" by (rule parse_u64_show) simp
  moreover have "of_nat (2 ^ 64 - 1) = (- 1 :: 64 word)" by simp
  ultimately have "parse_duration (show_nat (2 ^ 64 - 1) @ ''s'') = Inr (- 1)"
    using u by (simp add: parse_duration_def trim_duration split_unit_show)
  moreover have "fastrand_jitter_ms (- 1) 999999999 = 999999999"
    by (simp add: fastrand_jitter_ms_def Let_def max_def word_le_nat_alt)
  then have "sleep_time (- 1) (fastrand_jitter_ms (- 1) 999999999) = None"
    by (simp add: sleep_time_def unsigned_minus_1_eq_mask mask_eq_exp_minus_1)
  ultimately show ?thesis by simp
qed

end
