(* ===== verification/Daemon_Files.thy ===== *)
theory Daemon_Files
  imports Client_Daemon Real_Host
begin

text \<open>
  What the client ever leaves in the configuration file and its backup, over any number of turns
  of the daemon: on the real host, whose copies can be cut short, and on a host whose copies
  are whole.
\<close>

section \<open>The two files\<close>

definition valid_text :: "crates \<Rightarrow> string \<Rightarrow> bool" where
  "valid_text cr b \<longleftrightarrow> is_ok (parse_wg_quick cr (from_utf8_lossy b))"

definition cut_text :: "crates \<Rightarrow> string \<Rightarrow> bool" where
  "cut_text cr b \<longleftrightarrow> (\<exists>c n. valid_text cr c \<and> b = take n c)"

definition holds_only :: "(string \<Rightarrow> bool) \<Rightarrow> path \<Rightarrow> (path \<Rightarrow> string option) \<Rightarrow> bool" where
  "holds_only fine conf fs \<longleftrightarrow>
     (\<forall>b. fs conf = Some b \<longrightarrow> fine b) \<and> (\<forall>b. fs (backup_path_for conf) = Some b \<longrightarrow> fine b)"

text \<open>
  Turns whose configuration names this file, and between which others leave the two files as
  they are or put valid ones in their place.
\<close>

definition undisturbed ::
  "crates \<Rightarrow> (string \<Rightarrow> string + client_config) \<Rightarrow> ('o \<Rightarrow> path \<Rightarrow> string option) \<Rightarrow> path \<Rightarrow> ('s \<times> 'o) turn \<Rightarrow> bool" where
  "undisturbed cr from_str files conf tn \<longleftrightarrow>
     (\<forall>s cfg. su_config_text (tn_surroundings tn) = Inr s \<longrightarrow> client_config_parse cr from_str s = Inr cfg \<longrightarrow>
        cc_conf_path cfg = conf) \<and>
     (\<forall>b h p c. p = conf \<or> p = backup_path_for conf \<longrightarrow> files (snd (tn_meanwhile tn (b, h))) p = Some c \<longrightarrow>
        files h p = Some c \<or> valid_text cr c)"

lemma run_sync_pass_cases:
  assumes "run_sync_pass cr js from_str su st ops override force w = (r, w')"
  shows "w' = w \<or> (\<exists>s cfg iface hostname host outcome. su_config_text su = Inr s \<and>
    client_config_parse cr from_str s = Inr cfg \<and>
    run_once cr js (st cfg) ops hostname iface (cc_conf_path cfg) force host w = (outcome, w'))"
  using assms by (auto simp: run_sync_pass_def and_then_Inr_iff split: sum.splits prod.splits)

text \<open>
  A host on which the two files hold texts with \<open>fine\<close> only: every valid text is one, and a copy
  that fails leaves one behind.
\<close>

locale content_host = host_contract +
  fixes fine :: "string \<Rightarrow> bool"
  assumes valid_fine: "\<And>b. valid_text cr b \<Longrightarrow> fine b"
    and copy_fine: "\<And>f t s e s' b. copy_file ops f t s = (Inl e, s') \<Longrightarrow> f \<in> managed conf \<Longrightarrow>
      t \<in> managed conf \<Longrightarrow> files s' t = Some b \<Longrightarrow> files s t = Some b \<or> (\<exists>c. files s f = Some c \<and> (fine c \<longrightarrow> fine b))"
begin

abbreviation held :: "'a \<Rightarrow> bool" where
  "held s \<equiv> holds_only fine conf (files s)"

lemma same_files_held:
  assumes "\<And>s r t. q s = (r, t) \<Longrightarrow> files t = files s"
  shows "yields held q (\<lambda>_. held)"
proof (rule yieldsI)
  fix s r t
  assume "held s" "q s = (r, t)"
  with assms [OF this(2)] show "held t" by simp
qed

lemma queries_held:
  "yields held (interface_exists ops i) (\<lambda>_. held)"
  "yields held (teardown_interface ops i) (\<lambda>_. held)"
  "yields held (preflight ops c h i) (\<lambda>_. held)"
  by (rule same_files_held; drule iface_sound teardown_ok preflight_ok; simp)+

lemma file_queries_held:
  "yields held (file_exists ops (backup_path_for conf)) (\<lambda>_. held)"
  "yields held (file_exists ops conf) (\<lambda>_. held)"
  "yields held (apply_interface ops i conf) (\<lambda>_. held)"
  "yields held (read_file ops conf) (\<lambda>_. held)"
  "yields held (read_file ops (state_path_for conf)) (\<lambda>_. held)"
  by (rule same_files_held; drule exists_sound apply_ok read_sound; simp)+

lemma write_held:
  "fine b \<Longrightarrow> yields held (write_file_atomic ops conf b) (\<lambda>_. held)"
  by (rule yieldsI) (auto simp: holds_only_def dest!: write_ok split: if_splits)

lemma save_held: "yields held (save_state js ops (state_path_for conf) state) (\<lambda>_. held)"
proof (rule yieldsI)
  fix s r t
  assume "held s" "save_state js ops (state_path_for conf) state s = (r, t)"
  then show "held t" using save_result [of js state s r t]
    by (auto simp: holds_only_def split: if_splits)
qed

lemma copy_held:
  assumes "(p = conf \<and> q = backup_path_for conf) \<or> (p = backup_path_for conf \<and> q = conf)"
  shows "yields held (copy_file ops p q) (\<lambda>_. held)"
proof (rule yieldsI)
  fix s r t
  assume h: "held s" and c: "copy_file ops p q s = (r, t)"
  have m: "p \<in> managed conf" "q \<in> managed conf" using assms by auto
  show "held t"
  proof (cases r)
    case (Inl e)
    have other: "files t x = files s x" if "x \<noteq> q" for x using copy_ok [OF c m] Inl that by simp
    have "fine b" if "files t q = Some b" for b
      using copy_fine [OF c [unfolded Inl] m that] h assms by (auto simp: holds_only_def)
    with other h assms show ?thesis by (auto simp: holds_only_def)
  next
    case (Inr u)
    with copy_ok [OF c m] have "files t = (files s)(q := files s p)" by simp
    with h assms show ?thesis by (auto simp: holds_only_def)
  qed
qed

lemmas steps_held = queries_held file_queries_held write_held copy_held save_held yields_ignore [OF save_held]
  yields_ignore [OF copy_held]

lemma rollback_held:
  "yields held (attempt_rollback js ops iface conf had state outcome) (\<lambda>_. held)"
  unfolding attempt_rollback_def [abs_def] Let_def
  by (rule yields_rules steps_held | simp)+

lemma finish_held:
  "fine b \<Longrightarrow>
    yields held (finish_install js ops hostname iface conf had (gid, digest, b) state outcome) (\<lambda>_. held)"
  unfolding finish_install_def [abs_def] prod.case Let_def
  by (rule yields_rules rollback_held steps_held | assumption)+

lemma teardown_held:
  "fine b \<Longrightarrow>
    yields held (teardown_and_install js ops hostname iface conf had (gid, digest, b) state outcome)
      (\<lambda>_. held)"
  unfolding teardown_and_install_def [abs_def]
  by (rule yields_rules finish_held steps_held | assumption)+

lemma install_held:
  assumes "fine b"
  shows "yields held (install js ops hostname iface conf (gid, digest, b) state outcome) (\<lambda>_. held)"
proof -
  have backup: "yields held
      (\<lambda>s. if had then copy_file ops conf (backup_path_for conf) s else (Inr (), s)) (\<lambda>_. held)" for had
    by (rule yields_rules steps_held | simp)+
  show ?thesis
    unfolding install_def [abs_def] Let_def
    by (rule yields_rules teardown_held assms backup steps_held | assumption)+
qed

lemma apply_phase_held:
  "yields held (apply_phase cr js ops hostname iface conf force ep (gid, digest, b) state outcome) (\<lambda>_. held)"
proof (cases "parse_wg_quick cr (from_utf8_lossy b)")
  case (Inl e)
  then show ?thesis unfolding apply_phase_def [abs_def] by (simp add: yields_return)
next
  case (Inr cfg)
  then have v: "fine b" by (intro valid_fine) (simp add: valid_text_def)
  have query: "yields held (\<lambda>s. if c then interface_exists ops iface s else (False, s)) (\<lambda>_. held)" for c
    by (rule yields_rules steps_held | assumption)+
  show ?thesis
    unfolding apply_phase_def [abs_def] snd_conv Inr sum.case
    by (rule yields_rules query install_held v steps_held | assumption)+
qed

lemma local_phase_held: "yields held (local_phase cr js ops iface conf) (\<lambda>_. held)"
proof -
  have load: "yields held (load_state js ops (state_path_for conf)) (\<lambda>_. held)"
    unfolding load_state_def [abs_def] by (rule yields_rules steps_held | assumption)+
  have restore: "yields held (restore_local_if_valid cr ops iface conf outcome) (\<lambda>_. held)" for outcome
    unfolding restore_local_if_valid_def [abs_def] by (rule yields_rules steps_held | assumption)+
  have recover: "yields held (recover_pending js ops conf state outcome) (\<lambda>_. held)" for state outcome
    unfolding recover_pending_eq by (rule yields_rules steps_held | simp)+
  show ?thesis
    unfolding local_phase_def [abs_def]
    by (rule yields_rules load restore recover steps_held | assumption)+
qed

lemma run_once_held:
  assumes "held s" and "run_once cr js st ops hostname iface conf force ep (bucket, s) = (outcome, bucket', t)"
  shows "held t"
proof -
  obtain state o1 s1 where l: "local_phase cr js ops iface conf s = ((state, o1), s1)" by (metis prod.exhaust)
  note h1 = yieldsD [OF local_phase_held assms(1) l]
  obtain found b1 where d: "discover_and_download cr js st hostname bucket = (found, b1)" by (metis prod.exhaust)
  show ?thesis
  proof (cases found)
    case (Inl e)
    with assms(2) l d h1 show ?thesis by (simp add: run_once_def)
  next
    case (Inr f)
    obtain gid digest b where f: "f = (gid, digest, b)" by (cases f) auto
    obtain o2 s2 where a: "apply_phase cr js ops hostname iface conf force ep f state o1 s1 = (o2, s2)"
      by (metis prod.exhaust)
    with yieldsD [OF apply_phase_held h1 a [unfolded f]] assms(2) l d Inr show ?thesis
      by (simp add: run_once_def)
  qed
qed

lemma pass_held:
  assumes u: "undisturbed cr from_str files conf tn" and h: "held h"
    and p: "run_sync_pass cr js from_str (tn_surroundings tn) st ops override force (b, h) = (r, b', h')"
  shows "held h'"
  using run_sync_pass_cases [OF p]
proof (elim disjE exE conjE)
  fix s cfg iface hostname host outcome
  assume "su_config_text (tn_surroundings tn) = Inr s" "client_config_parse cr from_str s = Inr cfg"
    and r: "run_once cr js (st cfg) ops hostname iface (cc_conf_path cfg) force host (b, h) = (outcome, b', h')"
  with u have c: "cc_conf_path cfg = conf" by (simp add: undisturbed_def)
  from r show "held h'" unfolding c by (rule run_once_held [OF h])
qed (use h in simp)

lemma meanwhile_held:
  assumes "undisturbed cr from_str files conf tn" and "held h"
  shows "held (snd (tn_meanwhile tn (b, h)))"
proof -
  have "fine c" if "p = conf \<or> p = backup_path_for conf" "files (snd (tn_meanwhile tn (b, h))) p = Some c" for p c
    using assms that valid_fine [of c] unfolding undisturbed_def holds_only_def by blast
  then show ?thesis unfolding holds_only_def by blast
qed

lemma daemon_held:
  assumes "\<forall>tn\<in>set tns. undisturbed cr from_str files conf tn" and "held h"
    and "daemon_loop (\<lambda>su. run_sync_pass cr js from_str su st ops override force) i listening tns (b, h) = ((logs, stat), b', h')"
    and "stat \<noteq> Killed"
  shows "held h'"
  using assms
proof (induction tns arbitrary: b h logs stat b' h' listening)
  case (Cons tn tns)
  let ?pass = "\<lambda>su. run_sync_pass cr js from_str su st ops override force"
  obtain log st2 b2 h2 where t: "daemon_turn ?pass i listening tn (b, h) = ((log, st2), b2, h2)" by (metis prod.exhaust)
  have u: "undisturbed cr from_str files conf tn" using Cons.prems(1) by simp
  obtain res b1 h1 where p: "?pass (tn_surroundings tn) (b, h) = (res, b1, h1)" by (metis prod.exhaust)
  have h1: "held h1" by (rule pass_held [OF u Cons.prems(2) p])
  have h2: "st2 \<noteq> Killed \<Longrightarrow> held h2"
    using t p h1 meanwhile_held [OF u h1, of b1]
    by (auto simp: daemon_turn_def Let_def split: option.splits wake.splits if_splits)
  show ?case
  proof (cases "st2 = Running")
    case True
    obtain lg st3 b3 h3 where l: "daemon_loop ?pass i True tns (b2, h2) = ((lg, st3), b3, h3)" by (metis prod.exhaust)
    have "st3 = stat" "h3 = h'" using Cons.prems(3) t True l by simp_all
    then show ?thesis using Cons.IH [OF _ _ l] Cons.prems(1,4) h2 True by simp
  next
    case False
    with Cons.prems t h2 show ?thesis by simp
  qed
qed simp

end

section \<open>The hosts\<close>

interpretation mock_contents: content_host cr "mock_sys cr" mock_files mock_up conf True "valid_text cr" for cr conf
  by (intro content_host.intro content_host_axioms.intro mock_sys.host_contract_axioms)
    (auto simp: mock_sys_defs split: option.splits)

lemma real_contents:
  assumes "device_laws k devices"
  shows "content_host cr (real_sys cr k flt says warns) (real_files conf) (real_up devices) conf
    (\<forall>n. fl_read flt n = None) (cut_text cr)"
proof (intro content_host.intro content_host_axioms.intro real_contract [OF assms])
  show "cut_text cr b" if "valid_text cr b" for b
    unfolding cut_text_def using that by (intro exI [of _ b] exI [of _ "length b"]) simp
  have cut: "cut_text cr c \<Longrightarrow> cut_text cr (take n c)" for c n
    unfolding cut_text_def by (metis take_take)
  fix f t s e s' b
  assume "copy_file (real_sys cr k flt says warns) f t s = (Inl e, s')" "f \<in> managed conf" "t \<in> managed conf"
    "real_files conf s' t = Some b"
  then show "real_files conf s t = Some b \<or> (\<exists>c. real_files conf s f = Some c \<and> (cut_text cr c \<longrightarrow> cut_text cr b))"
    using cut by (auto simp: real_sys_def real_files_def elim!: real_copy_cases)
qed

lemma real_whole_contents:
  assumes "device_laws k devices" and "\<forall>n. fl_write flt n = None"
  shows "content_host cr (real_sys cr k flt says warns) (real_files conf) (real_up devices) conf
    (\<forall>n. fl_read flt n = None) (valid_text cr)"
proof (intro content_host.intro content_host_axioms.intro real_contract [OF assms(1)])
  fix f t s e s' b
  assume "copy_file (real_sys cr k flt says warns) f t s = (Inl e, s')" "f \<in> managed conf" "t \<in> managed conf"
    "real_files conf s' t = Some b"
  then show "real_files conf s t = Some b \<or> (\<exists>c. real_files conf s f = Some c \<and> (valid_text cr c \<longrightarrow> valid_text cr b))"
    using assms(2) by (auto simp: real_sys_def real_files_def elim!: real_copy_cases)
qed

section \<open>Property\<close>

text \<open>
  C23. Over any number of turns of the daemon on the real host, whatever the bucket answers and
  whichever calls of the host fail, the configuration file and its backup hold nothing but
  files the strict parser accepts, or the beginning of one, left by a copy that was cut short;
  and if no writing call fails, only files it accepts.  (A host that starts so stays so, until
  the process is killed.)
\<close>
theorem daemon_keeps_valid_files:
  assumes "device_laws k devices"
    and "\<forall>tn\<in>set tns. undisturbed cr from_str (real_files conf) conf tn"
    and "holds_only (valid_text cr) conf (real_files conf host)"
  shows "case daemon_loop (\<lambda>su. run_sync_pass cr js from_str su st (real_sys cr k flt says warns) override force)
      i False tns (bucket, host) of
    ((_, stat), _, host') \<Rightarrow> stat \<noteq> Killed \<longrightarrow>
      holds_only (cut_text cr) conf (real_files conf host') \<and>
      ((\<forall>n. fl_write flt n = None) \<longrightarrow> holds_only (valid_text cr) conf (real_files conf host'))"
proof -
  note cut = content_host.valid_fine [OF real_contents [OF assms(1)]]
  have start: "holds_only (cut_text cr) conf (real_files conf host)"
    using assms(3) cut unfolding holds_only_def by blast
  show ?thesis
    by (auto split: prod.splits
        intro: content_host.daemon_held [OF real_contents [OF assms(1)] assms(2) start]
          content_host.daemon_held [OF real_whole_contents [OF assms(1)] assms(2,3)])
qed

end
