(* ===== verification/Client_Storage.thy ===== *)
theory Client_Storage
  imports Storage Sync Client_Config
begin

text \<open>
  \<open>wg-client/src/storage.rs\<close>: the client's read-only view of the bucket, and its in-memory
  stand-in, as values of the type \<open>read_storage\<close> that a sync pass takes.
\<close>

text \<open>The reader is built like the server's client, from the read-only credentials.\<close>

definition r2_read_client_new :: "r2_read_config \<Rightarrow> r2_client" where
  "r2_read_client_new cfg =
     \<lparr>rc_config = \<lparr>sc_access_key_id = rr_access_key_id cfg, sc_secret_access_key = rr_secret_access_key cfg,
         sc_session_token = rr_session_token cfg, sc_provider_name = ''wg-client-config'',
         sc_region = rr_region cfg, sc_endpoint_url = rr_endpoint cfg, sc_force_path_style = True,
         sc_max_attempts = RETRY_MAX_ATTEMPTS\<rparr>,
      rc_bucket = rr_bucket cfg\<rparr>"

text \<open>The two sides reach the same bucket when their files name the same place.\<close>

lemma same_bucket:
  assumes "r2_endpoint c = rr_endpoint d" and "r2_region c = rr_region d" and "r2_bucket c = rr_bucket d"
  shows "(let f = (\<lambda>x. (sc_endpoint_url (rc_config x), sc_region (rc_config x), sc_force_path_style (rc_config x),
      sc_max_attempts (rc_config x), rc_bucket x)) in f (r2_client_new c) = f (r2_read_client_new d))"
  using assms by (simp add: r2_client_new_def r2_read_client_new_def)

text \<open>The answer of a read: the same limits as on the server, but no ETag is needed.\<close>

definition read_interpret :: "string \<Rightarrow> sdk_error + get_response \<Rightarrow> string + string option" where
  "read_interpret key result =
     (case result of
        Inr resp \<Rightarrow>
          and_then (case gr_content_length resp of
              Some len \<Rightarrow>
                if len \<ge> 0 \<and> nat len \<le> MAX_DISCOVERY_JSON_BYTES then Inr ()
                else Inl (''object is '' @ show_int len @ '' bytes, exceeding the ''
                       @ show_nat MAX_DISCOVERY_JSON_BYTES @ '' byte limit'')
            | None \<Rightarrow> Inl ''response had no Content-Length'') (\<lambda>_.
          and_then (gr_body resp) (\<lambda>bytes.
          Inr (Some bytes)))
      | Inl err \<Rightarrow> if is_not_found err then Inr None else Inl (se_text err))"

definition r2_read_object :: "'s sdk \<Rightarrow> 's read_storage" where
  "r2_read_object c key s = (case sdk_get c key s of (r, s') \<Rightarrow> (read_interpret key r, s'))"

section \<open>The in-memory bucket\<close>

type_synonym mock_read_storage = "string \<rightharpoonup> string"

definition mock_read_set :: "string \<Rightarrow> string \<Rightarrow> mock_read_storage \<Rightarrow> mock_read_storage" where
  "mock_read_set key bytes objects = objects(key \<mapsto> bytes)"

definition mock_read_object :: "mock_read_storage read_storage" where
  "mock_read_object key objects = (Inr (objects key), objects)"

text \<open>
  The client hands out an object only if the response reports a length within the limit,
  and takes exactly a 404 for an absent object; every other failure is an error, so a pass
  never mistakes an unreachable bucket for an empty one.
\<close>
theorem client_read_answers:
  "(read_interpret key r = Inr None \<longleftrightarrow> (\<exists>err. r = Inl err \<and> se_status err = Some 404)) \<and>
   (read_interpret key r = Inr (Some b) \<longleftrightarrow>
      (\<exists>resp len. r = Inr resp \<and> gr_content_length resp = Some len \<and> 0 \<le> len \<and>
        nat len \<le> MAX_DISCOVERY_JSON_BYTES \<and> gr_body resp = Inr b))"
  by (cases r) (auto simp: read_interpret_def and_then_Inr_iff is_not_found_def split: option.splits)

end
