(* ===== verification/Sample.thy ===== *)
theory Sample
  imports Render_Total Key_Resolution Real_Host Crash_Recovery Daemon_Files Client_Storage "HOL-Library.Code_Target_Nat"
begin

text \<open>
  A concrete instance of the third-party crates that has all the documented behaviour the
  theorems rely on, and a topology of two nodes, at which the theorems with hypotheses are
  applied.
\<close>

section \<open>The crates\<close>

definition sample_net_show :: "ipv4net \<Rightarrow> string" where
  "sample_net_show n = show_ipv4 (net_addr n) @ ''/'' @ show_nat (net_prefix_len n)"

definition sample_net_parse :: "string \<Rightarrow> ipv4net option" where
  "sample_net_parse s = do {
     (a, p) \<leftarrow> split_once CHR ''/'' s;
     w \<leftarrow> parse_ipv4 a;
     n \<leftarrow> parse_unsigned 33 p;
     Some (Ipv4Net w n)
   }"

definition sample_network :: "ipv4net \<Rightarrow> nat" where
  "sample_network n =
     (if net_prefix_len n = 32 then unat (net_addr n) else unat (net_addr n) div net_hosts n * net_hosts n)"

fun hex_bytes :: "string \<Rightarrow> 8 word list" where
  "hex_bytes (a # b # s) = of_nat (radix_value 16 [a, b]) # hex_bytes s"
| "hex_bytes _ = []"

definition hex_text :: "8 word list \<Rightarrow> string" where
  "hex_text bs = concat (map (\<lambda>w. [hex_char (unat w div 16), hex_char (unat w mod 16)]) bs)"

definition hex_decode :: "string \<Rightarrow> string + 8 word list" where
  "hex_decode s = (let bs = hex_bytes s in if hex_text bs = s then Inr bs else Inl ''not hexadecimal'')"

definition sample_url :: url where
  "sample_url = \<lparr>url_scheme = ''https'', url_host_str = Some ''r2.example'', url_username = [],
     url_password = None, url_query = None, url_fragment = None\<rparr>"

definition pad32 :: "8 word list \<Rightarrow> 8 word list" where
  "pad32 bs = take 32 (bs @ replicate 32 0)"

definition sample_crates :: crates where
  "sample_crates = \<lparr>
     url_parse = (\<lambda>s. if s = ''https://r2.example'' then Some sample_url else None),
     net_parse = sample_net_parse,
     net_show = sample_net_show,
     net_network = (\<lambda>n. of_nat (sample_network n)),
     net_broadcast = (\<lambda>n. of_nat (sample_network n + (net_hosts n - 1))),
     net_contains = (\<lambda>n a. of_nat (sample_network n) \<le> a \<and> a \<le> of_nat (sample_network n + (net_hosts n - 1))),
     b64_encode = hex_text,
     b64_decode = hex_decode,
     x25519_public = (\<lambda>k. pad32 (rotate1 k)),
     sha256 = (\<lambda>s. pad32 [of_nat (length s)]),
     csprng = (\<lambda>k. pad32 [1, of_nat k])\<rparr>"

lemma hex_bytes_text: "hex_bytes (hex_text bs) = bs"
proof (induction bs)
  case (Cons w bs)
  have w: "unat w < 256" using unsigned_less [of w] by simp
  then have d: "unat w div 16 < 16" by simp
  have "radix_value 16 [hex_char (unat w div 16), hex_char (unat w mod 16)] = unat w"
    using d by (simp add: radix_value_def is_digit16_hex_char)
  with Cons show ?case by (simp add: hex_text_def)
qed (simp add: hex_text_def)

lemma hex_char_plain: "d < 16 \<Longrightarrow> plain_char (hex_char d)"
  by (auto simp: hex_char_def plain_char_def byte_char_of)

lemma hex_text_plain: "plain (hex_text bs)"
proof (induction bs)
  case (Cons w bs)
  have "unat w < 256" using unsigned_less [of w] by simp
  then have "unat w div 16 < 16" by simp
  with Cons show ?case by (simp add: hex_text_def hex_char_plain)
qed (simp add: hex_text_def)

lemma sample_parse_show:
  assumes "net_wf n"
  shows "sample_net_parse (sample_net_show n) = Some n"
proof -
  have d: "CHR ''/'' \<notin> set (show_nat k)" for k
    using set_show_nat [of "CHR ''/''" k] by (auto simp: is_ascii_digit_def byte_def)
  then have "CHR ''/'' \<notin> set (show_ipv4 (net_addr n))"
    by (simp add: show_ipv4_def)
  then have "split_once CHR ''/'' (sample_net_show n) = Some (show_ipv4 (net_addr n), show_nat (net_prefix_len n))"
    by (simp add: sample_net_show_def split_once_append)
  with assms show ?thesis
    by (cases n) (simp add: sample_net_parse_def parse_unsigned_show_nat net_wf_def)
qed

lemma sample_network_bound:
  assumes "net_wf n"
  shows "sample_network n + (net_hosts n - 1) < 2 ^ 32"
proof -
  let ?h = "net_hosts n" and ?a = "unat (net_addr n)"
  have h: "2 ^ 32 = ?h * 2 ^ net_prefix_len n" "0 < ?h"
    using assms by (simp_all add: net_hosts_def net_wf_def flip: power_add)
  have "?a < 2 ^ LENGTH(32)" by (rule unsigned_less)
  then have "?a < 2 ^ net_prefix_len n * ?h" using h(1) by (simp add: mult.commute)
  then have "?a div ?h < 2 ^ net_prefix_len n" by (rule less_mult_imp_div_less)
  then have "(?a div ?h + 1) * ?h \<le> 2 ^ net_prefix_len n * ?h" by (intro mult_right_mono) simp_all
  then have "?a div ?h * ?h + (?h - 1) < 2 ^ 32" using h by (simp add: algebra_simps)
  moreover have "?h = 1" if "net_prefix_len n = 32" using that by (simp add: net_hosts_def)
  ultimately show ?thesis by (auto simp: sample_network_def)
qed

lemma sample_laws:
  "ipnet_text sample_crates" "ipnet_parses_wf sample_crates" "ipnet_ranges sample_crates"
  "ipnet_contains sample_crates" "b64_roundtrip sample_crates" "b64_canonical sample_crates"
  "random_32 sample_crates" "sha256_32 sample_crates" "x25519_32 sample_crates"
proof -
  show "ipnet_text sample_crates"
    by (simp add: ipnet_text_def sample_crates_def sample_parse_show) (simp add: sample_net_show_def)
  show "ipnet_parses_wf sample_crates"
    by (auto simp: ipnet_parses_wf_def sample_crates_def sample_net_parse_def net_wf_def
        split: Option.bind_splits prod.splits dest!: parse_unsigned_bound)
  have "unat (of_nat (sample_network n) :: 32 word) = sample_network n \<and>
      unat (of_nat (sample_network n + (net_hosts n - 1)) :: 32 word) = sample_network n + (net_hosts n - 1)"
    if "net_wf n" for n
    using sample_network_bound [OF that] by (intro conjI unat_of_nat_small) simp_all
  then show "ipnet_ranges sample_crates"
    by (simp add: ipnet_ranges_def sample_crates_def) (simp add: sample_network_def net_hosts_def)
  show "ipnet_contains sample_crates" by (simp add: ipnet_contains_def sample_crates_def)
  have "hex_text bs \<noteq> []" if "bs \<noteq> []" for bs using that by (cases bs) (simp_all add: hex_text_def)
  then show "b64_roundtrip sample_crates"
    by (simp add: b64_roundtrip_def sample_crates_def hex_decode_def hex_bytes_text hex_text_plain)
  show "b64_canonical sample_crates"
    by (auto simp: b64_canonical_def sample_crates_def hex_decode_def Let_def split: if_splits)
  show "random_32 sample_crates" "sha256_32 sample_crates" "x25519_32 sample_crates"
    by (auto simp: random_32_def sha256_32_def x25519_32_def sample_crates_def pad32_def min_def)
qed

section \<open>A topology of two nodes\<close>

definition sample_node :: "string \<Rightarrow> string \<Rightarrow> string option \<Rightarrow> string list \<Rightarrow> node_config" where
  "sample_node h a ep rs = \<lparr>nc_hostname = h, nc_wg_config = \<lparr>wg_tunnel_address = a,
     wg_listen_port = 51820, wg_endpoint = ep, wg_dns = None, wg_mtu = Some 1420,
     wg_extra_allowed_ips = rs, wg_persistent_keepalive = None\<rparr>\<rparr>"

definition sample_config :: topology_config where
  "sample_config = \<lparr>tc_r2_config = \<lparr>r2_endpoint = ''https://r2.example'', r2_access_key_id = ''id'',
       r2_secret_access_key = ''secret'', r2_session_token = None, r2_region = ''auto'', r2_bucket = ''b''\<rparr>,
     tc_nodes = [sample_node ''hub'' ''10.0.0.1/32'' (Some ''hub.example:51820'') [],
       sample_node ''a'' ''10.0.0.2/32'' None []],
     tc_master = [''hub'']\<rparr>"

definition sample_topology :: validated_topology where
  "sample_topology = \<lparr>vt_nodes =
     [\<lparr>vn_hostname = ''a'', vn_tunnel_address = 0x0A000002, vn_listen_port = 51820, vn_endpoint = None,
       vn_dns = None, vn_mtu = Some 1420, vn_extra_allowed_ips = [], vn_persistent_keepalive = None\<rparr>,
      \<lparr>vn_hostname = ''hub'', vn_tunnel_address = 0x0A000001, vn_listen_port = 51820,
       vn_endpoint = Some ''hub.example:51820'', vn_dns = None, vn_mtu = Some 1420,
       vn_extra_allowed_ips = [], vn_persistent_keepalive = None\<rparr>],
     vt_masters = [''hub'']\<rparr>"

lemma sample_validates: "topology_validate sample_crates sample_config = Inr (sample_topology, [])"
  by code_simp

lemma sample_topology_ok: "topology_ok sample_crates sample_topology"
  by (rule topology_validate_ok [OF sample_validates])

definition sample_keypair :: "nat \<Rightarrow> string \<times> string" where
  "sample_keypair k = key_pair_text sample_crates \<lparr>secret = csprng sample_crates k\<rparr>"

definition sample_keys :: resolved_keys where
  "sample_keys = \<lparr>node_keys = [(''a'', sample_keypair 1), (''hub'', sample_keypair 2)],
     edge_psks = [((''a'', ''hub''), encode_key sample_crates (csprng sample_crates 3))]\<rparr>"

lemma sample_keys_text: "keys_text sample_keys"
proof -
  have "key_text (encode_key sample_crates bs)" if "bs \<noteq> []" for bs
    using that sample_laws(5) encode_key_plain encode_key_nonempty by (simp add: key_text_def)
  moreover have "csprng sample_crates k \<noteq> []" "x25519_public sample_crates bs \<noteq> []" for k bs
    by (simp_all add: sample_crates_def pad32_def)
  ultimately show ?thesis
    by (auto simp: keys_text_def sample_keys_def sample_keypair_def key_pair_text_def bt_get_def
        private_key_base64_def public_key_base64_def public_key_bytes_def split: if_splits)
qed

lemma sample_edges: "edges sample_topology = [(''a'', ''hub'')]"
  by code_simp

lemma sample_key_ok: "key_ok (csprng sample_crates k)" "key_ok (x25519_public sample_crates (csprng sample_crates k))"
proof -
  have "pad32 [1, of_nat k] = 1 # of_nat k # replicate 30 0" by (simp add: pad32_def)
  moreover have "rotate1 (1 # of_nat k # replicate 30 0) = of_nat k # replicate 30 0 @ [1 :: 8 word]" by simp
  moreover have "pad32 (of_nat k # replicate 30 0 @ [1]) = of_nat k # replicate 30 0 @ [1]"
    by (simp add: pad32_def)
  moreover have "of_nat k # replicate 30 0 @ [1] \<noteq> replicate 32 (0 :: 8 word)"
    by (simp add: numeral_eq_Suc)
  moreover have "1 # of_nat k # replicate 30 0 \<noteq> replicate 32 (0 :: 8 word)"
    by (simp add: numeral_eq_Suc)
  ultimately show "key_ok (csprng sample_crates k)" "key_ok (x25519_public sample_crates (csprng sample_crates k))"
    by (simp_all add: key_ok_def KEY_LEN_def sample_crates_def)
qed

lemma sample_keys_valid: "keys_valid sample_crates sample_topology sample_keys"
proof -
  note dec = decode_encode_key [OF sample_laws(5)] and ok = sample_key_ok
  have pair: "node_key_valid sample_crates (sample_keypair k)" for k
    using dec [OF ok(1)] dec [OF ok(2)]
    by (simp add: node_key_valid_def sample_keypair_def key_pair_text_def private_key_base64_def
        public_key_base64_def public_key_bytes_def validate_key_bytes_def validate_public_key_def
        public_key_from_private_Inr)
  then have pair': "\<exists>a b. sample_keypair k = (a, b) \<and> node_key_valid sample_crates (a, b)" for k
    by (metis prod.exhaust)
  have pubs: "snd (sample_keypair 1) \<noteq> snd (sample_keypair 2)" by code_simp
  have psk: "is_ok (validate_preshared_key sample_crates (encode_key sample_crates (csprng sample_crates 3)))"
    using dec [OF ok(1)] by (simp add: validate_preshared_key_def)
  show ?thesis
    unfolding keys_valid_def sample_edges
    using sample_keys_text pair' pubs psk
    by (auto simp: sample_topology_def sample_keys_def bt_get_def split: if_splits)
qed

lemma sample_hub: "node sample_topology ''hub'' = Some (vt_nodes sample_topology ! 1)"
  and sample_a: "node sample_topology ''a'' = Some (vt_nodes sample_topology ! 0)"
  by code_simp+

definition sample_text :: "string \<Rightarrow> nat \<Rightarrow> nat \<Rightarrow> string" where
  "sample_text h i k = text_of (rendered_lines sample_crates sample_topology sample_keys h
     (vt_nodes sample_topology ! i) (fst (sample_keypair k)))"

lemma sample_text_short:
  "length (sample_text ''hub'' 1 2) \<le> MAX_RENDERED_CONFIG_BYTES"
  "length (sample_text ''a'' 0 1) \<le> MAX_RENDERED_CONFIG_BYTES"
  by code_simp+

section \<open>Witnesses\<close>

lemma edges_hub_and_spoke_witness:
  "bs_wf (edges sample_topology) \<and> (''a'', ''hub'') \<in> set (edges sample_topology)"
  using edges_hub_and_spoke [OF sample_topology_ok] by (simp add: sample_edges)

lemma render_total_witness:
  "\<exists>priv pub out. bt_get (node_keys sample_keys) ''hub'' = Some (priv, pub) \<and>
    out = text_of (rendered_lines sample_crates sample_topology sample_keys ''hub''
      (vt_nodes sample_topology ! 1) priv) \<and>
    render_node_config sample_crates sample_topology sample_keys ''hub'' =
      (if length out > MAX_RENDERED_CONFIG_BYTES then Inl (RenderTooLarge ''hub'' (length out)) else Inr out)"
  by (rule render_total [OF sample_validates sample_laws(1,2,3) sample_keys_valid sample_hub])

lemma sample_renders:
  "render_node_config sample_crates sample_topology sample_keys ''hub'' = Inr (sample_text ''hub'' 1 2)"
  "render_node_config sample_crates sample_topology sample_keys ''a'' = Inr (sample_text ''a'' 0 1)"
proof -
  note r = render_node_total [OF sample_validates sample_laws(1,2,3) sample_keys_valid]
  have "bt_get (node_keys sample_keys) ''hub'' = Some (sample_keypair 2)"
    "bt_get (node_keys sample_keys) ''a'' = Some (sample_keypair 1)"
    by (simp_all add: sample_keys_def bt_get_def)
  then have "bt_get (node_keys sample_keys) ''hub'' = Some (fst (sample_keypair 2), snd (sample_keypair 2))"
    "bt_get (node_keys sample_keys) ''a'' = Some (fst (sample_keypair 1), snd (sample_keypair 1))"
    by simp_all
  from r [OF sample_hub this(1)] r [OF sample_a this(2)] sample_text_short
  show "render_node_config sample_crates sample_topology sample_keys ''hub'' = Inr (sample_text ''hub'' 1 2)"
    "render_node_config sample_crates sample_topology sample_keys ''a'' = Inr (sample_text ''a'' 0 1)"
    by (simp_all add: sample_text_def Let_def not_less)
qed

lemma render_roundtrip_witness:
  "\<exists>n priv pub. node sample_topology ''hub'' = Some n \<and>
    bt_get (node_keys sample_keys) ''hub'' = Some (priv, pub) \<and>
    parse_wg_quick sample_crates (sample_text ''hub'' 1 2)
      = Inr (rendered_for sample_crates sample_topology sample_keys ''hub'' n priv)"
  by (rule render_roundtrip [OF sample_validates sample_laws(1,2) sample_keys_text sample_renders(1)])

lemma edge_configs_agree_witness:
  "\<exists>ca cb. parse_wg_quick sample_crates (sample_text ''a'' 0 1) = Inr ca \<and>
    parse_wg_quick sample_crates (sample_text ''hub'' 1 2) = Inr cb \<and> linked sample_keys ''a'' ''hub'' ca cb"
  by (rule edge_configs_agree [OF sample_validates sample_laws(1,2) sample_keys_text _ sample_renders(2,1)])
    (simp add: sample_edges)

lemma resolve_keys_exact_witness:
  "case resolve_keys sample_crates sample_topology [] RotateAll 7 of
     (Inl e, n') \<Rightarrow> keys_error sample_crates sample_topology [] RotateAll 7 e
   | (Inr kr, n') \<Rightarrow> keys_spec sample_crates sample_topology [] RotateAll 7 n' kr"
  by (rule resolve_keys_exact [OF sample_topology_ok])

definition hooked_file :: string where
  "hooked_file = ''[Interface]'' @ [CHR 0x0A] @ ''PostUp = reboot''"

lemma no_hooks_witness: "\<not> is_ok (parse_wg_quick sample_crates hooked_file)"
proof (rule no_hooks)
  show "''PostUp = reboot'' \<in> set (split CHR 0x0A hooked_file)" by (simp add: hooked_file_def)
  show "directive ''PostUp = reboot'' ''PostUp''"
    by (simp add: directive_def stripped_def trim_matches_id starts_with_def) code_simp
  show "''PostUp'' \<notin> set INTERFACE_ALLOWED \<union> set PEER_ALLOWED"
    by (simp add: INTERFACE_ALLOWED_def PEER_ALLOWED_def)
qed

text \<open>A client whose interface has the file of the sample node, through two turns of the daemon.\<close>

definition sample_host :: mock_system where
  "sample_host = \<lparr>my_files = [(''/etc/wg/wg0.conf'', sample_text ''a'' 0 1)], my_up_interfaces = [''wg0''],
     my_fail_next_apply = 1, my_fail_next_teardown = 0, my_fail_next_write = 0, my_fail_next_preflight = 0,
     my_calls = []\<rparr>"

definition sample_client_config :: client_config where
  "sample_client_config = \<lparr>cc_r2_config = \<lparr>rr_endpoint = ''https://r2.example'', rr_access_key_id = ''id'',
       rr_secret_access_key = ''secret'', rr_session_token = None, rr_region = ''auto'', rr_bucket = ''b''\<rparr>,
     cc_conf_path = ''/etc/wg/wg0.conf''\<rparr>"

definition sample_turn :: "wake \<Rightarrow> (mock_read_storage \<times> 'o) turn" where
  "sample_turn wk = \<lparr>tn_surroundings = \<lparr>su_config_text = Inr ''{}'', su_env_hostname = None,
       su_system_hostname = Inr ''a'', su_lock_dir = Inr (), su_lock_open = (\<lambda>_. Inr ()), su_try_lock = (\<lambda>_. Inr ())\<rparr>,
     tn_interrupt = None, tn_nanos = 5, tn_wake = wk, tn_meanwhile = (\<lambda>w. w)\<rparr>"

definition sample_serde :: client_serde where
  "sample_serde = \<lparr>cs_current = (\<lambda>_. Inl ''not a pointer''), cs_state_from = (\<lambda>_. None),
     cs_state_to = (\<lambda>st. Inr (if ls_pending st then ''pending'' else ''settled''))\<rparr>"

lemma sample_text_ascii: "ascii (sample_text ''a'' 0 1)"
  by code_simp

text \<open>The real host with this file, and with calls that fail: the third writing call is cut short.\<close>

definition sample_machine :: "string list machine" where
  "sample_machine = \<lparr>mc_files = on_disk [''/etc/wg/wg0.conf'' \<mapsto> sample_text ''a'' 0 1], mc_kernel = [''wg0''],
     mc_calls = 0\<rparr>"

definition no_faults :: faults where
  "no_faults = \<lparr>fl_write = (\<lambda>_. None), fl_read = (\<lambda>_. None)\<rparr>"

definition sample_faults :: faults where
  "sample_faults = \<lparr>fl_write = (\<lambda>n. if n = 2 then Some (7, ''no space left on device'') else None),
     fl_read = (\<lambda>n. if n = 1 then Some ''input/output error'' else None)\<rparr>"

abbreviation sample_real :: "faults \<Rightarrow> string list machine system_ops" where
  "sample_real flt \<equiv> real_sys sample_crates plain_kernel flt (\<lambda>_. ''host'') (\<lambda>_. ''preflight'')"

lemma daemon_keeps_valid_files_witness:
  "holds_only (valid_text sample_crates) ''/etc/wg/wg0.conf'' (real_files ''/etc/wg/wg0.conf'' (snd (snd
    (daemon_loop (\<lambda>su. run_sync_pass sample_crates sample_serde (\<lambda>_. Inr sample_client_config) su
      (\<lambda>_. mock_read_object) (sample_real no_faults) None False) 86400 False
      [sample_turn Slept, sample_turn Sigterm] (Map.empty, sample_machine)))))"
proof -
  let ?conf = "''/etc/wg/wg0.conf''"
  let ?pass = "\<lambda>su. run_sync_pass sample_crates sample_serde (\<lambda>_. Inr sample_client_config) su
      (\<lambda>_. mock_read_object) (sample_real no_faults) None False"
  have u: "\<forall>tn\<in>set [sample_turn Slept, sample_turn Sigterm].
      undisturbed sample_crates (\<lambda>_. Inr sample_client_config) (real_files ?conf) ?conf tn"
    by (auto simp: undisturbed_def sample_turn_def client_config_parse_def and_then_Inr_iff Let_def
        sample_client_config_def)
  have "is_ok (parse_wg_quick sample_crates (sample_text ''a'' 0 1))"
    using render_parses_back [OF sample_validates sample_laws(1,2) sample_keys_text sample_renders(2)]
    by (auto simp: is_ok_iff)
  then have v: "holds_only (valid_text sample_crates) ?conf (real_files ?conf sample_machine)"
    using from_utf8_lossy_valid [OF utf8_valid_ascii [OF sample_text_ascii]]
    by (simp add: holds_only_def valid_text_def sample_machine_def real_files_def backup_path_for_def append_suffix_def)
  obtain logs stat b h where d: "daemon_loop ?pass 86400 False [sample_turn Slept, sample_turn Sigterm]
      (Map.empty, sample_machine) = ((logs, stat), b, h)" by (metis prod.exhaust)
  have "stat \<noteq> Killed" by (rule daemon_not_killed [OF _ d]) (simp add: sample_turn_def)
  moreover have "\<forall>n. fl_write no_faults n = None" by (simp add: no_faults_def)
  ultimately show ?thesis
    using daemon_keeps_valid_files [OF plain_kernel_laws u v, where js = sample_serde and flt = no_faults
      and st = "\<lambda>_. mock_read_object" and override = None and force = False and i = 86400
      and says = "\<lambda>_. ''host''" and warns = "\<lambda>_. ''preflight''" and bucket = Map.empty]
    unfolding d prod.case snd_conv by blast
qed


lemma real_write_durable_witness:
  "fs_view (mc_files (snd (real_write_file_atomic no_faults ''/etc/wg/wg0.conf'' ''new'' sample_machine)))
      ''/etc/wg/wg0.conf'' = Some ''new'' \<and>
   (\<forall>c. may_remain (mc_files (snd (real_write_file_atomic no_faults ''/etc/wg/wg0.conf'' ''new'' sample_machine)))
      ''/etc/wg/wg0.conf'' c \<longleftrightarrow> c = Some ''new'')"
proof -
  have "dir_of ''/etc/wg/wg0.conf'' \<noteq> None" by code_simp
  moreover have "is_ok (fst (real_write_file_atomic no_faults ''/etc/wg/wg0.conf'' ''new'' sample_machine))"
    by (simp add: real_write_file_atomic_def io_then_def file_call_def no_faults_def Let_def)
  ultimately show ?thesis
    using real_write_durable [where flt = no_faults and p = "''/etc/wg/wg0.conf''" and b = "''new''" and m = sample_machine]
    by (simp add: no_faults_def split: prod.splits)
qed

text \<open>A format for the local state that can be read back, and a pass interrupted after its third change.\<close>

definition put_string :: "string \<Rightarrow> string" where
  "put_string s = concat (map (\<lambda>c. [CHR ''.'', c]) s) @ '';''"

fun take_string :: "string \<Rightarrow> (string \<times> string) option" where
  "take_string (a # c # r) = (if a = CHR '';'' then Some ([], c # r)
     else map_option (\<lambda>(s, r). (c # s, r)) (take_string r))"
| "take_string [a] = (if a = CHR '';'' then Some ([], []) else None)"
| "take_string [] = None"

lemma take_put: "take_string (put_string s @ r) = Some (s, r)"
  by (induction s; cases r) (simp_all add: put_string_def)

definition put_option :: "string option \<Rightarrow> string" where
  "put_option x = (case x of None \<Rightarrow> ''-'' | Some s \<Rightarrow> CHR ''+'' # put_string s)"

definition take_option :: "string \<Rightarrow> (string option \<times> string) option" where
  "take_option b = (case b of [] \<Rightarrow> None | a # r \<Rightarrow>
     if a = CHR ''-'' then Some (None, r) else map_option (\<lambda>(s, r). (Some s, r)) (take_string r))"

lemma take_put_option: "take_option (put_option x @ r) = Some (x, r)"
  by (cases x) (simp_all add: take_option_def put_option_def take_put)

definition flag :: "bool \<Rightarrow> char" where
  "flag b = (if b then CHR ''1'' else CHR ''0'')"

definition state_text :: "local_state \<Rightarrow> string" where
  "state_text st = flag (ls_pending st) # flag (ls_had_backup_before_pending st) #
     put_string (ls_hostname st) @ put_option (ls_applied_generation_id st) @ put_option (ls_applied_digest st)"

definition text_state :: "string \<Rightarrow> local_state option" where
  "text_state b = (case b of p # h # r \<Rightarrow>
       Option.bind (take_string r) (\<lambda>(name, r). Option.bind (take_option r) (\<lambda>(gid, r).
       Option.bind (take_option r) (\<lambda>(digest, r).
         Some \<lparr>ls_hostname = name, ls_applied_generation_id = gid, ls_applied_digest = digest,
           ls_pending = (p = CHR ''1''), ls_had_backup_before_pending = (h = CHR ''1'')\<rparr>)))
     | _ \<Rightarrow> None)"

definition sample_state_serde :: client_serde where
  "sample_state_serde = \<lparr>cs_current = (\<lambda>_. Inl ''not a pointer''), cs_state_from = text_state,
     cs_state_to = (\<lambda>st. Inr (state_text st))\<rparr>"

lemma sample_state_roundtrip: "state_roundtrip sample_state_serde"
  using take_put_option [of _ "[]"]
  by (simp add: state_roundtrip_def sample_state_serde_def state_text_def text_state_def take_put take_put_option
      flag_def)

lemma crash_recovery_witness:
  "case run_once sample_crates sample_state_serde mock_read_object (halting (mock_sys sample_crates))
      ''a'' ''wg0'' ''/etc/wg/wg0.conf'' False ''r2.example'' (Map.empty, (sample_host, 3)) of
    (_, _, (crashed, _)) \<Rightarrow>
      (case local_phase sample_crates sample_state_serde (mock_sys sample_crates) ''wg0'' ''/etc/wg/wg0.conf''
          (rebooted crashed) of ((state, _), host1) \<Rightarrow>
        ls_pending state = False \<and>
        (mock_files host1 ''/etc/wg/wg0.conf'' =
            recovered sample_state_serde ''/etc/wg/wg0.conf'' (mock_files sample_host) \<or>
          (\<exists>gid digest bytes. fst (discover_and_download sample_crates sample_state_serde mock_read_object ''a'' Map.empty)
              = Inr (gid, digest, bytes) \<and>
            is_ok (parse_wg_quick sample_crates (from_utf8_lossy bytes)) \<and>
            mock_files host1 ''/etc/wg/wg0.conf'' = Some bytes)) \<and>
        (''wg0'' \<in> mock_up host1) = (my_fail_next_apply crashed = 0 \<and>
          (\<exists>c. mock_files host1 ''/etc/wg/wg0.conf'' = Some c \<and>
            is_ok (parse_wg_quick sample_crates (from_utf8_lossy c)))))"
  by (rule crash_recovery [OF sample_state_roundtrip])

end
