(* ===== verification/Sample_Deploy.thy ===== *)
theory Sample_Deploy
  imports Sample Network
begin

text \<open>
  An instance of everything the two programs rely on together: a reader for the pointers the server
  writes, an empty bucket and a fresh host.  The deployment theorems are applied there.
\<close>

section \<open>Reading a pointer back\<close>

text \<open>Names and texts stand between quotes; what stands between them tells the structure.\<close>

fun take_nodes :: "string list \<Rightarrow> (string \<times> string) list \<times> string list" where
  "take_nodes (h # c # d # sep # r) =
     (if sep = '','' then case take_nodes r of (ns, r') \<Rightarrow> ((h, d) # ns, r') else ([(h, d)], r))"
| "take_nodes r = ([], r)"

definition take_entry :: "string list \<Rightarrow> generation_entry option \<times> string list" where
  "take_entry ts = (case ts of
     opening # a # b # gid # c # d # e # r \<Rightarrow>
       if opening = '':{'' then case take_nodes r of (ns, r') \<Rightarrow> (Some \<lparr>ge_id = gid, ge_nodes = ns\<rparr>, r')
       else (None, tl ts)
   | _ \<Rightarrow> (None, tl ts))"

definition text_pointer :: "string \<Rightarrow> string + current_json" where
  "text_pointer doc = (case split CHR 0x22 doc of
     a # b # c # d # e # revis # f # g # r \<Rightarrow>
       (case take_entry r of (current, r') \<Rightarrow>
          Inr \<lparr>schema_version = SCHEMA_VERSION, revision = revis, cur = current, prev = fst (take_entry (tl r'))\<rparr>)
   | _ \<Rightarrow> Inl ''not a pointer'')"

lemma split_append: "d \<notin> set a \<Longrightarrow> split d b = t # ts \<Longrightarrow> split d (a @ b) = (a @ t) # ts"
  by (induction a) auto

lemma quoted: "concat (quote (lits s)) = CHR 0x22 # s @ [CHR 0x22]"
  by (induction s) (simp_all add: quote_def lits_def)

lemma split_quoted: "json_safe s \<Longrightarrow> split CHR 0x22 (s @ CHR 0x22 # b) = s # split CHR 0x22 b"
  by (rule split_append_sep) (auto simp: json_safe_def list_all_iff)

definition nodes_text :: "(string \<times> string) list \<Rightarrow> string" where
  "nodes_text ns = concat (separated (map (\<lambda>(h, d). quote (lits h) @ '':'' # quote (lits d)) ns))"

lemma nodes_text_Cons:
  "nodes_text ((h, d) # ns) = CHR 0x22 # h @ CHR 0x22 # '':'' @ CHR 0x22 # d @ CHR 0x22 #
     (if ns = [] then [] else CHR '','' # nodes_text ns)"
  by (cases ns) (simp_all add: nodes_text_def quoted)

lemma take_nodes_text:
  assumes "\<forall>(h, d)\<in>set ns. json_safe h \<and> json_safe d" and "ns \<noteq> []" and "split CHR 0x22 b = t # ts" and "t \<noteq> '',''"
  shows "\<exists>us. split CHR 0x22 (nodes_text ns @ b) = [] # us \<and> take_nodes us = (ns, ts)"
  using assms(1,2)
proof (induction ns)
  case (Cons x ns)
  obtain h d where x: "x = (h, d)" by fastforce
  with Cons.prems have safe: "json_safe h" "json_safe d" by simp_all
  show ?case
  proof (cases "ns = []")
    case True
    then show ?thesis
      using safe assms(3,4) split_append [of "CHR 0x22" "'':''"] by (simp add: x nodes_text_Cons split_quoted)
  next
    case False
    with Cons obtain us where "split CHR 0x22 (nodes_text ns @ b) = [] # us" "take_nodes us = (ns, ts)" by auto
    then show ?thesis
      using safe False by (simp add: x nodes_text_Cons split_quoted)
  qed
qed simp

lemma entry_text:
  "concat (render_json (entry_json g)) = ''{'' @ CHR 0x22 # ''id'' @ CHR 0x22 # '':'' @ CHR 0x22 # ge_id g @
     CHR 0x22 # '','' @ CHR 0x22 # ''nodes'' @ CHR 0x22 # '':{'' @ nodes_text (ge_nodes g) @ ''}}''"
proof -
  have "map (\<lambda>(k, v). quote k @ '':'' # render_json v) (map (\<lambda>(h, d). (lits h, JString (lits d))) ns)
      = map (\<lambda>(h, d). quote (lits h) @ '':'' # quote (lits d)) ns" for ns by (induction ns) auto
  then show ?thesis by (simp add: entry_json_def quoted nodes_text_def del: map_map)
qed

lemma take_option_text:
  assumes "\<And>g. x = Some g \<Longrightarrow> safe_generation g \<and> ge_nodes g \<noteq> []"
    and b: "split CHR 0x22 b = t # ts" "t = [] \<or> hd t \<in> set '',}''"
  shows "\<exists>us. split CHR 0x22 (CHR '':'' # concat (render_json (option_json x)) @ b) = us \<and> take_entry us = (x, ts)"
proof (cases x)
  case None
  have "split CHR 0x22 ('':null'' @ b) = ('':null'' @ t) # ts" by (rule split_append [OF _ b(1)]) simp
  then show ?thesis by (auto simp: None option_json_def atom_def take_entry_def split: list.splits)
next
  case (Some g)
  then have g: "json_safe (ge_id g)" "\<forall>(h, d)\<in>set (ge_nodes g). json_safe h \<and> json_safe d" "ge_nodes g \<noteq> []"
    using assms(1) by (auto simp: safe_generation_def)
  have "split CHR 0x22 (''}}'' @ b) = (''}}'' @ t) # ts" by (rule split_append [OF _ b(1)]) simp
  with take_nodes_text [OF g(2,3) this] obtain us where
    "split CHR 0x22 (nodes_text (ge_nodes g) @ ''}}'' @ b) = [] # us" "take_nodes us = (ge_nodes g, ts)" by auto
  then show ?thesis
    using g(1) by (simp add: Some option_json_def entry_text split_quoted take_entry_def)
qed

lemma text_pointer_reads:
  assumes "discovery_ok p" and "plain_pointer p"
  shows "text_pointer (pointer_text p) = Inr p"
proof -
  let ?q = "CHR 0x22" and ?opt = "\<lambda>x. concat (render_json (option_json x))"
  have ok: "safe_generation g \<and> ge_nodes g \<noteq> []" if "cur p = Some g \<or> prev p = Some g" for g
    using assms that safe_pointerI [OF assms]
    by (auto simp: safe_pointer_def discovery_ok_def generation_ok_def split: option.splits)
  have safe: "json_safe (revision p)" using safe_pointerI [OF assms] by (simp add: safe_pointer_def)
  have v: "schema_version p = SCHEMA_VERSION" using assms(1) by (simp add: discovery_ok_def)
  have "split ?q ''}'' = [''}'']" by simp
  from take_option_text [OF _ this, of "prev p"] ok obtain us where
    p: "split ?q (CHR '':'' # ?opt (prev p) @ ''}'') = us" "take_entry us = (prev p, [])" by auto
  have "split ?q (CHR '','' # ?q # ''previous'' @ ?q # CHR '':'' # ?opt (prev p) @ ''}'') = '','' # ''previous'' # us"
    using p(1) by simp
  from take_option_text [OF _ this, of "cur p"] ok obtain vs where
    c: "split ?q (CHR '':'' # ?opt (cur p) @ CHR '','' # ?q # ''previous'' @ ?q # CHR '':'' # ?opt (prev p) @ ''}'') = vs"
      "take_entry vs = (cur p, ''previous'' # us)" by auto
  have one: "show_nat (unat SCHEMA_VERSION) = ''1''" by code_simp
  have "pointer_text p = ''{'' @ ?q # ''schema_version'' @ ?q # '':1,'' @ ?q # ''revision'' @ ?q # '':'' @ ?q #
      revision p @ ?q # '','' @ ?q # ''current'' @ ?q # CHR '':'' # ?opt (cur p) @
      CHR '','' # ?q # ''previous'' @ ?q # CHR '':'' # ?opt (prev p) @ ''}''"
    using one by (simp add: pointer_text_def pointer_json_def quoted v atom_def)
  then have "split ?q (pointer_text p) = ''{'' # ''schema_version'' # '':1,'' # ''revision'' # '':'' # revision p #
      '','' # ''current'' # vs"
    using c(1) safe by (simp add: split_quoted)
  then show ?thesis using c(2) p(2) v by (simp add: text_pointer_def)
qed

section \<open>The bucket and the hosts\<close>

definition sample_json :: serde where
  "sample_json = \<lparr>from_str = text_pointer, to_vec = pointer_text\<rparr>"

definition sample_options :: apply_options where
  "sample_options = apply_options_default"

definition sample_world :: "mock_storage world" where
  "sample_world = \<lparr>w_store = \<lparr>ms_objects = [], ms_next_etag = 0, ms_fail_next_puts = 0, ms_now = 5\<rparr>, w_draws = 0\<rparr>"

lemma sample_documented: "crates_documented sample_crates"
proof -
  have "key_ok (pad32 (rotate1 bs))" if "key_ok bs" for bs
  proof -
    have len: "length bs = 32" using that by (simp add: key_ok_def KEY_LEN_def)
    then have "pad32 (rotate1 bs) = rotate1 bs" by (simp add: pad32_def)
    moreover have "rotate1 bs = replicate 32 0 \<Longrightarrow> bs = replicate 32 0"
      using len by (metis in_set_replicate replicate_eqI set_rotate1)
    ultimately show ?thesis using that len by (auto simp: key_ok_def KEY_LEN_def)
  qed
  moreover have "x25519_public sample_crates = (\<lambda>k. pad32 (rotate1 k))" by (simp add: sample_crates_def)
  ultimately show ?thesis
    using sample_laws sample_key_ok(1) by (simp add: crates_documented_def x25519_keys_def random_keys_def)
qed

lemma sample_resolves:
  "resolve_keys sample_crates sample_topology [] RotateNone 1 =
    (Inr \<lparr>kr_resolved = sample_keys, kr_reused = [], kr_freshly_keyed = [''a'', ''hub'']\<rparr>, 4)"
  unfolding sample_keys_def sample_keypair_def
  by code_simp

lemma sample_draws: "distinct_draws sample_crates 1 2"
proof -
  have "x25519_public sample_crates (csprng sample_crates 1) \<noteq> x25519_public sample_crates (csprng sample_crates 2)"
    by code_simp
  moreover have "{1..<1 + 2} = {1, 2::nat}" by auto
  ultimately show ?thesis by (simp add: distinct_draws_def)
qed

lemma sample_draws': "distinct_draws sample_crates (Suc (w_draws sample_world)) (length (vt_nodes sample_topology))"
  using sample_draws by (simp add: sample_world_def sample_topology_def numeral_2_eq_2)

lemma sample_empty: "empty_bucket (w_store sample_world)"
  by (simp add: empty_bucket_def sample_world_def mock_objs_def writable_def bt_get_def fun_eq_iff)

lemma sample_utf8: "config_utf8 sample_config"
  by (simp add: config_utf8_def sample_config_def sample_node_def byte_def)

definition sample_client_serde :: client_serde where
  "sample_client_serde = \<lparr>cs_current = text_pointer, cs_state_from = text_state,
     cs_state_to = (\<lambda>st. Inr (state_text st))\<rparr>"

lemma sample_serde_laws: "serde_pointer sample_json sample_client_serde" "state_serializes sample_client_serde"
  "serde_rereads sample_json" "state_roundtrip sample_client_serde"
  using sample_state_roundtrip
  by (simp_all add: serde_pointer_def state_serializes_def serde_rereads_def state_roundtrip_def sample_json_def
      sample_client_serde_def sample_state_serde_def text_pointer_reads)

definition sample_fresh_host :: mock_system where
  "sample_fresh_host = \<lparr>my_files = [], my_up_interfaces = [],
     my_fail_next_apply = 0, my_fail_next_teardown = 0, my_fail_next_write = 0, my_fail_next_preflight = 0,
     my_calls = []\<rparr>"

definition sample_apply :: "(apply_error + apply_report) \<times> mock_storage world" where
  "sample_apply = apply_topology sample_crates sample_json mock 7 sample_config
     (sample_options\<lparr>ao_dry_run := False\<rparr>) sample_world"

lemma sample_files: "is_ok (fold_res (render_all sample_crates sample_topology sample_keys)
    (map vn_hostname (vt_nodes sample_topology)) ([], []))"
proof -
  have "map vn_hostname (vt_nodes sample_topology) = [''a'', ''hub'']" by code_simp
  then show ?thesis using sample_renders by (simp add: render_all_def Let_def)
qed

lemma sample_rotate:
  "check_rotate (map vn_hostname (vt_nodes sample_topology)) (ao_rotate sample_options) = Inr ()"
  by code_simp

lemma sample_applied: "\<exists>rep. sample_apply = (Inr rep, snd sample_apply)"
proof -
  have "resolve_keys sample_crates sample_topology [] (ao_rotate sample_options) (Suc (w_draws sample_world)) =
      (Inr \<lparr>kr_resolved = sample_keys, kr_reused = [], kr_freshly_keyed = [''a'', ''hub'']\<rparr>, 4)"
    using sample_resolves by (simp add: sample_options_def apply_options_default_def sample_world_def)
  from first_apply_outcome [OF sample_documented sample_validates sample_rotate sample_empty this, of sample_json 7] sample_files
  show ?thesis by (auto simp: sample_apply_def is_ok_iff)
qed

section \<open>Witnesses\<close>

lemma resolve_keys_well_typed_witness:
  "case resolve_keys sample_crates sample_topology [] RotateAll 7 of
    (Inl err, _) \<Rightarrow> disagreement err | (Inr kr, _) \<Rightarrow> keys_typed sample_crates sample_topology (kr_resolved kr)"
proof (rule resolve_keys_well_typed [OF sample_topology_ok])
  show "b64_roundtrip sample_crates" "b64_canonical sample_crates" "random_keys sample_crates"
    "x25519_keys sample_crates" using sample_documented by (simp_all add: crates_documented_def)
  show "published_configs sample_crates []" by (simp add: published_configs_def bt_get_def)
qed

lemma first_apply_succeeds_witness:
  "case sample_apply of
      (Inr rep, w') \<Rightarrow> ar_published rep
    | (Inl e, w') \<Rightarrow> \<exists>h len. e = RenderErr (RenderTooLarge h len) \<and> len > MAX_RENDERED_CONFIG_BYTES"
  unfolding sample_apply_def
  by (rule first_apply_succeeds [OF sample_documented sample_laws(3) sample_validates sample_rotate sample_empty
      sample_draws'])

lemma apply_then_sync_witness:
  "\<exists>t ws keys n priv rendered. topology_validate sample_crates sample_config = Inr (t, ws) \<and>
    keys_typed sample_crates t keys \<and>
    render_node_config sample_crates t keys ''a'' = Inr rendered \<and> node t ''a'' = Some n \<and>
    parse_wg_quick sample_crates rendered = Inr (rendered_for sample_crates t keys ''a'' n priv) \<and>
    (case run_once sample_crates sample_client_serde bucket_reader (mock_sys sample_crates) ''a'' ''wg0''
        ''/etc/wg/wg0.conf'' False ''r2.example'' (w_store (snd sample_apply), sample_fresh_host) of
      (outcome, bucket, host') \<Rightarrow>
        so_error outcome = None \<and> bucket = w_store (snd sample_apply) \<and> ''wg0'' \<in> mock_up host' \<and>
        ((\<exists>b. mock_files host' ''/etc/wg/wg0.conf'' = Some b \<and>
            digest_of sample_crates b = digest_of sample_crates rendered \<and> valid_bytes sample_crates b) \<or>
         \<not> False \<and> so_no_op outcome \<and>
           ls_applied_digest (fst (fst (local_phase sample_crates sample_client_serde (mock_sys sample_crates)
             ''wg0'' ''/etc/wg/wg0.conf'' sample_fresh_host))) = Some (digest_of sample_crates rendered)))"
proof -
  obtain rep where r: "sample_apply = (Inr rep, snd sample_apply)" using sample_applied by blast
  have w: "pointer_entry sample_json (earlier_pointer sample_crates) (mock_objs (w_store sample_world))"
    using sample_empty by (simp add: pointer_entry_def empty_bucket_def)
  have h: "''a'' \<in> nc_hostname ` set (tc_nodes sample_config)" by (simp add: sample_config_def sample_node_def)
  have f: "no_injected_failures sample_fresh_host" by (simp add: no_injected_failures_def sample_fresh_host_def)
  show ?thesis
    by (rule apply_then_sync [OF sample_documented sample_serde_laws(1) sample_utf8 w r [unfolded sample_apply_def]
        h f sample_serde_laws(2), folded sample_apply_def])
qed

lemma reapply_publishes_nothing_witness:
  "list_all (\<lambda>r. \<exists>later. r = Inr later \<and> \<not> ar_published later \<and> ar_uploaded_hostnames later = [] \<and>
      ar_freshly_keyed_hostnames later = [] \<and>
      ar_reused_hostnames later = map vn_hostname (vt_nodes sample_topology))
    (fst (routine_applies sample_crates sample_json sample_config [(100, 900), (2000, 0)] (snd sample_apply)))"
proof -
  obtain rep where r: "sample_apply = (Inr rep, snd sample_apply)" using sample_applied by blast
  show ?thesis
    by (rule reapply_publishes_nothing [OF sample_documented sample_validates sample_utf8 sample_serde_laws(3)
        sample_rotate sample_empty sample_draws' r [unfolded sample_apply_def], folded sample_apply_def])
qed

lemma sample_settled:
  "\<exists>keys. generation_settled sample_crates sample_json sample_topology keys (w_store (snd sample_apply))"
proof -
  obtain rep where r: "sample_apply = (Inr rep, snd sample_apply)" using sample_applied by blast
  show ?thesis
    by (rule first_apply_settles [OF sample_documented sample_validates sample_rotate sample_empty sample_draws'
        r [unfolded sample_apply_def], folded sample_apply_def])
qed

lemma sample_fresh: "fresh_machine sample_fresh_host"
  by (simp add: fresh_machine_def no_injected_failures_def sample_fresh_host_def mock_files_def get_file_def
      bt_get_def fun_eq_iff)

lemma sync_idempotent_witness:
  "case run_once sample_crates sample_client_serde bucket_reader (mock_sys sample_crates) ''hub'' ''wg0''
      ''/etc/wg/wg0.conf'' True ''r2.example'' (w_store (snd sample_apply), sample_fresh_host) of
    (outcome, bucket1, host1) \<Rightarrow> so_error outcome = None \<and>
      (case run_once sample_crates sample_client_serde bucket_reader (mock_sys sample_crates) ''hub'' ''wg0''
          ''/etc/wg/wg0.conf'' False ''r2.example'' (bucket1, host1) of
        (outcome2, bucket2, host2) \<Rightarrow> outcome2 = sync_outcome_default\<lparr>so_no_op := True\<rparr> \<and>
          bucket2 = w_store (snd sample_apply) \<and>
          mock_files host2 = mock_files host1 \<and> mock_up host2 = mock_up host1)"
proof -
  obtain keys where s: "generation_settled sample_crates sample_json sample_topology keys (w_store (snd sample_apply))"
    using sample_settled by blast
  have h: "''hub'' \<in> vn_hostname ` set (vt_nodes sample_topology)" by (simp add: sample_topology_def)
  obtain gid b where b: "render_node_config sample_crates sample_topology keys ''hub'' = Inr b"
    "discover_and_download sample_crates sample_client_serde bucket_reader ''hub'' (w_store (snd sample_apply)) =
      (Inr (gid, digest_of sample_crates b, b), w_store (snd sample_apply))"
    by (rule discover_settled [OF sample_serde_laws(1) s h])
  have "keys_text keys" using s by (simp add: generation_settled_def keys_typed_def)
  with rendered_utf8 [OF sample_validates sample_laws(1,2) _ sample_utf8 b(1)] have "from_utf8_lossy b = b"
    by (simp add: from_utf8_lossy_valid)
  then have ok: "is_ok (parse_wg_quick sample_crates (from_utf8_lossy b))" using render_node_valid [OF b(1)] by simp
  have f: "no_injected_failures sample_fresh_host" using sample_fresh by (simp add: fresh_machine_def)
  show ?thesis by (rule sync_idempotent [OF f sample_serde_laws(2,4) b(2) ok])
qed

lemma network_comes_up_witness:
  "case run_once sample_crates sample_client_serde bucket_reader (mock_sys sample_crates) ''a'' ''wg0''
      ''/etc/wg/wg0.conf'' False ''r2.example''
      (w_store (snd (routine_applies sample_crates sample_json sample_config [(100, 900)] (snd sample_apply))),
        sample_fresh_host) of (outcome_a, bucket_a, host_a') \<Rightarrow>
    (case run_once sample_crates sample_client_serde bucket_reader (mock_sys sample_crates) ''hub'' ''wg1''
        ''/etc/wg/wg1.conf'' True ''r2.example'' (bucket_a, sample_fresh_host) of
      (outcome_b, bucket_b, host_b') \<Rightarrow>
        so_error outcome_a = None \<and> ''wg0'' \<in> mock_up host_a' \<and> so_error outcome_b = None \<and> ''wg1'' \<in> mock_up host_b' \<and>
        (\<exists>fa fb ca cb. mock_files host_a' ''/etc/wg/wg0.conf'' = Some fa \<and>
          mock_files host_b' ''/etc/wg/wg1.conf'' = Some fb \<and>
          parse_wg_quick sample_crates fa = Inr ca \<and> parse_wg_quick sample_crates fb = Inr cb \<and>
          joined sample_crates sample_topology ''a'' ''hub'' ca cb))"
proof -
  obtain rep where r: "sample_apply = (Inr rep, snd sample_apply)" using sample_applied by blast
  have e: "(''a'', ''hub'') \<in> set (edges sample_topology)" by (simp add: sample_edges)
  show ?thesis
    by (rule network_comes_up [OF sample_documented sample_validates sample_utf8 sample_serde_laws(3,1,2)
        sample_rotate sample_empty sample_draws' r [unfolded sample_apply_def] e sample_fresh sample_fresh,
        folded sample_apply_def])
qed

end
