(* ===== verification/Topology_Exact.thy ===== *)
theory Topology_Exact
  imports Topology_Valid
begin

text \<open>
  The rules of a topology stated without the loops of \<open>topology::validate\<close>, and that the
  function accepts exactly the configurations that satisfy them, with exactly this result.
\<close>

section \<open>The rules\<close>

definition r2_ok :: "crates \<Rightarrow> r2_config \<Rightarrow> bool" where
  "r2_ok cr r2 \<longleftrightarrow>
     (\<exists>u. url_parse cr (r2_endpoint r2) = Some u \<and> url_scheme u \<in> {''http'', ''https''} \<and>
        url_host_str u \<noteq> None \<and> url_username u = [] \<and> url_password u = None \<and>
        url_query u = None \<and> url_fragment u = None) \<and>
     r2_access_key_id r2 \<noteq> [] \<and> r2_secret_access_key r2 \<noteq> [] \<and> r2_session_token r2 \<noteq> Some []"

definition edges_ok :: "string set \<Rightarrow> validated_node list \<Rightarrow> bool" where
  "edges_ok masters ns \<longleftrightarrow>
     (\<forall>n\<in>set ns. \<forall>m\<in>set ns. n \<noteq> m \<and> (vn_hostname n \<in> masters \<or> vn_hostname m \<in> masters) \<longrightarrow>
        vn_endpoint n \<noteq> None \<or> vn_endpoint m \<noteq> None)"

text \<open>The configuration describes the nodes \<open>ns\<close>, in its order, and every rule holds of them.\<close>

definition config_ok :: "crates \<Rightarrow> topology_config \<Rightarrow> validated_node list \<Rightarrow> bool" where
  "config_ok cr cfg ns \<longleftrightarrow>
     r2_ok cr (tc_r2_config cfg) \<and>
     ns \<noteq> [] \<and> length ns \<le> MAX_NODES \<and>
     list_all2 (node_matches cr) (tc_nodes cfg) ns \<and>
     (\<forall>n\<in>set ns. hostname_regex (vn_hostname n)) \<and> distinct (map vn_hostname ns) \<and>
     distinct (tc_master cfg) \<and> set (tc_master cfg) \<subseteq> vn_hostname ` set ns \<and>
     distinct (map vn_tunnel_address ns) \<and> routes_ok cr ns \<and> edges_ok (set (tc_master cfg)) ns"

definition topology_of :: "topology_config \<Rightarrow> validated_node list \<Rightarrow> validated_topology" where
  "topology_of cfg ns =
     \<lparr>vt_nodes = sort_key vn_hostname ns, vt_masters = bs_of_list (tc_master cfg)\<rparr>"

definition warnings_of :: "topology_config \<Rightarrow> string list" where
  "warnings_of cfg = (if tc_master cfg = []
     then [''master list is empty: no peer edges will be generated for any node''] else [])"

section \<open>The loops, in both directions\<close>

lemma fold_res_prefix_total:
  assumes "P [] s"
    and step: "\<And>ys x zs s. xs = ys @ x # zs \<Longrightarrow> P ys s \<Longrightarrow> \<exists>t. f x s = Inr t \<and> P (ys @ [x]) t"
  shows "\<exists>t. fold_res f xs s = Inr t \<and> P xs t"
proof -
  have "xs = ys @ zs \<Longrightarrow> P ys s \<Longrightarrow> \<exists>t. fold_res f zs s = Inr t \<and> P xs t" for ys zs s
  proof (induction zs arbitrary: ys s)
    case (Cons x zs)
    from step [OF Cons.prems] obtain t where t: "f x s = Inr t" "P (ys @ [x]) t" by blast
    from Cons.IH [OF _ t(2)] Cons.prems(1) t(1) show ?case by simp
  qed simp
  from this [of "[]" xs s] assms(1) show ?thesis by simp
qed

lemma r2_checks:
  "validate_r2_endpoint cr (r2_endpoint r2) = Inr () \<and>
   validate_r2_credentials (r2_access_key_id r2) (r2_secret_access_key r2) (r2_session_token r2) = Inr ()
    \<longleftrightarrow> r2_ok cr r2"
  by (auto simp: validate_r2_endpoint_def validate_r2_credentials_def and_then_Inr_iff r2_ok_def)

lemma check_hostnames_complete:
  assumes "\<forall>n\<in>set ns. hostname_regex (nc_hostname n)" and "distinct (map nc_hostname ns)"
  shows "\<exists>seen. fold_res check_hostname ns [] = Inr seen \<and> set seen = nc_hostname ` set ns"
proof (rule fold_res_prefix_total [where P = "\<lambda>ys s. set s = nc_hostname ` set ys"])
  fix ys x zs and s :: "string btree_set"
  assume "ns = ys @ x # zs" and "set s = nc_hostname ` set ys"
  with assms show "\<exists>t. check_hostname x s = Inr t \<and> set t = nc_hostname ` set (ys @ [x])"
    by (auto simp: check_hostname_def hostname_validate_regex [symmetric] and_then_Inr_iff)
qed simp

lemma check_masters_complete:
  assumes "distinct ms" and "set ms \<subseteq> set seen"
  shows "fold_res (check_master seen) ms [] = Inr (bs_of_list ms)"
proof -
  have "\<exists>t. fold_res (check_master seen) ms [] = Inr t \<and> bs_wf t \<and> set t = set ms"
  proof (rule fold_res_prefix_total [where P = "\<lambda>ys s. bs_wf s \<and> set s = set ys"])
    fix ys x zs and s :: "string btree_set"
    assume "ms = ys @ x # zs" and "bs_wf s \<and> set s = set ys"
    with assms show "\<exists>t. check_master seen x s = Inr t \<and> bs_wf t \<and> set t = set (ys @ [x])"
      by (auto simp: check_master_def)
  qed simp
  then show ?thesis using bs_wf_unique [OF _ bs_wf_of_list [of ms]] by auto
qed

lemma check_nodes_complete:
  assumes "list_all2 (node_matches cr) cs ns" and "distinct (map vn_tunnel_address ns)"
  shows "\<exists>owners. fold_res (check_node cr) cs ([], []) = Inr (ns, owners)"
proof -
  let ?P = "\<lambda>ys (s :: validated_node list \<times> addr_owners). fst s = take (length ys) ns \<and>
    (\<forall>a. bt_get (snd s) a = None \<longleftrightarrow> a \<notin> vn_tunnel_address ` set (fst s))"
  have "\<exists>t. fold_res (check_node cr) cs ([], []) = Inr t \<and> ?P cs t"
  proof (rule fold_res_prefix_total [where P = ?P])
    fix ys x zs and s :: "validated_node list \<times> addr_owners"
    assume cs: "cs = ys @ x # zs" and P: "?P ys s"
    from assms(1) obtain ys' n rest where n: "node_matches cr x n" "ns = ys' @ n # rest" "length ys' = length ys"
      unfolding cs by (auto simp: list_all2_append1 list_all2_Cons1)
    then have "vn_tunnel_address n \<notin> vn_tunnel_address ` set (take (length ys) ns)"
      using assms(2) by auto
    moreover have "take (length (ys @ [x])) ns = take (length ys) ns @ [n]" using n by simp
    ultimately show "\<exists>t. check_node cr x s = Inr t \<and> ?P (ys @ [x]) t"
      using P n(1) by (cases s) (auto simp: check_node_Inr)
  qed simp
  then show ?thesis using list_all2_lengthD [OF assms(1)] by auto
qed

lemma check_routes_complete:
  assumes "routes_ok cr ns" and "distinct (map vn_tunnel_address ns)"
  shows "for_each (check_routes_of cr ns) [0..<length ns] = Inr ()"
proof -
  have "check_routes_of cr ns i = Inr ()" if i: "i < length ns" for i
  proof -
    have n: "ns ! i \<in> set ns" using i by simp
    have d: "distinct ns" using assms(2) by (simp add: distinct_map)
    note r = assms(1) [unfolded routes_ok_def]
    have "\<forall>a\<in>set (vn_extra_allowed_ips (ns ! i)). \<forall>b\<in>set (vn_extra_allowed_ips (ns ! j)). disjoint_nets cr a b"
      if j: "i < j" "j < length ns" for j
      using bspec [OF bspec [OF r [THEN conjunct2, THEN conjunct1] n] nth_mem [OF j(2)]] j i d
      by (simp add: nth_eq_iff_index_eq)
    then show ?thesis unfolding check_routes_of_Inr
      using bspec [OF r [THEN conjunct1] n] bspec [OF r [THEN conjunct2, THEN conjunct2] n] by auto
  qed
  then show ?thesis by (simp add: for_each_Inr_iff)
qed

lemma split_paired_Ball_set: "(\<forall>e\<in>A. P e) \<longleftrightarrow> (\<forall>a b. (a, b) \<in> A \<longrightarrow> P (a, b))"
  by auto

lemma check_edges_iff:
  assumes "distinct (map vn_hostname ns)"
  shows "for_each (check_edge ns) (compute_edges (map vn_hostname ns) ms) = Inr () \<longleftrightarrow> edges_ok (set ms) ns"
proof -
  let ?ok = "\<lambda>n m. vn_endpoint n \<noteq> None \<or> vn_endpoint m \<noteq> None"
  have inj: "n = m" if "n \<in> set ns" "m \<in> set ns" "vn_hostname n = vn_hostname m" for n m
    using that assms by (auto simp: distinct_map dest: inj_onD)
  have edge: "(\<exists>n'\<in>set ns. \<exists>m'\<in>set ns. vn_hostname n' = vn_hostname n \<and> vn_hostname m' = vn_hostname m \<and> ?ok n' m')
      \<longleftrightarrow> ?ok n m" if "n \<in> set ns" "m \<in> set ns" for n m
    using that inj by blast
  have "for_each (check_edge ns) (compute_edges (map vn_hostname ns) ms) = Inr () \<longleftrightarrow>
      (\<forall>a b. a < b \<and> a \<in> vn_hostname ` set ns \<and> b \<in> vn_hostname ` set ns \<and> (a \<in> set ms \<or> b \<in> set ms) \<longrightarrow>
        (\<exists>n\<in>set ns. \<exists>m\<in>set ns. vn_hostname n = a \<and> vn_hostname m = b \<and> ?ok n m))"
    by (simp add: for_each_Inr_iff split_paired_Ball_set compute_edges_iff [OF assms] check_edge_Inr [OF assms])
  also have "\<dots> \<longleftrightarrow>
      (\<forall>n\<in>set ns. \<forall>m\<in>set ns. vn_hostname n < vn_hostname m \<and>
        (vn_hostname n \<in> set ms \<or> vn_hostname m \<in> set ms) \<longrightarrow> ?ok n m)" (is "?l \<longleftrightarrow> ?r")
  proof (intro iffI ballI allI impI)
    fix n m
    assume ?l "n \<in> set ns" "m \<in> set ns"
      "vn_hostname n < vn_hostname m \<and> (vn_hostname n \<in> set ms \<or> vn_hostname m \<in> set ms)"
    then show "?ok n m" using edge [of n m] by blast
  next
    fix a b
    assume r: ?r and ab: "a < b \<and> a \<in> vn_hostname ` set ns \<and> b \<in> vn_hostname ` set ns \<and> (a \<in> set ms \<or> b \<in> set ms)"
    then obtain n m where "n \<in> set ns" "m \<in> set ns" "a = vn_hostname n" "b = vn_hostname m" by blast
    with r ab show "\<exists>n\<in>set ns. \<exists>m\<in>set ns. vn_hostname n = a \<and> vn_hostname m = b \<and> ?ok n m" by metis
  qed
  also have "\<dots> \<longleftrightarrow> edges_ok (set ms) ns" (is "?l \<longleftrightarrow> ?r")
  proof
    assume l: ?l
    show ?r unfolding edges_ok_def
    proof (intro ballI impI)
      fix n m
      assume nm: "n \<in> set ns" "m \<in> set ns" "n \<noteq> m \<and> (vn_hostname n \<in> set ms \<or> vn_hostname m \<in> set ms)"
      then have "vn_hostname n < vn_hostname m \<or> vn_hostname m < vn_hostname n" using inj by force
      then show "?ok n m" using nm bspec [OF bspec [OF l nm(1)] nm(2)] bspec [OF bspec [OF l nm(2)] nm(1)] by blast
    qed
  next
    assume r: ?r
    then show ?l unfolding edges_ok_def by auto
  qed
  finally show ?thesis .
qed

section \<open>The property\<close>

lemma topology_validate_Inr:
  "topology_validate cr cfg = Inr (t, ws) \<longleftrightarrow>
    (\<exists>ns. config_ok cr cfg ns \<and> t = topology_of cfg ns \<and> ws = warnings_of cfg)"
proof
  assume v: "topology_validate cr cfg = Inr (t, ws)"
  then obtain seen masters ns owners where
    seen: "fold_res check_hostname (tc_nodes cfg) [] = Inr seen" and
    masters: "fold_res (check_master seen) (tc_master cfg) [] = Inr masters" and
    nodes: "fold_res (check_node cr) (tc_nodes cfg) ([], []) = Inr (ns, owners)" and
    routes: "for_each (check_routes_of cr ns) [0..<length ns] = Inr ()" and
    edge: "for_each (check_edge ns) (compute_edges (map vn_hostname ns) masters) = Inr ()" and
    t: "t = \<lparr>vt_nodes = sort_key vn_hostname ns, vt_masters = masters\<rparr>" and
    size: "tc_nodes cfg \<noteq> []" "length (tc_nodes cfg) \<le> MAX_NODES" and
    r2: "r2_ok cr (tc_r2_config cfg)" and
    ws: "ws = (if masters = []
      then [''master list is empty: no peer edges will be generated for any node''] else [])"
    by (auto simp: topology_validate_def Let_def and_then_Inr_iff not_less simp flip: r2_checks)
  note h = check_hostnames_Inr [OF seen] and m = check_masters_Inr [OF masters]
    and n = check_nodes_Inr [OF nodes]
  note names = matches_hostnames [OF n(1)]
  have m': "masters = bs_of_list (tc_master cfg)"
    by (rule bs_wf_unique) (simp_all add: m)
  have "distinct (map vn_hostname ns)" using h(2) names by simp
  then have "edges_ok (set (tc_master cfg)) ns" using edge check_edges_iff m(2) by simp
  moreover have names': "vn_hostname ` set ns = nc_hostname ` set (tc_nodes cfg)"
    using arg_cong [OF names, of set] by simp
  moreover have "\<forall>n\<in>set ns. hostname_regex (vn_hostname n)" using h(3) names' by (metis imageE imageI)
  ultimately have "config_ok cr cfg ns"
    using r2 size n m(3,4) h(1,2) names check_routes_Inr_ok [OF routes] list_all2_lengthD [OF n(1)]
    by (auto simp: config_ok_def)
  moreover have "ws = warnings_of cfg" using ws m(2) by (auto simp: warnings_of_def)
  ultimately show "\<exists>ns. config_ok cr cfg ns \<and> t = topology_of cfg ns \<and> ws = warnings_of cfg"
    using t m' by (auto simp: topology_of_def)
next
  assume "\<exists>ns. config_ok cr cfg ns \<and> t = topology_of cfg ns \<and> ws = warnings_of cfg"
  then obtain ns where c: "config_ok cr cfg ns" and t: "t = topology_of cfg ns" "ws = warnings_of cfg" by blast
  let ?ms = "bs_of_list (tc_master cfg)"
  from c have lm: "list_all2 (node_matches cr) (tc_nodes cfg) ns" by (simp add: config_ok_def)
  note names = matches_hostnames [OF lm] and len = list_all2_lengthD [OF lm]
  have names': "vn_hostname ` set ns = nc_hostname ` set (tc_nodes cfg)"
    using arg_cong [OF names, of set] by simp
  from c have r2: "r2_ok cr (tc_r2_config cfg)" by (simp add: config_ok_def)
  have "\<forall>h\<in>nc_hostname ` set (tc_nodes cfg). hostname_regex h"
    using c unfolding names' [symmetric] by (auto simp: config_ok_def)
  then have "\<exists>seen. fold_res check_hostname (tc_nodes cfg) [] = Inr seen \<and> set seen = nc_hostname ` set (tc_nodes cfg)"
    by (intro check_hostnames_complete) (use c names in \<open>simp_all add: config_ok_def\<close>)
  then obtain seen where seen: "fold_res check_hostname (tc_nodes cfg) [] = Inr seen"
    "set seen = nc_hostname ` set (tc_nodes cfg)" by blast
  have masters: "fold_res (check_master seen) (tc_master cfg) [] = Inr ?ms"
    by (rule check_masters_complete) (use c seen names' in \<open>simp_all add: config_ok_def\<close>)
  obtain owners where nodes: "fold_res (check_node cr) (tc_nodes cfg) ([], []) = Inr (ns, owners)"
    using check_nodes_complete [OF lm] c by (auto simp: config_ok_def)
  have routes: "for_each (check_routes_of cr ns) [0..<length ns] = Inr ()"
    by (rule check_routes_complete) (use c in \<open>simp_all add: config_ok_def\<close>)
  have edge: "for_each (check_edge ns) (compute_edges (map vn_hostname ns) ?ms) = Inr ()"
    using c by (subst check_edges_iff) (simp_all add: config_ok_def)
  have "?ms = [] \<longleftrightarrow> tc_master cfg = []" by (metis set_bs_of_list set_empty)
  moreover have "tc_nodes cfg \<noteq> []" "length (tc_nodes cfg) \<le> MAX_NODES"
    using c len by (auto simp: config_ok_def)
  ultimately show "topology_validate cr cfg = Inr (t, ws)"
    using r2_checks [THEN iffD2, OF r2] seen(1) masters nodes routes edge t
    by (simp add: topology_validate_def Let_def topology_of_def warnings_of_def)
qed

text \<open>
  C10. Validation never panics.  It accepts exactly the configurations that satisfy the rules, and returns exactly
  the topology they describe: the endpoint is an http(s) URL without user, query and fragment
  and the credentials are not empty; between 1 and 4096 nodes with valid, distinct hostnames;
  distinct masters among them; every field of every node valid, where any IPv4 address with a
  prefix of 32 counts as a tunnel address, a unicast one or not; distinct tunnel addresses; no
  route over a tunnel address or over another route; and an endpoint on one side of every
  pair with a master.  The nodes come back sorted by hostname, and the only warning is the one
  for a network without masters.
\<close>
theorem topology_validate_exact:
  "topology_validate cr cfg \<noteq> Inl Panic \<and>
   (topology_validate cr cfg = Inr (t, ws) \<longleftrightarrow>
    (\<exists>ns. config_ok cr cfg ns \<and> t = topology_of cfg ns \<and> ws = warnings_of cfg))"
  using topology_validate_no_panic topology_validate_Inr by simp

end
