(* ===== verification/Json_Text.thy ===== *)
theory Json_Text
  imports Strict_Json Rust_Net
begin

text \<open>
  \<open>strict_json.rs\<close> against the JSON standard: documents laid out with any whitespace between their
  tokens, and keys compared by the text they stand for.  On documents whose keys use no escape
  other than that of a quote, a backslash or a slash the pre-pass is exact; the last section shows
  how it errs in both directions on other escapes.
\<close>

section \<open>Texts of a document\<close>

definition json_space :: "string \<Rightarrow> bool" where
  "json_space c \<longleftrightarrow> c \<in> set ['' '', [CHR 0x09], [CHR 0x0A], [CHR 0x0D]]"

fun commas :: "string list list list \<Rightarrow> string list list" where
  "commas [] = []"
| "commas [x] = x"
| "commas (x # y # xs) = x @ [[[CHR '','']]] @ commas (y # xs)"

fun tokens :: "json \<Rightarrow> string list list" where
  "tokens (JAtom cs) = [cs]"
| "tokens (JString s) = [quote s]"
| "tokens (JArray xs) = [[''['']] @ commas (map tokens xs) @ [['']'']]"
| "tokens (JObject ms) =
     [[''{'']] @ commas (map (\<lambda>(k, v). [quote k, [[CHR '':'']]] @ tokens v) ms) @ [[''}'']]"

text \<open>The tokens with \<open>gap 0\<close> in front of the first, \<open>gap 1\<close> in front of the next, and so on.\<close>

fun lay_out :: "(nat \<Rightarrow> string list) \<Rightarrow> string list list \<Rightarrow> string list" where
  "lay_out gap [] = gap 0"
| "lay_out gap (t # ts) = gap 0 @ t @ lay_out (\<lambda>n. gap (Suc n)) ts"

lemma commas_flat: "concat (commas xs) = separated (map concat xs)"
  by (induction xs rule: commas.induct) auto

lemma tokens_flat: "concat (tokens j) = render_json j"
proof (induction j rule: tokens.induct)
  case (3 xs)
  then show ?case by (simp add: commas_flat comp_def cong: map_cong)
next
  case (4 ms)
  then have "map (\<lambda>m. concat (case m of (k, v) \<Rightarrow> [quote k, [[CHR '':'']]] @ tokens v)) ms =
      map (\<lambda>(k, v). quote k @ '':'' # render_json v) ms" by (intro map_cong) auto
  then have "concat (commas (map (\<lambda>(k, v). [quote k, [[CHR '':'']]] @ tokens v) ms)) =
      separated (map (\<lambda>(k, v). quote k @ '':'' # render_json v) ms)"
    unfolding commas_flat map_map comp_def by (rule arg_cong)
  then show ?case by simp
qed simp_all

definition mark :: "string \<Rightarrow> bool" where
  "mark c \<longleftrightarrow> c \<in> set [''{'', ''}'', ''['', '']'', '','', '':'']"

definition token_ok :: "string list \<Rightarrow> bool" where
  "token_ok t \<longleftrightarrow> list_all (\<lambda>c. \<not> structural c) t \<or> (\<exists>s. list_all wf_char s \<and> t = quote s) \<or>
     (\<exists>c. t = [c] \<and> mark c)"

lemma token_ok_marks [simp]:
  "token_ok [''{'']" "token_ok [''}'']" "token_ok [''['']" "token_ok ['']'']" "token_ok [[CHR '','']]"
  "token_ok [[CHR '':'']]"
  by (simp_all add: token_ok_def mark_def)

lemma token_ok_quote: "list_all wf_char s \<Longrightarrow> token_ok (quote s)"
  by (auto simp: token_ok_def)

lemma commas_ok: "\<forall>x\<in>set xs. list_all token_ok x \<Longrightarrow> list_all token_ok (commas xs)"
  by (induction xs rule: commas.induct) auto

lemma tokens_ok: "wf_json j \<Longrightarrow> list_all token_ok (tokens j)"
proof (induction j rule: tokens.induct)
  case (3 xs)
  then have "list_all token_ok (commas (map tokens xs))" by (intro commas_ok) (auto simp: list_all_iff)
  then show ?case by simp
next
  case (4 ms)
  then have "list_all token_ok (commas (map (\<lambda>(k, v). [quote k, [[CHR '':'']]] @ tokens v) ms))"
    by (intro commas_ok) (fastforce simp: list_all_iff token_ok_quote)
  then show ?case by simp
qed (auto simp: token_ok_def)

section \<open>The scanner does not see the layout\<close>

lemma scan_spaces: "list_all json_space w \<Longrightarrow> scan (w @ cs) stack = scan cs stack"
  by (induction w) (auto simp: json_space_def scan.simps(2) is_whitespace_def byte_def)

definition resume :: "strict_json_error + ctx list \<Rightarrow> string list \<Rightarrow> strict_json_error + unit" where
  "resume r cs = (case r of Inl e \<Rightarrow> Inl e | Inr stack \<Rightarrow> scan cs stack)"

definition after_mark :: "string \<Rightarrow> ctx list \<Rightarrow> strict_json_error + ctx list" where
  "after_mark c stack =
     (if c = ''{'' then Inr (Object [] True # stack)
      else if c = ''}'' then
        (case stack of Object _ _ # st \<Rightarrow> Inr st | _ \<Rightarrow> Inl (Malformed ''unexpected }''))
      else if c = ''['' then Inr (Array # stack)
      else if c = '']'' then (case stack of Array # st \<Rightarrow> Inr st | _ \<Rightarrow> Inl (Malformed ''unexpected ]''))
      else if c = '','' then Inr (expect_next_key stack)
      else Inr stack)"

lemma scan_mark: "mark c \<Longrightarrow> scan (c # cs) stack = resume (after_mark c stack) cs"
  by (auto simp: mark_def after_mark_def resume_def scan.simps(2) is_whitespace_def byte_def split: ctx_splits)

lemma scan_token:
  assumes "token_ok t"
  obtains r where "\<And>cs. scan (t @ cs) stack = resume r cs"
  using assms unfolding token_ok_def
proof (elim disjE exE conjE)
  assume "list_all (\<lambda>c. \<not> structural c) t"
  then show thesis using that [of "Inr stack"] by (simp add: resume_def scan_atom)
next
  fix s
  assume "list_all wf_char s" "t = quote s"
  then show thesis using that [of "note_string (view s) stack"] by (simp add: resume_def scan_quote)
next
  fix c
  assume "t = [c]" "mark c"
  then show thesis using that [of "after_mark c stack"] by (simp add: scan_mark)
qed

lemma scan_lay_out:
  "list_all token_ok ts \<Longrightarrow> \<forall>n. list_all json_space (gap n) \<Longrightarrow> scan (lay_out gap ts) stack = scan (concat ts) stack"
proof (induction ts arbitrary: gap stack)
  case Nil
  then show ?case using scan_spaces [of "gap 0" "[]" stack] by simp
next
  case (Cons t ts)
  then have "token_ok t" by simp
  from scan_token [OF this, of stack] obtain r where r: "\<And>cs. scan (t @ cs) stack = resume r cs" by blast
  have "scan (lay_out (\<lambda>n. gap (Suc n)) ts) st = scan (concat ts) st" for st
    using Cons by simp
  with r Cons.prems(2) show ?case by (simp add: scan_spaces resume_def split: sum.split)
qed

section \<open>What a key stands for\<close>

definition utf8_encode :: "nat \<Rightarrow> string" where
  "utf8_encode n =
     (if n < 128 then [char_of n]
      else if n < 2048 then [char_of (192 + n div 64), char_of (128 + n mod 64)]
      else if n < 65536 then
        [char_of (224 + n div 4096), char_of (128 + n div 64 mod 64), char_of (128 + n mod 64)]
      else
        [char_of (240 + n div 262144), char_of (128 + n div 4096 mod 64),
         char_of (128 + n div 64 mod 64), char_of (128 + n mod 64)])"

text \<open>The four hexadecimal digits after \<open>\u\<close>.\<close>

fun hex_digit :: "json_char \<Rightarrow> nat option" where
  "hex_digit (Lit [c]) = to_digit 16 c"
| "hex_digit _ = None"

definition hex4 :: "json_char list \<Rightarrow> nat option" where
  "hex4 s =
     (case map hex_digit s of
        [Some a, Some b, Some c, Some d] \<Rightarrow> Some (((a * 16 + b) * 16 + c) * 16 + d)
      | _ \<Rightarrow> None)"

definition simple_escape :: "string \<Rightarrow> string option" where
  "simple_escape = map_of
     [([CHR 0x22], [CHR 0x22]), ([CHR 0x5C], [CHR 0x5C]), (''/'', ''/''), (''b'', [CHR 0x08]),
      (''f'', [CHR 0x0C]), (''n'', [CHR 0x0A]), (''r'', [CHR 0x0D]), (''t'', [CHR 0x09])]"

text \<open>
  The text a string literal stands for; \<open>None\<close> for an escape the standard does not have or half
  of a surrogate pair.
\<close>

function denotes :: "json_char list \<Rightarrow> string option" where
  "denotes [] = Some []"
| "denotes (Lit c # s) = map_option ((@) c) (denotes s)"
| "denotes (Esc c # s) =
     (if c \<noteq> ''u'' then
        (case simple_escape c of None \<Rightarrow> None | Some t \<Rightarrow> map_option ((@) t) (denotes s))
      else
        (case hex4 (take 4 s) of
           None \<Rightarrow> None
         | Some n \<Rightarrow>
             if n < 0xD800 \<or> 0xDFFF < n then map_option ((@) (utf8_encode n)) (denotes (drop 4 s))
             else if 0xDBFF < n \<or> take 1 (drop 4 s) \<noteq> [Esc ''u''] then None
             else
               (case hex4 (take 4 (drop 5 s)) of
                  None \<Rightarrow> None
                | Some m \<Rightarrow>
                    if m < 0xDC00 \<or> 0xDFFF < m then None
                    else map_option ((@) (utf8_encode (0x10000 + (n - 0xD800) * 1024 + (m - 0xDC00))))
                      (denotes (drop 9 s)))))"
  by pat_completeness auto
termination by (relation "measure length") auto

text \<open>No object, at any depth, has two members whose keys stand for the same text.\<close>

fun unique_keys :: "json \<Rightarrow> bool" where
  "unique_keys (JAtom cs) \<longleftrightarrow> True"
| "unique_keys (JString s) \<longleftrightarrow> True"
| "unique_keys (JArray xs) \<longleftrightarrow> list_all unique_keys xs"
| "unique_keys (JObject ms) \<longleftrightarrow>
     distinct (map (\<lambda>(k, v). denotes k) ms) \<and> list_all (\<lambda>(k, v). unique_keys v) ms"

definition plain_key :: "json_char list \<Rightarrow> bool" where
  "plain_key k \<longleftrightarrow>
     list_all (\<lambda>c. case c of Lit _ \<Rightarrow> True | Esc e \<Rightarrow> e \<in> set [[CHR 0x22], [CHR 0x5C], ''/'']) k"

fun plain_keys :: "json \<Rightarrow> bool" where
  "plain_keys (JAtom cs) \<longleftrightarrow> True"
| "plain_keys (JString s) \<longleftrightarrow> True"
| "plain_keys (JArray xs) \<longleftrightarrow> list_all plain_keys xs"
| "plain_keys (JObject ms) \<longleftrightarrow> list_all (\<lambda>(k, v). plain_key k \<and> plain_keys v) ms"

lemma denotes_plain: "plain_key k \<Longrightarrow> denotes k = Some (view k)"
proof (induction k)
  case (Cons c k)
  then show ?case by (cases c) (auto simp: plain_key_def view_def simple_escape_def)
qed (simp add: view_def)

lemma unique_plain_keys: "plain_keys j \<Longrightarrow> unique_keys j \<longleftrightarrow> no_dup j"
proof (induction j rule: plain_keys.induct)
  case (3 xs)
  then show ?case by (auto simp: list_all_iff)
next
  case (4 ms)
  have "map (\<lambda>(k, v). denotes k) ms = map Some (map (\<lambda>(k, v). view k) ms)"
    using 4 by (auto simp: list_all_iff denotes_plain)
  then have "distinct (map (\<lambda>(k, v). denotes k) ms) \<longleftrightarrow> distinct (map (\<lambda>(k, v). view k) ms)"
    by (simp only: distinct_map) simp
  moreover have "list_all (\<lambda>(k, v). unique_keys v) ms \<longleftrightarrow> list_all (\<lambda>(k, v). no_dup v) ms"
    using 4 by (fastforce simp: list_all_iff)
  ultimately show ?case by simp
qed simp_all

section \<open>Property\<close>

text \<open>
  C31. On every JSON text the pre-pass decides duplicate keys exactly, as long as no key uses an
  escape other than that of a quote, a backslash or a slash: however the document is laid out
  with whitespace, it accepts when no object, at any depth, has two members whose keys stand for
  the same text, and reports a duplicate key otherwise.
\<close>
theorem duplicate_keys_exact:
  assumes "wf_json j" and "plain_keys j" and "\<forall>n. list_all json_space (gap n)"
    and "utf8_chunks s = lay_out gap (tokens j)"
  shows "if unique_keys j then check_no_duplicate_keys s = Inr ()
    else \<exists>k. check_no_duplicate_keys s = Inl (DuplicateKey k)"
  using scan_document [OF assms(1)] unique_plain_keys [OF assms(2)] scan_lay_out [OF tokens_ok [OF assms(1)] assms(3)]
  by (auto simp: check_no_duplicate_keys_def assms(4) tokens_flat is_dup_def split: if_splits)

definition two_keys :: "json_char list \<Rightarrow> json_char list \<Rightarrow> json" where
  "two_keys k l = JArray [JObject [(k, JAtom [''1'']), (l, JString [])]]"

definition two_keys_text :: string where
  "two_keys_text = ''[ {'' @ [CHR 0x22, CHR ''a'', CHR 0x22] @ '' : 1 , '' @ [CHR 0x22, CHR ''a'', CHR 0x22, CHR 0x0A] @
     '': '' @ [CHR 0x22, CHR 0x22] @ ''} ]''"

text \<open>Where \<open>two_keys_text\<close> has whitespace.\<close>

definition two_keys_gap :: "nat \<Rightarrow> string list" where
  "two_keys_gap n = (if n \<in> {1, 3, 4, 5, 6, 8, 10} then ['' ''] else if n = 7 then [[CHR 0x0A]] else [])"

lemma duplicate_keys_exact_witness:
  "\<exists>k. check_no_duplicate_keys two_keys_text = Inl (DuplicateKey k)"
proof -
  let ?j = "two_keys [Lit ''a''] [Lit ''a'']"
  have "wf_json ?j" "plain_keys ?j" "\<not> unique_keys ?j"
    by (simp_all add: two_keys_def wf_char_def structural_def plain_key_def)
  moreover have "\<forall>n. list_all json_space (two_keys_gap n)"
    by (simp add: two_keys_gap_def json_space_def)
  moreover have "utf8_chunks two_keys_text = lay_out two_keys_gap (tokens ?j)" 
    by (simp add: two_keys_text_def two_keys_def two_keys_gap_def quote_def utf8_chunks_ascii ascii_def byte_def)
  ultimately show ?thesis using duplicate_keys_exact [of ?j two_keys_gap two_keys_text] by simp
qed

section \<open>Other escapes\<close>

text \<open>
  A key and its spelling with a \<open>\u\<close> escape stand for one text and pass; the keys \<open>n\<close> and \<open>\n\<close>, a
  letter and a line feed, are different and are reported.
\<close>

definition spelt_a :: "json_char list" where
  "spelt_a = [Esc ''u'', Lit ''0'', Lit ''0'', Lit ''6'', Lit ''1'']"

lemma char_of_97: "char_of (97 :: nat) = CHR ''a''"
  by code_simp

lemma denotes_spelt_a: "denotes spelt_a = Some ''a''"
  by (simp add: spelt_a_def hex4_def to_digit_def byte_def utf8_encode_def char_of_97)

lemma two_keys_simps [simp]:
  "unique_keys (two_keys k l) \<longleftrightarrow> denotes k \<noteq> denotes l" "no_dup (two_keys k l) \<longleftrightarrow> view k \<noteq> view l"
  "wf_json (two_keys k l) \<longleftrightarrow> list_all wf_char k \<and> list_all wf_char l"
  by (auto simp: two_keys_def structural_def)

lemma escaped_duplicate_missed:
  "\<not> unique_keys (two_keys [Lit ''a''] spelt_a) \<and> scan (render_json (two_keys [Lit ''a''] spelt_a)) [] = Inr ()"
  using scan_document [of "two_keys [Lit ''a''] spelt_a"]
  by (simp add: denotes_spelt_a) (simp add: spelt_a_def view_def wf_char_def)

lemma escaped_keys_confused:
  "unique_keys (two_keys [Lit ''n''] [Esc ''n'']) \<and> is_dup (scan (render_json (two_keys [Lit ''n''] [Esc ''n''])) [])"
  using scan_document [of "two_keys [Lit ''n''] [Esc ''n'']"] by (simp add: simple_escape_def view_def wf_char_def)

end
