(* ===== verification/Commit_Outcome.thy ===== *)
theory Commit_Outcome
  imports Apply
begin

text \<open>
  \<open>commit_pointer\<close> (\<open>wg-server/src/apply.rs\<close>) on any bucket: which calls it makes and how its
  result follows from their answers, as one description of the whole exchange.
\<close>

section \<open>The exchange\<close>

text \<open>
  A round that found the pointer this run started from still in place: the write was refused, and
  the object read after it has other bytes than intended and the revision of the baseline.  The
  next write goes out under the ETag of that object.
\<close>

fun refused_rounds :: "string \<Rightarrow> string \<Rightarrow> fetched_object list \<Rightarrow> event list" where
  "refused_rounds bytes etag [] = []"
| "refused_rounds bytes etag (obj # objs) =
     [PutMatch CURRENT_JSON_KEY bytes etag (Inr PreconditionFailed), Got CURRENT_JSON_KEY (Inr (Some obj))]
     @ refused_rounds bytes (fo_etag obj) objs"

definition etag_after :: "string \<Rightarrow> fetched_object list \<Rightarrow> string" where
  "etag_after etag objs = (if objs = [] then etag else fo_etag (last objs))"

definition still_baseline :: "serde \<Rightarrow> string \<Rightarrow> string \<Rightarrow> fetched_object \<Rightarrow> bool" where
  "still_baseline js revn bytes obj \<longleftrightarrow> fo_bytes obj \<noteq> bytes \<and>
     (case parse_pointer js (fo_bytes obj) of Inl e \<Rightarrow> False | Inr doc \<Rightarrow> revision doc = revn)"

text \<open>What the object read after a refused write decides.\<close>

definition reconciled :: "serde \<Rightarrow> string \<Rightarrow> string \<Rightarrow> storage_error + fetched_object option \<Rightarrow> apply_error + unit \<Rightarrow> bool" where
  "reconciled js revn bytes answer r \<longleftrightarrow>
     (case answer of
        Inl e \<Rightarrow> r = Inl (StorageErr e)
      | Inr None \<Rightarrow> r = Inl PointerCommitUnknown
      | Inr (Some obj) \<Rightarrow>
          fo_bytes obj = bytes \<and> r = Inr () \<or>
          fo_bytes obj \<noteq> bytes \<and>
            (case parse_pointer js (fo_bytes obj) of
               Inl e \<Rightarrow> r = Inl e
             | Inr doc \<Rightarrow> revision doc \<noteq> revn \<and> r = Inl PointerConflict))"

text \<open>The last calls: a write that is accepted or fails, or one that is refused and reconciled.\<close>

definition decided :: "serde \<Rightarrow> string \<Rightarrow> string \<Rightarrow> string \<Rightarrow> event list \<Rightarrow> apply_error + unit \<Rightarrow> bool" where
  "decided js revn bytes etag evs r \<longleftrightarrow>
     (\<exists>answer. evs = [PutMatch CURRENT_JSON_KEY bytes etag answer] \<and>
        (case answer of
           Inl e \<Rightarrow> r = Inl (StorageErr e)
         | Inr (Written _) \<Rightarrow> r = Inr ()
         | Inr PreconditionFailed \<Rightarrow> False)) \<or>
     (\<exists>answer. evs = [PutMatch CURRENT_JSON_KEY bytes etag (Inr PreconditionFailed), Got CURRENT_JSON_KEY answer] \<and>
        reconciled js revn bytes answer r)"

definition exchange ::
  "serde \<Rightarrow> string \<Rightarrow> string \<Rightarrow> nat \<Rightarrow> string \<Rightarrow> event list \<Rightarrow> apply_error + unit \<Rightarrow> bool" where
  "exchange js revn bytes n etag evs r \<longleftrightarrow>
     (\<exists>objs tail. list_all (still_baseline js revn bytes) objs \<and> evs = refused_rounds bytes etag objs @ tail \<and>
        (length objs = n \<and> tail = [] \<and> r = Inl PointerRetriesExhausted \<or>
         length objs < n \<and> decided js revn bytes (etag_after etag objs) tail r))"

lemma exchange_decided: "decided js revn bytes etag evs r \<Longrightarrow> exchange js revn bytes (Suc n) etag evs r"
  unfolding exchange_def by (rule exI [of _ "[]"], rule exI [of _ evs]) (simp add: etag_after_def)

lemma exchange_round:
  assumes "still_baseline js revn bytes obj" and "exchange js revn bytes n (fo_etag obj) evs r"
  shows "exchange js revn bytes (Suc n) etag
    (PutMatch CURRENT_JSON_KEY bytes etag (Inr PreconditionFailed) # Got CURRENT_JSON_KEY (Inr (Some obj)) # evs) r"
proof -
  from assms(2) obtain objs tail where "list_all (still_baseline js revn bytes) objs"
    "evs = refused_rounds bytes (fo_etag obj) objs @ tail"
    "length objs = n \<and> tail = [] \<and> r = Inl PointerRetriesExhausted \<or>
     length objs < n \<and> decided js revn bytes (etag_after (fo_etag obj) objs) tail r"
    unfolding exchange_def by blast
  moreover have "etag_after etag (obj # objs) = etag_after (fo_etag obj) objs" by (simp add: etag_after_def)
  ultimately show ?thesis
    unfolding exchange_def using assms(1) by (intro exI [of _ "obj # objs"] exI [of _ tail]) auto
qed

section \<open>The loop\<close>

lemma commit_loop_exchange:
  "commit_loop js (recorded st) revn bytes n etag w = (r, w') \<Longrightarrow>
    \<exists>evs. snd (w_store w') = snd (w_store w) @ evs \<and> exchange js revn bytes n etag evs r"
proof (induction n arbitrary: etag w)
  case 0
  then show ?case by (auto simp: exchange_def io_throw_def)
next
  case (Suc n)
  obtain s0 log where s0: "w_store w = (s0, log)" by fastforce
  obtain a1 s1 where put: "put_if_match st CURRENT_JSON_KEY bytes ''application/json'' etag s0 = (a1, s1)" by fastforce
  let ?e1 = "PutMatch CURRENT_JSON_KEY bytes etag"
  consider (failed) e where "a1 = Inl e" | (written) x where "a1 = Inr (Written x)" | (refused) "a1 = Inr PreconditionFailed"
    by (cases a1) (auto intro: put_outcome.exhaust)
  then show ?case
  proof cases
    case failed
    with Suc.prems s0 put have "r = Inl (StorageErr e)" "snd (w_store w') = log @ [?e1 a1]"
      by (auto simp: io_then_def on_store_def)
    with s0 failed show ?thesis by (auto intro!: exchange_decided simp: decided_def)
  next
    case written
    with Suc.prems s0 put have "r = Inr ()" "snd (w_store w') = log @ [?e1 a1]"
      by (auto simp: io_then_def on_store_def io_return_def)
    with s0 written show ?thesis by (auto intro!: exchange_decided simp: decided_def)
  next
    case refused
    obtain a2 s2 where get: "get_object st CURRENT_JSON_KEY s1 = (a2, s2)" by fastforce
    let ?evs = "[?e1 (Inr PreconditionFailed), Got CURRENT_JSON_KEY a2]"
    let ?w = "w\<lparr>w_store := (s2, log @ ?evs)\<rparr>"
    show ?thesis
    proof (cases "\<exists>obj. a2 = Inr (Some obj) \<and> still_baseline js revn bytes obj")
      case True
      then obtain obj where obj: "a2 = Inr (Some obj)" "still_baseline js revn bytes obj" by blast
      then obtain doc where "fo_bytes obj \<noteq> bytes" "parse_pointer js (fo_bytes obj) = Inr doc" "revision doc = revn"
        by (auto simp: still_baseline_def split: sum.splits)
      with Suc.prems s0 put get refused obj(1)
      have "commit_loop js (recorded st) revn bytes n (fo_etag obj) ?w = (r, w')"
        by (simp add: io_then_def on_store_def io_lift_def)
      from Suc.IH [OF this] obtain evs where "snd (w_store w') = log @ ?evs @ evs" "exchange js revn bytes n (fo_etag obj) evs r"
        by auto
      with exchange_round [OF obj(2) this(2), of etag] s0 obj(1) show ?thesis by auto
    next
      case False
      with Suc.prems s0 put get refused have "reconciled js revn bytes a2 r \<and> snd (w_store w') = log @ ?evs"
        by (auto simp: io_then_def on_store_def io_lift_def io_return_def io_throw_def reconciled_def still_baseline_def
            split: sum.splits option.splits if_splits)
      with s0 show ?thesis by (auto intro!: exchange_decided simp: decided_def)
    qed
  qed
qed

section \<open>Property\<close>

text \<open>
  C33. Replacing the pointer, on any bucket and whatever it answers.  The only calls are conditional
  writes of the intended bytes and reads of the pointer; the first write goes out under the ETag
  read before planning, each later one, of at most five, under the ETag of an object just read that
  still has the revision this run started from.  It succeeds exactly when a write is accepted, or
  the object read after a refused one is the intended pointer, byte for byte (an earlier response
  was lost).  It reports a conflict exactly when that object parses as a pointer of another
  revision, and then writes no more; that the outcome is unknown when there is no object, the
  object's own error when it is no pointer, the bucket's error when a call fails, and that the
  retries are used up after five refusals with the old pointer in place.
\<close>
theorem commit_pointer_exchange:
  "case commit_pointer js (recorded st) base etag p w of
     (r, w') \<Rightarrow> \<exists>evs. snd (w_store w') = snd (w_store w) @ evs \<and>
       exchange js (revision base) (to_vec js p) MAX_POINTER_RETRIES etag evs r"
  using commit_loop_exchange unfolding commit_pointer_def by (auto split: prod.split)

text \<open>
  A write whose outcome is not known, as after a timeout, is the last call: the pointer is not
  read again to find out whether it took effect.
\<close>

lemma failed_write_not_reconciled:
  assumes "put_if_match st CURRENT_JSON_KEY (to_vec js p) ''application/json'' etag (fst (w_store w)) = (Inl e, s)"
  shows "commit_pointer js (recorded st) base etag p w =
    (Inl (StorageErr e), w\<lparr>w_store := (s, snd (w_store w) @ [PutMatch CURRENT_JSON_KEY (to_vec js p) etag (Inl e)])\<rparr>)"
  using assms by (cases "w_store w") (simp add: commit_pointer_def MAX_POINTER_RETRIES_def numeral_eq_Suc io_then_def on_store_def)

end
