(* ===== verification/Base32_Tests.thy ===== *)
theory Base32_Tests
  imports Base32
begin

text \<open>
  The unit tests of \<open>base32.rs\<close> as predicates on the model, under their names in the source,
  and that they hold.  The encodings are computed through the number the bytes denote.
\<close>

definition zero_bytes_encode_to_all_zero_digits :: bool where
  "zero_bytes_encode_to_all_zero_digits \<longleftrightarrow>
     (let encoded = encode (replicate 32 0)
      in encoded = replicate 52 CHR ''0'' \<and> length encoded = ENCODED_LEN)"

definition max_bytes_encode_to_leading_one_then_all_z :: bool where
  "max_bytes_encode_to_leading_one_then_all_z \<longleftrightarrow>
     encode (replicate 32 0xff) = CHR ''1'' # replicate 51 CHR ''z''"

definition single_low_bit_encodes_to_trailing_one :: bool where
  "single_low_bit_encodes_to_trailing_one \<longleftrightarrow>
     encode ((replicate 32 0)[31 := 1]) = replicate 51 CHR ''0'' @ ''1''"

definition round_trips_arbitrary_bytes :: bool where
  "round_trips_arbitrary_bytes \<longleftrightarrow>
     (let bytes = map (\<lambda>i. of_nat i * 37 + 11) [0..<32]; encoded = encode bytes
      in length encoded = ENCODED_LEN \<and> decode encoded = Inr bytes)"

definition rejects_wrong_length :: bool where
  "rejects_wrong_length \<longleftrightarrow>
     decode ''0'' = Inl (WrongLength 1) \<and> decode (replicate 53 CHR ''0'') = Inl (WrongLength 53)"

definition rejects_uppercase_and_aliases :: bool where
  "rejects_uppercase_and_aliases \<longleftrightarrow>
     decode (replicate 51 CHR ''0'' @ ''A'') = Inl (InvalidChar (byte CHR ''A'') 51) \<and>
     list_all (\<lambda>c. decode (replicate 51 CHR ''0'' @ [c]) = Inl (InvalidChar (byte c) 51)) ''ilo''"

definition is_canonical_rejects_nonzero_unused_high_bits :: bool where
  "is_canonical_rejects_nonzero_unused_high_bits \<longleftrightarrow> \<not> is_canonical (CHR ''2'' # replicate 51 CHR ''0'')"

definition is_canonical_accepts_boundary_values :: bool where
  "is_canonical_accepts_boundary_values \<longleftrightarrow>
     is_canonical (replicate 52 CHR ''0'') \<and> is_canonical (encode (replicate 32 0xff))"

text \<open>Reading the digit 0 into an accumulator of zeros changes nothing.\<close>

lemma mul_pass_zeros: "mul_pass 0 (replicate n 0) = (replicate n 0, 0)"
  by (induction n) (simp_all add: Let_def)

lemma decode_step_zero: "decode_step (i, byte CHR ''0'') (replicate 32 0) = Inr (replicate 32 0)"
proof -
  have "position (\<lambda>a. byte a = byte CHR ''0'' mod 256) ALPHABET = Some 0" by code_simp
  then show ?thesis by (simp add: decode_step_def mul_pass_zeros)
qed

lemma decode_zeros:
  "fold_res decode_step (List.enumerate i (replicate n (byte CHR ''0'') @ [ch])) (replicate 32 0)
    = decode_step (i + n, ch) (replicate 32 0)"
proof (induction n arbitrary: i)
  case 0
  then show ?case by (cases "decode_step (i, ch) (replicate 32 0)") simp_all
qed (simp add: decode_step_zero)

lemma decode_zeros_then:
  assumes "byte c < 128" and "position (\<lambda>a. byte a = byte c) ALPHABET = None"
  shows "decode (replicate 51 CHR ''0'' @ [c]) = Inl (InvalidChar (byte c) 51)"
proof -
  have "ascii (replicate 51 CHR ''0'' @ [c])" using assms(1) by (auto simp: ascii_def byte_def list_all_iff)
  then have c: "chars (replicate 51 CHR ''0'' @ [c]) = replicate 51 (byte CHR ''0'') @ [byte c]"
    by (simp add: chars_ascii map_replicate)
  have "fold_res decode_step (List.enumerate 0 (replicate 51 (byte CHR ''0'') @ [byte c])) (replicate 32 0)
      = Inl (InvalidChar (byte c) 51)"
    unfolding decode_zeros using assms by (simp add: decode_step_def)
  then show ?thesis by (simp only: decode_def c Let_def) (simp add: ENCODED_LEN_def)
qed

lemma be_value_ones: "be_value (replicate n 0xff) = 256 ^ n - 1"
proof (induction n)
  case (Suc n)
  have "255 * 256 ^ n + (256 ^ n - 1) = 256 * 256 ^ n - (1 :: nat)"
    by (simp add: algebra_simps)
  with Suc show ?case by simp
qed simp

lemma digits32_max: "digits32 n (32 ^ n - 1) = replicate n 31"
proof (induction n)
  case (Suc n)
  have "32 ^ Suc n - 1 = 32 * (32 ^ n - 1) + (31 :: nat)" by (simp add: algebra_simps)
  with Suc show ?case by (simp add: replicate_append_same)
qed simp

lemma digits32_mod: "digits32 n (k * 32 ^ n + v) = digits32 n v"
  proof (induction n arbitrary: k v)
  case (Suc n)
  have "k * 32 ^ Suc n + v = v + 32 * (k * 32 ^ n)" by simp
  then show ?case by (simp only: digits32.simps div_mult_self2 mod_mult_self2) (metis Suc add.commute)
qed simp

lemma digits32_small: "d < 32 \<Longrightarrow> digits32 (Suc n) d = replicate n 0 @ [d]"
proof -
  have "digits32 m 0 = replicate m 0" for m
    by (induction m) (simp_all add: replicate_append_same)
  then show "d < 32 \<Longrightarrow> ?thesis" by simp
qed

lemma base32_encode_tests:
  zero_bytes_encode_to_all_zero_digits max_bytes_encode_to_leading_one_then_all_z
  single_low_bit_encodes_to_trailing_one
proof -
  have a: "ALPHABET ! 0 = CHR ''0''" "ALPHABET ! Suc 0 = CHR ''1''" "ALPHABET ! 31 = CHR ''z''" by code_simp+
  have "digits32 52 0 = replicate 52 0"
    using digits32_small [of 0 51] replicate_Suc [of 51 "0 :: nat"] by (simp add: replicate_append_same)
  then show zero_bytes_encode_to_all_zero_digits
    by (simp add: zero_bytes_encode_to_all_zero_digits_def encode_digits ENCODED_LEN_def a
        del: digits32.simps)
  have "digits32 52 (256 ^ 32 - 1) = 1 # replicate 51 31"
    using digits32_Cons [of 51 "256 ^ 32 - 1"] digits32_mod [of 51 1 "32 ^ 51 - 1"] digits32_max [of 51]
    by (simp del: digits32.simps)
  then show max_bytes_encode_to_leading_one_then_all_z
    unfolding max_bytes_encode_to_leading_one_then_all_z_def encode_digits be_value_ones
    by (simp add: a del: digits32.simps)
  have "(replicate 32 0)[31 := 1] = replicate 31 0 @ [1 :: 8 word]" by code_simp
  moreover have "digits32 52 1 = replicate 51 0 @ [1]" using digits32_small [of 1 51] by simp
  ultimately show single_low_bit_encodes_to_trailing_one
    by (simp add: single_low_bit_encodes_to_trailing_one_def encode_digits be_value_append a
        del: digits32.simps)
qed

lemma base32_decode_tests:
  round_trips_arbitrary_bytes rejects_wrong_length rejects_uppercase_and_aliases
  is_canonical_rejects_nonzero_unused_high_bits is_canonical_accepts_boundary_values
proof -
  show round_trips_arbitrary_bytes
    using encode_canonical_text decode_encode_bytes
    by (simp add: round_trips_arbitrary_bytes_def Let_def canonical_text_def ENCODED_LEN_def)
  have "ascii ''0''" "ascii (replicate 53 CHR ''0'')" by (simp_all add: ascii_def byte_def list_all_iff)
  then show rejects_wrong_length
    by (simp only: rejects_wrong_length_def decode_def chars_ascii Let_def) (simp add: ENCODED_LEN_def)
  show rejects_uppercase_and_aliases
  proof -
    have "list_all (\<lambda>c. byte c < 128 \<and> position (\<lambda>a. byte a = byte c) ALPHABET = None) ''Ailo''"
      by code_simp
    then show ?thesis
      unfolding rejects_uppercase_and_aliases_def by (auto simp: decode_zeros_then)
  qed
  show is_canonical_rejects_nonzero_unused_high_bits
    by (simp add: is_canonical_rejects_nonzero_unused_high_bits_def is_canonical_def)
  have "canonical_text (replicate 52 CHR ''0'')" "ascii (replicate 52 CHR ''0'')" by code_simp+
  then have "is_canonical (replicate 52 CHR ''0'')" by (simp only: is_canonical_ascii)
  moreover have "is_canonical (encode (replicate 32 0xff))"
    using encode_canonical_text [of "replicate 32 0xff"] by (simp add: is_canonical_ascii encode_ascii)
  ultimately show is_canonical_accepts_boundary_values
    by (simp only: is_canonical_accepts_boundary_values_def)
qed

end
