(* ===== verification/Common_Tests.thy ===== *)
theory Common_Tests
  imports Keys Discovery "HOL-Library.Code_Target_Nat"
begin

text \<open>
  The unit tests of \<open>hostname.rs\<close>, \<open>strict_json.rs\<close>, \<open>keys.rs\<close> and
  \<open>discovery.rs\<close> as predicates on the model, under the names they have in the source (with
  the module in front where two modules use one name).  That they hold checks the definitions
  against what the authors wrote down about the code, input by input.  A test that goes
  through a third-party crate holds for every crate with the documented behaviour.
\<close>

text \<open>A JSON text, written with back quotes in place of the quotation marks.\<close>

definition quoted :: "string \<Rightarrow> string" where
  "quoted s = map (\<lambda>c. if c = CHR 0x60 then CHR 0x22 else c) s"

section \<open>\<open>hostname.rs\<close>\<close>

definition accepts_boundary_cases :: bool where
  "accepts_boundary_cases \<longleftrightarrow>
     is_ok (hostname_validate ''a'') \<and> is_ok (hostname_validate ''9'') \<and>
     is_ok (hostname_validate (replicate 63 CHR ''a'')) \<and>
     is_ok (hostname_validate ''master-us'') \<and> is_ok (hostname_validate ''workstation-01'')"

definition rejects_too_long :: bool where
  "rejects_too_long \<longleftrightarrow> hostname_validate (replicate 64 CHR ''a'') = Inl (TooLong 64)"

definition rejects_empty :: bool where
  "rejects_empty \<longleftrightarrow> hostname_validate [] = Inl Empty"

definition rejects_uppercase :: bool where
  "rejects_uppercase \<longleftrightarrow> \<not> is_ok (hostname_validate ''Master-US'')"

definition rejects_underscore :: bool where
  "rejects_underscore \<longleftrightarrow> \<not> is_ok (hostname_validate ''master_us'')"

definition rejects_leading_and_trailing_hyphen :: bool where
  "rejects_leading_and_trailing_hyphen \<longleftrightarrow>
     \<not> is_ok (hostname_validate ''-master'') \<and> \<not> is_ok (hostname_validate ''master-'')"

definition rejects_fqdn_suffix :: bool where
  "rejects_fqdn_suffix \<longleftrightarrow> \<not> is_ok (hostname_validate ''workstation-01.corp.example.com'')"

lemma hostname_tests:
  accepts_boundary_cases rejects_too_long rejects_empty rejects_uppercase rejects_underscore
  rejects_leading_and_trailing_hyphen rejects_fqdn_suffix
  by code_simp+

section \<open>\<open>strict_json.rs\<close>\<close>

definition accepts_valid_json_without_duplicates :: bool where
  "accepts_valid_json_without_duplicates \<longleftrightarrow>
     is_ok (check_no_duplicate_keys (quoted ''{`a`:1,`b`:{`c`:2},`d`:[1,2,3]}''))"

definition rejects_top_level_duplicate_key :: bool where
  "rejects_top_level_duplicate_key \<longleftrightarrow>
     check_no_duplicate_keys (quoted ''{`hostname`:`a`,`hostname`:`b`}'') = Inl (DuplicateKey ''hostname'')"

definition rejects_nested_duplicate_key :: bool where
  "rejects_nested_duplicate_key \<longleftrightarrow>
     check_no_duplicate_keys (quoted ''{`wg_config`:{`mtu`:1,`mtu`:2}}'') = Inl (DuplicateKey ''mtu'')"

definition does_not_confuse_string_values_for_keys :: bool where
  "does_not_confuse_string_values_for_keys \<longleftrightarrow>
     is_ok (check_no_duplicate_keys (quoted ''{`hostname`:`hostname`}''))"

definition allows_same_key_name_in_sibling_objects :: bool where
  "allows_same_key_name_in_sibling_objects \<longleftrightarrow>
     is_ok (check_no_duplicate_keys (quoted ''{`nodes`:[{`hostname`:`a`},{`hostname`:`b`}]}''))"

definition rejects_duplicate_key_inside_array_element_object :: bool where
  "rejects_duplicate_key_inside_array_element_object \<longleftrightarrow>
     check_no_duplicate_keys (quoted ''{`nodes`:[{`hostname`:`a`,`hostname`:`b`}]}'')
       = Inl (DuplicateKey ''hostname'')"

definition rejects_unbalanced_braces :: bool where
  "rejects_unbalanced_braces \<longleftrightarrow>
     \<not> is_ok (check_no_duplicate_keys (quoted ''{`a`:1'')) \<and>
     \<not> is_ok (check_no_duplicate_keys (quoted ''{`a`:1}}''))"

lemma strict_json_tests:
  accepts_valid_json_without_duplicates rejects_top_level_duplicate_key rejects_nested_duplicate_key
  does_not_confuse_string_values_for_keys allows_same_key_name_in_sibling_objects
  rejects_duplicate_key_inside_array_element_object rejects_unbalanced_braces
  by code_simp+

section \<open>\<open>keys.rs\<close>\<close>

definition generated_keypair_round_trips_through_base64 :: "crates \<Rightarrow> nat \<Rightarrow> bool" where
  "generated_keypair_round_trips_through_base64 cr draws \<longleftrightarrow>
     (let kp = fst (keypair_generate cr draws) in
      case from_private_key_base64 cr (private_key_base64 cr kp) of
        Inl _ \<Rightarrow> False
      | Inr reused \<Rightarrow> public_key_base64 cr reused = public_key_base64 cr kp)"

definition rejects_zero_private_key :: "crates \<Rightarrow> bool" where
  "rejects_zero_private_key cr \<longleftrightarrow>
     from_private_key_base64 cr (encode_key cr (replicate KEY_LEN 0)) = Inl ZeroKey"

definition rejects_zero_public_key :: "crates \<Rightarrow> bool" where
  "rejects_zero_public_key cr \<longleftrightarrow>
     validate_public_key cr (encode_key cr (replicate KEY_LEN 0)) = Inl ZeroKey"

definition rejects_zero_preshared_key :: "crates \<Rightarrow> bool" where
  "rejects_zero_preshared_key cr \<longleftrightarrow>
     validate_preshared_key cr (encode_key cr (replicate KEY_LEN 0)) = Inl ZeroKey"

definition rejects_non_canonical_base64 :: "crates \<Rightarrow> bool" where
  "rejects_non_canonical_base64 cr \<longleftrightarrow>
     (case validate_public_key cr ''not valid base64!!'' of Inl (InvalidBase64 _) \<Rightarrow> True | _ \<Rightarrow> False)"

definition rejects_wrong_decoded_length :: "crates \<Rightarrow> bool" where
  "rejects_wrong_decoded_length cr \<longleftrightarrow>
     validate_public_key cr (b64_encode cr (replicate 16 1)) = Inl (WrongKeyLength 16)"

definition generated_preshared_keys_are_nonzero_and_distinct :: "crates \<Rightarrow> nat \<Rightarrow> bool" where
  "generated_preshared_keys_are_nonzero_and_distinct cr draws \<longleftrightarrow>
     (case generate_preshared_key cr draws of (a, draws') \<Rightarrow>
        a \<noteq> fst (generate_preshared_key cr draws') \<and> is_ok (validate_preshared_key cr a))"

text \<open>Decoding a text the engine produced, before the checks.\<close>

lemma decode_encoded:
  assumes "b64_roundtrip cr"
  shows "decode_key_bytes cr (b64_encode cr bs) =
    guard_err (length bs \<noteq> KEY_LEN) (WrongKeyLength (length bs))
      (guard_err (bs = replicate KEY_LEN 0) ZeroKey (Inr bs))"
  using assms encode_key_plain [OF assms, of bs]
  by (simp add: decode_key_bytes_def encode_key_def trim_end_plain) (simp add: b64_roundtrip_def)

lemma keys_tests:
  assumes "b64_roundtrip cr"
  shows "rejects_zero_private_key cr" "rejects_zero_public_key cr" "rejects_zero_preshared_key cr"
    "rejects_wrong_decoded_length cr"
  by (simp_all add: rejects_zero_private_key_def rejects_zero_public_key_def rejects_zero_preshared_key_def
      rejects_wrong_decoded_length_def from_private_key_base64_def validate_public_key_def
      validate_preshared_key_def encode_key_def decode_encoded [OF assms] KEY_LEN_def)

lemma keys_base64_test:
  "\<not> is_ok (b64_decode cr ''not valid base64!!'') \<Longrightarrow> rejects_non_canonical_base64 cr"
proof -
  have "trim_end ''not valid base64!!'' = ''not valid base64!!''" by code_simp
  then show "\<not> is_ok (b64_decode cr ''not valid base64!!'') \<Longrightarrow> ?thesis"
    by (auto simp: rejects_non_canonical_base64_def validate_public_key_def decode_key_bytes_def is_ok_def
        split: sum.splits)
qed

lemma keys_generator_tests:
  assumes "b64_roundtrip cr" and "key_ok (csprng cr draws)" and "csprng cr draws \<noteq> csprng cr (Suc draws)"
  shows "generated_keypair_round_trips_through_base64 cr draws"
    "generated_preshared_keys_are_nonzero_and_distinct cr draws"
proof -
  note d = decode_encode_key [OF assms(1,2)]
  then show "generated_keypair_round_trips_through_base64 cr draws"
    by (simp add: generated_keypair_round_trips_through_base64_def keypair_generate_def
        from_private_key_base64_def private_key_base64_def)
  have "encode_key cr (csprng cr draws) \<noteq> encode_key cr (csprng cr (Suc draws))"
    using assms(1,3) by (metis b64_roundtrip_def encode_key_def sum.inject(2))
  with d show "generated_preshared_keys_are_nonzero_and_distinct cr draws"
    by (simp add: generated_preshared_keys_are_nonzero_and_distinct_def generate_preshared_key_def
        validate_preshared_key_def)
qed

section \<open>\<open>discovery.rs\<close>\<close>

definition id_of_byte :: "8 word \<Rightarrow> string" where
  "id_of_byte n = encode (replicate 32 n)"

definition empty_pointer_is_valid :: bool where
  "empty_pointer_is_valid \<longleftrightarrow> is_ok (discovery_validate (current_json_empty (id_of_byte 1)))"

definition rejects_previous_without_current :: bool where
  "rejects_previous_without_current \<longleftrightarrow>
     (let nodes = bt_insert ''a'' (id_of_byte 9) [] in
      discovery_validate \<lparr>schema_version = SCHEMA_VERSION, revision = id_of_byte 1, cur = None,
        prev = Some \<lparr>ge_id = id_of_byte 2, ge_nodes = nodes\<rparr>\<rparr> = Inl PreviousWithoutCurrent)"

definition rejects_equal_current_previous_ids :: bool where
  "rejects_equal_current_previous_ids \<longleftrightarrow>
     (let nodes = bt_insert ''a'' (id_of_byte 9) [];
          entry = \<lparr>ge_id = id_of_byte 2, ge_nodes = nodes\<rparr> in
      discovery_validate \<lparr>schema_version = SCHEMA_VERSION, revision = id_of_byte 1, cur = Some entry,
        prev = Some entry\<rparr> = Inl EqualCurrentPreviousIds)"

definition rejects_empty_node_map :: bool where
  "rejects_empty_node_map \<longleftrightarrow>
     (let entry = \<lparr>ge_id = id_of_byte 2, ge_nodes = []\<rparr> in
      discovery_validate \<lparr>schema_version = SCHEMA_VERSION, revision = id_of_byte 1, cur = Some entry,
        prev = None\<rparr> = Inl EmptyNodeMap)"

definition rejects_unsupported_schema_version :: bool where
  "rejects_unsupported_schema_version \<longleftrightarrow>
     discovery_validate \<lparr>schema_version = 2, revision = id_of_byte 1, cur = None, prev = None\<rparr>
       = Inl (UnsupportedSchemaVersion 2)"

definition pointer_with_unknown_field :: string where
  "pointer_with_unknown_field = quoted ''{`schema_version`:1,`revision`:`'' @ id_of_byte 1 @
     quoted ''`,`current`:null,`previous`:null,`extra`:1}''"

definition discovery_rejects_unknown_fields :: "(string \<Rightarrow> string + current_json) \<Rightarrow> bool" where
  "discovery_rejects_unknown_fields from_str \<longleftrightarrow>
     \<not> is_ok (discovery_parse from_str pointer_with_unknown_field)"

definition discovery_rejects_duplicate_keys :: "(string \<Rightarrow> string + current_json) \<Rightarrow> bool" where
  "discovery_rejects_duplicate_keys from_str \<longleftrightarrow>
     (case discovery_parse from_str (quoted ''{`schema_version`:1,`schema_version`:1,`revision`:`'' @ id_of_byte 1 @
         quoted ''`,`current`:null,`previous`:null}'') of
        Inl (DuplicateJsonKey _) \<Rightarrow> True | _ \<Rightarrow> False)"

lemma id_of_byte_canonical: "is_canonical (id_of_byte n)"
  using encode_canonical_text [of "replicate 32 n"] by (simp add: id_of_byte_def is_canonical_ascii encode_ascii)

lemma discovery_validate_tests:
  empty_pointer_is_valid rejects_previous_without_current rejects_equal_current_previous_ids
  rejects_empty_node_map rejects_unsupported_schema_version
proof -
  show empty_pointer_is_valid
    using discovery_ok_empty [OF id_of_byte_canonical]
    by (simp add: empty_pointer_is_valid_def flip: discovery_validate_iff)
qed (simp_all add: id_of_byte_canonical rejects_previous_without_current_def discovery_validate_def
    rejects_equal_current_previous_ids_def rejects_empty_node_map_def validate_generation_entry_def
    rejects_unsupported_schema_version_def SCHEMA_VERSION_def Let_def)

lemma utf8_chunks_ascii_append: "ascii p \<Longrightarrow> utf8_chunks (p @ s) = map (\<lambda>c. [c]) p @ utf8_chunks s"
proof (induction p)
  case (Cons a p)
  then show ?case using utf8_chunks_append_ascii [of a "[]" "p @ s"]
    by (simp add: ascii_def utf8_chunks_def)
qed simp

lemma discovery_parse_tests:
  "\<not> is_ok (from_str pointer_with_unknown_field) \<Longrightarrow> discovery_rejects_unknown_fields from_str"
  "discovery_rejects_duplicate_keys from_str"
proof -
  show "\<not> is_ok (from_str pointer_with_unknown_field) \<Longrightarrow> discovery_rejects_unknown_fields from_str"
    by (auto simp: discovery_rejects_unknown_fields_def discovery_parse_def and_then_def map_err_def is_ok_def
        split: sum.splits)
  have "check_no_duplicate_keys (quoted ''{`schema_version`:1,`schema_version`:1,`revision`:`'' @ rest)
      = Inl (DuplicateKey ''schema_version'')" for rest
  proof -
    let ?p = "quoted ''{`schema_version`:1,`schema_version`:1,`revision`:`''"
    have "ascii ?p" by code_simp
    then have "utf8_chunks (?p @ rest) = map (\<lambda>c. [c]) ?p @ utf8_chunks rest"
      by (rule utf8_chunks_ascii_append)
    moreover have "scan (map (\<lambda>c. [c]) ?p @ cs) [] = Inl (DuplicateKey ''schema_version'')" for cs
      by code_simp
    ultimately show ?thesis by (simp add: check_no_duplicate_keys_def)
  qed
  then show "discovery_rejects_duplicate_keys from_str"
    by (simp add: discovery_rejects_duplicate_keys_def discovery_parse_def)
qed

end
