(* ===== verification/Parser_Tests.thy ===== *)
theory Parser_Tests
  imports Topology_Tests
begin

text \<open>
  The parser's unit tests of \<open>render.rs\<close> as predicates on the model over the crates and the
  draws of the random generator, and that they hold.  Key texts stay symbolic: the files are
  taken apart line by line with the parser's lemmas.
\<close>

section \<open>The fixtures\<close>

definition test_private_key :: "crates \<Rightarrow> nat \<Rightarrow> string" where
  "test_private_key cr draws = private_key_base64 cr (fst (keypair_generate cr draws))"

definition test_public_key :: "crates \<Rightarrow> nat \<Rightarrow> string" where
  "test_public_key cr draws = public_key_base64 cr (fst (keypair_generate cr draws))"

definition config_with_key :: "string \<Rightarrow> string" where
  "config_with_key key = ln ''[Interface]'' @ ln (''PrivateKey = '' @ key) @ ln ''Address = 10.0.0.1/32''
     @ ln ''ListenPort = 51820''"

definition minimal_valid_config :: "crates \<Rightarrow> nat \<Rightarrow> string" where
  "minimal_valid_config cr draws = config_with_key (test_private_key cr draws)"

definition valid_peer_block :: "crates \<Rightarrow> nat \<Rightarrow> string \<Rightarrow> string \<Rightarrow> string" where
  "valid_peer_block cr draws pub_b64 allowed_ips = ln [] @ ln ''[Peer]'' @ ln (''PublicKey = '' @ pub_b64)
     @ ln (''PresharedKey = '' @ fst (generate_preshared_key cr draws)) @ ln (''AllowedIPs = '' @ allowed_ips)"

definition parse_err :: "crates \<Rightarrow> string \<Rightarrow> parse_error option" where
  "parse_err cr s = (case parse_wg_quick cr s of Inl e \<Rightarrow> Some e | Inr _ \<Rightarrow> None)"

section \<open>The tests\<close>

definition parser_accepts_zero_peers :: "crates \<Rightarrow> nat \<Rightarrow> bool" where
  "parser_accepts_zero_peers cr draws \<longleftrightarrow> is_ok (parse_wg_quick cr (minimal_valid_config cr draws))"

definition parser_rejects_forbidden_directive :: "crates \<Rightarrow> nat \<Rightarrow> bool" where
  "parser_rejects_forbidden_directive cr draws \<longleftrightarrow>
     (case parse_wg_quick cr (minimal_valid_config cr draws @ ln ''PreUp = echo hi'') of
        Inl (ForbiddenDirective _) \<Rightarrow> True | _ \<Rightarrow> False)"

definition parser_rejects_unknown_section :: "crates \<Rightarrow> nat \<Rightarrow> bool" where
  "parser_rejects_unknown_section cr draws \<longleftrightarrow>
     (case parse_wg_quick cr (minimal_valid_config cr draws @ ln [] @ ln ''[Bogus]'' @ ln ''Foo = bar'') of
        Inl (UnknownSection _) \<Rightarrow> True | _ \<Rightarrow> False)"

definition parser_rejects_duplicate_interface_section :: "crates \<Rightarrow> nat \<Rightarrow> bool" where
  "parser_rejects_duplicate_interface_section cr draws \<longleftrightarrow>
     (let base = minimal_valid_config cr draws
      in parse_err cr (base @ ln [] @ base) = Some (DuplicateSection ''Interface''))"

definition parser_rejects_duplicate_directive :: "crates \<Rightarrow> nat \<Rightarrow> bool" where
  "parser_rejects_duplicate_directive cr draws \<longleftrightarrow>
     (case parse_wg_quick cr (minimal_valid_config cr draws @ ln ''ListenPort = 51821'') of
        Inl (DuplicateDirective _ sec) \<Rightarrow> sec = ''Interface'' | _ \<Rightarrow> False)"

definition parser_rejects_zero_private_key :: "crates \<Rightarrow> bool" where
  "parser_rejects_zero_private_key cr \<longleftrightarrow>
     (case parse_wg_quick cr (config_with_key (encode_key cr (replicate KEY_LEN 0))) of
        Inl (InvalidKey _) \<Rightarrow> True | _ \<Rightarrow> False)"

definition parser_rejects_self_peer :: "crates \<Rightarrow> nat \<Rightarrow> bool" where
  "parser_rejects_self_peer cr draws \<longleftrightarrow>
     parse_err cr (config_with_key (test_private_key cr draws)
       @ valid_peer_block cr (draws + 1) (test_public_key cr draws) ''10.0.0.2/32'') = Some PeerMatchesLocalKey"

definition parser_rejects_duplicate_peer_public_key :: "crates \<Rightarrow> nat \<Rightarrow> bool" where
  "parser_rejects_duplicate_peer_public_key cr draws \<longleftrightarrow>
     (let peer = test_public_key cr (draws + 1) in
      parse_err cr (config_with_key (test_private_key cr draws)
        @ valid_peer_block cr (draws + 2) peer ''10.0.0.2/32''
        @ valid_peer_block cr (draws + 3) peer ''10.0.0.3/32'') = Some DuplicatePeerPublicKey)"

definition parser_rejects_default_route_in_allowed_ips :: "crates \<Rightarrow> nat \<Rightarrow> bool" where
  "parser_rejects_default_route_in_allowed_ips cr draws \<longleftrightarrow>
     parse_err cr (config_with_key (test_private_key cr draws)
       @ valid_peer_block cr (draws + 2) (test_public_key cr (draws + 1)) ''0.0.0.0/0'')
     = Some parse_error.DefaultRouteRejected"

definition parser_rejects_route_covering_local_address :: "crates \<Rightarrow> nat \<Rightarrow> bool" where
  "parser_rejects_route_covering_local_address cr draws \<longleftrightarrow>
     parse_err cr (config_with_key (test_private_key cr draws)
       @ valid_peer_block cr (draws + 2) (test_public_key cr (draws + 1)) ''10.0.0.0/24'')
     = Some RouteCoversLocalAddress"

definition parser_rejects_overlapping_peer_routes :: "crates \<Rightarrow> nat \<Rightarrow> bool" where
  "parser_rejects_overlapping_peer_routes cr draws \<longleftrightarrow>
     parse_err cr (config_with_key (test_private_key cr draws)
       @ valid_peer_block cr (draws + 3) (test_public_key cr (draws + 1)) ''10.20.0.0/16''
       @ valid_peer_block cr (draws + 4) (test_public_key cr (draws + 2)) ''10.20.5.0/24'')
     = Some OverlappingAllowedIps"

definition parser_rejects_nul_byte :: "crates \<Rightarrow> nat \<Rightarrow> bool" where
  "parser_rejects_nul_byte cr draws \<longleftrightarrow>
     parse_err cr (minimal_valid_config cr draws @ [CHR 0x00]) = Some ControlCharacter"

definition parser_rejects_missing_interface :: "crates \<Rightarrow> bool" where
  "parser_rejects_missing_interface cr \<longleftrightarrow> parse_err cr (ln ''# just a comment'') = Some MissingInterface"

definition parser_rejects_oversized_input :: "crates \<Rightarrow> bool" where
  "parser_rejects_oversized_input cr \<longleftrightarrow>
     (let text = ''#'' @ replicate (MAX_RENDERED_CONFIG_BYTES + 1) CHR ''a''
      in parse_err cr text = Some (parse_error.TooLarge (length text)))"

section \<open>Taking a file apart\<close>

definition iface_kvs :: "string \<Rightarrow> (string \<times> string) list" where
  "iface_kvs key = [(''PrivateKey'', key), (''Address'', ''10.0.0.1/32''), (''ListenPort'', ''51820'')]"

definition block_kvs :: "string \<Rightarrow> string \<Rightarrow> string \<Rightarrow> (string \<times> string) list" where
  "block_kvs pub psk allowed = [(''PublicKey'', pub), (''PresharedKey'', psk), (''AllowedIPs'', allowed)]"

lemma config_with_key_lines: "config_with_key key = text_of (''[Interface]'' # field_lines (iface_kvs key))"
  by (simp add: config_with_key_def iface_kvs_def)

lemma peer_block_lines:
  "valid_peer_block cr draws pub allowed =
    text_of ([] # ''[Peer]'' # field_lines (block_kvs pub (fst (generate_preshared_key cr draws)) allowed))"
  by (simp add: valid_peer_block_def block_kvs_def)

lemma parse_section_lines:
  "kvs_ok kvs \<Longrightarrow> fold_res parse_line (''[Interface]'' # field_lines kvs) secs
    = Inr (secs @ [\<lparr>rs_name = ''Interface'', rs_fields = kvs\<rparr>])"
  "kvs_ok kvs \<Longrightarrow> fold_res parse_line ([] # ''[Peer]'' # field_lines kvs) secs
    = Inr (secs @ [\<lparr>rs_name = ''Peer'', rs_fields = kvs\<rparr>])"
  using parse_fields [of kvs secs "\<lparr>rs_name = ''Interface'', rs_fields = []\<rparr>"]
    parse_fields [of kvs secs "\<lparr>rs_name = ''Peer'', rs_fields = []\<rparr>"]
  by (simp_all add: kvs_ok_def parse_line_header parse_comments)

lemma parse_text:
  assumes "list_all (\<lambda>l. CHR 0x0A \<notin> set l \<and> CHR 0x00 \<notin> set l) ls"
    and "length (text_of ls) \<le> MAX_RENDERED_CONFIG_BYTES"
  shows "parse_wg_quick cr (text_of ls) =
    and_then (fold_res parse_line ls []) (\<lambda>sections.
    and_then (fold_res (parse_section cr) sections (None, [])) (\<lambda>(interface, peers).
    and_then (ok_or MissingInterface interface) (\<lambda>interface.
    and_then (map_err InvalidKey (public_key_from_private_base64 cr (pi_private_key interface))) (\<lambda>local_pub.
    and_then (fold_res (check_peer_key local_pub) peers []) (\<lambda>_.
    and_then (for_each (check_peer_routes cr (pi_address interface) peers) (List.enumerate 0 peers)) (\<lambda>_.
    Inr \<lparr>pc_interface = interface, pc_peers = peers\<rparr>))))))"
proof -
  have "split CHR 0x0A (text_of ls) = ls @ [[]]"
    unfolding text_of_def using assms(1) by (intro split_lines) (auto simp: list_all_iff)
  moreover have "CHR 0x00 \<notin> set (text_of ls)"
    using assms(1) by (intro text_of_no_nul) (auto simp: list_all_iff)
  moreover have "fold_res parse_line [[]] = Inr" by (rule ext) (simp add: parse_comments)
  moreover have "and_then r Inr = r" for r :: "parse_error + raw_section list"
    by (cases r) simp_all
  ultimately show ?thesis
    using assms(2) by (simp add: parse_wg_quick_def parse_sections_def fold_res_append parse_comments)
qed

section \<open>The pieces, evaluated\<close>

lemma values_ok:
  "list_all (\<lambda>v. plain v \<and> v \<noteq> []) [''10.0.0.1/32'', ''51820'', ''51821'', ''10.0.0.2/32'', ''10.0.0.3/32'', ''0.0.0.0/0'',
     ''10.0.0.0/24'', ''10.20.0.0/16'', ''10.20.5.0/24'']"
  by code_simp

lemma kvs_ok_tests:
  "key_text key \<Longrightarrow> kvs_ok (iface_kvs key)"
  "key_text pub \<Longrightarrow> key_text psk \<Longrightarrow> list_all (\<lambda>allowed. kvs_ok (block_kvs pub psk allowed))
    [''10.0.0.2/32'', ''10.0.0.3/32'', ''0.0.0.0/0'', ''10.0.0.0/24'', ''10.20.0.0/16'', ''10.20.5.0/24'']"
  using values_ok by (simp_all add: kvs_ok_def iface_kvs_def block_kvs_def key_text_def plain_value_ok)

lemma allowed_texts:
  "list_all (\<lambda>(s, n). map trim (split CHR '','' s) = [s] \<and> sample_net_parse s = Some n)
     [(''10.0.0.2/32'', Ipv4Net 0x0A000002 32), (''10.0.0.3/32'', Ipv4Net 0x0A000003 32),
      (''0.0.0.0/0'', Ipv4Net 0 0), (''10.0.0.0/24'', Ipv4Net 0x0A000000 24),
      (''10.20.0.0/16'', Ipv4Net 0x0A140000 16), (''10.20.5.0/24'', Ipv4Net 0x0A140500 24)]"
  "sample_net_parse ''10.0.0.1/32'' = Some (Ipv4Net 0x0A000001 32)"
  "parse_u16 ''51820'' = Some 51820"
  by code_simp+

lemma sample_nets:
  "net_parse sample_crates = sample_net_parse"
  "net_network sample_crates n = of_nat (sample_network n)"
  "net_broadcast sample_crates n = of_nat (sample_network n + (net_hosts n - 1))"
  by (simp_all add: sample_crates_def)

lemmas net_eval = sample_nets allowed_texts [simplified] parse_allowed_ip_def sample_network_def net_hosts_def

definition test_iface :: "string \<Rightarrow> parsed_interface" where
  "test_iface key = \<lparr>pi_private_key = key, pi_address = 0x0A000001, pi_listen_port = 51820, pi_dns = None, pi_mtu = None\<rparr>"

definition test_acc :: "string \<Rightarrow> iface_acc" where
  "test_acc key = \<lparr>ia_seen = [''ListenPort'', ''Address'', ''PrivateKey''], ia_private_key = Some key,
     ia_address = Some 0x0A000001, ia_listen_port = Some 51820, ia_dns = None, ia_mtu = None\<rparr>"

lemma iface_fields:
  "validate_key_bytes sample_crates key = Inr bs \<Longrightarrow>
    fold_res (interface_field sample_crates) (iface_kvs key) iface_acc_init = Inr (test_acc key)"
  by (simp add: iface_kvs_def iface_acc_init_def interface_field_def check_no_forbidden_or_unknown_def
      INTERFACE_ALLOWED_def INTERFACE_FORBIDDEN_def Let_def net_eval test_acc_def)

lemma iface_parses:
  "validate_key_bytes sample_crates key = Inr bs \<Longrightarrow>
    parse_interface_fields sample_crates (iface_kvs key) = Inr (test_iface key)"
  by (simp add: parse_interface_fields_def iface_fields) (simp add: test_acc_def test_iface_def)

lemma block_parses:
  assumes "validate_public_key sample_crates pub = Inr b1" and "validate_preshared_key sample_crates psk = Inr b2"
    and "map_res (parse_allowed_ip sample_crates) (map trim (split CHR '','' allowed)) = r" and "allowed \<noteq> []"
  shows "parse_peer_fields sample_crates (block_kvs pub psk allowed) =
    and_then r (\<lambda>nets. guard_err (nets = []) EmptyAllowedIps (
      Inr \<lparr>pp_public_key = pub, pp_preshared_key = psk, pp_allowed_ips = nets, pp_endpoint = None,
        pp_persistent_keepalive = None\<rparr>))"
  using assms
  by (cases r) (simp_all add: parse_peer_fields_def block_kvs_def peer_acc_init_def peer_field_def
      check_no_forbidden_or_unknown_def PEER_ALLOWED_def Let_def)

text \<open>The keys the tests generate.\<close>

lemma generated_keys:
  "key_text (test_private_key sample_crates k)" "key_text (test_public_key sample_crates k)"
  "key_text (fst (generate_preshared_key sample_crates k))"
  "\<exists>bs. validate_key_bytes sample_crates (test_private_key sample_crates k) = Inr bs"
  "\<exists>bs. validate_public_key sample_crates (test_public_key sample_crates k) = Inr bs"
  "\<exists>bs. validate_preshared_key sample_crates (fst (generate_preshared_key sample_crates k)) = Inr bs"
  "public_key_from_private_base64 sample_crates (test_private_key sample_crates k) = Inr (test_public_key sample_crates k)"
proof -
  note defs = test_private_key_def test_public_key_def private_key_base64_def public_key_base64_def public_key_bytes_def
    keypair_generate_def generate_preshared_key_def validate_key_bytes_def validate_public_key_def validate_preshared_key_def
  have t: "key_text (encode_key sample_crates bs) \<and> decode_key_bytes sample_crates (encode_key sample_crates bs) = Inr bs"
    if "key_ok bs" for bs
    using that key_ok_nonempty [OF that] sample_laws(5) encode_key_plain encode_key_nonempty decode_encode_key
    by (simp add: key_text_def)
  show "key_text (test_private_key sample_crates k)" "key_text (test_public_key sample_crates k)"
    "key_text (fst (generate_preshared_key sample_crates k))"
    "\<exists>bs. validate_key_bytes sample_crates (test_private_key sample_crates k) = Inr bs"
    "\<exists>bs. validate_public_key sample_crates (test_public_key sample_crates k) = Inr bs"
    "\<exists>bs. validate_preshared_key sample_crates (fst (generate_preshared_key sample_crates k)) = Inr bs"
    using t [OF sample_key_ok(1)] t [OF sample_key_ok(2)] by (simp_all add: defs)
  show "public_key_from_private_base64 sample_crates (test_private_key sample_crates k) = Inr (test_public_key sample_crates k)"
    using t [OF sample_key_ok(1)] by (simp add: defs public_key_from_private_Inr)
qed

lemma length_sample_keys:
  "length (test_private_key sample_crates k) = 64" "length (test_public_key sample_crates k) = 64"
  "length (fst (generate_preshared_key sample_crates k)) = 64"
proof -
  have "length (hex_text bs) = 2 * length bs" for bs by (induction bs) (simp_all add: hex_text_def)
  moreover have "length (csprng sample_crates k) = 32" "length (x25519_public sample_crates bs) = 32" for bs
    using sample_laws(7,9) by (simp_all add: random_32_def x25519_32_def)
  moreover have "b64_encode sample_crates = hex_text" by (simp add: sample_crates_def)
  ultimately show "length (test_private_key sample_crates k) = 64" "length (test_public_key sample_crates k) = 64"
    "length (fst (generate_preshared_key sample_crates k)) = 64"
    by (simp_all add: test_private_key_def test_public_key_def private_key_base64_def public_key_base64_def
        public_key_bytes_def keypair_generate_def generate_preshared_key_def encode_key_def)
qed

text \<open>The rest of the parser, on the sections of a file.\<close>

definition check_file :: "raw_section list \<Rightarrow> parse_error + parsed_config" where
  "check_file sections =
     and_then (fold_res (parse_section sample_crates) sections (None, [])) (\<lambda>(interface, peers).
     and_then (ok_or MissingInterface interface) (\<lambda>interface.
     and_then (map_err InvalidKey (public_key_from_private_base64 sample_crates (pi_private_key interface))) (\<lambda>local_pub.
     and_then (fold_res (check_peer_key local_pub) peers []) (\<lambda>_.
     and_then (for_each (check_peer_routes sample_crates (pi_address interface) peers) (List.enumerate 0 peers)) (\<lambda>_.
     Inr \<lparr>pc_interface = interface, pc_peers = peers\<rparr>)))))"

definition one_line :: "string \<Rightarrow> bool" where
  "one_line l \<longleftrightarrow> CHR 0x0A \<notin> set l \<and> CHR 0x00 \<notin> set l"

abbreviation iface_section :: "string \<Rightarrow> raw_section" where
  "iface_section key \<equiv> \<lparr>rs_name = ''Interface'', rs_fields = iface_kvs key\<rparr>"

lemma parse_file:
  assumes "key_text key" and "length key \<le> 100" and "list_all one_line ls" and "length (text_of ls) \<le> 10000"
  shows "parse_wg_quick sample_crates (config_with_key key @ text_of ls) =
    and_then (fold_res parse_line ls [iface_section key]) check_file"
proof -
  let ?ls = "''[Interface]'' # field_lines (iface_kvs key)"
  have k: "kvs_ok (iface_kvs key)" by (rule kvs_ok_tests(1) [OF assms(1)])
  have "list_all (\<lambda>l. CHR 0x0A \<notin> set l \<and> CHR 0x00 \<notin> set l) (?ls @ ls)"
    using field_lines_no_newline [OF k] assms(3) by (auto simp: list_all_iff one_line_def)
  moreover have "length (text_of (?ls @ ls)) \<le> MAX_RENDERED_CONFIG_BYTES"
    using assms(2,4) by (simp add: MAX_RENDERED_CONFIG_BYTES_def iface_kvs_def ln_def)
  moreover have "config_with_key key @ text_of ls = text_of (?ls @ ls)" by (simp add: config_with_key_lines)
  moreover have "fold_res parse_line ?ls [] = Inr [iface_section key]"
    using parse_section_lines(1) [OF k, of "[]"] by simp
  moreover have "and_then (Inr x) f = f x" for x and f :: "raw_section list \<Rightarrow> parse_error + raw_section list" by simp
  ultimately show ?thesis
    by (simp only: parse_text fold_res_append) (simp add: check_file_def [abs_def])
qed

text \<open>The parser on a generated key, followed by the given lines.\<close>

lemma parse_generated:
  assumes "list_all one_line ls" and "length (text_of ls) \<le> 10000"
  shows "parse_wg_quick sample_crates (config_with_key (test_private_key sample_crates k) @ text_of ls) =
    and_then (fold_res parse_line ls [iface_section (test_private_key sample_crates k)]) check_file"
  using assms by (intro parse_file) (simp_all add: generated_keys length_sample_keys)

lemma extra_field:
  assumes "key_word k" and "value_ok v"
  shows "parse_line (k @ '' = '' @ v) [iface_section key]
    = Inr [\<lparr>rs_name = ''Interface'', rs_fields = iface_kvs key @ [(k, v)]\<rparr>]"
  using parse_line_field [OF assms, of "[]" "iface_section key"] by simp

lemma minimal_config_tests:
  "parser_accepts_zero_peers sample_crates k" "parser_rejects_forbidden_directive sample_crates k"
  "parser_rejects_unknown_section sample_crates k" "parser_rejects_duplicate_directive sample_crates k"
proof -
  let ?key = "test_private_key sample_crates k"
  obtain bs where bs: "validate_key_bytes sample_crates ?key = Inr bs" using generated_keys(4) by blast
  note on_file = parse_generated [of _ k]
  have "value_ok ''51821''" using values_ok by (simp add: plain_value_ok)
  moreover have "value_ok ''echo hi''"
    by (rule spaced_value_ok) (simp_all add: plain_char_def byte_def)
  moreover have "key_word ''PreUp''"
    by (simp add: key_word_def is_ascii_alphanumeric_def is_ascii_digit_def is_ascii_lowercase_def byte_def)
  ultimately have f: "parse_line ''PreUp = echo hi'' [iface_section ?key]
      = Inr [\<lparr>rs_name = ''Interface'', rs_fields = iface_kvs ?key @ [(''PreUp'', ''echo hi'')]\<rparr>]"
    "parse_line ''ListenPort = 51821'' [iface_section ?key]
      = Inr [\<lparr>rs_name = ''Interface'', rs_fields = iface_kvs ?key @ [(''ListenPort'', ''51821'')]\<rparr>]"
    using extra_field [of "''PreUp''" "''echo hi''" ?key] extra_field [of "''ListenPort''" "''51821''" ?key] by simp_all
  show "parser_accepts_zero_peers sample_crates k"
    using on_file [of "[]"] iface_parses [OF bs]
    by (simp add: parser_accepts_zero_peers_def minimal_valid_config_def check_file_def parse_section_def test_iface_def
        generated_keys(7))
  note eval = minimal_valid_config_def check_file_def parse_section_def one_line_def parse_interface_fields_def
    fold_res_append iface_fields [OF bs] ln_def
  have r: "interface_field sample_crates (''PreUp'', v) acc = Inl (ForbiddenDirective ''PreUp'')"
    "interface_field sample_crates (''ListenPort'', v) (test_acc ?key) = Inl (DuplicateDirective ''ListenPort'' ''Interface'')"
    for v acc
    by (simp_all add: interface_field_def check_no_forbidden_or_unknown_def INTERFACE_ALLOWED_def
        INTERFACE_FORBIDDEN_def test_acc_def)
  show "parser_rejects_forbidden_directive sample_crates k"
    using on_file [of "[''PreUp = echo hi'']"] f(1)
    by (simp add: parser_rejects_forbidden_directive_def eval r)
  show "parser_rejects_duplicate_directive sample_crates k"
    using on_file [of "[''ListenPort = 51821'']"] f(2)
    by (simp add: parser_rejects_duplicate_directive_def eval r)
  have "parse_line ''[Bogus]'' secs = Inl (UnknownSection ''Bogus'')" for secs
    by (simp add: parse_line_def trim_matches_id parse_header_def starts_with_def strip_suffix_def)
  then show "parser_rejects_unknown_section sample_crates k"
    using on_file [of "[[], ''[Bogus]'', ''Foo = bar'']"]
    by (simp add: parser_rejects_unknown_section_def eval parse_comments)
qed

lemma whole_file_tests:
  "parser_rejects_nul_byte sample_crates k" "parser_rejects_missing_interface sample_crates"
  "parser_rejects_oversized_input sample_crates"
proof -
  have "length (minimal_valid_config sample_crates k @ [CHR 0x00]) \<le> MAX_RENDERED_CONFIG_BYTES"
    by (simp add: minimal_valid_config_def config_with_key_def length_sample_keys ln_def MAX_RENDERED_CONFIG_BYTES_def)
  then show "parser_rejects_nul_byte sample_crates k"
    by (simp add: parser_rejects_nul_byte_def parse_err_def parse_wg_quick_def)
  show "parser_rejects_oversized_input sample_crates"
    by (simp add: parser_rejects_oversized_input_def parse_err_def parse_wg_quick_def Let_def)
  have "parse_line ''# just a comment'' [] = Inr []"
    by (rule parse_line_skip) (simp add: starts_with_def)
  then show "parser_rejects_missing_interface sample_crates"
    using parse_text [of "[''# just a comment'']" sample_crates]
    by (simp add: parser_rejects_missing_interface_def parse_err_def MAX_RENDERED_CONFIG_BYTES_def ln_def)
qed

lemma duplicate_interface_test: "parser_rejects_duplicate_interface_section sample_crates k"
proof -
  let ?key = "test_private_key sample_crates k" and ?ls = "[] # ''[Interface]'' # field_lines (iface_kvs (test_private_key sample_crates k))"
  obtain bs where bs: "validate_key_bytes sample_crates ?key = Inr bs" using generated_keys(4) by blast
  have k: "kvs_ok (iface_kvs ?key)" by (rule kvs_ok_tests(1) [OF generated_keys(1)])
  have "list_all one_line ?ls"
    using field_lines_no_newline [OF k] by (auto simp: list_all_iff one_line_def)
  moreover have "length (text_of ?ls) \<le> 10000" by (simp add: iface_kvs_def ln_def length_sample_keys)
  moreover have "fold_res parse_line ?ls [iface_section ?key] = Inr [iface_section ?key, iface_section ?key]"
    using parse_section_lines(1) [OF k, of "[iface_section ?key]"] by (simp add: parse_comments)
  ultimately have "parse_wg_quick sample_crates (config_with_key ?key @ text_of ?ls)
      = check_file [iface_section ?key, iface_section ?key]"
    by (simp only: parse_generated) simp
  then show ?thesis
    by (simp add: parser_rejects_duplicate_interface_section_def minimal_valid_config_def Let_def parse_err_def
        config_with_key_lines check_file_def parse_section_def iface_parses [OF bs])
qed

lemma zero_key_test: "parser_rejects_zero_private_key sample_crates"
proof -
  let ?key = "encode_key sample_crates (replicate KEY_LEN 0)"
  have t: "key_text ?key" using sample_laws(5) encode_key_plain encode_key_nonempty by (simp add: key_text_def KEY_LEN_def)
  have "length (hex_text bs) = 2 * length bs" for bs by (induction bs) (simp_all add: hex_text_def)
  then have "length ?key \<le> 100" by (simp add: encode_key_def sample_crates_def KEY_LEN_def)
  then have "parse_wg_quick sample_crates (config_with_key ?key) = check_file [iface_section ?key]"
    using parse_file [OF t, of "[]"] by simp
  moreover have "validate_key_bytes sample_crates ?key = Inl ZeroKey"
    using decode_encoded [OF sample_laws(5), of "replicate KEY_LEN 0"] by (simp add: validate_key_bytes_def encode_key_def)
  ultimately show ?thesis
    by (simp add: parser_rejects_zero_private_key_def check_file_def parse_section_def parse_interface_fields_def
        iface_kvs_def interface_field_def check_no_forbidden_or_unknown_def INTERFACE_ALLOWED_def INTERFACE_FORBIDDEN_def
        iface_acc_init_def)
qed

section \<open>Files with peers\<close>

abbreviation peer_section :: "string \<Rightarrow> nat \<Rightarrow> string \<Rightarrow> raw_section" where
  "peer_section pub draws allowed \<equiv> \<lparr>rs_name = ''Peer'',
     rs_fields = block_kvs pub (fst (generate_preshared_key sample_crates draws)) allowed\<rparr>"

definition test_allowed :: "string list" where
  "test_allowed = [''10.0.0.2/32'', ''10.0.0.3/32'', ''0.0.0.0/0'', ''10.0.0.0/24'', ''10.20.0.0/16'', ''10.20.5.0/24'']"

definition block_lines :: "string \<Rightarrow> nat \<Rightarrow> string \<Rightarrow> string list" where
  "block_lines pub draws allowed =
     [] # ''[Peer]'' # field_lines (block_kvs pub (fst (generate_preshared_key sample_crates draws)) allowed)"

lemma block_sections:
  assumes "allowed \<in> set test_allowed" and "key_text pub" and "length pub = 64"
  shows "valid_peer_block sample_crates draws pub allowed = text_of (block_lines pub draws allowed)"
    and "list_all one_line (block_lines pub draws allowed)"
    and "length (text_of (block_lines pub draws allowed)) \<le> 1000"
    and "fold_res parse_line (block_lines pub draws allowed) secs = Inr (secs @ [peer_section pub draws allowed])"
proof -
  have k: "kvs_ok (block_kvs pub (fst (generate_preshared_key sample_crates draws)) allowed)"
    using kvs_ok_tests(2) [OF assms(2) generated_keys(3), of draws] assms(1)
    by (auto simp: test_allowed_def)
  show "valid_peer_block sample_crates draws pub allowed = text_of (block_lines pub draws allowed)"
    by (simp add: block_lines_def peer_block_lines)
  show "list_all one_line (block_lines pub draws allowed)"
    using field_lines_no_newline [OF k] by (auto simp: block_lines_def list_all_iff one_line_def)
  show "fold_res parse_line (block_lines pub draws allowed) secs = Inr (secs @ [peer_section pub draws allowed])"
    unfolding block_lines_def by (rule parse_section_lines(2) [OF k])
  have "length allowed \<le> 20" using assms(1) by (auto simp: test_allowed_def)
  then show "length (text_of (block_lines pub draws allowed)) \<le> 1000"
    using assms(3) by (simp add: block_lines_def ln_def block_kvs_def length_sample_keys)
qed

lemma parse_one_peer:
  assumes "allowed \<in> set test_allowed" and "key_text pub" and "length pub = 64"
  shows "parse_wg_quick sample_crates (config_with_key (test_private_key sample_crates k)
      @ valid_peer_block sample_crates d pub allowed)
    = check_file [iface_section (test_private_key sample_crates k), peer_section pub d allowed]"
  using block_sections [OF assms, of d] by (simp add: parse_generated)

lemma parse_two_peers:
  assumes "allowed \<in> set test_allowed" "key_text pub" "length pub = 64"
    and "allowed' \<in> set test_allowed" "key_text pub'" "length pub' = 64"
  shows "parse_wg_quick sample_crates (config_with_key (test_private_key sample_crates k)
      @ valid_peer_block sample_crates d pub allowed @ valid_peer_block sample_crates d' pub' allowed')
    = check_file [iface_section (test_private_key sample_crates k), peer_section pub d allowed,
        peer_section pub' d' allowed']"
proof -
  note b = block_sections [OF assms(1-3), of d] and c = block_sections [OF assms(4-6), of d']
  let ?ls = "block_lines pub d allowed" and ?ms = "block_lines pub' d' allowed'"
  have "text_of ?ls @ text_of ?ms = text_of (?ls @ ?ms)" by simp
  moreover have "list_all one_line (?ls @ ?ms)" using b(2) c(2) by simp
  moreover have "length (text_of (?ls @ ?ms)) \<le> 10000" using b(3) c(3) by simp
  moreover have "fold_res parse_line (?ls @ ?ms) [iface_section (test_private_key sample_crates k)] =
      Inr [iface_section (test_private_key sample_crates k), peer_section pub d allowed, peer_section pub' d' allowed']"
    unfolding fold_res_append b(4) by (simp only: and_then_simps c(4)) simp
  ultimately show ?thesis by (simp only: b(1) c(1) parse_generated) simp
qed

text \<open>What the parser has of a section once its fields are read.\<close>

lemma parse_peer_section:
  assumes "is_ok (validate_public_key sample_crates pub)"
    and "map_res (parse_allowed_ip sample_crates) (map trim (split CHR '','' allowed)) = Inr nets"
    and "allowed \<noteq> []" "nets \<noteq> []"
  shows "parse_section sample_crates (peer_section pub d allowed) (i, ps) =
    Inr (i, ps @ [\<lparr>pp_public_key = pub, pp_preshared_key = fst (generate_preshared_key sample_crates d),
      pp_allowed_ips = nets, pp_endpoint = None, pp_persistent_keepalive = None\<rparr>])"
proof -
  obtain b c where "validate_public_key sample_crates pub = Inr b"
    "validate_preshared_key sample_crates (fst (generate_preshared_key sample_crates d)) = Inr c"
    using assms(1) generated_keys(6) [of d] by (auto simp: is_ok_iff)
  from block_parses [OF this assms(2,3)] assms(4) show ?thesis by (simp add: parse_section_def)
qed

lemma parse_iface_section:
  "parse_section sample_crates (iface_section (test_private_key sample_crates k)) (None, ps) =
    Inr (Some (test_iface (test_private_key sample_crates k)), ps)"
proof -
  obtain bs where "validate_key_bytes sample_crates (test_private_key sample_crates k) = Inr bs"
    using generated_keys(4) by blast
  from iface_parses [OF this] show ?thesis by (simp add: parse_section_def)
qed

lemma allowed_parse:
  "map_res (parse_allowed_ip sample_crates) (map trim (split CHR '','' ''10.0.0.2/32'')) = Inr [Ipv4Net 0x0A000002 32]"
  "map_res (parse_allowed_ip sample_crates) (map trim (split CHR '','' ''10.0.0.3/32'')) = Inr [Ipv4Net 0x0A000003 32]"
  "map_res (parse_allowed_ip sample_crates) (map trim (split CHR '','' ''0.0.0.0/0'')) = Inl parse_error.DefaultRouteRejected"
  "map_res (parse_allowed_ip sample_crates) (map trim (split CHR '','' ''10.0.0.0/24'')) = Inr [Ipv4Net 0x0A000000 24]"
  "map_res (parse_allowed_ip sample_crates) (map trim (split CHR '','' ''10.20.0.0/16'')) = Inr [Ipv4Net 0x0A140000 16]"
  "map_res (parse_allowed_ip sample_crates) (map trim (split CHR '','' ''10.20.5.0/24'')) = Inr [Ipv4Net 0x0A140500 24]"
  by (simp_all add: net_eval)

lemma public_key_eq:
  "test_public_key sample_crates j = test_public_key sample_crates k \<longleftrightarrow> (of_nat j :: 8 word) = of_nat k"
proof -
  have x: "x25519_public sample_crates (csprng sample_crates k) = of_nat k # replicate 30 0 @ [1]" for k
    by (simp add: sample_crates_def pad32_def)
  have "hex_text a = hex_text b \<longleftrightarrow> a = b" for a b by (metis hex_bytes_text)
  moreover have "test_public_key sample_crates k = hex_text (of_nat k # replicate 30 0 @ [1])" for k
    using x by (simp add: test_public_key_def public_key_base64_def public_key_bytes_def keypair_generate_def
        encode_key_def) (simp add: sample_crates_def)
  ultimately show ?thesis by simp
qed

lemma public_key_ok: "is_ok (validate_public_key sample_crates (test_public_key sample_crates k))"
  using generated_keys(5) [of k] by (auto simp: is_ok_iff)

definition test_peer :: "nat \<Rightarrow> nat \<Rightarrow> ipv4net \<Rightarrow> parsed_peer" where
  "test_peer j d n = \<lparr>pp_public_key = test_public_key sample_crates j,
     pp_preshared_key = fst (generate_preshared_key sample_crates d), pp_allowed_ips = [n], pp_endpoint = None,
     pp_persistent_keepalive = None\<rparr>"

lemma peer_sections:
  "parse_section sample_crates (peer_section (test_public_key sample_crates j) d ''10.0.0.2/32'') (i, ps)
    = Inr (i, ps @ [test_peer j d (Ipv4Net 0x0A000002 32)])"
  "parse_section sample_crates (peer_section (test_public_key sample_crates j) d ''10.0.0.3/32'') (i, ps)
    = Inr (i, ps @ [test_peer j d (Ipv4Net 0x0A000003 32)])"
  "parse_section sample_crates (peer_section (test_public_key sample_crates j) d ''10.0.0.0/24'') (i, ps)
    = Inr (i, ps @ [test_peer j d (Ipv4Net 0x0A000000 24)])"
  "parse_section sample_crates (peer_section (test_public_key sample_crates j) d ''10.20.0.0/16'') (i, ps)
    = Inr (i, ps @ [test_peer j d (Ipv4Net 0x0A140000 16)])"
  "parse_section sample_crates (peer_section (test_public_key sample_crates j) d ''10.20.5.0/24'') (i, ps)
    = Inr (i, ps @ [test_peer j d (Ipv4Net 0x0A140500 24)])"
  unfolding test_peer_def
  by (rule parse_peer_section [OF public_key_ok allowed_parse(1)] parse_peer_section [OF public_key_ok allowed_parse(2)]
      parse_peer_section [OF public_key_ok allowed_parse(4)] parse_peer_section [OF public_key_ok allowed_parse(5)]
      parse_peer_section [OF public_key_ok allowed_parse(6)]; simp)+

lemmas peers_eval = parse_err_def parse_one_peer parse_two_peers test_allowed_def generated_keys length_sample_keys
  check_file_def parse_iface_section peer_sections test_iface_def test_peer_def Let_def

lemma peer_key_tests:
  "parser_rejects_self_peer sample_crates k" "parser_rejects_duplicate_peer_public_key sample_crates k"
  by (simp_all add: parser_rejects_self_peer_def parser_rejects_duplicate_peer_public_key_def peers_eval
      check_peer_key_def public_key_eq)

lemma peer_route_tests:
  "parser_rejects_route_covering_local_address sample_crates k"
  "parser_rejects_overlapping_peer_routes sample_crates k"
  by (simp_all add: parser_rejects_route_covering_local_address_def parser_rejects_overlapping_peer_routes_def
      peers_eval check_peer_key_def public_key_eq check_peer_routes_def net_range_def sample_nets
      sample_network_def net_hosts_def ranges_overlap_def)

lemma default_route_test: "parser_rejects_default_route_in_allowed_ips sample_crates k"
proof -
  obtain b c where "validate_public_key sample_crates (test_public_key sample_crates (k + 1)) = Inr b"
    "validate_preshared_key sample_crates (fst (generate_preshared_key sample_crates (k + 2))) = Inr c"
    using generated_keys(5,6) by blast
  from block_parses [OF this allowed_parse(3)] show ?thesis
    by (simp add: parser_rejects_default_route_in_allowed_ips_def peers_eval parse_section_def [of _ "peer_section _ _ _"])
qed

end
