(* ===== verification/Render_Tests.thy ===== *)
theory Render_Tests
  imports Parser_Tests
begin

text \<open>
  The renderer's unit tests of \<open>render.rs\<close> as predicates on the model over the crates and the
  draws of the random generator, and that they hold.
\<close>

section \<open>The fixtures\<close>

definition test_vnode :: "string \<Rightarrow> string \<Rightarrow> string option \<Rightarrow> 16 word option \<Rightarrow> validated_node" where
  "test_vnode hostname addr endpoint keepalive = \<lparr>vn_hostname = hostname, vn_tunnel_address = the (parse_ipv4 addr),
     vn_listen_port = 51820, vn_endpoint = endpoint, vn_dns = None, vn_mtu = None, vn_extra_allowed_ips = [],
     vn_persistent_keepalive = keepalive\<rparr>"

definition example_topology :: validated_topology where
  "example_topology = \<lparr>vt_nodes =
       [test_vnode ''master-eu'' ''10.10.0.2'' (Some ''198.51.100.20:51820'') None,
        test_vnode ''master-us'' ''10.10.0.1'' (Some ''203.0.113.10:51820'') None,
        test_vnode ''workstation-01'' ''10.10.0.100'' None None],
     vt_masters = bs_of_list [''master-us'', ''master-eu'']\<rparr>"

definition example_keys :: "crates \<Rightarrow> nat \<Rightarrow> validated_topology \<Rightarrow> resolved_keys" where
  "example_keys cr draws topo =
     (let (rk, draws) = fold (\<lambda>n (rk, d). case keypair_generate cr d of (kp, d') \<Rightarrow>
            (rk\<lparr>node_keys := bt_insert (vn_hostname n) (private_key_base64 cr kp, public_key_base64 cr kp) (node_keys rk)\<rparr>, d'))
          (vt_nodes topo) (\<lparr>node_keys = [], edge_psks = []\<rparr>, draws)
      in fst (fold (\<lambda>(a, b) (rk, d). case generate_preshared_key cr d of (psk, d') \<Rightarrow>
            (rk\<lparr>edge_psks := bt_insert (a, b) psk (edge_psks rk)\<rparr>, d'))
          (edges topo) (rk, draws)))"

text \<open>\<open>text.contains(s)\<close>\<close>

fun contains :: "string \<Rightarrow> string \<Rightarrow> bool" where
  "contains [] s = (s = [])"
| "contains (c # cs) s = (starts_with s (c # cs) \<or> contains cs s)"

definition set_keepalive :: "string \<Rightarrow> 16 word option \<Rightarrow> validated_topology \<Rightarrow> validated_topology" where
  "set_keepalive hostname k topo = topo\<lparr>vt_nodes := map (\<lambda>n.
     if vn_hostname n = hostname then n\<lparr>vn_persistent_keepalive := k\<rparr> else n) (vt_nodes topo)\<rparr>"

section \<open>The tests\<close>

definition renders_a_config_that_parses_cleanly :: "crates \<Rightarrow> nat \<Rightarrow> bool" where
  "renders_a_config_that_parses_cleanly cr draws \<longleftrightarrow>
     (let topo = example_topology; rk = example_keys cr draws topo in
      case and_then (map_err (\<lambda>_. ()) (render_node_config cr topo rk ''master-us''))
          (\<lambda>text. map_err (\<lambda>_. ()) (parse_wg_quick cr text)) of
        Inl _ \<Rightarrow> False
      | Inr parsed \<Rightarrow> length (pc_peers parsed) = 2 \<and> pi_listen_port (pc_interface parsed) = 51820)"

definition rendering_is_byte_for_byte_deterministic :: "crates \<Rightarrow> nat \<Rightarrow> bool" where
  "rendering_is_byte_for_byte_deterministic cr draws \<longleftrightarrow>
     (let topo = example_topology; rk = example_keys cr draws topo in
      case (render_node_config cr topo rk ''master-us'', render_node_config cr topo rk ''master-us'') of
        (Inr a, Inr b) \<Rightarrow> a = b | _ \<Rightarrow> False)"

definition peer_order_is_independent_of_input_node_order :: "crates \<Rightarrow> nat \<Rightarrow> bool" where
  "peer_order_is_independent_of_input_node_order cr draws \<longleftrightarrow>
     (let topo = example_topology; rk = example_keys cr draws topo;
          reordered = topo\<lparr>vt_nodes := List.rev (vt_nodes topo)\<rparr> in
      case (render_node_config cr topo rk ''master-us'', render_node_config cr reordered rk ''master-us'') of
        (Inr a, Inr b) \<Rightarrow> a = b | _ \<Rightarrow> False)"

definition rendered_contains :: "crates \<Rightarrow> nat \<Rightarrow> validated_topology \<Rightarrow> string \<Rightarrow> string \<Rightarrow> bool option" where
  "rendered_contains cr draws topo hostname s =
     (case render_node_config cr topo (example_keys cr draws topo) hostname of
        Inl _ \<Rightarrow> None | Inr text \<Rightarrow> Some (contains text s))"

definition keepalive_defaults_to_25_when_local_node_has_no_endpoint :: "crates \<Rightarrow> nat \<Rightarrow> bool" where
  "keepalive_defaults_to_25_when_local_node_has_no_endpoint cr draws \<longleftrightarrow>
     rendered_contains cr draws example_topology ''workstation-01'' ''PersistentKeepalive = 25'' = Some True"

definition keepalive_omitted_when_local_node_has_an_endpoint :: "crates \<Rightarrow> nat \<Rightarrow> bool" where
  "keepalive_omitted_when_local_node_has_an_endpoint cr draws \<longleftrightarrow>
     rendered_contains cr draws example_topology ''master-us'' ''PersistentKeepalive'' = Some False"

definition explicit_zero_keepalive_disables_it_even_without_an_endpoint :: "crates \<Rightarrow> nat \<Rightarrow> bool" where
  "explicit_zero_keepalive_disables_it_even_without_an_endpoint cr draws \<longleftrightarrow>
     rendered_contains cr draws (set_keepalive ''workstation-01'' (Some 0) example_topology) ''workstation-01''
       ''PersistentKeepalive'' = Some False"

definition explicit_keepalive_enables_it_even_with_an_endpoint :: "crates \<Rightarrow> nat \<Rightarrow> bool" where
  "explicit_keepalive_enables_it_even_with_an_endpoint cr draws \<longleftrightarrow>
     rendered_contains cr draws (set_keepalive ''master-us'' (Some 15) example_topology) ''master-us''
       ''PersistentKeepalive = 15'' = Some True"

section \<open>The fixture is a validated topology\<close>

definition keepalive_topology :: "16 word option \<Rightarrow> 16 word option \<Rightarrow> validated_topology" where
  "keepalive_topology us ws = \<lparr>vt_nodes =
       [test_vnode ''master-eu'' ''10.10.0.2'' (Some ''198.51.100.20:51820'') None,
        test_vnode ''master-us'' ''10.10.0.1'' (Some ''203.0.113.10:51820'') us,
        test_vnode ''workstation-01'' ''10.10.0.100'' None ws],
     vt_masters = [''master-eu'', ''master-us'']\<rparr>"

definition keepalive_config :: "16 word option \<Rightarrow> 16 word option \<Rightarrow> topology_config" where
  "keepalive_config us ws = sample_config\<lparr>tc_nodes :=
     (case tc_nodes example_config of [n_us, n_eu, n_ws, n_mobile] \<Rightarrow>
        [n_eu, n_us\<lparr>nc_wg_config := (nc_wg_config n_us)\<lparr>wg_persistent_keepalive := us\<rparr>\<rparr>,
         n_ws\<lparr>nc_wg_config := (nc_wg_config n_ws)\<lparr>wg_persistent_keepalive := ws\<rparr>\<rparr>]),
     tc_master := [''master-us'', ''master-eu'']\<rparr>"

lemma test_addresses:
  "list_all (\<lambda>(s, a). parse_ipv4 s = Some a)
    [(''10.10.0.1'', 0x0A0A0001), (''10.10.0.2'', 0x0A0A0002), (''10.10.0.100'', 0x0A0A0064)]"
  by code_simp

lemma test_edges:
  "compute_edges [''master-eu'', ''master-us'', ''workstation-01''] [''master-eu'', ''master-us''] =
    [(''master-eu'', ''master-us''), (''master-eu'', ''workstation-01''), (''master-us'', ''workstation-01'')]"
  by code_simp

lemma keepalive_validates:
  "topology_validate sample_crates (keepalive_config us ws) = Inr (keepalive_topology us ws, [])"
proof -
  have "validate_r2_endpoint sample_crates ''https://r2.example'' = Inr ()"
    by (simp add: validate_r2_endpoint_def sample_crates_def sample_url_def)
  then show ?thesis
    using test_edges
    by (simp add: topology_validate_def keepalive_config_def keepalive_topology_def sample_config_def example_config_def
        test_node_def validate_r2_credentials_def test_hosts [simplified] check_hostname_def check_master_def
        check_node_def MAX_NODES_def Let_def parse_canonical_ipv4_net_def sample_nets test_net_texts [simplified]
        sample_network_def bt_get_def check_routes_of_def check_edge_def string_order test_vnode_def
        test_addresses [simplified] cong: lazy_results)
qed

lemma keepalive_topologies:
  "example_topology = keepalive_topology None None"
  "set_keepalive ''workstation-01'' ws example_topology = keepalive_topology None ws"
  "set_keepalive ''master-us'' us example_topology = keepalive_topology us None"
  "edges (keepalive_topology us ws) =
    [(''master-eu'', ''master-us''), (''master-eu'', ''workstation-01''), (''master-us'', ''workstation-01'')]"
  by (simp_all add: example_topology_def keepalive_topology_def set_keepalive_def test_vnode_def bs_of_list_def
      string_order edges_def test_edges)

definition test_keys :: "nat \<Rightarrow> resolved_keys" where
  "test_keys k = \<lparr>node_keys = [(''master-eu'', sample_keypair k), (''master-us'', sample_keypair (k + 1)),
       (''workstation-01'', sample_keypair (k + 2))],
     edge_psks = [((''master-eu'', ''master-us''), fst (generate_preshared_key sample_crates (k + 3))),
       ((''master-eu'', ''workstation-01''), fst (generate_preshared_key sample_crates (k + 4))),
       ((''master-us'', ''workstation-01''), fst (generate_preshared_key sample_crates (k + 5)))]\<rparr>"

lemma example_keys_eval: "example_keys sample_crates k (keepalive_topology us ws) = test_keys k"
  by (simp add: example_keys_def keepalive_topologies(4) test_keys_def keypair_generate_def generate_preshared_key_def
      sample_keypair_def key_pair_text_def string_order)
    (simp add: keepalive_topology_def test_vnode_def string_order numeral_eq_Suc)

lemma sample_keypair_texts: "sample_keypair k = (test_private_key sample_crates k, test_public_key sample_crates k)"
  by (simp add: sample_keypair_def key_pair_text_def test_private_key_def test_public_key_def keypair_generate_def)

lemma test_keys_valid: "keys_valid sample_crates (keepalive_topology us ws) (test_keys k)"
proof -
  have pair: "node_key_valid sample_crates (test_private_key sample_crates j, test_public_key sample_crates j)" for j
    using generated_keys(4,5,7) [of j] by (auto simp: node_key_valid_def is_ok_iff)
  have psk: "is_ok (validate_preshared_key sample_crates (fst (generate_preshared_key sample_crates j)))" for j
    using generated_keys(6) [of j] by (auto simp: is_ok_iff)
  have "keys_text (test_keys k)"
    by (auto simp: keys_text_def test_keys_def sample_keypair_texts bt_get_def generated_keys split: if_splits)
  then show ?thesis
    unfolding keys_valid_def keepalive_topologies(4)
    using pair psk
    by (auto simp: keepalive_topology_def test_vnode_def test_keys_def bt_get_def sample_keypair_texts public_key_eq
        split: if_splits)
qed

lemma peers_of_test:
  "peers_of ''master-us'' (edges (keepalive_topology us ws)) = [''master-eu'', ''workstation-01'']"
  "peers_of ''workstation-01'' (edges (keepalive_topology us ws)) = [''master-eu'', ''master-us'']"
  by (simp_all add: peers_of_def keepalive_topologies(4) List.map_filter_def string_order)

lemma texts:
  "show_ipv4 0x0A0A0001 = ''10.10.0.1''" "show_ipv4 0x0A0A0002 = ''10.10.0.2''" "show_ipv4 0x0A0A0064 = ''10.10.0.100''"
  "show_u16 51820 = ''51820''" "show_u16 25 = ''25''" "show_u16 15 = ''15''"
  by code_simp+

definition head_lines :: "string \<Rightarrow> string \<Rightarrow> string \<Rightarrow> string list" where
  "head_lines h priv addr = [''# Managed by wg-server -- do not edit manually.'', ''# Hostname: '' @ h, [], ''[Interface]'',
     ''PrivateKey = '' @ priv, ''Address = '' @ addr @ ''/32'', ''ListenPort = 51820'']"

definition block_of :: "string \<Rightarrow> string \<Rightarrow> string \<Rightarrow> string \<Rightarrow> string list \<Rightarrow> 16 word option \<Rightarrow> string list" where
  "block_of p pub psk addr ep ka = [[], ''[Peer]'', ''# '' @ p, ''PublicKey = '' @ pub, ''PresharedKey = '' @ psk,
     ''AllowedIPs = '' @ addr @ ''/32''] @ map (\<lambda>e. ''Endpoint = '' @ e) ep
     @ (case ka of Some w \<Rightarrow> [''PersistentKeepalive = '' @ show_u16 w] | None \<Rightarrow> [])"

lemma keepalive_nodes:
  "node (keepalive_topology us ws) ''master-eu'' = Some (test_vnode ''master-eu'' ''10.10.0.2'' (Some ''198.51.100.20:51820'') None)"
  "node (keepalive_topology us ws) ''master-us'' = Some (test_vnode ''master-us'' ''10.10.0.1'' (Some ''203.0.113.10:51820'') us)"
  "node (keepalive_topology us ws) ''workstation-01'' = Some (test_vnode ''workstation-01'' ''10.10.0.100'' None ws)"
  by (simp_all add: node_def keepalive_topology_def test_vnode_def)

lemmas lines_eval = rendered_lines_def peers_of_test config_lines_def peer_entry_def keepalive_nodes test_keys_def
  bt_get_def peer_kvs_def sorted_allowed_ips_def opt_field_def interface_kvs_def peer_lines_def canonical_pair_def
  string_order sample_keypair_texts texts head_lines_def block_of_def

lemma us_lines:
  "rendered_lines sample_crates (keepalive_topology us ws) (test_keys k) ''master-us''
     (test_vnode ''master-us'' ''10.10.0.1'' (Some ''203.0.113.10:51820'') us) priv =
   (let ka = resolve_local_keepalive (test_vnode ''master-us'' ''10.10.0.1'' (Some ''203.0.113.10:51820'') us) in
    head_lines ''master-us'' priv ''10.10.0.1''
     @ block_of ''master-eu'' (test_public_key sample_crates k) (fst (generate_preshared_key sample_crates (k + 3)))
         ''10.10.0.2'' [''198.51.100.20:51820''] ka
     @ block_of ''workstation-01'' (test_public_key sample_crates (k + 2))
         (fst (generate_preshared_key sample_crates (k + 5))) ''10.10.0.100'' [] ka)"
  by (cases "resolve_local_keepalive (test_vnode ''master-us'' ''10.10.0.1'' (Some ''203.0.113.10:51820'') us)")
    (simp_all add: lines_eval, simp_all add: test_vnode_def texts test_addresses [simplified])

lemma ws_lines:
  "rendered_lines sample_crates (keepalive_topology us ws) (test_keys k) ''workstation-01''
     (test_vnode ''workstation-01'' ''10.10.0.100'' None ws) priv =
   (let ka = resolve_local_keepalive (test_vnode ''workstation-01'' ''10.10.0.100'' None ws) in
    head_lines ''workstation-01'' priv ''10.10.0.100''
     @ block_of ''master-eu'' (test_public_key sample_crates k) (fst (generate_preshared_key sample_crates (k + 4)))
         ''10.10.0.2'' [''198.51.100.20:51820''] ka
     @ block_of ''master-us'' (test_public_key sample_crates (k + 1))
         (fst (generate_preshared_key sample_crates (k + 5))) ''10.10.0.1'' [''203.0.113.10:51820''] ka)"
  by (cases "resolve_local_keepalive (test_vnode ''workstation-01'' ''10.10.0.100'' None ws)")
    (simp_all add: lines_eval, simp_all add: test_vnode_def texts test_addresses [simplified])

section \<open>Searching the text\<close>

lemma starts_with_newline:
  "CHR 0x0A \<notin> set s \<Longrightarrow> starts_with s (l @ CHR 0x0A # t) \<longleftrightarrow> starts_with s l"
proof (induction s l rule: strip_prefix.induct)
  case (2 p ps)
  then show ?case by (auto simp: starts_with_def)
qed (simp_all add: starts_with_def)

lemma contains_line:
  assumes "CHR 0x0A \<notin> set s" and "s \<noteq> []"
  shows "contains (ln l @ t) s \<longleftrightarrow> contains l s \<or> contains t s"
proof (induction l)
  case Nil
  have "\<not> starts_with s (CHR 0x0A # t)" using starts_with_newline [OF assms(1), of "[]"] assms(2)
    by (cases s) (simp_all add: starts_with_def)
  with assms(2) show ?case by (simp add: ln_def)
next
  case (Cons c l)
  then show ?case using starts_with_newline [OF assms(1), of "c # l" t] by (auto simp: ln_def)
qed

lemma contains_lines:
  "CHR 0x0A \<notin> set s \<Longrightarrow> s \<noteq> [] \<Longrightarrow> contains (text_of ls) s \<longleftrightarrow> list_ex (\<lambda>l. contains l s) ls"
  by (induction ls) (simp_all add: contains_line)

lemma contains_set: "contains l s \<Longrightarrow> set s \<subseteq> set l"
proof (induction l)
  case (Cons c l)
  from Cons.prems consider y where "c # l = s @ y" | "contains l s"
    by (auto simp: starts_with_def strip_prefix_Some)
  then show ?case
  proof cases
    case (1 y)
    then have "set (c # l) = set s \<union> set y" by (metis set_append)
    then show ?thesis by blast
  qed (use Cons.IH in auto)
qed simp

lemma contains_self: "contains s s"
  using strip_prefix_append [of s "[]"] by (cases s) (simp_all add: starts_with_def)

lemma sample_key_chars:
  "set (test_private_key sample_crates k) \<subseteq> set ''0123456789abcdef''"
  "set (test_public_key sample_crates k) \<subseteq> set ''0123456789abcdef''"
  "set (fst (generate_preshared_key sample_crates k)) \<subseteq> set ''0123456789abcdef''"
proof -
  have "hex_char d \<in> set ''0123456789abcdef''" if "d < 16" for d
  proof -
    have "list_all (\<lambda>d. hex_char d \<in> set ''0123456789abcdef'') [0..<16]" by code_simp
    then have "\<forall>d\<in>{0..<16}. hex_char d \<in> set ''0123456789abcdef''" by (simp only: list_all_iff set_upt)
    then show ?thesis by (rule bspec) (use that in simp)
  qed
  moreover have "unat w div 16 < 16" for w :: "8 word" using unat8 [of w] by simp
  ultimately have "set (hex_text bs) \<subseteq> set ''0123456789abcdef''" for bs
    by (induction bs) (simp_all add: hex_text_def)
  moreover have "b64_encode sample_crates = hex_text" by (simp add: sample_crates_def)
  ultimately show "set (test_private_key sample_crates k) \<subseteq> set ''0123456789abcdef''"
    "set (test_public_key sample_crates k) \<subseteq> set ''0123456789abcdef''"
    "set (fst (generate_preshared_key sample_crates k)) \<subseteq> set ''0123456789abcdef''"
    by (simp_all only: test_private_key_def test_public_key_def private_key_base64_def public_key_base64_def
        generate_preshared_key_def encode_key_def fst_conv)
qed

text \<open>No line of a rendered file without a keepalive has all the letters of the directive.\<close>

definition hex_only :: "string \<Rightarrow> bool" where
  "hex_only s \<longleftrightarrow> set s \<subseteq> set ''0123456789abcdef''"

lemma hex_only_lacks:
  "hex_only s \<Longrightarrow> CHR ''s'' \<notin> set s \<and> CHR ''i'' \<notin> set s \<and> CHR ''r'' \<notin> set s \<and> CHR ''t'' \<notin> set s \<and> CHR ''v'' \<notin> set s \<and> CHR ''n'' \<notin> set s"
  unfolding hex_only_def by auto

lemma contains_lacks: "\<not> list_all (\<lambda>c. c \<in> set l) ''PersistentKeepalive'' \<Longrightarrow> contains l ''PersistentKeepalive'' = False"
  using contains_set [of l "''PersistentKeepalive''"] unfolding list_all_iff by blast

lemma no_keepalive_lines:
  assumes "hex_only priv" and "hex_only pub" and "hex_only psk"
  shows "\<not> list_ex (\<lambda>l. contains l ''PersistentKeepalive'') (head_lines ''master-us'' priv ''10.10.0.1'')"
    "\<not> list_ex (\<lambda>l. contains l ''PersistentKeepalive'') (head_lines ''workstation-01'' priv ''10.10.0.100'')"
    "\<not> list_ex (\<lambda>l. contains l ''PersistentKeepalive'') (block_of ''master-eu'' pub psk ''10.10.0.2'' [''198.51.100.20:51820''] None)"
    "\<not> list_ex (\<lambda>l. contains l ''PersistentKeepalive'') (block_of ''master-us'' pub psk ''10.10.0.1'' [''203.0.113.10:51820''] None)"
    "\<not> list_ex (\<lambda>l. contains l ''PersistentKeepalive'') (block_of ''workstation-01'' pub psk ''10.10.0.100'' [] None)"
  using assms [THEN hex_only_lacks]
  by (simp_all add: head_lines_def block_of_def contains_lacks del: contains.simps)

section \<open>The tests hold\<close>

lemma short_lines: "list_all (\<lambda>l. length l \<le> 100) ls \<Longrightarrow> length (text_of ls) \<le> 101 * length ls"
  by (induction ls) (simp_all add: ln_def)

lemma length_show_u16: "length (show_u16 w) \<le> 5"
proof -
  have "unat w < 2 ^ LENGTH(16)" by (rule unsigned_less)
  then have "unat w div 10 div 10 < 1000" by simp
  then have "length (show_nat (unat w div 10 div 10)) \<le> 3" by (rule length_show_nat(2))
  then have "length (show_nat (unat w div 10)) \<le> 4" by (subst show_nat.simps) simp
  then have "length (show_nat (unat w)) \<le> 5" by (subst show_nat.simps) simp
  then show ?thesis by (simp add: show_u16_def)
qed

lemma test_lines_short:
  assumes "length priv = 64" and "length pub = 64" and "length psk = 64"
  shows "list_all (\<lambda>l. length l \<le> 100) (head_lines ''master-us'' priv ''10.10.0.1'')"
    "list_all (\<lambda>l. length l \<le> 100) (head_lines ''workstation-01'' priv ''10.10.0.100'')"
    "list_all (\<lambda>l. length l \<le> 100) (block_of ''master-eu'' pub psk ''10.10.0.2'' [''198.51.100.20:51820''] ka)"
    "list_all (\<lambda>l. length l \<le> 100) (block_of ''master-us'' pub psk ''10.10.0.1'' [''203.0.113.10:51820''] ka)"
    "list_all (\<lambda>l. length l \<le> 100) (block_of ''workstation-01'' pub psk ''10.10.0.100'' [] ka)"
  using assms length_show_u16 [THEN order_trans]
  by (auto simp: head_lines_def block_of_def split: option.splits)

lemma us_renders:
  "render_node_config sample_crates (keepalive_topology us ws) (test_keys k) ''master-us'' =
    Inr (text_of (rendered_lines sample_crates (keepalive_topology us ws) (test_keys k) ''master-us''
      (test_vnode ''master-us'' ''10.10.0.1'' (Some ''203.0.113.10:51820'') us) (test_private_key sample_crates (k + 1))))"
  (is "_ = Inr (text_of ?ls)")
proof -
  have "bt_get (node_keys (test_keys k)) ''master-us'' =
      Some (test_private_key sample_crates (k + 1), test_public_key sample_crates (k + 1))"
    by (simp add: test_keys_def bt_get_def sample_keypair_texts)
  moreover have "length (text_of ?ls) \<le> MAX_RENDERED_CONFIG_BYTES"
  proof -
    have "list_all (\<lambda>l. length l \<le> 100) ?ls"
      unfolding us_lines Let_def by (simp add: test_lines_short [OF length_sample_keys] del: add_2_eq_Suc' One_nat_def)
    moreover have "length ?ls \<le> 40" unfolding us_lines Let_def
      by (simp add: head_lines_def block_of_def split: option.split)
    ultimately have "length (text_of ?ls) \<le> 101 * 40" using short_lines by (meson le_trans mult_le_mono2)
    then show ?thesis by (simp add: MAX_RENDERED_CONFIG_BYTES_def)
  qed
  ultimately show ?thesis
    using render_node_total [OF keepalive_validates sample_laws(1,2,3) test_keys_valid keepalive_nodes(2)]
    by (simp add: Let_def not_less)
qed

lemma ws_renders:
  "render_node_config sample_crates (keepalive_topology us ws) (test_keys k) ''workstation-01'' =
    Inr (text_of (rendered_lines sample_crates (keepalive_topology us ws) (test_keys k) ''workstation-01''
      (test_vnode ''workstation-01'' ''10.10.0.100'' None ws) (test_private_key sample_crates (k + 2))))"
  (is "_ = Inr (text_of ?ls)")
proof -
  have "bt_get (node_keys (test_keys k)) ''workstation-01'' =
      Some (test_private_key sample_crates (k + 2), test_public_key sample_crates (k + 2))"
    by (simp add: test_keys_def bt_get_def sample_keypair_texts)
  moreover have "length (text_of ?ls) \<le> MAX_RENDERED_CONFIG_BYTES"
  proof -
    have "list_all (\<lambda>l. length l \<le> 100) ?ls"
      unfolding ws_lines Let_def by (simp add: test_lines_short [OF length_sample_keys] del: add_2_eq_Suc' One_nat_def)
    moreover have "length ?ls \<le> 40" unfolding ws_lines Let_def
      by (simp add: head_lines_def block_of_def split: option.split)
    ultimately have "length (text_of ?ls) \<le> 101 * 40" using short_lines by (meson le_trans mult_le_mono2)
    then show ?thesis by (simp add: MAX_RENDERED_CONFIG_BYTES_def)
  qed
  ultimately show ?thesis
    using render_node_total [OF keepalive_validates sample_laws(1,2,3) test_keys_valid keepalive_nodes(3)]
    by (simp add: Let_def not_less)
qed

lemma keepalives:
  "resolve_local_keepalive (test_vnode ''master-us'' a (Some e) None) = None"
  "resolve_local_keepalive (test_vnode ''master-us'' a (Some e) (Some 15)) = Some 15"
  "resolve_local_keepalive (test_vnode ''workstation-01'' a None None) = Some 25"
  "resolve_local_keepalive (test_vnode ''workstation-01'' a None (Some 0)) = None"
  by (simp_all add: resolve_local_keepalive_def test_vnode_def DEFAULT_PERSISTENT_KEEPALIVE_WHEN_NO_ENDPOINT_def)

lemma keepalive_tests:
  "keepalive_defaults_to_25_when_local_node_has_no_endpoint sample_crates k"
  "keepalive_omitted_when_local_node_has_an_endpoint sample_crates k"
  "explicit_zero_keepalive_disables_it_even_without_an_endpoint sample_crates k"
  "explicit_keepalive_enables_it_even_with_an_endpoint sample_crates k"
proof -
  note eval = rendered_contains_def keepalive_topologies(1) keepalive_topologies(2,3) [unfolded keepalive_topologies(1)]
    example_keys_eval us_renders ws_renders us_lines ws_lines
    keepalives Let_def contains_lines
  have hex: "hex_only (test_private_key sample_crates j)" "hex_only (test_public_key sample_crates j)"
    "hex_only (fst (generate_preshared_key sample_crates j))" for j
    using sample_key_chars by (simp_all only: hex_only_def)
  note none = no_keepalive_lines [OF hex]
  have one: "list_ex (\<lambda>l. contains l (''PersistentKeepalive = '' @ show_u16 w)) (block_of p pub psk a ep (Some w))"
    for w p pub psk a ep
    using contains_self by (simp add: block_of_def)
  note some = one [of 25, unfolded texts, simplified] one [of 15, unfolded texts, simplified]
  show "keepalive_omitted_when_local_node_has_an_endpoint sample_crates k"
    unfolding keepalive_omitted_when_local_node_has_an_endpoint_def
    by (simp add: eval none del: text_of_simps)
  show "explicit_zero_keepalive_disables_it_even_without_an_endpoint sample_crates k"
    unfolding explicit_zero_keepalive_disables_it_even_without_an_endpoint_def
    by (simp add: eval none del: text_of_simps)
  show "keepalive_defaults_to_25_when_local_node_has_no_endpoint sample_crates k"
    unfolding keepalive_defaults_to_25_when_local_node_has_no_endpoint_def
    by (simp add: eval some del: text_of_simps)
  show "explicit_keepalive_enables_it_even_with_an_endpoint sample_crates k"
    unfolding explicit_keepalive_enables_it_even_with_an_endpoint_def
    by (simp add: eval some del: text_of_simps)
qed

lemma render_tests:
  "renders_a_config_that_parses_cleanly sample_crates k" "rendering_is_byte_for_byte_deterministic sample_crates k"
proof -
  note e = keepalive_topologies(1) example_keys_eval us_renders
  show "rendering_is_byte_for_byte_deterministic sample_crates k"
    by (simp add: rendering_is_byte_for_byte_deterministic_def e del: text_of_simps)
  have t: "keys_text (test_keys k)" using test_keys_valid keys_valid_def by blast
  have "\<exists>n priv pub. node (keepalive_topology None None) ''master-us'' = Some n \<and>
      bt_get (node_keys (test_keys k)) ''master-us'' = Some (priv, pub) \<and>
      parse_wg_quick sample_crates (text_of (rendered_lines sample_crates (keepalive_topology None None) (test_keys k) ''master-us''
        (test_vnode ''master-us'' ''10.10.0.1'' (Some ''203.0.113.10:51820'') None) (test_private_key sample_crates (k + 1))))
       = Inr (rendered_for sample_crates (keepalive_topology None None) (test_keys k) ''master-us'' n priv)"
    by (rule render_parses_back [OF keepalive_validates sample_laws(1,2) t us_renders])
  then show "renders_a_config_that_parses_cleanly sample_crates k"
    by (auto simp: renders_a_config_that_parses_cleanly_def e Let_def rendered_for_def peers_of_test keepalive_nodes
        test_vnode_def simp del: text_of_simps)
qed

text \<open>The renderer reads a topology only through its nodes by name and its edges.\<close>

lemma render_node_order:
  assumes "distinct (map vn_hostname (vt_nodes t))" and "set (vt_nodes t') = set (vt_nodes t)"
    and "distinct (map vn_hostname (vt_nodes t'))" and "vt_masters t' = vt_masters t"
  shows "render_node_config cr t' keys h = render_node_config cr t keys h"
proof -
  have n: "node t' g = node t g" for g
  proof (cases "node t g")
    case None
    then show ?thesis
      using assms(2) find_hostname_None [of g "vt_nodes t"] find_hostname_None [of g "vt_nodes t'"]
      by (simp add: node_def)
  next
    case (Some n)
    then show ?thesis
      using find_hostname [OF assms(1), of g n] find_hostname [OF assms(3), of g n] assms(2) by (simp add: node_def)
  qed
  have e: "edges t' = edges t"
    unfolding edges_def assms(4) using assms by (intro compute_edges_cong) simp_all
  have "render_peer cr t' keys = render_peer cr t keys"
    by (simp add: render_peer_def n fun_eq_iff)
  with n e show ?thesis by (simp add: render_node_config_def)
qed

lemma node_order_test: "peer_order_is_independent_of_input_node_order sample_crates k"
proof -
  let ?t = "keepalive_topology None None"
  have "render_node_config sample_crates (?t\<lparr>vt_nodes := rev (vt_nodes ?t)\<rparr>) (test_keys k) ''master-us''
      = render_node_config sample_crates ?t (test_keys k) ''master-us''"
    by (rule render_node_order) (auto simp: keepalive_topology_def test_vnode_def)
  then show ?thesis
    by (simp add: peer_order_is_independent_of_input_node_order_def keepalive_topologies(1) example_keys_eval us_renders
        del: text_of_simps)
qed

end
