(* ===== verification/Program_Tests.thy ===== *)
theory Program_Tests
  imports Topology_Tests Server_Main Retention_Valid Client_Main
begin

text \<open>
  The unit tests of \<open>retention.rs\<close>, the server's \<open>main.rs\<close>, and the client's \<open>config.rs\<close>,
  \<open>main.rs\<close> and \<open>preflight.rs\<close> as predicates on the model, and that they hold.  What a test
  has from a library is an argument: the arguments' parser, the JSON decoder, the environment.
\<close>

section \<open>\<open>retention.rs\<close>\<close>

definition pointer_with :: "string \<Rightarrow> string \<Rightarrow> string option \<Rightarrow> current_json" where
  "pointer_with new_revision current_id previous_id =
     (let nodes = bt_insert ''a'' (id_of_byte 1) [] in
      \<lparr>schema_version = SCHEMA_VERSION, revision = new_revision,
       cur = Some \<lparr>ge_id = current_id, ge_nodes = nodes\<rparr>,
       prev = map_option (\<lambda>i. \<lparr>ge_id = i, ge_nodes = nodes\<rparr>) previous_id\<rparr>)"

definition seconds :: "nat \<Rightarrow> nat" where
  "seconds n = n * 1000000000"

text \<open>\<open>MockStorage::new()\<close> at the time \<open>now\<close>, and a \<open>put_if_absent\<close> that is unwrapped.\<close>

definition mock_new :: "nat \<Rightarrow> mock_storage" where
  "mock_new now = \<lparr>ms_objects = [], ms_next_etag = 0, ms_fail_next_puts = 0, ms_now = now\<rparr>"

definition put_x :: "string \<Rightarrow> mock_storage \<Rightarrow> mock_storage" where
  "put_x key m = snd (mock_put_if_absent key ''x'' ''text/plain'' m)"

definition object_key :: "string \<Rightarrow> string" where
  "object_key gid = ''nodes/a/'' @ gid @ ''.conf''"

definition deletes_orphaned_generation_past_the_grace_period :: "nat \<Rightarrow> string \<Rightarrow> bool" where
  "deletes_orphaned_generation_past_the_grace_period now rv \<longleftrightarrow>
     (let key = object_key (id_of_byte 9);
          storage = backdate key (seconds 3600) (put_x key (mock_new now)) in
      case cleanup mock now (pointer_with rv (id_of_byte 1) None) DEFAULT_GRACE_PERIOD False storage of
        (Inl _, _) \<Rightarrow> False
      | (Inr rep, storage') \<Rightarrow> rr_deleted rep = [key] \<and> object_count storage' = 0)"

definition keeps_orphan_still_within_grace_period :: "nat \<Rightarrow> string \<Rightarrow> bool" where
  "keeps_orphan_still_within_grace_period now rv \<longleftrightarrow>
     (let key = object_key (id_of_byte 9); storage = put_x key (mock_new now) in
      case cleanup mock now (pointer_with rv (id_of_byte 1) None) DEFAULT_GRACE_PERIOD False storage of
        (Inl _, _) \<Rightarrow> False
      | (Inr rep, storage') \<Rightarrow>
          rr_deleted rep = [] \<and> rr_skipped_within_grace rep = [key] \<and> object_count storage' = 1)"

definition never_deletes_current_or_previous_regardless_of_age :: "nat \<Rightarrow> string \<Rightarrow> bool" where
  "never_deletes_current_or_previous_regardless_of_age now rv \<longleftrightarrow>
     (let current_key = object_key (id_of_byte 1); previous_key = object_key (id_of_byte 2);
          storage = backdate previous_key (seconds 999999) (backdate current_key (seconds 999999)
            (put_x previous_key (put_x current_key (mock_new now)))) in
      case cleanup mock now (pointer_with rv (id_of_byte 1) (Some (id_of_byte 2))) DEFAULT_GRACE_PERIOD False storage of
        (Inl _, _) \<Rightarrow> False
      | (Inr rep, storage') \<Rightarrow> rr_deleted rep = [] \<and> object_count storage' = 2)"

definition dry_run_reports_without_deleting :: "nat \<Rightarrow> string \<Rightarrow> bool" where
  "dry_run_reports_without_deleting now rv \<longleftrightarrow>
     (let key = object_key (id_of_byte 9);
          storage = backdate key (seconds 3600) (put_x key (mock_new now)) in
      case cleanup mock now (pointer_with rv (id_of_byte 1) None) DEFAULT_GRACE_PERIOD True storage of
        (Inl _, _) \<Rightarrow> False
      | (Inr rep, storage') \<Rightarrow> rr_deleted rep = [key] \<and> object_count storage' = 1)"

lemma object_key_parses: "parse_node_key (object_key (id_of_byte n)) = Some (''a'', id_of_byte n)"
proof -
  have "hostname_validate ''a'' = Inr ()" by code_simp
  then show ?thesis
    using parse_node_key_Some [of "object_key (id_of_byte n)" "''a''" "id_of_byte n"] id_of_byte_canonical
    by (simp add: object_key_def node_object_key_def NODES_PREFIX_def)
qed

lemma id_of_byte_eq: "id_of_byte m = id_of_byte n \<longleftrightarrow> m = n"
proof
  assume "id_of_byte m = id_of_byte n"
  then have "decode (id_of_byte m) = decode (id_of_byte n)" by simp
  then have "replicate 32 m = replicate 32 n" by (simp only: id_of_byte_def decode_encode_bytes length_replicate sum.inject)
  then show "m = n" by (simp add: replicate_eq_replicate)
qed simp

lemma object_key_eq: "object_key (id_of_byte m) = object_key (id_of_byte n) \<longleftrightarrow> m = n"
  by (simp add: object_key_def id_of_byte_eq)

lemmas cleanup_eval = mock_new_def put_x_def mock_put_if_absent_def mock_may_fail_def mock_write_def fresh_etag_def
  bt_get_def backdate_def cleanup_def mock_def mock_list_all_with_last_modified_def io_then_def io_map_err_def
  io_return_def cleanup_entry_def object_key_parses id_of_byte_eq object_key_eq pointer_with_def retained_ids_def
  object_count_def mock_delete_object_def Let_def

lemma object_key_starts: "starts_with NODES_PREFIX (object_key g)"
  by (simp add: object_key_def NODES_PREFIX_def starts_with_def)

lemma retention_tests:
  assumes "seconds 999999 \<le> now"
  shows "deletes_orphaned_generation_past_the_grace_period now rv" "keeps_orphan_still_within_grace_period now rv"
    "dry_run_reports_without_deleting now rv"
  using assms
  by (simp_all add: deletes_orphaned_generation_past_the_grace_period_def keeps_orphan_still_within_grace_period_def
      dry_run_reports_without_deleting_def cleanup_eval object_key_starts seconds_def DEFAULT_GRACE_PERIOD_def)

text \<open>A store of two objects lists them in the order of their keys.\<close>

lemma two_objects:
  assumes "k1 \<noteq> k2"
  obtains e1 e2 where
    "ms_objects (backdate k2 a2 (backdate k1 a1 (put_x k2 (put_x k1 (mock_new now))))) = [(k1, e1), (k2, e2)]"
  | e1 e2 where
    "ms_objects (backdate k2 a2 (backdate k1 a1 (put_x k2 (put_x k1 (mock_new now))))) = [(k2, e2), (k1, e1)]"
proof (cases "k1 < k2")
  case True
  then have "\<not> k2 < k1" by simp
  with True assms that(1) show ?thesis
    by (simp add: backdate_def put_x_def mock_put_if_absent_def mock_may_fail_def mock_write_def fresh_etag_def
        bt_get_def mock_new_def Let_def)
next
  case False
  with assms have "k2 < k1" by simp
  with False assms that(2) show ?thesis
    by (simp add: backdate_def put_x_def mock_put_if_absent_def mock_may_fail_def mock_write_def fresh_etag_def
        bt_get_def mock_new_def Let_def)
qed

lemma retained_entries:
  assumes "list_all (\<lambda>(k, _). \<exists>h g. parse_node_key k = Some (h, g) \<and> g \<in> set retained) entries"
  shows "io_fold (cleanup_entry st retained now grace dry) entries rep s = (Inr rep, s)"
  using assms
  by (induction entries) (auto simp: cleanup_entry_def io_return_def io_then_def)

lemma retained_test: "never_deletes_current_or_previous_regardless_of_age now rv"
proof -
  let ?k1 = "object_key (id_of_byte 1)" and ?k2 = "object_key (id_of_byte 2)"
  let ?storage = "backdate ?k2 (seconds 999999) (backdate ?k1 (seconds 999999) (put_x ?k2 (put_x ?k1 (mock_new now))))"
  let ?p = "pointer_with rv (id_of_byte 1) (Some (id_of_byte 2))"
  have k: "?k1 \<noteq> ?k2" by (simp add: object_key_eq)
  have ids: "set (retained_ids ?p) = {id_of_byte 1, id_of_byte 2}"
    by (auto simp: retained_ids_def pointer_with_def Let_def)
  let ?kept = "\<lambda>(k, _). \<exists>h g. parse_node_key k = Some (h, g) \<and> g \<in> set (retained_ids ?p)"
  have o: "length (ms_objects ?storage) = 2 \<and> list_all ?kept (ms_objects ?storage)"
    by (rule two_objects [OF k, of "seconds 999999" "seconds 999999" now]) (simp_all add: object_key_parses ids)
  then have "list_all ?kept (map (\<lambda>(k, e). (k, e_created_at e)) (filter (\<lambda>(k, _). starts_with NODES_PREFIX k) (ms_objects ?storage)))"
    by (auto simp: list_all_iff)
  from retained_entries [OF this] have "cleanup mock now ?p DEFAULT_GRACE_PERIOD False ?storage =
      (Inr \<lparr>rr_deleted = [], rr_skipped_within_grace = [], rr_skipped_unrecognized = []\<rparr>, ?storage)"
    by (simp add: cleanup_def io_then_def io_map_err_def mock_def mock_list_all_with_last_modified_def)
  with o show ?thesis
    by (simp add: never_deletes_current_or_previous_regardless_of_age_def Let_def object_count_def)
qed

section \<open>The server's \<open>main.rs\<close>\<close>

text \<open>\<open>rotate_arg\<close> is the argument parser's reading of \<open>wg-server apply --config x.json\<close> and the
  given arguments: a bare \<open>--rotate\<close> is an empty value.\<close>

definition no_rotate_flag_means_none :: "(string list \<Rightarrow> string list) \<Rightarrow> bool" where
  "no_rotate_flag_means_none rotate_arg \<longleftrightarrow> parse_rotate (rotate_arg []) = Inr RotateNone"

definition bare_rotate_means_all :: "(string list \<Rightarrow> string list) \<Rightarrow> bool" where
  "bare_rotate_means_all rotate_arg \<longleftrightarrow> parse_rotate (rotate_arg [''--rotate'']) = Inr RotateAll"

definition repeated_named_rotate_collects_hostnames :: "(string list \<Rightarrow> string list) \<Rightarrow> bool" where
  "repeated_named_rotate_collects_hostnames rotate_arg \<longleftrightarrow>
     (case parse_rotate (rotate_arg [''--rotate'', ''a'', ''--rotate'', ''b'']) of
        Inr (RotateNamed hs) \<Rightarrow> hs = bs_of_list [''a'', ''b''] | _ \<Rightarrow> False)"

definition mixing_bare_and_named_rotate_is_rejected :: "(string list \<Rightarrow> string list) \<Rightarrow> bool" where
  "mixing_bare_and_named_rotate_is_rejected rotate_arg \<longleftrightarrow>
     \<not> is_ok (parse_rotate (rotate_arg [''--rotate'', ''--rotate'', ''a'']))"

definition no_flags_uses_the_default_grace_period :: bool where
  "no_flags_uses_the_default_grace_period \<longleftrightarrow>
     resolve_grace_period False RotateNone = ao_grace_period apply_options_default"

definition prune_alone_forces_immediate_cleanup :: bool where
  "prune_alone_forces_immediate_cleanup \<longleftrightarrow> resolve_grace_period True RotateNone = 0"

definition named_rotate_alone_forces_immediate_cleanup :: bool where
  "named_rotate_alone_forces_immediate_cleanup \<longleftrightarrow>
     resolve_grace_period False (RotateNamed (bs_of_list [''a''])) = 0"

definition bare_rotate_alone_forces_immediate_cleanup :: bool where
  "bare_rotate_alone_forces_immediate_cleanup \<longleftrightarrow> resolve_grace_period False RotateAll = 0"

text \<open>The values of the \<open>--rotate\<close> options, one after the other.\<close>

fun rotate_values :: "string list \<Rightarrow> string list" where
  "rotate_values [] = []"
| "rotate_values [opt] = [[]]"
| "rotate_values (opt # v # args) =
     (if starts_with ''--'' v then [] # rotate_values (v # args) else v # rotate_values args)"

lemma rotate_tests:
  "no_rotate_flag_means_none rotate_values" "bare_rotate_means_all rotate_values"
  "repeated_named_rotate_collects_hostnames rotate_values" "mixing_bare_and_named_rotate_is_rejected rotate_values"
  by (simp_all add: no_rotate_flag_means_none_def bare_rotate_means_all_def
      repeated_named_rotate_collects_hostnames_def mixing_bare_and_named_rotate_is_rejected_def
      parse_rotate_def starts_with_def)

lemma grace_period_tests:
  no_flags_uses_the_default_grace_period prune_alone_forces_immediate_cleanup
  named_rotate_alone_forces_immediate_cleanup bare_rotate_alone_forces_immediate_cleanup
  by (simp_all add: no_flags_uses_the_default_grace_period_def prune_alone_forces_immediate_cleanup_def
      named_rotate_alone_forces_immediate_cleanup_def bare_rotate_alone_forces_immediate_cleanup_def
      resolve_grace_period_def)

section \<open>The client's \<open>config.rs\<close>\<close>

definition extracts_interface_name :: bool where
  "extracts_interface_name \<longleftrightarrow> interface_name ''/etc/wireguard/wg0.conf'' = Inr ''wg0''"

definition rejects_relative_path :: bool where
  "rejects_relative_path \<longleftrightarrow> \<not> is_ok (interface_name ''wg0.conf'')"

definition rejects_non_conf_extension :: bool where
  "rejects_non_conf_extension \<longleftrightarrow> \<not> is_ok (interface_name ''/etc/wireguard/wg0.txt'')"

definition rejects_dot_dot_stem :: bool where
  "rejects_dot_dot_stem \<longleftrightarrow> \<not> is_ok (interface_name ''/etc/wireguard/...conf'')"

definition accepts_exactly_15_char_interface_name :: bool where
  "accepts_exactly_15_char_interface_name \<longleftrightarrow> is_ok (interface_name ''/etc/wireguard/wg0123456789012.conf'')"

definition rejects_16_char_interface_name :: bool where
  "rejects_16_char_interface_name \<longleftrightarrow> \<not> is_ok (interface_name ''/etc/wireguard/wg01234567890123.conf'')"

definition rejects_invalid_characters :: bool where
  "rejects_invalid_characters \<longleftrightarrow> \<not> is_ok (interface_name ''/etc/wireguard/wg 0.conf'')"

lemma interface_name_tests:
  extracts_interface_name rejects_relative_path rejects_non_conf_extension rejects_dot_dot_stem
  accepts_exactly_15_char_interface_name rejects_16_char_interface_name rejects_invalid_characters
  by code_simp+

text \<open>The configuration texts of the tests, and what the decoder makes of them.\<close>

definition client_text :: "string \<Rightarrow> string \<Rightarrow> string \<Rightarrow> string \<Rightarrow> string" where
  "client_text endpoint access_key token_field extra_field =
     quoted (''{`r2_config`:{`endpoint`:`'' @ endpoint @ ''`,`read_only_access_key_id`:`'' @ access_key
       @ ''`,`read_only_secret_access_key`:`b`,'' @ token_field @ ''`region`:`auto`,`bucket`:`c`},''
       @ ''`conf_path`:`/etc/wireguard/wg0.conf`'' @ extra_field @ ''}'')"

definition client_value :: "string \<Rightarrow> string \<Rightarrow> string option \<Rightarrow> client_config" where
  "client_value endpoint access_key token = \<lparr>cc_r2_config = \<lparr>rr_endpoint = endpoint, rr_access_key_id = access_key,
     rr_secret_access_key = ''b'', rr_session_token = token, rr_region = ''auto'', rr_bucket = ''c''\<rparr>,
     cc_conf_path = ''/etc/wireguard/wg0.conf''\<rparr>"

type_synonym client_decoder = "string \<Rightarrow> string + client_config"

definition parse_rejects_unknown_fields :: "crates \<Rightarrow> client_decoder \<Rightarrow> bool" where
  "parse_rejects_unknown_fields cr parse_json \<longleftrightarrow>
     \<not> is_ok (client_config_parse cr parse_json (client_text ''https://x'' ''a'' [] '',`extra`:1''))"

definition parse_accepts_valid_config :: "crates \<Rightarrow> client_decoder \<Rightarrow> bool" where
  "parse_accepts_valid_config cr parse_json \<longleftrightarrow>
     (case client_config_parse cr parse_json (client_text ''https://x'' ''a'' [] []) of
        Inl _ \<Rightarrow> False | Inr cfg \<Rightarrow> cc_conf_path cfg = ''/etc/wireguard/wg0.conf'')"

definition parse_accepts_plain_http_endpoint :: "crates \<Rightarrow> client_decoder \<Rightarrow> bool" where
  "parse_accepts_plain_http_endpoint cr parse_json \<longleftrightarrow>
     is_ok (client_config_parse cr parse_json (client_text ''http://minio:9000'' ''a'' [] []))"

definition parse_rejects_non_http_scheme :: "crates \<Rightarrow> client_decoder \<Rightarrow> bool" where
  "parse_rejects_non_http_scheme cr parse_json \<longleftrightarrow>
     \<not> is_ok (client_config_parse cr parse_json (client_text ''ftp://x'' ''a'' [] []))"

definition parse_rejects_endpoint_with_userinfo :: "crates \<Rightarrow> client_decoder \<Rightarrow> bool" where
  "parse_rejects_endpoint_with_userinfo cr parse_json \<longleftrightarrow>
     \<not> is_ok (client_config_parse cr parse_json (client_text ''https://user:pass@x'' ''a'' [] []))"

definition parse_rejects_endpoint_with_query_string :: "crates \<Rightarrow> client_decoder \<Rightarrow> bool" where
  "parse_rejects_endpoint_with_query_string cr parse_json \<longleftrightarrow>
     \<not> is_ok (client_config_parse cr parse_json (client_text ''https://x?token=abc'' ''a'' [] []))"

definition parse_rejects_empty_access_key :: "crates \<Rightarrow> client_decoder \<Rightarrow> bool" where
  "parse_rejects_empty_access_key cr parse_json \<longleftrightarrow>
     \<not> is_ok (client_config_parse cr parse_json (client_text ''https://x'' [] [] []))"

definition parse_rejects_empty_session_token_when_present :: "crates \<Rightarrow> client_decoder \<Rightarrow> bool" where
  "parse_rejects_empty_session_token_when_present cr parse_json \<longleftrightarrow>
     \<not> is_ok (client_config_parse cr parse_json (client_text ''https://x'' ''a'' ''`session_token`:``,'' []))"

text \<open>What the derived decoder answers for these texts.\<close>

definition test_decoder :: client_decoder where
  "test_decoder s =
     (case map_of (map (\<lambda>(e, a). (client_text e a [] [], client_value e a None))
         [(''https://x'', ''a''), (''http://minio:9000'', ''a''), (''ftp://x'', ''a''), (''https://user:pass@x'', ''a''),
          (''https://x?token=abc'', ''a''), (''https://x'', [])] @
         [(client_text ''https://x'' ''a'' ''`session_token`:``,'' [], client_value ''https://x'' ''a'' (Some []))]) s of
        Some cfg \<Rightarrow> Inr cfg
      | None \<Rightarrow> Inl ''unknown field'')"

lemma test_decoder_eval:
  "test_decoder (client_text ''https://x'' ''a'' [] '',`extra`:1'') = Inl ''unknown field''"
  "test_decoder (client_text ''https://x'' ''a'' [] []) = Inr (client_value ''https://x'' ''a'' None)"
  "test_decoder (client_text ''http://minio:9000'' ''a'' [] []) = Inr (client_value ''http://minio:9000'' ''a'' None)"
  "test_decoder (client_text ''ftp://x'' ''a'' [] []) = Inr (client_value ''ftp://x'' ''a'' None)"
  "test_decoder (client_text ''https://user:pass@x'' ''a'' [] []) = Inr (client_value ''https://user:pass@x'' ''a'' None)"
  "test_decoder (client_text ''https://x?token=abc'' ''a'' [] []) = Inr (client_value ''https://x?token=abc'' ''a'' None)"
  "test_decoder (client_text ''https://x'' [] [] []) = Inr (client_value ''https://x'' [] None)"
  "test_decoder (client_text ''https://x'' ''a'' ''`session_token`:``,'' []) = Inr (client_value ''https://x'' ''a'' (Some []))"
  by (simp_all add: test_decoder_def client_text_def quoted_def)

lemma client_texts_no_duplicates:
  "check_no_duplicate_keys (client_text ''https://x'' ''a'' [] []) = Inr ()"
  "check_no_duplicate_keys (client_text ''http://minio:9000'' ''a'' [] []) = Inr ()"
  by code_simp+

lemma client_parse_error:
  "(\<And>cfg. parse_json s = Inr cfg \<Longrightarrow> \<not> is_ok (validate_r2_endpoint cr (rr_endpoint (cc_r2_config cfg))) \<or>
     \<not> is_ok (validate_r2_credentials (rr_access_key_id (cc_r2_config cfg)) (rr_secret_access_key (cc_r2_config cfg))
       (rr_session_token (cc_r2_config cfg)))) \<Longrightarrow> \<not> is_ok (client_config_parse cr parse_json s)"
  by (auto simp: client_config_parse_def is_ok_iff and_then_Inr_iff map_err_def Let_def split: sum.splits)

lemma client_config_tests:
  "parse_rejects_unknown_fields test_crates test_decoder" "parse_accepts_valid_config test_crates test_decoder"
  "parse_accepts_plain_http_endpoint test_crates test_decoder" "parse_rejects_non_http_scheme test_crates test_decoder"
  "parse_rejects_endpoint_with_userinfo test_crates test_decoder"
  "parse_rejects_endpoint_with_query_string test_crates test_decoder"
  "parse_rejects_empty_access_key test_crates test_decoder"
  "parse_rejects_empty_session_token_when_present test_crates test_decoder"
proof -
  note eval = test_decoder_eval client_value_def validate_r2_endpoint_def validate_r2_credentials_def test_crates_eval
  show "parse_accepts_valid_config test_crates test_decoder" "parse_accepts_plain_http_endpoint test_crates test_decoder"
    using client_texts_no_duplicates
    by (simp_all add: parse_accepts_valid_config_def parse_accepts_plain_http_endpoint_def client_config_parse_def eval)
  show "parse_rejects_unknown_fields test_crates test_decoder" "parse_rejects_non_http_scheme test_crates test_decoder"
    "parse_rejects_endpoint_with_userinfo test_crates test_decoder"
    "parse_rejects_endpoint_with_query_string test_crates test_decoder"
    "parse_rejects_empty_access_key test_crates test_decoder"
    "parse_rejects_empty_session_token_when_present test_crates test_decoder"
    unfolding parse_rejects_unknown_fields_def parse_rejects_non_http_scheme_def
      parse_rejects_endpoint_with_userinfo_def parse_rejects_endpoint_with_query_string_def
      parse_rejects_empty_access_key_def parse_rejects_empty_session_token_when_present_def
    by (rule client_parse_error; simp add: eval)+
qed

section \<open>The client's \<open>main.rs\<close>\<close>

definition parses_seconds_minutes_hours :: bool where
  "parses_seconds_minutes_hours \<longleftrightarrow>
     parse_duration ''30s'' = Inr 30 \<and> parse_duration ''5m'' = Inr 300 \<and>
     parse_duration ''24h'' = Inr 86400 \<and> parse_duration ''60'' = Inr 60"

definition rejects_zero_and_garbage :: bool where
  "rejects_zero_and_garbage \<longleftrightarrow> \<not> is_ok (parse_duration ''0s'') \<and> \<not> is_ok (parse_duration ''abc'')"

definition hostname_flag_takes_precedence :: "string option \<Rightarrow> string + string \<Rightarrow> bool" where
  "hostname_flag_takes_precedence env_hostname system_hostname \<longleftrightarrow>
     resolve_hostname (Some ''Master-US'') env_hostname system_hostname = Inr ''master-us''"

definition empty_hostname_flag_is_an_error_not_a_fallback :: "string option \<Rightarrow> string + string \<Rightarrow> bool" where
  "empty_hostname_flag_is_an_error_not_a_fallback env_hostname system_hostname \<longleftrightarrow>
     \<not> is_ok (resolve_hostname (Some []) env_hostname system_hostname)"

lemma duration_tests: parses_seconds_minutes_hours rejects_zero_and_garbage
  by code_simp+

lemma resolve_hostname_tests:
  "hostname_flag_takes_precedence e s" "empty_hostname_flag_is_an_error_not_a_fallback e s"
proof -
  have "to_ascii_lowercase ''Master-US'' = ''master-us''" by code_simp
  then show "hostname_flag_takes_precedence e s" "empty_hostname_flag_is_an_error_not_a_fallback e s"
    using test_hosts by (simp_all add: hostname_flag_takes_precedence_def
        empty_hostname_flag_is_an_error_not_a_fallback_def resolve_hostname_def)
qed

section \<open>\<open>preflight.rs\<close>\<close>

definition nets_overlap_test :: "crates \<Rightarrow> string \<Rightarrow> string \<Rightarrow> bool \<Rightarrow> bool" where
  "nets_overlap_test cr s t expected \<longleftrightarrow>
     (case (net_parse cr s, net_parse cr t) of
        (Some a, Some b) \<Rightarrow> nets_overlap cr a b = expected | _ \<Rightarrow> False)"

definition nets_overlap_detects_containment :: "crates \<Rightarrow> bool" where
  "nets_overlap_detects_containment cr \<longleftrightarrow> nets_overlap_test cr ''10.0.0.0/24'' ''10.0.0.128/25'' True"

definition nets_overlap_false_for_disjoint :: "crates \<Rightarrow> bool" where
  "nets_overlap_false_for_disjoint cr \<longleftrightarrow> nets_overlap_test cr ''10.0.0.0/24'' ''10.0.1.0/24'' False"

definition host_part_extracts_hostname :: bool where
  "host_part_extracts_hostname \<longleftrightarrow> host_part ''example.com:51820'' = Some ''example.com''"

definition host_part_extracts_ipv4 :: bool where
  "host_part_extracts_ipv4 \<longleftrightarrow> host_part ''203.0.113.10:51820'' = Some ''203.0.113.10''"

definition host_part_skips_ipv6_literal :: bool where
  "host_part_skips_ipv6_literal \<longleftrightarrow> host_part ''[2001:db8::1]:51820'' = None"

lemma host_part_tests: host_part_extracts_hostname host_part_extracts_ipv4 host_part_skips_ipv6_literal
  by code_simp+

lemma nets_overlap_tests:
  "nets_overlap_detects_containment test_crates" "nets_overlap_false_for_disjoint test_crates"
proof -
  have "list_all (\<lambda>(s, n). sample_net_parse s = Some n) [(''10.0.0.0/24'', Ipv4Net 0x0A000000 24),
      (''10.0.0.128/25'', Ipv4Net 0x0A000080 25), (''10.0.1.0/24'', Ipv4Net 0x0A000100 24)]" by code_simp
  then show "nets_overlap_detects_containment test_crates" "nets_overlap_false_for_disjoint test_crates"
    by (simp_all add: nets_overlap_detects_containment_def nets_overlap_false_for_disjoint_def nets_overlap_test_def
        nets_overlap_def test_nets sample_network_def net_hosts_def)
qed

end
