(* ===== verification/Spec2Isabelle.thy ===== *)
theory Spec2Isabelle
  imports Network Server_Main Real_Host Crash_Recovery Discover_Valid Key_Resolution
    Kernel_Valid Daemon_Files Client_Storage Sample Sample_Deploy Topology_Exact
    Json_Text Commit_Outcome
    Base32_Tests Render_Tests Program_Tests
begin

text \<open>
  wg-vpn: a WireGuard fleet configured through an object bucket.

  \<^bold>\<open>The program.\<close>  Two binaries and a library.  \<open>wg-server apply\<close> (\<open>wg-server/src\<close>) reads a
  topology, reuses or creates keys, renders one \<open>.conf\<close> file per node, uploads them as a new
  generation \<open>nodes/<hostname>/<generation>.conf\<close> and replaces the pointer \<open>current.json\<close>, which
  lists the digest of every file, by a conditional write.  \<open>wg-client sync\<close> (\<open>wg-client/src\<close>) reads
  the pointer, downloads its node's file, checks digest and syntax, and installs it through a
  local transaction with backup and rollback.  \<open>wg-common/src\<close> holds what both share.

  \<^bold>\<open>Conventions.\<close>  Theory \<open>Prelude\<close>: a Rust \<open>Result\<close> is a sum (\<open>Inl\<close> the error), \<open>?\<close> is
  \<open>and_then\<close>, a loop that may stop with an error is \<open>fold_res\<close>/\<open>for_each\<close>; an operation on a
  state is \<open>'s \<Rightarrow> ('e + 'a) \<times> 's\<close>, sequenced by \<open>io_then\<close>; \<open>BTreeMap\<close> and \<open>BTreeSet\<close> are sorted
  association lists and lists.  A Rust \<open>String\<close> is the list of its UTF-8 bytes as characters;
  \<open>Rust_Str\<close> has the UTF-8 scanner, \<open>chars\<close>, trimming, splitting and number parsing, and
  \<open>Rust_Net\<close> the standard library's IP address parser and printer.  Integers of a fixed width
  are words.  What the source takes from crates (base64, x25519, SHA-256, the random
  generator, CIDR and URL parsing) is the record \<open>crates\<close> of \<open>Externals\<close>, an argument of the
  definitions; the laws of documented behaviour that a theorem needs are its named premises.
  \<open>serde_json\<close> for the documents is a parameter in the same way.  \<open>unwrap\<close>, \<open>expect\<close> and
  map indexing that can panic are error values, shown not to occur.

  \<^bold>\<open>Theories and sources.\<close>
  \<^item> \<open>Base32\<close>, \<open>Hostname\<close>, \<open>Strict_Json\<close>, \<open>Keys\<close>, \<open>Discovery\<close>: the files of these names in
    \<open>wg-common/src\<close>.  \<open>Topology\<close> is \<open>topology.rs\<close> and \<open>limits.rs\<close>; \<open>Render\<close> and \<open>Wg_Quick\<close> are the
    renderer and the strict parser of \<open>render.rs\<close>.
  \<^item> \<open>Storage\<close> is \<open>wg-server/src/storage.rs\<close>: the trait as a record of operations over any store,
    the in-memory store, and the bucket client, its configuration and its use of the SDK's calls.
    \<open>Retention\<close>, \<open>Apply\<close> and \<open>Server_Main\<close> are \<open>retention.rs\<close>, \<open>apply.rs\<close> and \<open>main.rs\<close>.
  \<^item> \<open>System_Ops\<close> is the trait of \<open>wg-client/src/system.rs\<close> and its in-memory host, \<open>Atomic_Write\<close>
    a file system whose writes reach the disk late and the real atomic write as a step relation
    over it, \<open>Real_Host\<close> the real host over that file system, where any call that writes, reads or
    asks for a file may fail, and \<open>Kernel\<close> the interface functions of \<open>system.rs\<close>, \<open>netlink.rs\<close> and
    \<open>preflight.rs\<close>.  \<open>Client_Storage\<close>, \<open>Sync\<close> and \<open>Client_Config\<close> are \<open>storage.rs\<close>, \<open>sync.rs\<close> and
    \<open>config.rs\<close>; \<open>Client_Main\<close> and \<open>Client_Daemon\<close> are \<open>main.rs\<close>: the single pass, and the command
    with its daemon loop, signals between and during passes included.
  \<^item> Proofs.  \<open>Io_Logic\<close> is a Hoare logic for the state-passing operations and \<open>Utf8\<close> has facts on
    the UTF-8 scanner.  A theory \<open>X_Valid\<close> holds the proofs about \<open>X\<close>; \<open>Topology_Exact\<close>,
    \<open>Render_Total\<close>, \<open>Key_Resolution\<close>, \<open>Key_Types\<close>, \<open>Pointer_Text\<close>, \<open>Json_Text\<close> and
    \<open>Commit_Outcome\<close> those about the accepted topologies, rendering, keys, the pointer's text,
    duplicate keys in JSON texts and the replacement of the pointer.  \<open>Sync_Transaction\<close>, \<open>Crash_Recovery\<close> and \<open>Working_Host\<close> treat the client's transaction:
    with failing calls, with a host that stops, with none of either; \<open>Sync_Twice\<close> two passes in a row,
    and \<open>Daemon_Files\<close> what the turns of the daemon leave in the two files.
    \<open>Publish_Valid\<close>, \<open>Deployment\<close>, \<open>First_Apply\<close> and \<open>Reapply\<close> (with \<open>Key_Reuse\<close>) treat a whole apply:
    alone, followed by a sync, to an empty bucket, and again; \<open>Network\<close> the fleet.  \<open>Sample\<close> and
    \<open>Sample_Deploy\<close> have a concrete instance of the crates, a small topology and the witnesses.
  \<^item> Unit tests.  \<open>Base32_Tests\<close>, \<open>Common_Tests\<close> (host names, duplicate keys, keys, the
    pointer), \<open>Topology_Tests\<close>, \<open>Parser_Tests\<close>, \<open>Render_Tests\<close> and \<open>Program_Tests\<close> (retention, the
    two commands, the client's configuration, the preflight) state the tests of the source as
    predicates on the model, under the tests' names, and prove that the model passes them.

  \<^bold>\<open>Interfaces.\<close>  Each is a locale, interpreted on the model's own definitions.
  \<^item> \<open>storage_contract\<close>: what a bucket without other writers promises apply and cleanup; \<open>mock\<close>.
  \<^item> \<open>host_contract\<close>: what any host promises a sync pass, which file and which interface each
    operation may change, also when it fails, and that what it reads is there; the real host
    satisfies it.  \<open>system_contract\<close> extends it by reads that never fail, as on the in-memory
    host, \<open>working_host\<close> that by operations that succeed, \<open>crash_host\<close> by a host that may stop.
  \<^item> \<open>content_host\<close>: what an operation may leave in a file; the in-memory host, whose copies are
    whole, satisfies it.
  \<^item> \<open>Host_Contract\<close> and \<open>Sync_Valid\<close> follow the calls of a pass on any host whatever.

  \<^bold>\<open>What is shown.\<close>
  \<^item> End to end: after a successful apply, a sync of any node on a working host ends with the
    interface up on a verified file with the digest of the one rendered for it.  The first
    apply to an empty bucket succeeds unless a file is too large; after it, further applies of
    the same topology publish nothing, a second sync does nothing, and the files two
    neighbouring nodes install fit together.
  \<^item> Values: Base32 is a bijection onto its canonical texts (with the aliases the decoder also
    takes); the hostname rule and the object key layout are decided exactly, and so are
    duplicate keys in a JSON text, except for keys with escapes that the scanner misreads.
  \<^item> Topology and files: exactly which configurations are accepted (any IPv4 \<open>/32\<close>, unicast or
    not, is an address to the code), what the strict parser guarantees and where in the file its values stand,
    that it lets no hook through, that it reads a rendered file back, that rendering fails only
    on size, and that the two ends of an edge fit together.
  \<^item> Keys: \<open>resolve_keys\<close> equals a relational specification of reuse and rotation, in what it
    returns and in the error it stops with (the records of an edge with a rotated end are not
    compared), and what it returns is well typed.
  \<^item> The bucket: ordering theorems hold for \<^emph>\<open>every\<close> bucket and whatever it answers, other
    writers included; they are about the recorded sequence of calls (\<open>recorded\<close>), with
    \<open>each_after ok\<close> saying that each call is justified by those before it.  Replacing the pointer is
    described answer by answer.  For a bucket without other writers a successful apply leaves the bucket serving every node, and cleanup
    is exact.
  \<^item> The client: the order of a pass's calls on every host; on the real host, with any file call
    failing, a pass ends in one of the described outcomes, of which one, a lost old file, needs a
    reading call that fails; if the host stops between two calls anywhere, the next pass repairs it
    (on files that keep what was written to them); the daemon outlives failing passes, bad
    configurations included; the two files never hold anything but files the strict parser
    accepts, or the beginning of one after a copy that was cut short; the atomic write survives a loss
    of power at every point, since the data is synced before the rename, and the real write
    operation is a run of it.  The backup is a plain copy, which a loss of power can damage.
  \<^item> The kernel: configuring an interface carries out a fixed plan of requests, each with the index
    looked up for it, up to the first that fails and none after it, and the preflight
    changes nothing and protects the addresses it should.

  \<^bold>\<open>Bounds.\<close>  The retry loop of \<open>commit_pointer\<close> and the rounds of \<open>discover_and_download\<close> are
  recursive in the number of attempts left, started at the source's own constants (5 and 3);
  the listing loop of the bucket client has no bound in the source and is a partial function,
  with a theorem saying exactly when it returns; the daemon's loop runs over the sequence of
  its turns, whose length is not bounded.  No other fuel is used.

  \<^bold>\<open>Not modelled.\<close>  The argument parser, the log writer, the SDK, netlink and WireGuard libraries
  behind the calls the source makes (parameters of the model); the texts of error messages
  beyond the values they carry; interleaving of two processes on one host, which the source
  excludes by a lock; the tests of \<open>sync.rs\<close>, \<open>apply.rs\<close> and the bucket clients, and those that
  run on generated inputs; documentation and packaging.
\<close>

end
